(* ===== verification/CLL_Prelude.thy ===== *)
theory CLL_Prelude
  imports Main "HOL-Library.Word"
begin

text \<open>
  Shared ground of the development: the machine types of the Go sources, a result type for
  \<open>(value, error)\<close> returns, the integer logarithm used by the mountain arithmetic, and the
  lemmas on words, lists and results that the component theories rely on.

  \<^item> Go's \<open>byte\<close>, \<open>uint32\<close> and \<open>uint64\<close> are words, so additions, subtractions and shifts wrap.
  \<^item> A Go slice of bytes is a \<open>bytes\<close> value (a list); strings are \<open>char list\<close>s.
  \<^item> \<open>'a result\<close>-like sums put the error on the left.
\<close>

section \<open>Types\<close>

type_synonym byte = "8 word"
type_synonym bytes = "byte list"
type_synonym uint32 = "32 word"
type_synonym uint64 = "64 word"

named_theorems u64_simps \<open>arithmetic of uint64 values that stay in range\<close>
named_theorems result_simps \<open>inversion of successful results\<close>

section \<open>Results\<close>

definition rbind :: "'e + 'a \<Rightarrow> ('a \<Rightarrow> 'e + 'b) \<Rightarrow> 'e + 'b" where
  "rbind m f = (case m of Inl e \<Rightarrow> Inl e | Inr x \<Rightarrow> f x)"

lemma rbind_simps [simp]: "rbind (Inl e) f = Inl e" "rbind (Inr x) f = f x"
  by (simp_all add: rbind_def)

lemma rbind_Inr_iff [result_simps]:
  "rbind m f = Inr y \<longleftrightarrow> (\<exists>x. m = Inr x \<and> f x = Inr y)"
  by (cases m) simp_all

lemma if_Inl_Inr_iff [result_simps]:
  "(if b then Inl e else m) = Inr y \<longleftrightarrow> \<not> b \<and> m = Inr y"
  by simp

fun rmap :: "('a \<Rightarrow> 'e + 'b) \<Rightarrow> 'a list \<Rightarrow> 'e + 'b list" where
  "rmap f [] = Inr []"
| "rmap f (x # xs) = rbind (f x) (\<lambda>y. rbind (rmap f xs) (\<lambda>ys. Inr (y # ys)))"

lemma rmap_Inr: "(\<And>x. x \<in> set xs \<Longrightarrow> f x = Inr (g x)) \<Longrightarrow> rmap f xs = Inr (map g xs)"
  by (induction xs) auto

lemma rmap_Inr_iff:
  "rmap f xs = Inr ys \<longleftrightarrow> list_all2 (\<lambda>x y. f x = Inr y) xs ys"
  by (induction xs arbitrary: ys) (auto simp: result_simps list_all2_Cons1)

section \<open>The integer logarithm\<close>

fun ilog2 :: "nat \<Rightarrow> nat" where
  "ilog2 n = (if n < 2 then 0 else Suc (ilog2 (n div 2)))"

declare ilog2.simps [simp del]

lemma ilog2_bounds: "0 < n \<Longrightarrow> 2 ^ ilog2 n \<le> n \<and> n < 2 * 2 ^ ilog2 n"
proof (induction n rule: ilog2.induct)
  case (1 n)
  show ?case
  proof (cases "n < 2")
    case True
    with "1.prems" show ?thesis by (simp add: ilog2.simps)
  next
    case False
    then have "2 ^ ilog2 (n div 2) \<le> n div 2 \<and> n div 2 < 2 * 2 ^ ilog2 (n div 2)"
      using "1.IH" by simp
    then have "2 * 2 ^ ilog2 (n div 2) \<le> n \<and> n < 2 * (2 * 2 ^ ilog2 (n div 2))"
      by linarith
    with False show ?thesis by (simp add: ilog2.simps [of n])
  qed
qed

lemmas ilog2_le = ilog2_bounds [THEN conjunct1]
lemmas ilog2_gt = ilog2_bounds [THEN conjunct2]

lemma ilog2_unique:
  assumes "2 ^ k \<le> n" and "n < 2 * 2 ^ k"
  shows "ilog2 n = k"
proof -
  have n0: "0 < n" using assms(1) by (metis gr0I le_zero_eq power_not_zero zero_neq_numeral)
  have "(2::nat) ^ k < 2 ^ Suc (ilog2 n)" "(2::nat) ^ ilog2 n < 2 ^ Suc k"
    using assms ilog2_bounds [OF n0] by simp_all
  then have "k < Suc (ilog2 n)" "ilog2 n < Suc k"
    by (simp_all only: power_strict_increasing_iff one_less_numeral_iff semiring_norm)
  then show ?thesis by simp
qed

lemma ilog2_power [simp]: "ilog2 (2 ^ k) = k"
  by (rule ilog2_unique) simp_all

section \<open>Words\<close>

lemma unat_of_nat64 [u64_simps]: "n < 2 ^ 64 \<Longrightarrow> unat (of_nat n :: uint64) = n"
  by (simp add: unat_of_nat take_bit_nat_eq_self)

lemma of_nat64_eq_iff [u64_simps]:
  "a < 2 ^ 64 \<Longrightarrow> b < 2 ^ 64 \<Longrightarrow> (of_nat a :: uint64) = of_nat b \<longleftrightarrow> a = b"
  by (metis unat_of_nat64)

lemma of_nat64_less_iff [u64_simps]:
  "a < 2 ^ 64 \<Longrightarrow> b < 2 ^ 64 \<Longrightarrow> (of_nat a :: uint64) < of_nat b \<longleftrightarrow> a < b"
  by (simp add: word_less_nat_alt unat_of_nat64)

lemma of_nat64_le_iff [u64_simps]:
  "a < 2 ^ 64 \<Longrightarrow> b < 2 ^ 64 \<Longrightarrow> (of_nat a :: uint64) \<le> of_nat b \<longleftrightarrow> a \<le> b"
  by (simp add: word_le_nat_alt unat_of_nat64)

lemma of_nat64_diff [u64_simps]:
  "b \<le> a \<Longrightarrow> (of_nat a :: uint64) - of_nat b = of_nat (a - b)"
  by simp

lemma push_bit64_one: "push_bit n (1 :: uint64) = of_nat (2 ^ n)"
  by (simp add: push_bit_eq_mult)

lemma unat64_less: "unat (w :: uint64) < 2 ^ 64"
  using unsigned_less [of w] by simp

lemma uint64_as_nat: obtains n where "w = (of_nat n :: uint64)" and "n < 2 ^ 64"
proof
  show "w = of_nat (unat w)" by simp
  show "unat w < 2 ^ 64" by (rule unat64_less)
qed

section \<open>Lists\<close>

lemma nth_take_prefix: "i < n \<Longrightarrow> n \<le> length xs \<Longrightarrow> take n xs ! i = xs ! i"
  by simp

lemma append_eq_same_length:
  "length a = length c \<Longrightarrow> a @ b = c @ d \<longleftrightarrow> a = c \<and> b = d"
  by simp

end
