(* ===== verification/Cll_Types.thy ===== *)
theory Cll_Types
  imports Sha256
begin

text \<open>
  The public contracts of package \<open>cll\<close>: limits, error classes, entries, checkpoint and witness
  state (\<open>cll/types.go\<close>, \<open>cll/errors.go\<close>, \<open>cll/validate.go\<close>).

  An error is represented by its class, what \<open>errors.Is\<close> can observe: the six sentinels of
  package \<open>cll\<close>, the node store's \<open>dtmmr.ErrNotFound\<close>, \<open>ErrMsg\<close> for an unclassified error, and
  \<open>Panic\<close> for a run-time panic (an index out of range), so that a definition that could index
  past a slice says so. Times are instants, in nanoseconds since the Unix epoch. A pointer or
  a slice whose \<open>nil\<close> is observed by the code is an \<open>option\<close>.
\<close>

datatype error =
    ErrNotFound | ErrInvalid | ErrCorrupt | ErrClosed | ErrContention | ErrRejected
  | DtNotFound | ErrMsg string | Panic

type_synonym 'a result = "error + 'a"
type_synonym time = int

section \<open>Limits\<close>

definition EntryBytes :: nat where "EntryBytes = 32"
definition MaxWitnesses :: int where "MaxWitnesses = 32"
definition MaxCheckpointBytes :: nat where "MaxCheckpointBytes = 65536"
definition MaxJournalEventBytes :: nat where "MaxJournalEventBytes = 4194304"
definition MaxWitnessResponseBytes :: nat where "MaxWitnessResponseBytes = 2097152"
definition MaxIdentifierBytes :: nat where "MaxIdentifierBytes = 191"
definition MaxReasonBytes :: nat where "MaxReasonBytes = 4096"
definition DefaultScanLimit :: int where "DefaultScanLimit = 100"
definition MaxScanLimit :: int where "MaxScanLimit = 1000"
definition MaxPortableInteger :: uint64 where "MaxPortableInteger = 9007199254740991"
definition MinPortableUnixMillis :: int where "MinPortableUnixMillis = -8640000000000000"
definition MaxPortableUnixMillis :: int where "MaxPortableUnixMillis = 8640000000000000"

section \<open>Entries\<close>

datatype AppendOutcome = AppendInserted | AppendIdempotent

record Entry =
  Seq :: uint64
  Value :: bytes
  AppendedAt :: time

record AppendInput =
  InputValue :: bytes
  InputAppendedAt :: time

record AppendResult =
  ResultEntry :: Entry
  Outcome :: AppendOutcome

section \<open>Checkpoint and witness state\<close>

record WitnessReceiptState =
  ReceiptBytes :: bytes
  EntryHash :: string
  EntryHashScheme :: string
  LeafIndex :: "int option"
  TreeSize :: "int option"

record WitnessState =
  WitnessID :: string
  CheckpointSize :: uint64
  WitnessCheckpoint :: bytes
  Attempts :: uint32
  NextAttemptAt :: time
  Receipt :: "WitnessReceiptState option"
  Permanent :: bool
  LastError :: string

record CheckpointState =
  CheckpointBytes :: bytes
  CkSize :: uint64
  CkIndexedSeq :: uint64
  Peaks :: "bytes list"

record State =
  Size :: uint64
  Nodes :: "bytes list"
  IndexedSeq :: uint64
  FirstPendingAt :: "time option"
  Checkpoint :: "CheckpointState option"
  Witnesses :: "WitnessState list"

definition empty_State :: State where
  "empty_State = \<lparr>Size = 0, Nodes = [], IndexedSeq = 0, FirstPendingAt = None,
     Checkpoint = None, Witnesses = []\<rparr>"

section \<open>Identifiers\<close>

text \<open>The character class of \<open>^[A-Za-z0-9._:/-]+$\<close>, on the bytes of the string.\<close>

definition identifier_char :: "char \<Rightarrow> bool" where
  "identifier_char c \<longleftrightarrow> (let n = (of_char c :: nat) in
     65 \<le> n \<and> n \<le> 90 \<or> 97 \<le> n \<and> n \<le> 122 \<or> 48 \<le> n \<and> n \<le> 57
     \<or> c \<in> {CHR ''.'', CHR ''_'', CHR '':'', CHR ''/'', CHR ''-''})"

definition identifierPattern :: "string \<Rightarrow> bool" where
  "identifierPattern s \<longleftrightarrow> s \<noteq> [] \<and> list_all identifier_char s"

definition ValidateIdentifier :: "string \<Rightarrow> unit result" where
  "ValidateIdentifier value =
     (if length value < 1 \<or> length value > MaxIdentifierBytes \<or> \<not> identifierPattern value
      then Inl ErrInvalid else Inr ())"

lemma ValidateIdentifier_cases:
  obtains "ValidateIdentifier s = Inr ()" | "ValidateIdentifier s = Inl ErrInvalid"
  by (cases "ValidateIdentifier s") (auto simp: ValidateIdentifier_def split: if_splits)

lemma identifier_no_nul: "ValidateIdentifier s = Inr () \<Longrightarrow> CHR 0x00 \<notin> set s"
  by (auto simp: ValidateIdentifier_def identifierPattern_def identifier_char_def list_all_iff
      split: if_splits)

end
