(* ===== verification/Mmr_Arith.thy ===== *)
theory Mmr_Arith
  imports CLL_Prelude
begin

text \<open>
  The arithmetic of a Merkle mountain range, over natural numbers. An MMR of \<open>n\<close> leaves is a
  row of perfect binary trees (mountains), one per bit of \<open>n\<close>, tallest first, stored in
  post-order. This theory gives the functions the index arithmetic of package \<open>mmr\<close> is about
  (size of an MMR, height of a node, its mountains and peaks) and the geometry its proofs rest
  on: a node of height \<open>h\<close> over the leaves \<open>a ..< a + 2 ^ h\<close> is at position
  \<open>peak_pos a h\<close>, and its children are at \<open>peak_pos a h - 2 ^ h\<close> and \<open>peak_pos a h - 1\<close>.
\<close>

section \<open>Sizes and heights\<close>

lemma pow2_ge1: "(1::nat) \<le> 2 ^ k"
  by simp

fun mmr_size :: "nat \<Rightarrow> nat" where
  "mmr_size n = (if n = 0 then 0
     else 2 * 2 ^ ilog2 n - 1 + mmr_size (n - 2 ^ ilog2 n))"

declare mmr_size.simps [simp del]

lemma mmr_size_0 [simp]: "mmr_size 0 = 0"
  by (simp add: mmr_size.simps)

function index_height :: "nat \<Rightarrow> nat" where
  "index_height i = (let k = ilog2 (i + 1) in
     if i + 2 = 2 * 2 ^ k \<or> k = 0 then k else index_height (i + 1 - 2 ^ k))"
  by pat_completeness auto
termination
proof (relation "measure id")
  fix i k
  assume k: "k = ilog2 (i + 1)" "\<not> (i + 2 = 2 * 2 ^ k \<or> k = 0)"
  have "(2::nat) ^ 1 \<le> 2 ^ k" using k(2) by (intro power_increasing) auto
  moreover have "2 ^ k \<le> i + 1" using ilog2_le [of "i + 1"] k(1) by simp
  ultimately show "(i + 1 - 2 ^ k, i) \<in> measure id" by simp
qed simp

declare index_height.simps [simp del]

lemma mmr_size_step:
  assumes "2 ^ k \<le> n" "n < 2 * 2 ^ k"
  shows "mmr_size n = 2 * 2 ^ k - 1 + mmr_size (n - 2 ^ k)"
proof -
  have "n \<noteq> 0" using assms(1) by (metis le_zero_eq power_not_zero zero_neq_numeral)
  then show ?thesis
    by (simp add: mmr_size.simps [of n] ilog2_unique [OF assms])
qed

lemma mmr_size_power [simp]: "mmr_size (2 ^ k) = 2 * 2 ^ k - 1"
  by (subst mmr_size_step [where k = k]) simp_all

lemma mmr_size_le: "mmr_size n \<le> 2 * n"
proof (induction n rule: less_induct)
  case (less n)
  show ?case
  proof (cases "n = 0")
    case False
    let ?k = "ilog2 n"
    have k: "2 ^ ?k \<le> n" "n < 2 * 2 ^ ?k" using ilog2_bounds [of n] False by auto
    have "mmr_size (n - 2 ^ ?k) \<le> 2 * (n - 2 ^ ?k)"
      by (rule less.IH) (use k(1) False in simp)
    with mmr_size_step [OF k] k show ?thesis by linarith
  qed simp
qed

lemma dvd_less_power:
  assumes "(2::nat) ^ h dvd a" "a < b" "2 ^ h dvd b"
  shows "a + 2 ^ h \<le> b"
proof -
  obtain x y where "a = 2 ^ h * x" "b = 2 ^ h * y" using assms by (auto elim!: dvdE)
  with assms(2) have "Suc x \<le> y" by simp
  then have "2 ^ h * Suc x \<le> 2 ^ h * y" by (rule mult_le_mono2)
  then show ?thesis using \<open>a = _\<close> \<open>b = _\<close> by simp
qed

lemma power_dvd_ilog2:
  assumes "0 < a" "(2::nat) ^ h dvd a"
  shows "h \<le> ilog2 a"
proof -
  have "2 ^ h \<le> a" using assms by (simp add: dvd_imp_le)
  also have "a < 2 ^ Suc (ilog2 a)" using ilog2_gt [OF assms(1)] by simp
  finally have "(2::nat) ^ h < 2 ^ Suc (ilog2 a)" .
  then have "h < Suc (ilog2 a)" by (rule power_less_imp_less_exp [rotated]) simp
  then show ?thesis by simp
qed

text \<open>Appending fewer than \<open>2 ^ h\<close> leaves after an aligned prefix adds their own size.\<close>

lemma mmr_size_add:
  assumes "2 ^ h dvd a" "b < 2 ^ h"
  shows "mmr_size (a + b) = mmr_size a + mmr_size b"
  using assms
proof (induction a rule: less_induct)
  case (less a)
  show ?case
  proof (cases "a = 0")
    case False
    let ?k = "ilog2 a"
    have k: "2 ^ ?k \<le> a" "a < 2 * 2 ^ ?k" using ilog2_bounds [of a] False by auto
    have hk: "h \<le> ?k" using power_dvd_ilog2 less.prems False by blast
    then have dk: "(2::nat) ^ h dvd 2 ^ ?k" "(2::nat) ^ h dvd 2 * 2 ^ ?k"
      by (simp_all add: le_imp_power_dvd)
    have "a + 2 ^ h \<le> 2 * 2 ^ ?k" by (rule dvd_less_power [OF less.prems(1) k(2) dk(2)])
    then have ab: "2 ^ ?k \<le> a + b" "a + b < 2 * 2 ^ ?k" using k less.prems by auto
    have "mmr_size (a - 2 ^ ?k + b) = mmr_size (a - 2 ^ ?k) + mmr_size b"
      by (rule less.IH) (use False k less.prems dk in \<open>simp_all add: dvd_diff_nat\<close>)
    moreover have "a + b - 2 ^ ?k = a - 2 ^ ?k + b" using k by simp
    ultimately show ?thesis
      using mmr_size_step [OF ab] mmr_size_step [OF k] by (simp only: add.assoc)
  qed simp
qed

lemma mmr_size_Suc_gt: "mmr_size n < mmr_size (Suc n)"
proof (induction n rule: less_induct)
  case (less n)
  show ?case
  proof (cases "n = 0")
    case True
    then show ?thesis using mmr_size_power [of 0] by simp
  next
    case False
    let ?k = "ilog2 n"
    have k: "2 ^ ?k \<le> n" "n < 2 * 2 ^ ?k" using ilog2_bounds [of n] False by auto
    show ?thesis
    proof (cases "Suc n = 2 * 2 ^ ?k")
      case True
      have "mmr_size (Suc n) = 2 * (2 * 2 ^ ?k) - 1"
        using True mmr_size_power [of "Suc ?k"] by simp
      moreover have "mmr_size n \<le> 2 * n" by (rule mmr_size_le)
      ultimately show ?thesis using True by linarith
    next
      case sk: False
      have "mmr_size (n - 2 ^ ?k) < mmr_size (Suc (n - 2 ^ ?k))"
        by (rule less.IH) (use k False in simp)
      moreover have "Suc n - 2 ^ ?k = Suc (n - 2 ^ ?k)" using k by simp
      moreover have "mmr_size (Suc n) = 2 * 2 ^ ?k - 1 + mmr_size (Suc n - 2 ^ ?k)"
        by (rule mmr_size_step) (use k sk in linarith)+
      ultimately show ?thesis
        using mmr_size_step [OF k] by (simp only: add_less_cancel_left)
    qed
  qed
qed

lemma mmr_size_less: "a < b \<Longrightarrow> mmr_size a < mmr_size b"
  by (rule lift_Suc_mono_less [of mmr_size]) (simp_all add: mmr_size_Suc_gt)

lemma mmr_size_less_iff [simp]: "mmr_size a < mmr_size b \<longleftrightarrow> a < b"
  by (metis linorder_neqE_nat mmr_size_less order_less_imp_not_less)

lemma mmr_size_le_iff [simp]: "mmr_size a \<le> mmr_size b \<longleftrightarrow> a \<le> b"
  by (metis linorder_not_le mmr_size_less_iff)

lemma mmr_size_inj [simp]: "mmr_size a = mmr_size b \<longleftrightarrow> a = b"
  by (metis le_antisym mmr_size_le_iff order_refl)

lemma le_mmr_size: "n \<le> mmr_size n"
proof (induction n)
  case (Suc n)
  then show ?case using mmr_size_Suc_gt [of n] by linarith
qed simp

lemma mmr_size_eq_0 [simp]: "mmr_size n = 0 \<longleftrightarrow> n = 0"
  by (metis mmr_size_0 mmr_size_inj)

lemma mmr_size_pos [simp]: "0 < mmr_size n \<longleftrightarrow> 0 < n"
  by (metis mmr_size_0 mmr_size_less_iff)

text \<open>Complete sizes up to \<open>2 ^ 63 - 1\<close> are exactly those of at most \<open>2 ^ 62\<close> leaves.\<close>

lemma mmr_size_bound63: "mmr_size n < 2 ^ 63 \<longleftrightarrow> n \<le> 2 ^ 62"
proof -
  have "mmr_size (2 ^ 62) = 2 ^ 63 - 1" using mmr_size_power [of 62] by simp
  moreover have "mmr_size (Suc (2 ^ 62)) = 2 ^ 63"
  proof -
    have "mmr_size (2 ^ 62 + 2 ^ 0) = mmr_size (2 ^ 62) + mmr_size (2 ^ 0)"
      by (rule mmr_size_add [where h = 1]) simp_all
    then show ?thesis using mmr_size_power [of 62] mmr_size_power [of 0] by simp
  qed
  ultimately have "n \<le> 2 ^ 62 \<Longrightarrow> mmr_size n < 2 ^ 63" "n \<ge> Suc (2 ^ 62) \<Longrightarrow> mmr_size n \<ge> 2 ^ 63"
    using mmr_size_le_iff [of n "2 ^ 62"] mmr_size_le_iff [of "Suc (2 ^ 62)" n] by linarith+
  then show ?thesis by linarith
qed

section \<open>Heights of nodes\<close>

lemma index_height_top [simp]: "index_height (2 * 2 ^ k - 2) = k"
proof (cases k)
  case 0
  then show ?thesis by (simp add: index_height.simps ilog2.simps)
next
  case (Suc m)
  have "ilog2 (2 * 2 ^ k - 2 + 1) = k"
    by (rule ilog2_unique) (use Suc pow2_ge1 [of m] in \<open>simp_all, linarith\<close>)
  moreover have "2 * 2 ^ k - 2 + 2 = 2 * (2::nat) ^ k" using pow2_ge1 [of k] by linarith
  ultimately show ?thesis
    by (subst index_height.simps) (simp only: Let_def simp_thms if_True)
qed

lemma index_height_shift:
  assumes "r < 2 * 2 ^ k - 1"
  shows "index_height (2 * 2 ^ k - 1 + r) = index_height r"
proof -
  have "ilog2 (2 * 2 ^ k - 1 + r + 1) = Suc k"
    by (rule ilog2_unique) (use assms in simp_all)
  moreover have "2 * 2 ^ k - 1 + r + 2 \<noteq> 2 * 2 ^ Suc k" using assms by simp
  moreover have "2 * 2 ^ k - 1 + r + 1 - 2 ^ Suc k = r" by simp
  ultimately show ?thesis
    by (subst index_height.simps) (simp only: Let_def, simp)
qed

text \<open>Position of the node of height \<open>h\<close> whose leaves are \<open>a ..< a + 2 ^ h\<close>.\<close>

definition peak_pos :: "nat \<Rightarrow> nat \<Rightarrow> nat" where
  "peak_pos a h = mmr_size a + (2 * 2 ^ h - 2)"

lemma peak_pos_0 [simp]: "peak_pos a 0 = mmr_size a"
  by (simp add: peak_pos_def)

lemma index_height_aligned:
  assumes "2 ^ h dvd a" "q < 2 * 2 ^ h - 1"
  shows "index_height (mmr_size a + q) = index_height q"
  using assms(1)
proof (induction a rule: less_induct)
  case (less a)
  show ?case
  proof (cases "a = 0")
    case False
    let ?k = "ilog2 a" and ?a = "a - 2 ^ ilog2 a"
    have k: "2 ^ ?k \<le> a" "a < 2 * 2 ^ ?k" using ilog2_bounds [of a] False by auto
    have hk: "h \<le> ?k" using power_dvd_ilog2 less.prems False by blast
    have d: "2 ^ h dvd ?a" using less.prems hk by (simp add: dvd_diff_nat le_imp_power_dvd)
    have "?a + 2 ^ h \<le> 2 ^ ?k"
      by (rule dvd_less_power [OF d]) (use k hk in \<open>simp_all add: le_imp_power_dvd\<close>)
    then have "mmr_size ?a + q < 2 * 2 ^ ?k - 1"
      using mmr_size_le [of ?a] assms(2) by linarith
    then have "index_height (2 * 2 ^ ?k - 1 + (mmr_size ?a + q)) = index_height (mmr_size ?a + q)"
      by (rule index_height_shift)
    moreover have "index_height (mmr_size ?a + q) = index_height q"
      by (rule less.IH) (use False k d in simp_all)
    ultimately show ?thesis using mmr_size_step [OF k] by (simp only: add.assoc)
  qed simp
qed

lemma index_height_peak_pos: "2 ^ h dvd a \<Longrightarrow> index_height (peak_pos a h) = h"
  unfolding peak_pos_def
  by (subst index_height_aligned [where h = h]) (use pow2_ge1 [of h] in \<open>simp_all, linarith\<close>)

lemma index_height_ge: "2 * 2 ^ index_height p - 2 \<le> p"
proof (induction p rule: index_height.induct)
  case (1 i)
  let ?k = "ilog2 (i + 1)"
  have k: "2 ^ ?k \<le> i + 1" "i + 1 < 2 * 2 ^ ?k" using ilog2_bounds [of "i + 1"] by auto
  show ?case
  proof (cases "i + 2 = 2 * 2 ^ ?k \<or> ?k = 0")
    case True
    then show ?thesis by (auto simp: index_height.simps [of i] Let_def)
  next
    case False
    then have "2 * 2 ^ index_height (i + 1 - 2 ^ ?k) - 2 \<le> i + 1 - 2 ^ ?k"
      using "1.IH" by simp
    moreover have "index_height i = index_height (i + 1 - 2 ^ ?k)"
      using False by (simp add: index_height.simps [of i] Let_def)
    moreover have "i + 1 - 2 ^ ?k \<le> i" using pow2_ge1 [of ?k] by linarith
    ultimately show ?thesis by (simp only: le_trans)
  qed
qed

section \<open>Geometry of subtrees\<close>

lemma peak_pos_left: "peak_pos a (Suc h) - 2 ^ Suc h = peak_pos a h"
  using pow2_ge1 [of h] unfolding peak_pos_def power_Suc by linarith

lemma peak_pos_right:
  assumes "2 ^ Suc h dvd a"
  shows "peak_pos a (Suc h) - 1 = peak_pos (a + 2 ^ h) h"
proof -
  have "mmr_size (a + 2 ^ h) = mmr_size a + (2 * 2 ^ h - 1)"
    by (subst mmr_size_add [OF assms]) simp_all
  moreover have "(1::nat) \<le> 2 ^ h" by simp
  ultimately show ?thesis unfolding peak_pos_def by (simp add: algebra_simps)
qed

lemma peak_pos_ge: "2 ^ Suc h \<le> peak_pos a (Suc h)"
  using pow2_ge1 [of h] unfolding peak_pos_def power_Suc by linarith

lemma dvd_half: "(2::nat) ^ Suc h dvd a \<Longrightarrow> 2 ^ h dvd a \<and> 2 ^ h dvd a + 2 ^ h"
  by (simp add: dvd_mult_right)

text \<open>A subtree whose leaves lie inside another's ends at or before it.\<close>

lemma peak_pos_within:
  assumes "2 ^ h dvd a" "a \<le> b" "b + 2 ^ g \<le> a + 2 ^ h"
  shows "peak_pos b g \<le> peak_pos a h"
proof -
  define d where "d = b - a"
  have "d < 2 ^ h" using assms(2,3) pow2_ge1 [of g] unfolding d_def by linarith
  then have "mmr_size b = mmr_size a + mmr_size d"
    using mmr_size_add [OF assms(1), of d] assms(2) by (simp add: d_def)
  moreover have "mmr_size d \<le> 2 * d" by (rule mmr_size_le)
  moreover have "d + 2 ^ g \<le> 2 ^ h" using assms(2,3) by (simp add: d_def)
  moreover have "(1::nat) \<le> 2 ^ g" by simp
  ultimately show ?thesis unfolding peak_pos_def by linarith
qed

lemma peak_pos_next:
  assumes "2 ^ Suc h dvd a"
  shows "mmr_size (a + 2 ^ h) = Suc (peak_pos a h)"
proof -
  have "mmr_size (a + 2 ^ h) = mmr_size a + (2 * 2 ^ h - 1)"
    by (subst mmr_size_add [OF assms]) simp_all
  then show ?thesis using pow2_ge1 [of h] unfolding peak_pos_def by linarith
qed

lemma mmr_size_le_peak_pos: "mmr_size a \<le> peak_pos a h"
  unfolding peak_pos_def by (rule le_add1)

lemma peak_pos_less_own_size:
  assumes "2 ^ h dvd a"
  shows "peak_pos a h < mmr_size (a + 2 ^ h)"
  using assms
proof (induction a arbitrary: h rule: less_induct)
  case (less a)
  show ?case
  proof (cases "2 ^ Suc h dvd a")
    case True
    then show ?thesis using peak_pos_next by simp
  next
    case False
    obtain c where c: "a = 2 ^ h * c" using less.prems by (rule dvdE)
    with False have "odd c" by (auto simp: dvd_def)
    then obtain d where "c = 2 * d + 1" by (rule oddE)
    then have a: "a = 2 ^ Suc h * d + 2 ^ h" using c by (simp add: algebra_simps)
    let ?a = "2 ^ Suc h * d"
    have "peak_pos ?a (Suc h) < mmr_size (?a + 2 ^ Suc h)"
      by (rule less.IH) (use a in simp_all)
    moreover have "peak_pos ?a (Suc h) - 1 = peak_pos a h"
      using peak_pos_right [of h ?a] a by simp
    moreover have "?a + 2 ^ Suc h = a + 2 ^ h" using a by simp
    ultimately show ?thesis by (metis less_imp_diff_less)
  qed
qed

lemma peak_pos_less_size:
  assumes "2 ^ h dvd a" "a + 2 ^ h \<le> n"
  shows "peak_pos a h < mmr_size n"
  using peak_pos_less_own_size [OF assms(1)] mmr_size_le_iff [of "a + 2 ^ h" n] assms(2)
  by linarith

section \<open>Mountains and peaks\<close>

text \<open>
  \<open>mountains a n\<close> lists the mountains of \<open>n\<close> further leaves starting at leaf \<open>a\<close>, as pairs of
  first leaf and height, tallest first.
\<close>

fun mountains :: "nat \<Rightarrow> nat \<Rightarrow> (nat \<times> nat) list" where
  "mountains a n = (if n = 0 then []
     else (a, ilog2 n) # mountains (a + 2 ^ ilog2 n) (n - 2 ^ ilog2 n))"

declare mountains.simps [simp del]

lemma mountains_0 [simp]: "mountains a 0 = []"
  by (simp add: mountains.simps)

definition peak_positions :: "nat \<Rightarrow> nat list" where
  "peak_positions n = map (\<lambda>(a, h). peak_pos a h) (mountains 0 n)"

text \<open>
  \<open>aligned a n\<close>: the row of mountains for \<open>n\<close> leaves may start at leaf \<open>a\<close>. It is the induction
  invariant of every walk over a row of mountains.
\<close>

definition aligned :: "nat \<Rightarrow> nat \<Rightarrow> bool" where
  "aligned a n \<longleftrightarrow> n = 0 \<or> 2 ^ Suc (ilog2 n) dvd a"

lemma aligned_0 [simp]: "aligned 0 n"
  by (simp add: aligned_def)

lemma aligned_step:
  assumes "aligned a n" "0 < n"
  shows "2 ^ Suc (ilog2 n) dvd a" "2 ^ ilog2 n dvd a" "aligned (a + 2 ^ ilog2 n) (n - 2 ^ ilog2 n)"
proof -
  let ?k = "ilog2 n" and ?r = "n - 2 ^ ilog2 n"
  show d: "2 ^ Suc ?k dvd a" using assms by (simp add: aligned_def)
  then show dk: "2 ^ ?k dvd a" by (simp add: dvd_mult_right)
  show "aligned (a + 2 ^ ?k) ?r"
  proof (cases "?r = 0")
    case False
    have "2 ^ ilog2 ?r \<le> ?r" using ilog2_le False by blast
    also have "?r < 2 ^ ?k" using ilog2_gt [OF assms(2)] by simp
    finally have "ilog2 ?r < ?k" by (rule power_less_imp_less_exp [rotated]) simp
    then have "2 ^ Suc (ilog2 ?r) dvd (2::nat) ^ ?k" by (intro le_imp_power_dvd) simp
    then show ?thesis unfolding aligned_def using dk by (meson dvd_add dvd_trans dvd_refl)
  qed (simp add: aligned_def)
qed

lemma mountains_induct [consumes 1, case_names empty step]:
  assumes "aligned a n"
    and "\<And>a. P a 0"
    and "\<And>a n. 0 < n \<Longrightarrow> 2 ^ Suc (ilog2 n) dvd a \<Longrightarrow> 2 ^ ilog2 n dvd a \<Longrightarrow> 2 ^ ilog2 n \<le> n \<Longrightarrow>
      aligned (a + 2 ^ ilog2 n) (n - 2 ^ ilog2 n) \<Longrightarrow>
      P (a + 2 ^ ilog2 n) (n - 2 ^ ilog2 n) \<Longrightarrow> P a n"
  shows "P a n"
  using assms(1)
proof (induction n arbitrary: a rule: less_induct)
  case (less n)
  show ?case
  proof (cases "n = 0")
    case False
    note st = aligned_step [OF less.prems] ilog2_le [of n]
    show ?thesis
      by (rule assms(3)) (use False st less.IH in auto)
  qed (simp add: assms(2))
qed

lemma mountains_Cons:
  "0 < n \<Longrightarrow> mountains a n = (a, ilog2 n) # mountains (a + 2 ^ ilog2 n) (n - 2 ^ ilog2 n)"
  by (simp add: mountains.simps [of a n])

lemma mountains_mem:
  "aligned a n \<Longrightarrow> (b, h) \<in> set (mountains a n) \<Longrightarrow> 2 ^ h dvd b \<and> a \<le> b \<and> b + 2 ^ h \<le> a + n"
proof (induction a n rule: mountains_induct)
  case (step a n)
  then show ?case by (fastforce simp: mountains_Cons)
qed simp

text \<open>Every aligned block of leaves lies inside one mountain, and later mountains start after it.\<close>

lemma mountains_cover:
  assumes "aligned a n" "2 ^ g dvd b" "a \<le> b" "b + 2 ^ g \<le> a + n"
  obtains pre c h post where "mountains a n = pre @ (c, h) # post" "c \<le> b" "b + 2 ^ g \<le> c + 2 ^ h"
    "\<forall>(c', h') \<in> set pre. c' + 2 ^ h' \<le> b \<and> 2 ^ h' dvd c'"
  using assms
proof (induction a n arbitrary: thesis rule: mountains_induct)
  case (empty a)
  then show ?case using pow2_ge1 [of g] by simp
next
  case (step a n)
  let ?k = "ilog2 n"
  have gk: "2 ^ g \<le> n" using step.prems by linarith
  then have "(2::nat) ^ g < 2 ^ Suc ?k" using ilog2_gt [OF \<open>0 < n\<close>] by simp
  then have "g < Suc ?k" by (rule power_less_imp_less_exp [rotated]) simp
  then have dg: "2 ^ g dvd (2::nat) ^ ?k" by (intro le_imp_power_dvd) simp
  have dga: "2 ^ g dvd a + 2 ^ ?k" using dg step.hyps(3) by (meson dvd_add dvd_trans)
  show ?case
  proof (cases "b < a + 2 ^ ?k")
    case True
    have "b + 2 ^ g \<le> a + 2 ^ ?k" by (rule dvd_less_power) (use True step.prems dga in auto)
    then show ?thesis
      using step.prems(1) [of "[]" a ?k] step.prems step.hyps by (simp add: mountains_Cons)
  next
    case False
    show ?thesis
    proof (rule step.IH)
      fix pre c h post
      assume *: "mountains (a + 2 ^ ?k) (n - 2 ^ ?k) = pre @ (c, h) # post" "c \<le> b"
        "b + 2 ^ g \<le> c + 2 ^ h"
        "\<forall>(c', h') \<in> set pre. c' + 2 ^ h' \<le> b \<and> 2 ^ h' dvd c'"
      show thesis
        by (rule step.prems(1) [of "(a, ?k) # pre" c h post])
          (use * False step.hyps in \<open>auto simp: mountains_Cons\<close>)
    qed (use False step.prems step.hyps in auto)
  qed
qed

lemma length_mountains_pos: "0 < n \<Longrightarrow> mountains a n \<noteq> []"
  by (simp add: mountains.simps)

section \<open>Positions after a leaf\<close>

lemma position_after_leaf:
  assumes "2 ^ j dvd Suc n"
  shows "peak_pos (Suc n - 2 ^ j) j = mmr_size n + j"
  using assms
proof (induction j)
  case 0
  then show ?case by simp
next
  case (Suc j)
  let ?a = "Suc n - 2 ^ Suc j"
  have le: "2 ^ Suc j \<le> Suc n" using Suc.prems by (intro dvd_imp_le) auto
  have "2 ^ Suc j dvd ?a" using Suc.prems by (simp add: dvd_diff_nat)
  then have "peak_pos ?a (Suc j) - 1 = peak_pos (?a + 2 ^ j) j" by (rule peak_pos_right)
  moreover have "?a + 2 ^ j = Suc n - 2 ^ j" using le by simp
  moreover have "peak_pos (Suc n - 2 ^ j) j = mmr_size n + j"
    by (rule Suc.IH) (use Suc.prems in \<open>simp add: dvd_mult_right\<close>)
  moreover have "0 < peak_pos ?a (Suc j)" using peak_pos_ge [of j ?a] pow2_ge1 [of "Suc j"] by linarith
  ultimately show ?case by simp
qed

lemma mmr_size_Suc_eq:
  assumes "2 ^ t dvd Suc n" "\<not> 2 ^ Suc t dvd Suc n"
  shows "mmr_size (Suc n) = Suc (mmr_size n + t)"
proof -
  let ?a = "Suc n - 2 ^ t"
  obtain c where c: "Suc n = 2 ^ t * c" using assms(1) by (rule dvdE)
  with assms(2) have "odd c" by (auto simp: dvd_def)
  then obtain d where "c = 2 * d + 1" by (rule oddE)
  then have a: "?a = 2 ^ Suc t * d" using c by (simp add: algebra_simps)
  have "mmr_size (?a + 2 ^ t) = Suc (peak_pos ?a t)"
    by (rule peak_pos_next) (use a in simp)
  moreover have "?a + 2 ^ t = Suc n" using c \<open>odd c\<close> by (cases c) auto
  ultimately show ?thesis using position_after_leaf [OF assms(1)] by simp
qed

end
