(* ===== verification/Mmr_Lib.thy ===== *)
theory Mmr_Lib
  imports Cll_Types Mmr_Arith
begin

text \<open>
  The interface of the third-party MMR library the sources import as \<open>dtmmr\<close>
  (\<open>go-datatrails-merklelog/mmr\<close>). Its code is not part of the repository, so it is a parameter
  \<open>dt\<close> of the model, and what package \<open>mmr\<close> relies on is stated as the laws of the locale
  \<open>dtmmr_lib\<close>: index arithmetic of complete MMR sizes below \<open>2 ^ 63\<close>, and the peak bagging rule
  that DESIGN.md documents (bag peaks right to left with \<open>H(right || left)\<close>). \<open>AddHashedLeaf\<close>
  works on a caller's node store through its \<open>Get\<close> and \<open>Append\<close> methods and is a second
  parameter, with the law \<open>dtmmr_append\<close>: it appends the leaf and back-fills every interior node
  the leaf completes, with \<open>H(be64(position + 1) || left || right)\<close>.

  The section at the end is one implementation that satisfies all laws.
\<close>

section \<open>The interface\<close>

type_synonym hasher = "bytes \<Rightarrow> bytes"
type_synonym node_getter = "uint64 \<Rightarrow> bytes result"

record dtmmr =
  dt_IndexHeight :: "uint64 \<Rightarrow> uint64"
  dt_Peaks :: "uint64 \<Rightarrow> uint64 list"
  dt_LeafCount :: "uint64 \<Rightarrow> uint64"
  dt_MMRIndex :: "uint64 \<Rightarrow> uint64"
  dt_FirstMMRSize :: "uint64 \<Rightarrow> uint64"
  dt_HashPeaksRHS :: "hasher \<Rightarrow> bytes list \<Rightarrow> bytes"
  dt_PeakHashes :: "node_getter \<Rightarrow> uint64 \<Rightarrow> bytes list result"
  dt_GetRoot :: "uint64 \<Rightarrow> node_getter \<Rightarrow> hasher \<Rightarrow> bytes result"

type_synonym 's node_get = "'s \<Rightarrow> uint64 \<Rightarrow> bytes result"
type_synonym 's node_append = "'s \<Rightarrow> bytes \<Rightarrow> uint64 result \<times> 's"
type_synonym 's add_hashed_leaf =
  "'s node_get \<Rightarrow> 's node_append \<Rightarrow> hasher \<Rightarrow> bytes \<Rightarrow> 's \<Rightarrow> uint64 result \<times> 's"

fun bag_peaks :: "hasher \<Rightarrow> bytes list \<Rightarrow> bytes" where
  "bag_peaks H [] = []"
| "bag_peaks H [p] = p"
| "bag_peaks H (p # q # ps) = H (bag_peaks H (q # ps) @ p)"

locale dtmmr_lib =
  fixes dt :: dtmmr
  assumes IndexHeight: "i < 2 ^ 63 \<Longrightarrow> dt_IndexHeight dt (of_nat i) = of_nat (index_height i)"
    and Peaks: "0 < n \<Longrightarrow> mmr_size n < 2 ^ 63 \<Longrightarrow>
      dt_Peaks dt (of_nat (mmr_size n - 1)) = map of_nat (peak_positions n)"
    and LeafCount: "mmr_size n < 2 ^ 63 \<Longrightarrow> dt_LeafCount dt (of_nat (mmr_size n)) = of_nat n"
    and MMRIndex: "mmr_size n < 2 ^ 63 \<Longrightarrow> dt_MMRIndex dt (of_nat n) = of_nat (mmr_size n)"
    and FirstMMRSize: "mmr_size n \<le> i \<Longrightarrow> i < mmr_size (Suc n) \<Longrightarrow> mmr_size (Suc n) < 2 ^ 63 \<Longrightarrow>
      dt_FirstMMRSize dt (of_nat i) = of_nat (mmr_size (Suc n))"
    and HashPeaksRHS: "ps \<noteq> [] \<Longrightarrow> dt_HashPeaksRHS dt H ps = bag_peaks H ps"
    and PeakHashes: "0 < n \<Longrightarrow> mmr_size n < 2 ^ 63 \<Longrightarrow>
      (\<And>p. p \<in> set (peak_positions n) \<Longrightarrow> get (of_nat p) = Inr (f p)) \<Longrightarrow>
      dt_PeakHashes dt get (of_nat (mmr_size n - 1)) = Inr (map f (peak_positions n))"
    and GetRoot: "0 < n \<Longrightarrow> mmr_size n < 2 ^ 63 \<Longrightarrow>
      (\<And>p. p \<in> set (peak_positions n) \<Longrightarrow> get (of_nat p) = Inr (f p)) \<Longrightarrow>
      dt_GetRoot dt (of_nat (mmr_size n)) get H = Inr (bag_peaks H (map f (peak_positions n)))"

section \<open>Node stores and \<open>AddHashedLeaf\<close>\<close>

text \<open>
  \<open>node_store get app nodes_of ok cap\<close>: in the states satisfying \<open>ok\<close>, the store behaves as the
  list \<open>nodes_of s\<close> of 32-byte nodes, and appending keeps it so until it holds \<open>cap\<close> nodes.
\<close>

locale node_store =
  fixes get :: "'s node_get" and app :: "'s node_append"
    and nodes_of :: "'s \<Rightarrow> bytes list" and ok :: "'s \<Rightarrow> bool" and cap :: nat
  assumes get: "ok s \<Longrightarrow> i < length (nodes_of s) \<Longrightarrow> length (nodes_of s) \<le> cap \<Longrightarrow>
      get s (of_nat i) = Inr (nodes_of s ! i)"
    and app: "ok s \<Longrightarrow> length v = 32 \<Longrightarrow> length (nodes_of s) < cap \<Longrightarrow>
      \<exists>s'. app s v = (Inr (of_nat (Suc (length (nodes_of s)))), s') \<and> nodes_of s' = nodes_of s @ [v] \<and> ok s'"

text \<open>
  \<open>leaf_added H n leaf ns ns'\<close>: \<open>ns'\<close> is \<open>ns\<close>, the nodes of \<open>n\<close> leaves, extended by a leaf and by
  the interior nodes it completes.
\<close>

definition leaf_added :: "hasher \<Rightarrow> nat \<Rightarrow> bytes \<Rightarrow> bytes list \<Rightarrow> bytes list \<Rightarrow> bool" where
  "leaf_added H n leaf ns ns' \<longleftrightarrow>
     length ns' = mmr_size (Suc n) \<and> take (length ns) ns' = ns \<and> ns' ! length ns = leaf \<and>
     (\<forall>p h. length ns < p \<and> p < length ns' \<and> index_height p = Suc h \<longrightarrow>
        ns' ! p = H (be64 (of_nat p + 1) @ ns' ! (p - 2 ^ Suc h) @ ns' ! (p - 1)))"

locale dtmmr_append = dtmmr_lib dt for dt :: dtmmr +
  fixes ahl :: "'s add_hashed_leaf"
  assumes AddHashedLeaf: "node_store get app nodes_of ok cap \<Longrightarrow> ok s \<Longrightarrow> length (nodes_of s) = mmr_size n \<Longrightarrow>
      mmr_size (Suc n) < 2 ^ 63 \<Longrightarrow> mmr_size (Suc n) \<le> cap \<Longrightarrow> length leaf = 32 \<Longrightarrow> (\<And>x. length (H x) = 32) \<Longrightarrow>
      \<exists>s'. ahl get app H leaf s = (Inr (of_nat (mmr_size (Suc n))), s') \<and> ok s' \<and>
        leaf_added H n leaf (nodes_of s) (nodes_of s')"

section \<open>Consequences of the laws\<close>

lemma mmr_size_cover: "\<exists>n. mmr_size n \<le> i \<and> i < mmr_size (Suc n)"
proof (induction i)
  case 0
  then show ?case using mmr_size_Suc_gt [of 0] by auto
next
  case (Suc i)
  then obtain n where n: "mmr_size n \<le> i" "i < mmr_size (Suc n)" by blast
  show ?case
  proof (cases "Suc i < mmr_size (Suc n)")
    case True
    with n show ?thesis by (intro exI [of _ n]) simp
  next
    case False
    with n have "Suc i = mmr_size (Suc n)" by simp
    then show ?thesis using mmr_size_Suc_gt [of "Suc n"] by (intro exI [of _ "Suc n"]) simp
  qed
qed

lemma peak_positions_less:
  "p \<in> set (peak_positions n) \<Longrightarrow> p < mmr_size n"
  using peak_pos_less_size mountains_mem [OF aligned_0, of _ _ n]
  by (fastforce simp: peak_positions_def)

lemma peak_positions_Nil [simp]: "peak_positions 0 = []"
  by (simp add: peak_positions_def)

lemma peak_positions_not_Nil: "0 < n \<Longrightarrow> peak_positions n \<noteq> []"
  by (simp add: peak_positions_def length_mountains_pos)

context dtmmr_lib
begin

lemma FirstMMRSize_complete:
  assumes "0 < sz" "sz < 2 ^ 63"
  shows "dt_FirstMMRSize dt (of_nat (sz - 1)) = of_nat sz \<longleftrightarrow> (\<exists>n. mmr_size n = sz)"
proof -
  obtain n where n: "mmr_size n \<le> sz - 1" "sz - 1 < mmr_size (Suc n)"
    using mmr_size_cover by blast
  have "sz - 1 < mmr_size (2 ^ 62)" using assms mmr_size_power [of 62] by simp
  with n(1) have "mmr_size n < mmr_size (2 ^ 62)" by linarith
  then have "Suc n \<le> 2 ^ 62" unfolding mmr_size_less_iff by (rule Suc_leI)
  then have b: "mmr_size (Suc n) < 2 ^ 63" unfolding mmr_size_bound63 .
  from FirstMMRSize [OF n b] have "dt_FirstMMRSize dt (of_nat (sz - 1)) = of_nat (mmr_size (Suc n))" .
  then have "dt_FirstMMRSize dt (of_nat (sz - 1)) = of_nat sz \<longleftrightarrow> mmr_size (Suc n) = sz"
    using b assms by (simp add: of_nat64_eq_iff)
  also have "\<dots> \<longleftrightarrow> (\<exists>n. mmr_size n = sz)"
  proof
    assume "\<exists>m. mmr_size m = sz"
    then obtain m where m: "mmr_size m = sz" by blast
    with n assms have "mmr_size n < mmr_size m" "mmr_size m \<le> mmr_size (Suc n)" by linarith+
    then have "m = Suc n" by simp
    with m show "mmr_size (Suc n) = sz" by simp
  qed blast
  finally show ?thesis .
qed

end

section \<open>An implementation of the interface\<close>

function leaves_from :: "nat \<Rightarrow> nat \<Rightarrow> nat" where
  "leaves_from n s = (if s \<le> mmr_size n then n else leaves_from (Suc n) s)"
  by pat_completeness auto
termination
proof (relation "measure (\<lambda>(n, s). s - mmr_size n)")
  fix n s
  assume "\<not> s \<le> mmr_size n"
  then show "((Suc n, s), n, s) \<in> measure (\<lambda>(n, s). s - mmr_size n)"
    using mmr_size_Suc_gt [of n] unfolding in_measure case_prod_conv by linarith
qed simp

declare leaves_from.simps [simp del]

lemma leaves_from_eq: "m \<le> n \<Longrightarrow> leaves_from m (mmr_size n) = n"
proof (induction m "mmr_size n" rule: leaves_from.induct)
  case (1 m)
  then show ?case
    by (cases "mmr_size n \<le> mmr_size m") (simp_all add: leaves_from.simps [of m])
qed

lemma leaves_from_between:
  "m \<le> n \<Longrightarrow> mmr_size n \<le> i \<Longrightarrow> i < mmr_size (Suc n) \<Longrightarrow> leaves_from m (Suc i) = Suc n"
proof (induction m "Suc i" rule: leaves_from.induct)
  case (1 m)
  show ?case
  proof (cases "m = n")
    case True
    then show ?thesis using 1 by (simp add: leaves_from.simps [of n] leaves_from.simps [of "Suc n"])
  next
    case False
    have "mmr_size m \<le> mmr_size n" using "1.prems" by simp
    then have "\<not> Suc i \<le> mmr_size m" using "1.prems"(2) by linarith
    moreover have "leaves_from (Suc m) (Suc i) = Suc n"
      using False calculation 1 by simp
    ultimately show ?thesis by (simp add: leaves_from.simps [of m])
  qed
qed

definition leaves_of :: "uint64 \<Rightarrow> nat" where
  "leaves_of s = leaves_from 0 (unat s)"

lemma leaves_of_size: "mmr_size n < 2 ^ 63 \<Longrightarrow> leaves_of (of_nat (mmr_size n)) = n"
  by (simp add: leaves_of_def leaves_from_eq unat_of_nat64)

definition ref_peaks :: "uint64 \<Rightarrow> nat list" where
  "ref_peaks i = peak_positions (leaves_of (i + 1))"

definition ref_peak_hashes :: "node_getter \<Rightarrow> uint64 \<Rightarrow> bytes list result" where
  "ref_peak_hashes get i = rmap (\<lambda>p. get (of_nat p)) (ref_peaks i)"

definition dt_ref :: dtmmr where
  "dt_ref = \<lparr>
     dt_IndexHeight = (\<lambda>i. of_nat (index_height (unat i))),
     dt_Peaks = (\<lambda>i. map of_nat (ref_peaks i)),
     dt_LeafCount = (\<lambda>s. of_nat (leaves_of s)),
     dt_MMRIndex = (\<lambda>n. of_nat (mmr_size (unat n))),
     dt_FirstMMRSize = (\<lambda>i. of_nat (mmr_size (leaves_of (i + 1)))),
     dt_HashPeaksRHS = bag_peaks,
     dt_PeakHashes = ref_peak_hashes,
     dt_GetRoot = (\<lambda>s get H. rbind (ref_peak_hashes get (s - 1)) (\<lambda>ps. Inr (bag_peaks H ps)))\<rparr>"

lemma ref_peaks_eq:
  assumes "0 < n" "mmr_size n < 2 ^ 63"
  shows "ref_peaks (of_nat (mmr_size n - 1)) = peak_positions n"
proof -
  have "0 < mmr_size n" using assms(1) by simp
  then have "of_nat (mmr_size n - 1) + 1 = (of_nat (mmr_size n) :: uint64)"
    by (metis Suc_pred' add.commute of_nat_Suc)
  then show ?thesis by (simp add: ref_peaks_def leaves_of_size [OF assms(2)])
qed

interpretation ref_lib: dtmmr_lib dt_ref
proof
  fix n i :: nat
  assume a: "mmr_size n \<le> i" "i < mmr_size (Suc n)" "mmr_size (Suc n) < 2 ^ 63"
  have "of_nat i + 1 = (of_nat (Suc i) :: uint64)" by simp
  moreover have "leaves_of (of_nat (Suc i)) = Suc n"
    using leaves_from_between [of 0 n i] a by (simp add: leaves_of_def unat_of_nat64 del: of_nat_Suc)
  ultimately show "dt_FirstMMRSize dt_ref (of_nat i) = of_nat (mmr_size (Suc n))"
    by (simp add: dt_ref_def del: of_nat_Suc)
next
  fix n and get :: node_getter and f and H :: hasher
  assume a: "0 < n" "mmr_size n < 2 ^ 63"
    "\<And>p. p \<in> set (peak_positions n) \<Longrightarrow> get (of_nat p) = Inr (f p)"
  have "0 < mmr_size n" using a(1) by simp
  then have "of_nat (mmr_size n) - 1 = (of_nat (mmr_size n - 1) :: uint64)"
    by (simp add: Suc_leI)
  moreover have ph: "ref_peak_hashes get (of_nat (mmr_size n - 1)) = Inr (map f (peak_positions n))"
    unfolding ref_peak_hashes_def ref_peaks_eq [OF a(1,2)] by (rule rmap_Inr) (rule a(3))
  ultimately show "dt_GetRoot dt_ref (of_nat (mmr_size n)) get H
      = Inr (bag_peaks H (map f (peak_positions n)))"
    by (simp add: dt_ref_def)
  show "dt_PeakHashes dt_ref get (of_nat (mmr_size n - 1)) = Inr (map f (peak_positions n))"
    using ph by (simp add: dt_ref_def)
next
  fix n assume "mmr_size n < 2 ^ 63"
  moreover from this have "n < 2 ^ 64" using le_mmr_size [of n] by simp
  ultimately show "dt_MMRIndex dt_ref (of_nat n) = of_nat (mmr_size n)"
    "dt_LeafCount dt_ref (of_nat (mmr_size n)) = of_nat n"
    by (simp_all add: dt_ref_def unat_of_nat64 leaves_of_size)
next
  fix n assume "0 < n" "mmr_size n < 2 ^ 63"
  then show "dt_Peaks dt_ref (of_nat (mmr_size n - 1)) = map of_nat (peak_positions n)"
    by (simp add: dt_ref_def ref_peaks_eq [simplified])
qed (simp_all add: dt_ref_def unat_of_nat64)

text \<open>
  \<open>AddHashedLeaf\<close>: append the leaf, then, while the next position is an interior one, hash its
  two children into it. The number of rounds is the number of trailing one bits of the leaf
  index, at most 62 below \<open>2 ^ 63\<close> nodes, so 64 rounds are enough.
\<close>

fun ahl_loop :: "nat \<Rightarrow> 's node_get \<Rightarrow> 's node_append \<Rightarrow> hasher \<Rightarrow> nat \<Rightarrow> uint64 \<Rightarrow> 's
    \<Rightarrow> uint64 result \<times> 's" where
  "ahl_loop 0 get app H h i s = (Inr i, s)"
| "ahl_loop (Suc f) get app H h i s =
     (if index_height (unat i) \<le> h then (Inr i, s)
      else case (get s (i - of_nat (2 ^ Suc h)), get s (i - 1)) of
        (Inl e, _) \<Rightarrow> (Inl e, s)
      | (_, Inl e) \<Rightarrow> (Inl e, s)
      | (Inr l, Inr r) \<Rightarrow>
         (case app s (H (be64 (i + 1) @ l @ r)) of
            (Inl e, s') \<Rightarrow> (Inl e, s')
          | (Inr i', s') \<Rightarrow> ahl_loop f get app H (Suc h) i' s'))"

definition ahl_ref :: "'s add_hashed_leaf" where
  "ahl_ref get app H leaf s =
     (case app s leaf of
        (Inl e, s') \<Rightarrow> (Inl e, s')
      | (Inr i, s') \<Rightarrow> ahl_loop 64 get app H 0 i s')"

text \<open>The nodes after \<open>j\<close> rounds of back-filling leaf \<open>n\<close>.\<close>

definition filled :: "hasher \<Rightarrow> nat \<Rightarrow> bytes \<Rightarrow> bytes list \<Rightarrow> nat \<Rightarrow> bytes list \<Rightarrow> bool" where
  "filled H n leaf ns j ns' \<longleftrightarrow>
     length ns' = mmr_size n + Suc j \<and> take (length ns) ns' = ns \<and> ns' ! length ns = leaf \<and>
     (\<forall>p h. length ns < p \<and> p < length ns' \<and> index_height p = Suc h \<longrightarrow>
        ns' ! p = H (be64 (of_nat p + 1) @ ns' ! (p - 2 ^ Suc h) @ ns' ! (p - 1)))"

lemma filled_step:
  assumes f: "filled H n leaf ns j ns'" and ns: "length ns = mmr_size n"
    and d: "2 ^ Suc j dvd Suc n"
  defines "q \<equiv> length ns'"
  shows "index_height q = Suc j" "2 ^ Suc j \<le> q"
    and "filled H n leaf ns (Suc j) (ns' @ [H (be64 (of_nat q + 1) @ ns' ! (q - 2 ^ Suc j) @ ns' ! (q - 1))])"
proof -
  have le: "2 ^ Suc j \<le> Suc n" using d by (intro dvd_imp_le) auto
  have q: "q = peak_pos (Suc n - 2 ^ Suc j) (Suc j)"
    using f position_after_leaf [OF d] by (simp add: filled_def q_def)
  have "2 ^ Suc j dvd Suc n - 2 ^ Suc j" using d by (simp add: dvd_diff_nat)
  then show h: "index_height q = Suc j" unfolding q by (rule index_height_peak_pos)
  show g: "2 ^ Suc j \<le> q" unfolding q by (rule peak_pos_ge)
  show "filled H n leaf ns (Suc j) (ns' @ [H (be64 (of_nat q + 1) @ ns' ! (q - 2 ^ Suc j) @ ns' ! (q - 1))])"
    (is "filled _ _ _ _ _ (ns' @ [?v])")
    unfolding filled_def
  proof (intro conjI allI impI)
    have ql: "q = mmr_size n + Suc j" "length ns < q" using f ns by (simp_all add: filled_def q_def)
    show "length (ns' @ [?v]) = mmr_size n + Suc (Suc j)" using ql by (simp add: q_def)
    show "take (length ns) (ns' @ [?v]) = ns" "(ns' @ [?v]) ! length ns = leaf"
      using f ql by (simp_all add: filled_def q_def nth_append)
    fix p k
    assume p: "length ns < p \<and> p < length (ns' @ [?v]) \<and> index_height p = Suc k"
    show "(ns' @ [?v]) ! p
        = H (be64 (of_nat p + 1) @ (ns' @ [?v]) ! (p - 2 ^ Suc k) @ (ns' @ [?v]) ! (p - 1))"
    proof (cases "p = q")
      case True
      have "k = j" using True p h by simp
      moreover have "q - 2 ^ Suc j < length ns'" "q - 1 < length ns'"
        using g ql pow2_ge1 [of "Suc j"] unfolding q_def by linarith+
      ultimately show ?thesis
        using True by (simp add: nth_append q_def del: power_Suc)
    next
      case False
      with p have pq: "p < length ns'" by (simp add: q_def)
      then have "p - 2 ^ Suc k < length ns'" "p - 1 < length ns'" by linarith+
      with pq p f show ?thesis by (simp add: nth_append filled_def del: power_Suc)
    qed
  qed
qed

lemma ahl_loop_fills:
  assumes st: "node_store get app nodes_of ok cap" and cap: "mmr_size (Suc n) \<le> cap" and H: "\<And>x. length (H x) = 32"
    and ns: "length ns = mmr_size n" and b: "mmr_size (Suc n) < 2 ^ 63"
    and t: "2 ^ t dvd Suc n" "\<not> 2 ^ Suc t dvd Suc n"
    and "ok s" "filled H n leaf ns j (nodes_of s)" "j \<le> t" "t - j < f"
  shows "\<exists>s'. ahl_loop f get app H j (of_nat (mmr_size n + Suc j)) s = (Inr (of_nat (mmr_size (Suc n))), s')
    \<and> ok s' \<and> filled H n leaf ns t (nodes_of s')"
  using assms(8-)
proof (induction f arbitrary: j s)
  case (Suc f)
  have size: "mmr_size (Suc n) = Suc (mmr_size n + t)" by (rule mmr_size_Suc_eq [OF t])
  let ?q = "mmr_size n + Suc j"
  have q: "?q < 2 ^ 63" using b size Suc.prems(3) by simp
  have len: "length (nodes_of s) = ?q" using Suc.prems(2) by (simp add: filled_def)
  show ?case
  proof (cases "j = t")
    case True
    have "index_height (mmr_size (Suc n)) = 0" using index_height_peak_pos [of 0 "Suc n"] by simp
    then have "index_height (unat (of_nat ?q :: uint64)) \<le> j"
      using q True size by (simp add: unat_of_nat64 del: of_nat_add of_nat_Suc)
    then show ?thesis using Suc.prems True size by (simp del: of_nat_add of_nat_Suc)
  next
    case False
    with Suc.prems have jt: "Suc j \<le> t" by simp
    have qc: "?q < cap" using jt cap size by linarith
    have d: "2 ^ Suc j dvd Suc n" using jt t(1) by (meson dvd_trans le_imp_power_dvd)
    note stp = filled_step [OF Suc.prems(2) ns d, unfolded len]
    let ?v = "H (be64 (of_nat ?q + 1) @ nodes_of s ! (?q - 2 ^ Suc j) @ nodes_of s ! (?q - 1))"
    have g1: "get s (of_nat ?q - of_nat (2 ^ Suc j)) = Inr (nodes_of s ! (?q - 2 ^ Suc j))"
      using node_store.get [OF st Suc.prems(1), of "?q - 2 ^ Suc j"] stp(2) len qc
      by (simp add: of_nat_diff del: of_nat_add of_nat_Suc power_Suc)
    have g2: "get s (of_nat ?q - 1) = Inr (nodes_of s ! (?q - 1))"
      using node_store.get [OF st Suc.prems(1), of "?q - 1"] len qc by simp
    obtain s' where s': "app s ?v = (Inr (of_nat (Suc ?q)), s')" "nodes_of s' = nodes_of s @ [?v]" "ok s'"
      using node_store.app [OF st Suc.prems(1), of ?v] H len qc by auto
    have "index_height (unat (of_nat ?q :: uint64)) = Suc j"
      using stp(1) q by (simp add: unat_of_nat64 del: of_nat_add of_nat_Suc)
    then have "ahl_loop (Suc f) get app H j (of_nat ?q) s
        = ahl_loop f get app H (Suc j) (of_nat (mmr_size n + Suc (Suc j))) s'"
      using g1 g2 s'(1) by (simp del: of_nat_add of_nat_Suc power_Suc)
    moreover have "\<exists>s''. ahl_loop f get app H (Suc j) (of_nat (mmr_size n + Suc (Suc j))) s'
        = (Inr (of_nat (mmr_size (Suc n))), s'') \<and> ok s'' \<and> filled H n leaf ns t (nodes_of s'')"
      by (rule Suc.IH) (use s' stp(3) jt Suc.prems in auto)
    ultimately show ?thesis by simp
  qed
qed simp

lemma trailing_ones:
  obtains t where "2 ^ t dvd Suc n" "\<not> 2 ^ Suc t dvd Suc n" "2 ^ t \<le> Suc n"
proof -
  have "Suc n < 2 ^ Suc n" by (rule less_exp)
  then have "\<not> 2 ^ Suc n dvd Suc n" using dvd_imp_le [of "2 ^ Suc n" "Suc n"] by auto
  then have "\<exists>t. \<not> 2 ^ Suc t dvd Suc n" by blast
  then obtain t where t: "\<not> 2 ^ Suc t dvd Suc n" "\<And>j. j < t \<Longrightarrow> 2 ^ Suc j dvd Suc n"
    using exists_least_iff [of "\<lambda>t. \<not> 2 ^ Suc t dvd Suc n"] by auto
  have "2 ^ t dvd Suc n" using t(2) [of "t - 1"] by (cases t) simp_all
  with t(1) show thesis using that dvd_imp_le by blast
qed

interpretation ref_append: dtmmr_append dt_ref ahl_ref
proof
  fix get :: "'s node_get" and app nodes_of ok cap s n and leaf :: bytes and H :: hasher
  assume st: "node_store get app nodes_of ok cap" and s: "ok s" "length (nodes_of s) = mmr_size n"
    and b: "mmr_size (Suc n) < 2 ^ 63" and cap: "mmr_size (Suc n) \<le> cap" and l: "length leaf = 32" and H: "\<And>x. length (H x) = 32"
  obtain t where t: "2 ^ t dvd Suc n" "\<not> 2 ^ Suc t dvd Suc n" "2 ^ t \<le> Suc n" by (rule trailing_ones)
  have "(2::nat) ^ t < 2 ^ 63" using t(3) le_mmr_size [of "Suc n"] b by linarith
  then have "t < 63" by (rule power_less_imp_less_exp [rotated]) simp
  then have t64: "t < 64" by simp
  obtain s1 where s1: "app s leaf = (Inr (of_nat (Suc (mmr_size n))), s1)"
      "nodes_of s1 = nodes_of s @ [leaf]" "ok s1"
    using node_store.app [OF st s(1) l] s(2) less_le_trans [OF mmr_size_Suc_gt cap] by auto
  have "filled H n leaf (nodes_of s) 0 (nodes_of s1)"
    using s s1 by (auto simp: filled_def nth_append)
  from ahl_loop_fills [OF st cap H s(2) b t(1,2) s1(3) this le0, of 64] t64
  obtain s' where "ahl_loop 64 get app H 0 (of_nat (Suc (mmr_size n))) s1
      = (Inr (of_nat (mmr_size (Suc n))), s')" "ok s'" "filled H n leaf (nodes_of s) t (nodes_of s')"
    by auto
  then show "\<exists>s'. ahl_ref get app H leaf s = (Inr (of_nat (mmr_size (Suc n))), s') \<and> ok s' \<and>
      leaf_added H n leaf (nodes_of s) (nodes_of s')"
    using s1 mmr_size_Suc_eq [OF t(1,2)]
    by (auto simp: ahl_ref_def leaf_added_def filled_def)
qed

end
