(* ===== verification/Encodings.thy ===== *)
theory Encodings
  imports CLL_Prelude
begin

text \<open>
  The text encodings of Go's standard library that the sources use: \<open>encoding/hex\<close>,
  decimal numbers (\<open>strconv.FormatUint\<close>, \<open>strconv.ParseUint(s, 10, 64)\<close>) and
  \<open>base64.StdEncoding\<close> with strict decoding, each with its round trips.
\<close>

section \<open>Hexadecimal\<close>

definition hex_char :: "nat \<Rightarrow> char" where
  "hex_char n = char_of (if n < 10 then 48 + n else 87 + n)"

definition hex_value :: "char \<Rightarrow> nat option" where
  "hex_value c = (let n = (of_char c :: nat) in
     if 48 \<le> n \<and> n \<le> 57 then Some (n - 48)
     else if 97 \<le> n \<and> n \<le> 102 then Some (n - 87)
     else if 65 \<le> n \<and> n \<le> 70 then Some (n - 55)
     else None)"

fun hex_EncodeToString :: "bytes \<Rightarrow> string" where
  "hex_EncodeToString [] = []"
| "hex_EncodeToString (b # bs) =
     hex_char (unat b div 16) # hex_char (unat b mod 16) # hex_EncodeToString bs"

text \<open>\<open>None\<close> stands for a non-nil error: an odd length or a character that is no hex digit.\<close>

fun hex_DecodeString :: "string \<Rightarrow> bytes option" where
  "hex_DecodeString [] = Some []"
| "hex_DecodeString [c] = None"
| "hex_DecodeString (c # d # cs) =
     (case (hex_value c, hex_value d, hex_DecodeString cs) of
        (Some h, Some l, Some bs) \<Rightarrow> Some (of_nat (16 * h + l) # bs)
      | _ \<Rightarrow> None)"

lemma hex_value_hex_char [simp]: "n < 16 \<Longrightarrow> hex_value (hex_char n) = Some n"
  by (auto simp: hex_value_def hex_char_def Let_def)

lemma byte_split: "of_nat (16 * (unat b div 16) + unat b mod 16) = (b :: byte)"
  by simp

lemma hex_roundtrip [simp]: "hex_DecodeString (hex_EncodeToString bs) = Some bs"
proof (induction bs)
  case (Cons b bs)
  have "unat b < 256" using unsigned_less [of b] by simp
  then have "unat b div 16 < 16" "unat b mod 16 < 16" by simp_all
  with Cons show ?case using byte_split [of b] by simp
qed simp

lemma hex_EncodeToString_inj [simp]:
  "hex_EncodeToString a = hex_EncodeToString b \<longleftrightarrow> a = b"
  by (metis hex_roundtrip option.inject)

lemma length_hex_EncodeToString [simp]: "length (hex_EncodeToString bs) = 2 * length bs"
  by (induction bs) simp_all

lemma length_hex_DecodeString: "hex_DecodeString s = Some bs \<Longrightarrow> length s = 2 * length bs"
  by (induction s arbitrary: bs rule: hex_DecodeString.induct) (auto split: option.splits)

text \<open>
  The test \<open>err == nil && len(b) == n && hex.EncodeToString(b) == s\<close>, which the sources repeat,
  accepts exactly the lowercase encodings of \<open>n\<close> bytes.
\<close>

definition decode_lower_hex :: "nat \<Rightarrow> string \<Rightarrow> bytes option" where
  "decode_lower_hex n s =
     (case hex_DecodeString s of
        None \<Rightarrow> None
      | Some b \<Rightarrow> if length b = n \<and> hex_EncodeToString b = s then Some b else None)"

lemma decode_lower_hex_iff:
  "decode_lower_hex n s = Some b \<longleftrightarrow> s = hex_EncodeToString b \<and> length b = n"
  by (auto simp: decode_lower_hex_def split: option.splits)

section \<open>Decimal\<close>

definition digit_char :: "nat \<Rightarrow> char" where
  "digit_char n = char_of (48 + n)"

definition is_digit :: "char \<Rightarrow> bool" where
  "is_digit c \<longleftrightarrow> 48 \<le> (of_char c :: nat) \<and> (of_char c :: nat) \<le> 57"

definition digit_value :: "char \<Rightarrow> nat" where
  "digit_value c = of_char c - 48"

fun dec_of_nat :: "nat \<Rightarrow> string" where
  "dec_of_nat n = (if n < 10 then [digit_char n] else dec_of_nat (n div 10) @ [digit_char (n mod 10)])"

declare dec_of_nat.simps [simp del]

text \<open>\<open>strconv.FormatUint(n, 10)\<close>, which is also what \<open>%d\<close> prints for an unsigned number.\<close>

definition FormatUint :: "uint64 \<Rightarrow> string" where
  "FormatUint n = dec_of_nat (unat n)"

definition digits_value :: "string \<Rightarrow> nat" where
  "digits_value s = foldl (\<lambda>acc c. 10 * acc + digit_value c) 0 s"

definition ParseUint64 :: "string \<Rightarrow> uint64 option" where
  "ParseUint64 s =
     (if s = [] \<or> \<not> list_all is_digit s then None
      else if digits_value s < 2 ^ 64 then Some (of_nat (digits_value s)) else None)"

lemma digit_char [simp]: "n < 10 \<Longrightarrow> is_digit (digit_char n)" "n < 10 \<Longrightarrow> digit_value (digit_char n) = n"
  by (auto simp: is_digit_def digit_char_def digit_value_def)

lemma digits_value_snoc [simp]: "digits_value (s @ [c]) = 10 * digits_value s + digit_value c"
  by (simp add: digits_value_def)

lemma digits_value_Nil [simp]: "digits_value [] = 0"
  by (simp add: digits_value_def)

lemma digits_value_dec_of_nat [simp]: "digits_value (dec_of_nat n) = n"
proof (induction n rule: dec_of_nat.induct)
  case (1 n)
  then show ?case
    using digits_value_snoc [of "[]" "digit_char n"]
    by (cases "n < 10") (simp_all add: dec_of_nat.simps [of n])
qed

lemma dec_of_nat_digits [simp]: "list_all is_digit (dec_of_nat n)"
proof (induction n rule: dec_of_nat.induct)
  case (1 n)
  then show ?case by (cases "n < 10") (simp_all add: dec_of_nat.simps [of n])
qed

lemma dec_of_nat_not_Nil [simp]: "dec_of_nat n \<noteq> []"
  by (simp add: dec_of_nat.simps [of n])

lemma dec_of_nat_leading:
  "length (dec_of_nat n) > 1 \<Longrightarrow> dec_of_nat n ! 0 \<noteq> CHR ''0''"
proof (induction n rule: dec_of_nat.induct)
  case (1 n)
  then have n: "\<not> n < 10" by (auto simp: dec_of_nat.simps [of n])
  let ?m = "n div 10"
  have eq: "dec_of_nat n = dec_of_nat ?m @ [digit_char (n mod 10)]"
    using n by (simp add: dec_of_nat.simps [of n])
  have "dec_of_nat ?m ! 0 \<noteq> CHR ''0''"
  proof (cases "?m < 10")
    case True
    then have "dec_of_nat ?m = [digit_char ?m]" by (simp add: dec_of_nat.simps [of ?m])
    moreover have "digit_value (digit_char ?m) \<noteq> digit_value (CHR ''0'')"
      using True n by (simp add: digit_value_def [of "CHR ''0''"])
    ultimately show ?thesis by auto
  next
    case False
    then have "length (dec_of_nat ?m) > 1"
      by (simp add: dec_of_nat.simps [of ?m] Suc_lessI)
    then show ?thesis using 1 n by simp
  qed
  then show ?case by (simp add: eq nth_append)
qed

lemma dec_of_nat_inj [simp]: "dec_of_nat m = dec_of_nat n \<longleftrightarrow> m = n"
  by (metis digits_value_dec_of_nat)

lemma ParseUint64_FormatUint [simp]: "ParseUint64 (FormatUint n) = Some n"
  using unat64_less [of n] by (simp add: ParseUint64_def FormatUint_def)

lemma FormatUint_inj [simp]: "FormatUint m = FormatUint n \<longleftrightarrow> m = n"
  by (metis ParseUint64_FormatUint option.inject)

lemma FormatUint_no_nul: "CHR 0x00 \<notin> set (FormatUint n)"
  using dec_of_nat_digits [of "unat n"] by (auto simp: FormatUint_def list_all_iff is_digit_def)

section \<open>Base64\<close>

definition base64_char :: "nat \<Rightarrow> char" where
  "base64_char n =
     char_of (if n < 26 then 65 + n else if n < 52 then 71 + n else if n < 62 then n - 4
              else if n = 62 then 43 else 47)"

definition base64_value :: "char \<Rightarrow> nat option" where
  "base64_value c = (let n = (of_char c :: nat) in
     if 65 \<le> n \<and> n \<le> 90 then Some (n - 65)
     else if 97 \<le> n \<and> n \<le> 122 then Some (n - 71)
     else if 48 \<le> n \<and> n \<le> 57 then Some (n + 4)
     else if n = 43 then Some 62
     else if n = 47 then Some 63
     else None)"

fun base64_EncodeToString :: "bytes \<Rightarrow> string" where
  "base64_EncodeToString [] = []"
| "base64_EncodeToString [a] =
     [base64_char (unat a div 4), base64_char (unat a mod 4 * 16), CHR ''='', CHR ''='']"
| "base64_EncodeToString [a, b] =
     [base64_char (unat a div 4), base64_char (unat a mod 4 * 16 + unat b div 16),
      base64_char (unat b mod 16 * 4), CHR ''='']"
| "base64_EncodeToString (a # b # c # bs) =
     base64_char (unat a div 4) # base64_char (unat a mod 4 * 16 + unat b div 16)
     # base64_char (unat b mod 16 * 4 + unat c div 64) # base64_char (unat c mod 64)
     # base64_EncodeToString bs"

text \<open>
  The quantum decoder of \<open>base64.StdEncoding.Strict()\<close>: padding only in the last quantum, with the
  unused bits zero. Like every decoder of the package it skips carriage returns and line feeds.
\<close>

fun base64_decode_quanta :: "string \<Rightarrow> bytes option" where
  "base64_decode_quanta [] = Some []"
| "base64_decode_quanta (c1 # c2 # c3 # c4 # cs) =
     (if cs = [] \<and> c4 = CHR ''=''
      then if c3 = CHR ''=''
           then case (base64_value c1, base64_value c2) of
                  (Some v1, Some v2) \<Rightarrow>
                    if v2 mod 16 = 0 then Some [of_nat (v1 * 4 + v2 div 16)] else None
                | _ \<Rightarrow> None
           else case (base64_value c1, base64_value c2, base64_value c3) of
                  (Some v1, Some v2, Some v3) \<Rightarrow>
                    if v3 mod 4 = 0
                    then Some [of_nat (v1 * 4 + v2 div 16), of_nat (v2 mod 16 * 16 + v3 div 4)]
                    else None
                | _ \<Rightarrow> None
      else case (base64_value c1, base64_value c2, base64_value c3, base64_value c4,
                 base64_decode_quanta cs) of
             (Some v1, Some v2, Some v3, Some v4, Some bs) \<Rightarrow>
               Some (of_nat (v1 * 4 + v2 div 16) # of_nat (v2 mod 16 * 16 + v3 div 4)
                     # of_nat (v3 mod 4 * 64 + v4) # bs)
           | _ \<Rightarrow> None)"
| "base64_decode_quanta _ = None"

definition base64_StrictDecodeString :: "string \<Rightarrow> bytes option" where
  "base64_StrictDecodeString s =
     base64_decode_quanta (filter (\<lambda>c. c \<noteq> CHR 0x0A \<and> c \<noteq> CHR 0x0D) s)"

lemma base64_value_char [simp]: "n < 64 \<Longrightarrow> base64_value (base64_char n) = Some n"
  by (auto simp: base64_value_def base64_char_def Let_def)

lemma base64_char_range: "n < 64 \<Longrightarrow> of_char (base64_char n) \<in> ({43, 47} \<union> {48..57} \<union> {65..90} \<union> {97..122} :: nat set)"
  by (auto simp: base64_char_def)

lemma base64_char_no_pad [simp]:
  assumes "n < 64"
  shows "base64_char n \<noteq> CHR ''=''" "base64_char n \<noteq> CHR 0x0A" "base64_char n \<noteq> CHR 0x0D"
  using base64_char_range [OF assms] by auto

lemma base64_bits:
  assumes "a < 256" "b < (256 :: nat)"
  shows "a div 4 < 64" "a mod 4 * 16 + b div 16 < 64" "b mod 16 * 4 + a div 64 < 64"
    "a mod 4 * 16 < 64" "b mod 16 * 4 < 64"
    "a div 4 * 4 + (a mod 4 * 16 + b div 16) div 16 = a"
    "(a mod 4 * 16 + b div 16) mod 16 = b div 16"
  using assms by (simp_all add: div_mult_mod_eq)

lemma unat_byte_less: "unat (b :: byte) < 256"
  using unsigned_less [of b] by simp

lemma base64_regroup:
  fixes a b c :: byte
  shows "of_nat (unat a div 4 * 4 + unat a mod 4) = a"
    "of_nat (unat b div 16 * 16 + unat b mod 16) = b"
    "of_nat (unat c div 64 * 64 + unat c mod 64) = c"
  by simp_all

lemma base64_quanta_roundtrip: "base64_decode_quanta (base64_EncodeToString bs) = Some bs"
proof (induction bs rule: base64_EncodeToString.induct)
  case (2 a)
  show ?case using unat_byte_less [of a] base64_regroup(1) [of a] by simp
next
  case (3 a b)
  show ?case using unat_byte_less [of a] unat_byte_less [of b] base64_regroup(1) [of a] base64_regroup(2) [of b]
    base64_bits [of "unat a" "unat b"] by simp
next
  case (4 a b c bs)
  have c: "unat c div 64 div 4 = 0" "unat c div 64 mod 4 = unat c div 64"
    using unat_byte_less [of c] by simp_all
  have c': "of_nat (unat c div 64) * 64 + of_nat (unat c mod 64) = c"
    using base64_regroup(3) [of c] by (simp only: of_nat_add of_nat_mult of_nat_numeral)
  from 4 show ?case using unat_byte_less [of a] unat_byte_less [of b] unat_byte_less [of c]
    base64_regroup(1) [of a] base64_regroup(2) [of b] base64_regroup(3) [of c]
    base64_bits [of "unat a" "unat b"] base64_bits [of "unat c" "unat b"] by (simp add: c c')
qed simp

lemma base64_no_newline:
  "filter (\<lambda>c. c \<noteq> CHR 0x0A \<and> c \<noteq> CHR 0x0D) (base64_EncodeToString bs) = base64_EncodeToString bs"
proof (induction bs rule: base64_EncodeToString.induct)
  case (2 a)
  show ?case using unat_byte_less [of a] by simp
next
  case (3 a b)
  show ?case using base64_bits [of "unat a" "unat b"] unat_byte_less [of a] unat_byte_less [of b] by simp
next
  case (4 a b c bs)
  then show ?case using unat_byte_less [of a] unat_byte_less [of b] unat_byte_less [of c]
    base64_bits [of "unat a" "unat b"] base64_bits [of "unat c" "unat b"] by simp
qed simp

lemma base64_roundtrip [simp]: "base64_StrictDecodeString (base64_EncodeToString bs) = Some bs"
  by (simp add: base64_StrictDecodeString_def base64_no_newline base64_quanta_roundtrip)

lemma base64_EncodeToString_inj [simp]:
  "base64_EncodeToString a = base64_EncodeToString b \<longleftrightarrow> a = b"
  by (metis base64_roundtrip option.inject)

end
