(* ===== verification/Mmr_Tree.thy ===== *)
theory Mmr_Tree
  imports Mmr_Lib Encodings
begin

text \<open>
  Package \<open>mmr\<close>, file \<open>mmr/tree.go\<close>: the in-memory tree, proof generation and the three
  verifiers, at the width of the code (\<open>uint64\<close> positions, sizes and heights). Locks are left
  out: every method runs under the tree's mutex, so a method is one atomic step on the record.
  Indexing a slice past its end is the result \<open>Inl Panic\<close>. \<open>dt\<close> is the third-party library.
\<close>

definition hashSize :: nat where "hashSize = 32"

definition maxMMRSize :: uint64 where "maxMMRSize = 2 ^ 50"

section \<open>Data\<close>

record Tree =
  nodes :: "bytes list"

record InclusionProof =
  IpV :: uint64
  IpKind :: string
  IpSize :: uint64
  IpLeafIndex :: uint64
  IpWitness :: "bytes list"
  IpPeaksLeft :: "bytes list"
  IpPeaksRight :: "bytes list"

record RangeProof =
  RpV :: uint64
  RpKind :: string
  RpSize :: uint64
  RpFromIndex :: uint64
  RpToIndex :: uint64
  RpWitness :: "bytes list"

record ConsistencyProof =
  CpV :: uint64
  CpKind :: string
  CpOldSize :: uint64
  CpNewSize :: uint64
  CpOldPeaks :: "bytes list"
  CpWitness :: "bytes list list"
  CpNewPeaks :: "bytes list"

record pathStep =
  sibling :: uint64
  targetIsRight :: bool
  parent :: uint64

section \<open>Hashing\<close>

definition leafHash :: "bytes \<Rightarrow> bytes" where
  "leafHash value = sha256 (0 # value)"

definition interiorHash :: "bytes \<Rightarrow> bytes \<Rightarrow> uint64 \<Rightarrow> bytes" where
  "interiorHash left right position = sha256 (be64 (position + 1) @ left @ right)"

lemma length_leafHash [simp]: "length (leafHash v) = 32"
  by (simp add: leafHash_def)

lemma length_interiorHash [simp]: "length (interiorHash l r p) = 32"
  by (simp add: interiorHash_def)

section \<open>Sizes and paths\<close>

definition validMMRSize :: "dtmmr \<Rightarrow> uint64 \<Rightarrow> bool" where
  "validMMRSize dt sz =
     (if sz = 0 then True
      else if sz > 2 ^ 63 - 1 then False
      else dt_FirstMMRSize dt (sz - 1) = sz)"

definition mmr_LeafCount :: "dtmmr \<Rightarrow> uint64 \<Rightarrow> uint64 \<times> bool" where
  "mmr_LeafCount dt sz = (if \<not> validMMRSize dt sz then (0, False) else (dt_LeafCount dt sz, True))"

definition peakPositions :: "dtmmr \<Rightarrow> uint64 \<Rightarrow> uint64 list" where
  "peakPositions dt sz = (if sz = 0 then [] else dt_Peaks dt (sz - 1))"

fun containingPeak :: "dtmmr \<Rightarrow> uint64 \<Rightarrow> uint64 list \<Rightarrow> nat option" where
  "containingPeak dt position [] = None"
| "containingPeak dt position (peak # peaks) =
     (let height = dt_IndexHeight dt peak;
          mountainSize = push_bit (unat (height + 1)) 1 - 1;
          start = peak - mountainSize + 1
      in if position \<ge> start \<and> position \<le> peak then Some 0
         else map_option Suc (containingPeak dt position peaks))"

function path_loop :: "uint64 \<Rightarrow> uint64 \<Rightarrow> uint64 \<Rightarrow> pathStep list \<Rightarrow> uint64 \<times> pathStep list" where
  "path_loop currentRoot currentHeight target steps =
     (if currentHeight > 0 \<and> currentRoot \<noteq> target then
        let leftSize = push_bit (unat currentHeight) 1 - 1;
            leftRoot = currentRoot - leftSize - 1;
            rightRoot = currentRoot - 1
        in if target \<le> leftRoot
           then path_loop leftRoot (currentHeight - 1) target
             (steps @ [\<lparr>sibling = rightRoot, targetIsRight = False, parent = currentRoot\<rparr>])
           else path_loop rightRoot (currentHeight - 1) target
             (steps @ [\<lparr>sibling = leftRoot, targetIsRight = True, parent = currentRoot\<rparr>])
      else (currentRoot, steps))"
  by pat_completeness auto
termination
  by (relation "measure (\<lambda>(r, h, t, s). unat h)")
    (auto simp: unat_gt_0 measure_unat word_neq_0_conv)

declare path_loop.simps [simp del]

definition pathToPeak :: "uint64 \<Rightarrow> uint64 \<Rightarrow> uint64 \<Rightarrow> pathStep list option" where
  "pathToPeak root height target =
     (let (currentRoot, steps) = path_loop root height target []
      in if currentRoot \<noteq> target then None else Some (rev steps))"

section \<open>Construction\<close>

definition idx :: "'a list \<Rightarrow> uint64 \<Rightarrow> 'a result" where
  "idx xs i = (if unat i < length xs then Inr (xs ! unat i) else Inl Panic)"

fun checkNodes :: "dtmmr \<Rightarrow> bytes list \<Rightarrow> nat list \<Rightarrow> unit result" where
  "checkNodes dt ns [] = Inr ()"
| "checkNodes dt ns (index # rest) =
     (if length (ns ! index) \<noteq> hashSize then Inl (ErrMsg ''node has wrong length'')
      else let height = dt_IndexHeight dt (of_nat index) in
        if height = 0 then checkNodes dt ns rest
        else rbind (idx ns (of_nat index - push_bit (unat (height - 1)) 2)) (\<lambda>left.
             rbind (idx ns (of_nat index - 1)) (\<lambda>right.
               if ns ! index \<noteq> sha256 (be64 (of_nat index + 1) @ left @ right)
               then Inl (ErrMsg ''interior node does not match its children'')
               else checkNodes dt ns rest)))"

definition New :: "dtmmr \<Rightarrow> bytes list \<Rightarrow> Tree result" where
  "New dt ns =
     (if \<not> validMMRSize dt (of_nat (length ns)) then Inl (ErrMsg ''invalid complete MMR size'')
      else rbind (checkNodes dt ns [0..<length ns]) (\<lambda>_. Inr \<lparr>nodes = ns\<rparr>))"

definition nodeStore_Get :: "Tree node_get" where
  "nodeStore_Get s index =
     (if index \<ge> of_nat (length (nodes s)) then Inl DtNotFound else Inr (nodes s ! unat index))"

definition nodeStore_Append :: "Tree node_append" where
  "nodeStore_Append s value =
     (let s' = s\<lparr>nodes := nodes s @ [value]\<rparr> in (Inr (of_nat (length (nodes s'))), s'))"

definition Tree_Append :: "Tree add_hashed_leaf \<Rightarrow> Tree \<Rightarrow> bytes \<Rightarrow> uint64 result \<times> Tree" where
  "Tree_Append ahl t value =
     (if length value \<noteq> hashSize then (Inl (ErrMsg ''CLL leaf value must be exactly 32 bytes''), t)
      else ahl nodeStore_Get nodeStore_Append sha256 (leafHash value) t)"

definition AppendHexIdentity ::
    "Tree add_hashed_leaf \<Rightarrow> Tree \<Rightarrow> string \<Rightarrow> uint64 result \<times> Tree" where
  "AppendHexIdentity ahl t identity =
     (case hex_DecodeString identity of
        None \<Rightarrow> (Inl (ErrMsg ''identity must be 64 lowercase hexadecimal characters''), t)
      | Some ident \<Rightarrow>
          if length ident \<noteq> hashSize \<or> hex_EncodeToString ident \<noteq> identity
          then (Inl (ErrMsg ''identity must be 64 lowercase hexadecimal characters''), t)
          else Tree_Append ahl t ident)"

definition Tree_Size :: "Tree \<Rightarrow> uint64" where
  "Tree_Size t = of_nat (length (nodes t))"

definition Tree_Nodes :: "Tree \<Rightarrow> bytes list" where
  "Tree_Nodes t = nodes t"

definition zeroRoot :: bytes where "zeroRoot = replicate 32 0"

definition Tree_Root :: "dtmmr \<Rightarrow> Tree \<Rightarrow> bytes result" where
  "Tree_Root dt t =
     (if nodes t = [] then Inr zeroRoot
      else dt_GetRoot dt (of_nat (length (nodes t))) (nodeStore_Get t) sha256)"

section \<open>Proof generation\<close>

definition peakHashesAtLocked :: "dtmmr \<Rightarrow> Tree \<Rightarrow> uint64 \<Rightarrow> bytes list result" where
  "peakHashesAtLocked dt t sz =
     (if sz = 0 then Inr []
      else if sz > of_nat (length (nodes t)) \<or> \<not> validMMRSize dt sz
        then Inl (ErrMsg ''invalid historical MMR size'')
      else dt_PeakHashes dt (nodeStore_Get t) (sz - 1))"

definition PeakHashesAt :: "dtmmr \<Rightarrow> Tree \<Rightarrow> uint64 \<Rightarrow> bytes list result" where
  "PeakHashesAt dt t sz = peakHashesAtLocked dt t sz"

definition path_siblings :: "Tree \<Rightarrow> pathStep list \<Rightarrow> bytes list result" where
  "path_siblings t steps = rmap (\<lambda>step. idx (nodes t) (sibling step)) steps"

definition InclusionProofAt :: "dtmmr \<Rightarrow> Tree \<Rightarrow> uint64 \<Rightarrow> uint64 \<Rightarrow> InclusionProof result" where
  "InclusionProofAt dt t leafIndex sz =
     (if sz > of_nat (length (nodes t)) \<or> \<not> validMMRSize dt sz \<or> leafIndex \<ge> dt_LeafCount dt sz
      then Inl (ErrMsg ''invalid MMR inclusion position'')
      else
        let leafPosition = dt_MMRIndex dt leafIndex; positions = dt_Peaks dt (sz - 1)
        in case containingPeak dt leafPosition positions of
             None \<Rightarrow> Inl (ErrMsg ''leaf index is not contained in MMR'')
           | Some peakIndex \<Rightarrow>
               let peak = positions ! peakIndex
               in case pathToPeak peak (dt_IndexHeight dt peak) leafPosition of
                    None \<Rightarrow> Inl (ErrMsg ''leaf index has no path to MMR peak'')
                  | Some steps \<Rightarrow>
                      rbind (path_siblings t steps) (\<lambda>witness.
                      rbind (peakHashesAtLocked dt t sz) (\<lambda>allPeaks.
                        if peakIndex \<ge> length allPeaks then Inl Panic
                        else Inr \<lparr>IpV = 1, IpKind = ''inclusion'', IpSize = sz, IpLeafIndex = leafIndex,
                          IpWitness = witness, IpPeaksLeft = take peakIndex allPeaks,
                          IpPeaksRight = drop (Suc peakIndex) allPeaks\<rparr>)))"

definition oldPeakWitness :: "dtmmr \<Rightarrow> Tree \<Rightarrow> uint64 list \<Rightarrow> uint64 \<Rightarrow> bytes list result" where
  "oldPeakWitness dt t newPositions oldPeak =
     (case containingPeak dt oldPeak newPositions of
        None \<Rightarrow> Inl (ErrMsg ''old peak is not contained in new MMR'')
      | Some containing \<Rightarrow>
          (case pathToPeak (newPositions ! containing)
                  (dt_IndexHeight dt (newPositions ! containing)) oldPeak of
             None \<Rightarrow> Inl (ErrMsg ''old peak has no path to new peak'')
           | Some steps \<Rightarrow> path_siblings t steps))"

definition ConsistencyProofAt :: "dtmmr \<Rightarrow> Tree \<Rightarrow> uint64 \<Rightarrow> uint64 \<Rightarrow> ConsistencyProof result" where
  "ConsistencyProofAt dt t oldSize newSize =
     (if oldSize > newSize \<or> newSize > of_nat (length (nodes t)) \<or> \<not> validMMRSize dt oldSize
        \<or> \<not> validMMRSize dt newSize
      then Inl (ErrMsg ''invalid MMR consistency sizes'')
      else
        let oldPositions = peakPositions dt oldSize; newPositions = peakPositions dt newSize
        in rbind (peakHashesAtLocked dt t oldSize) (\<lambda>oldPeaks.
           rbind (peakHashesAtLocked dt t newSize) (\<lambda>newPeaks.
           rbind (rmap (oldPeakWitness dt t newPositions) oldPositions) (\<lambda>witness.
             Inr \<lparr>CpV = 1, CpKind = ''consistency'', CpOldSize = oldSize, CpNewSize = newSize,
               CpOldPeaks = oldPeaks, CpWitness = witness, CpNewPeaks = newPeaks\<rparr>))))"

text \<open>
  \<open>rangeWitnesses\<close> extends the list \<open>out\<close> it is given. A leaf (height 0) is either outside the
  range or inside it, so the recursion never reaches below height 0: that is its termination.
\<close>

function rangeWitnesses ::
    "Tree \<Rightarrow> uint64 \<Rightarrow> uint64 \<Rightarrow> uint64 \<Rightarrow> uint64 \<Rightarrow> uint64 \<Rightarrow> bytes list \<Rightarrow> bytes list result" where
  "rangeWitnesses t peak height leafStart lo hi out =
     (let leafEnd = leafStart + push_bit (unat height) 1 - 1
      in if leafEnd < lo \<or> leafStart > hi then
           rbind (idx (nodes t) peak) (\<lambda>node. Inr (out @ [node]))
         else if leafStart \<ge> lo \<and> leafEnd \<le> hi then Inr out
         else
           let half = push_bit (unat (height - 1)) 1
           in rbind (rangeWitnesses t (peak - push_bit (unat height) 1) (height - 1) leafStart lo hi out)
                (\<lambda>out'. rangeWitnesses t (peak - 1) (height - 1) (leafStart + half) lo hi out'))"
  by pat_completeness auto
termination
proof (relation "measure (\<lambda>(t, p, h, s, lo, hi, out). unat h)")
  fix t :: Tree and p h s lo hi x :: uint64 and out out' :: "bytes list" and xa :: uint64
  assume a: "x = s + push_bit (unat h) 1 - 1" "\<not> (x < lo \<or> hi < s)" "\<not> (lo \<le> s \<and> x \<le> hi)"
  have "h \<noteq> 0"
  proof
    assume "h = 0"
    then have "x = s" using a(1) by simp
    then show False using a(2,3) by auto
  qed
  then have "unat (h - 1) < unat h" by (rule measure_unat)
  then show "((t, p - push_bit (unat h) 1, h - 1, s, lo, hi, out), t, p, h, s, lo, hi, out)
      \<in> measure (\<lambda>(t, p, h, s, lo, hi, out). unat h)"
    "((t, p - 1, h - 1, s + xa, lo, hi, out'), t, p, h, s, lo, hi, out)
      \<in> measure (\<lambda>(t, p, h, s, lo, hi, out). unat h)"
    by simp_all
qed simp

declare rangeWitnesses.simps [simp del]

fun rangeProof_peaks :: "dtmmr \<Rightarrow> Tree \<Rightarrow> uint64 \<Rightarrow> uint64 \<Rightarrow> uint64 list \<Rightarrow> uint64 \<Rightarrow> bytes list
    \<Rightarrow> bytes list result" where
  "rangeProof_peaks dt t fromIndex toIndex [] leafStart witness = Inr witness"
| "rangeProof_peaks dt t fromIndex toIndex (peak # rest) leafStart witness =
     (let height = dt_IndexHeight dt peak
      in rbind (rangeWitnesses t peak height leafStart fromIndex toIndex witness)
           (rangeProof_peaks dt t fromIndex toIndex rest (leafStart + push_bit (unat height) 1)))"

definition RangeProofAt :: "dtmmr \<Rightarrow> Tree \<Rightarrow> uint64 \<Rightarrow> uint64 \<Rightarrow> uint64 \<Rightarrow> RangeProof result" where
  "RangeProofAt dt t fromIndex toIndex sz =
     (if toIndex < fromIndex then Inl (ErrMsg ''invalid range'')
      else if sz > of_nat (length (nodes t)) \<or> \<not> validMMRSize dt sz
        then Inl (ErrMsg ''invalid MMR range size'')
      else if toIndex \<ge> dt_LeafCount dt sz then Inl (ErrMsg ''to_index out of range'')
      else rbind (rangeProof_peaks dt t fromIndex toIndex (peakPositions dt sz) 0 []) (\<lambda>witness.
             Inr \<lparr>RpV = 1, RpKind = ''range'', RpSize = sz, RpFromIndex = fromIndex,
               RpToIndex = toIndex, RpWitness = witness\<rparr>))"

section \<open>Verification\<close>

definition RootFromPeaks :: "dtmmr \<Rightarrow> bytes list \<Rightarrow> bytes" where
  "RootFromPeaks dt peaks = (if peaks = [] then zeroRoot else dt_HashPeaksRHS dt sha256 peaks)"

text \<open>The accumulator loop shared by the verifiers; \<open>None\<close> is the early \<open>return false\<close>.\<close>

fun climb :: "bytes \<Rightarrow> pathStep list \<Rightarrow> bytes list \<Rightarrow> bytes option" where
  "climb accumulator (step # steps) (sib # sibs) =
     (if length sib \<noteq> hashSize then None
      else climb (if targetIsRight step then interiorHash sib accumulator (parent step)
                  else interiorHash accumulator sib (parent step)) steps sibs)"
| "climb accumulator _ _ = Some accumulator"

definition check_old_peak ::
    "dtmmr \<Rightarrow> uint64 list \<Rightarrow> bytes list \<Rightarrow> uint64 \<Rightarrow> bytes \<Rightarrow> bytes list \<Rightarrow> bool" where
  "check_old_peak dt newPositions newPeaks oldPeak oldHash witness =
     (case containingPeak dt oldPeak newPositions of
        None \<Rightarrow> False
      | Some containing \<Rightarrow>
          (case pathToPeak (newPositions ! containing)
                  (dt_IndexHeight dt (newPositions ! containing)) oldPeak of
             None \<Rightarrow> False
           | Some steps \<Rightarrow>
               if length steps \<noteq> length witness then False
               else (case climb oldHash steps witness of
                       None \<Rightarrow> False
                     | Some accumulator \<Rightarrow> accumulator = newPeaks ! containing)))"

definition VerifyConsistency :: "dtmmr \<Rightarrow> bytes \<Rightarrow> bytes \<Rightarrow> ConsistencyProof \<Rightarrow> bool" where
  "VerifyConsistency dt oldRoot newRoot pf =
     (if length oldRoot \<noteq> hashSize \<or> length newRoot \<noteq> hashSize \<or> CpV pf \<noteq> 1
        \<or> CpKind pf \<noteq> ''consistency'' \<or> CpOldSize pf > CpNewSize pf
        \<or> \<not> validMMRSize dt (CpOldSize pf) \<or> \<not> validMMRSize dt (CpNewSize pf)
      then False
      else
        let oldPositions = peakPositions dt (CpOldSize pf);
            newPositions = peakPositions dt (CpNewSize pf)
        in if length (CpOldPeaks pf) \<noteq> length oldPositions
             \<or> length (CpNewPeaks pf) \<noteq> length newPositions
             \<or> length (CpWitness pf) \<noteq> length oldPositions then False
           else if \<not> list_all (\<lambda>node. length node = hashSize) (CpOldPeaks pf @ CpNewPeaks pf)
             then False
           else if RootFromPeaks dt (CpOldPeaks pf) \<noteq> oldRoot
             \<or> RootFromPeaks dt (CpNewPeaks pf) \<noteq> newRoot then False
           else list_all (\<lambda>index. check_old_peak dt newPositions (CpNewPeaks pf)
                  (oldPositions ! index) (CpOldPeaks pf ! index) (CpWitness pf ! index))
                [0..<length oldPositions])"

definition VerifyInclusion ::
    "dtmmr \<Rightarrow> bytes \<Rightarrow> uint64 \<Rightarrow> uint64 \<Rightarrow> bytes \<Rightarrow> InclusionProof \<Rightarrow> bool" where
  "VerifyInclusion dt root sz leafIndex value pf =
     (if length root \<noteq> hashSize \<or> length value \<noteq> hashSize \<or> IpV pf \<noteq> 1
        \<or> IpKind pf \<noteq> ''inclusion'' \<or> IpSize pf \<noteq> sz \<or> IpLeafIndex pf \<noteq> leafIndex
        \<or> \<not> validMMRSize dt sz \<or> leafIndex \<ge> dt_LeafCount dt sz
      then False
      else
        let positions = peakPositions dt sz; leafPosition = dt_MMRIndex dt leafIndex
        in case containingPeak dt leafPosition positions of
             None \<Rightarrow> False
           | Some peakIndex \<Rightarrow>
               if length (IpPeaksLeft pf) \<noteq> peakIndex
                 \<or> int (length (IpPeaksRight pf)) \<noteq> int (length positions) - int peakIndex - 1
               then False
               else
                 (case pathToPeak (positions ! peakIndex)
                         (dt_IndexHeight dt (positions ! peakIndex)) leafPosition of
                    None \<Rightarrow> False
                  | Some steps \<Rightarrow>
                      if length steps \<noteq> length (IpWitness pf) then False
                      else (case climb (leafHash value) steps (IpWitness pf) of
                              None \<Rightarrow> False
                            | Some accumulator \<Rightarrow>
                                let peaks = IpPeaksLeft pf @ [accumulator] @ IpPeaksRight pf
                                in if \<not> list_all (\<lambda>peak. length peak = hashSize) peaks then False
                                   else RootFromPeaks dt peaks = root)))"

definition VerifyHexInclusion ::
    "dtmmr \<Rightarrow> bytes \<Rightarrow> uint64 \<Rightarrow> uint64 \<Rightarrow> string \<Rightarrow> InclusionProof \<Rightarrow> bool" where
  "VerifyHexInclusion dt root sz leafIndex identity pf =
     (case hex_DecodeString identity of
        None \<Rightarrow> False
      | Some ident \<Rightarrow>
          if length ident \<noteq> hashSize \<or> hex_EncodeToString ident \<noteq> identity then False
          else VerifyInclusion dt root sz leafIndex ident pf)"

function reconstructRangeSubtree ::
    "uint64 \<Rightarrow> uint64 \<Rightarrow> uint64 \<Rightarrow> uint64 \<Rightarrow> uint64 \<Rightarrow> (uint64 \<rightharpoonup> bytes) \<Rightarrow> bytes list \<Rightarrow> nat
      \<Rightarrow> (bytes \<times> nat) option" where
  "reconstructRangeSubtree peak height leafStart lo hi digestByIndex witness cursor =
     (let leafEnd = leafStart + push_bit (unat height) 1 - 1
      in if leafEnd < lo \<or> leafStart > hi then
           (if cursor \<ge> length witness then None else Some (witness ! cursor, Suc cursor))
         else if height = 0 then
           (case digestByIndex leafStart of
              None \<Rightarrow> None
            | Some body \<Rightarrow> Some (leafHash body, cursor))
         else
           let half = push_bit (unat (height - 1)) 1
           in case reconstructRangeSubtree (peak - push_bit (unat height) 1) (height - 1) leafStart
                     lo hi digestByIndex witness cursor of
                None \<Rightarrow> None
              | Some (left, cursor') \<Rightarrow>
                  (case reconstructRangeSubtree (peak - 1) (height - 1) (leafStart + half)
                          lo hi digestByIndex witness cursor' of
                     None \<Rightarrow> None
                   | Some (right, cursor'') \<Rightarrow> Some (interiorHash left right peak, cursor'')))"
  by pat_completeness auto
termination
  by (relation "measure (\<lambda>(p, h, s, lo, hi, d, w, c). unat h)") (auto simp: measure_unat)

declare reconstructRangeSubtree.simps [simp del]

definition digestsByIndex :: "uint64 \<Rightarrow> bytes list \<Rightarrow> (uint64 \<rightharpoonup> bytes)" where
  "digestsByIndex fromIndex bodyDigests =
     map_of (zip (map (\<lambda>index. fromIndex + of_nat index) [0..<length bodyDigests]) bodyDigests)"

fun reconstruct_peaks :: "dtmmr \<Rightarrow> uint64 \<Rightarrow> uint64 \<Rightarrow> (uint64 \<rightharpoonup> bytes) \<Rightarrow> bytes list \<Rightarrow> uint64 list
    \<Rightarrow> uint64 \<Rightarrow> nat \<Rightarrow> (bytes list \<times> nat) option" where
  "reconstruct_peaks dt lo hi digestByIndex witness [] leafStart cursor = Some ([], cursor)"
| "reconstruct_peaks dt lo hi digestByIndex witness (peak # rest) leafStart cursor =
     (let height = dt_IndexHeight dt peak
      in case reconstructRangeSubtree peak height leafStart lo hi digestByIndex witness cursor of
           None \<Rightarrow> None
         | Some (node, cursor') \<Rightarrow>
             (case reconstruct_peaks dt lo hi digestByIndex witness rest
                     (leafStart + push_bit (unat height) 1) cursor' of
                None \<Rightarrow> None
              | Some (ns, cursor'') \<Rightarrow> Some (node # ns, cursor'')))"

definition VerifyRange ::
    "dtmmr \<Rightarrow> bytes \<Rightarrow> uint64 \<Rightarrow> uint64 \<Rightarrow> uint64 \<Rightarrow> bytes list \<Rightarrow> RangeProof \<Rightarrow> bool" where
  "VerifyRange dt root sz fromIndex toIndex bodyDigests pf =
     (if length root \<noteq> hashSize \<or> RpV pf \<noteq> 1 \<or> RpKind pf \<noteq> ''range'' then False
      else if sz \<ge> maxMMRSize then False
      else if RpSize pf \<noteq> sz \<or> RpFromIndex pf \<noteq> fromIndex \<or> RpToIndex pf \<noteq> toIndex then False
      else if toIndex < fromIndex \<or> of_nat (length bodyDigests) \<noteq> toIndex - fromIndex + 1 then False
      else
        let (leaves, valid) = mmr_LeafCount dt sz
        in if \<not> valid \<or> toIndex \<ge> leaves then False
           else if \<not> list_all (\<lambda>digest. length digest = hashSize) bodyDigests then False
           else if \<not> list_all (\<lambda>node. length node = hashSize) (RpWitness pf) then False
           else
             (case reconstruct_peaks dt fromIndex toIndex (digestsByIndex fromIndex bodyDigests)
                     (RpWitness pf) (peakPositions dt sz) 0 0 of
                None \<Rightarrow> False
              | Some (reconstructed, cursor) \<Rightarrow>
                  if cursor \<noteq> length (RpWitness pf) then False
                  else RootFromPeaks dt reconstructed = root))"

text \<open>
  \<open>CommitmentObject\<close>: \<open>marshal\<close> is the canonical CBOR encoder of \<open>fxamacker/cbor\<close>
  (\<open>CanonicalEncOptions().EncMode()\<close>, then \<open>Marshal\<close>).
\<close>

definition CommitmentObject :: "(bytes list \<Rightarrow> bytes result) \<Rightarrow> bytes list \<Rightarrow> bytes result" where
  "CommitmentObject marshal peaks =
     (if \<not> list_all (\<lambda>peak. length peak = hashSize) peaks
      then Inl (ErrMsg ''MMR peaks must be 32 bytes'')
      else marshal peaks)"

end
