(* ===== verification/Mmr_Paths.thy ===== *)
theory Mmr_Paths
  imports Mmr_Tree
begin

text \<open>
  Well-formed trees, and the geometry of \<open>mmr/tree.go\<close> at \<open>uint64\<close> width: for every complete size
  below \<open>2 ^ 63\<close>, \<open>validMMRSize\<close>, \<open>LeafCount\<close>, \<open>peakPositions\<close>, \<open>containingPeak\<close> and \<open>pathToPeak\<close>
  compute what the mountains of \<open>Mmr_Arith\<close> say, with no wrap-around.
\<close>

section \<open>Well-formed trees\<close>

definition node_hashes_ok :: "bytes list \<Rightarrow> bool" where
  "node_hashes_ok ns \<longleftrightarrow> (\<forall>p < length ns. length (ns ! p) = 32 \<and>
     (\<forall>h. index_height p = Suc h \<longrightarrow>
        ns ! p = interiorHash (ns ! (p - 2 ^ Suc h)) (ns ! (p - 1)) (of_nat p)))"

text \<open>\<open>mmr_tree t n\<close>: the tree holds exactly the nodes of an MMR with \<open>n\<close> leaves.\<close>

definition mmr_tree :: "Tree \<Rightarrow> nat \<Rightarrow> bool" where
  "mmr_tree t n \<longleftrightarrow> length (nodes t) = mmr_size n \<and> mmr_size n < 2 ^ 63 \<and> node_hashes_ok (nodes t)"

lemma mmr_treeD:
  assumes "mmr_tree t n"
  shows "length (nodes t) = mmr_size n" "mmr_size n < 2 ^ 63" "node_hashes_ok (nodes t)"
  using assms by (simp_all add: mmr_tree_def)

lemma node_width: "node_hashes_ok ns \<Longrightarrow> p < length ns \<Longrightarrow> length (ns ! p) = 32"
  by (simp add: node_hashes_ok_def)

lemma node_split:
  assumes "node_hashes_ok ns" "2 ^ Suc k dvd a" "peak_pos a (Suc k) < length ns"
  shows "ns ! peak_pos a (Suc k) =
    interiorHash (ns ! peak_pos a k) (ns ! peak_pos (a + 2 ^ k) k) (of_nat (peak_pos a (Suc k)))"
proof -
  have "index_height (peak_pos a (Suc k)) = Suc k" using assms(2) by (rule index_height_peak_pos)
  with assms(1,3) show ?thesis
    unfolding node_hashes_ok_def
    using peak_pos_left [of a k] peak_pos_right [OF assms(2)] by metis
qed

lemma height_less_63: "peak_pos a h < 2 ^ 63 \<Longrightarrow> h < 63"
proof -
  assume "peak_pos a h < 2 ^ 63"
  then have "2 * (2::nat) ^ h \<le> 2 ^ 63 + 1" unfolding peak_pos_def by linarith
  then have "(2::nat) ^ h < 2 ^ 63" by simp
  then show "h < 63" by (rule power_less_imp_less_exp [rotated]) simp
qed

section \<open>Words and mountains\<close>

lemma unat_height: "h < 63 \<Longrightarrow> unat (of_nat h :: uint64) = h"
  by (rule unat_of_nat64) simp

context dtmmr_lib
begin

lemma IndexHeight_peak:
  assumes "2 ^ h dvd a" "peak_pos a h < 2 ^ 63"
  shows "dt_IndexHeight dt (of_nat (peak_pos a h)) = of_nat h"
  using IndexHeight [OF assms(2)] index_height_peak_pos [OF assms(1)] by simp

lemma validMMRSize_of_nat:
  assumes "s < 2 ^ 63"
  shows "validMMRSize dt (of_nat s) \<longleftrightarrow> (\<exists>n. mmr_size n = s)"
proof (cases "s = 0")
  case True
  then show ?thesis by (auto simp: validMMRSize_def intro: exI [of _ 0])
next
  case False
  have "(of_nat s :: uint64) \<noteq> 0" using False assms of_nat64_eq_iff [of s 0] by simp
  moreover have "\<not> (of_nat s :: uint64) > 2 ^ 63 - 1"
    using assms of_nat64_le_iff [of s "2 ^ 63 - 1"] by simp
  moreover have "(of_nat s :: uint64) - 1 = of_nat (s - 1)"
    using False of_nat64_diff [of 1 s] by simp
  ultimately have "validMMRSize dt (of_nat s)
      \<longleftrightarrow> dt_FirstMMRSize dt (of_nat (s - 1)) = of_nat s"
    unfolding validMMRSize_def by simp
  then show ?thesis using FirstMMRSize_complete [of s] False assms by simp
qed

lemma validMMRSize_iff:
  "validMMRSize dt w \<longleftrightarrow> (\<exists>n. mmr_size n = unat w \<and> mmr_size n < 2 ^ 63)"
proof (cases "unat w < 2 ^ 63")
  case True
  then show ?thesis using validMMRSize_of_nat [OF True] by auto
next
  case False
  then have "w > 2 ^ 63 - 1" by (simp add: word_less_nat_alt)
  moreover from this have "w \<noteq> 0" by auto
  ultimately have "\<not> validMMRSize dt w" by (simp add: validMMRSize_def)
  with False show ?thesis by auto
qed

lemma validMMRSizeE:
  assumes "validMMRSize dt w"
  obtains n where "w = of_nat (mmr_size n)" "mmr_size n < 2 ^ 63"
  using assms validMMRSize_iff [of w] by (metis of_nat_unat ucast_id)

lemma LeafCount_valid: "mmr_size n < 2 ^ 63 \<Longrightarrow> mmr_LeafCount dt (of_nat (mmr_size n)) = (of_nat n, True)"
  using validMMRSize_of_nat [of "mmr_size n"] LeafCount [of n] by (auto simp: mmr_LeafCount_def)

lemma peakPositions_eq:
  assumes "mmr_size n < 2 ^ 63"
  shows "peakPositions dt (of_nat (mmr_size n)) = map of_nat (peak_positions n)"
proof (cases "n = 0")
  case False
  have "(of_nat (mmr_size n) :: uint64) \<noteq> 0"
    using False assms of_nat64_eq_iff [of "mmr_size n" 0] by simp
  moreover have "(of_nat (mmr_size n) :: uint64) - 1 = of_nat (mmr_size n - 1)"
    using False of_nat64_diff [of 1 "mmr_size n"] by (simp add: Suc_leI)
  ultimately show ?thesis using Peaks [of n] False assms by (simp add: peakPositions_def)
qed (simp add: peakPositions_def)

lemma mountain_start:
  assumes "2 ^ h dvd c" "peak_pos c h < 2 ^ 63"
  shows "(of_nat (peak_pos c h) :: uint64)
      - (push_bit (unat (dt_IndexHeight dt (of_nat (peak_pos c h)) + 1)) 1 - 1) + 1
    = of_nat (mmr_size c)"
proof -
  have h: "h < 63" by (rule height_less_63 [OF assms(2)])
  have "unat ((of_nat h :: uint64) + 1) = Suc h"
    using h unat_of_nat64 [of "Suc h"] by (simp add: add.commute)
  then have "push_bit (unat (dt_IndexHeight dt (of_nat (peak_pos c h)) + 1)) (1 :: uint64) = of_nat (2 * 2 ^ h)"
    using IndexHeight_peak [OF assms] by (simp add: push_bit64_one)
  moreover have "peak_pos c h + 2 = mmr_size c + 2 * 2 ^ h"
    using pow2_ge1 [of h] unfolding peak_pos_def by linarith
  then have "(of_nat (peak_pos c h) :: uint64) + 2 = of_nat (mmr_size c) + of_nat (2 * 2 ^ h)"
    by (metis of_nat_add of_nat_numeral)
  ultimately show ?thesis by (simp add: algebra_simps)
qed

lemma containingPeak_at:
  assumes "aligned 0 n" "mountains 0 n = pre @ (c, h) # post" "mmr_size n < 2 ^ 63"
    and t: "mmr_size c \<le> t" "t \<le> peak_pos c h"
    and pre: "\<And>c' h'. (c', h') \<in> set pre \<Longrightarrow> peak_pos c' h' < t"
  shows "containingPeak dt (of_nat t) (map of_nat (peak_positions n)) = Some (length pre)"
proof -
  have all: "2 ^ h' dvd c' \<and> peak_pos c' h' < 2 ^ 63 \<and> mmr_size c' < 2 ^ 63"
    if "(c', h') \<in> set (pre @ (c, h) # post)" for c' h'
    using mountains_mem [OF aligned_0, of c' h' n] that assms(2,3)
      peak_pos_less_size [of h' c' n] mmr_size_le_peak_pos [of c' h']
    by (metis add_0 less_trans order_le_less_trans)
  have t64: "t < 2 ^ 63" using t(2) all [of c h] by (auto intro: le_less_trans)
  have step: "containingPeak dt (of_nat t) (of_nat (peak_pos c' h') # ps) =
      (if mmr_size c' \<le> t \<and> t \<le> peak_pos c' h' then Some 0
       else map_option Suc (containingPeak dt (of_nat t) ps))"
    if "(c', h') \<in> set (pre @ (c, h) # post)" for c' h' ps
    using all [OF that] t64 mountain_start [of h' c']
    by (simp add: Let_def of_nat64_le_iff)
  have "containingPeak dt (of_nat t) (map (\<lambda>(a, h). of_nat (peak_pos a h)) (pre' @ (c, h) # post))
      = Some (length pre')" if "set pre' \<subseteq> set pre" for pre'
    using that
  proof (induction pre')
    case Nil
    then show ?case using step [of c h] t by simp
  next
    case (Cons x xs)
    obtain c' h' where x: "x = (c', h')" by (cases x)
    then have "peak_pos c' h' < t" using pre Cons.prems by auto
    then show ?case using step [of c' h'] Cons x by (simp del: containingPeak.simps)
  qed
  from this [OF order_refl] show ?thesis
    unfolding peak_positions_def assms(2) by (simp add: comp_def case_prod_unfold)
qed

end

section \<open>Paths\<close>

text \<open>
  The path from the subtree over \<open>b ..< b + 2 ^ g\<close> up to the subtree over \<open>a ..< a + 2 ^ h\<close>
  that contains it, bottom up.
\<close>

fun path_up :: "nat \<Rightarrow> nat \<Rightarrow> nat \<Rightarrow> nat \<Rightarrow> pathStep list" where
  "path_up a 0 b g = []"
| "path_up a (Suc k) b g =
     (if Suc k \<le> g then []
      else if b < a + 2 ^ k
      then path_up a k b g @ [\<lparr>sibling = of_nat (peak_pos (a + 2 ^ k) k), targetIsRight = False,
             parent = of_nat (peak_pos a (Suc k))\<rparr>]
      else path_up (a + 2 ^ k) k b g @ [\<lparr>sibling = of_nat (peak_pos a k), targetIsRight = True,
             parent = of_nat (peak_pos a (Suc k))\<rparr>])"

text \<open>One descent step: the child that contains the target, and on which side it is.\<close>

lemma descend:
  assumes "2 ^ Suc k dvd a" "2 ^ g dvd b" "a \<le> b" "b + 2 ^ g \<le> a + 2 ^ Suc k" "g \<le> k"
  shows "b < a + 2 ^ k \<Longrightarrow> b + 2 ^ g \<le> a + 2 ^ k \<and> peak_pos b g \<le> peak_pos a k"
    and "\<not> b < a + 2 ^ k \<Longrightarrow> a + 2 ^ k \<le> b \<and> b + 2 ^ g \<le> a + 2 ^ k + 2 ^ k \<and> peak_pos a k < peak_pos b g"
proof -
  have d: "2 ^ k dvd a" "2 ^ k dvd a + 2 ^ k" using dvd_half [OF assms(1)] by auto
  have dg: "2 ^ g dvd a + 2 ^ k" using d(2) assms(5) by (meson dvd_trans le_imp_power_dvd)
  {
    assume "b < a + 2 ^ k"
    then have "b + 2 ^ g \<le> a + 2 ^ k" by (rule dvd_less_power [OF assms(2) _ dg])
    then show "b + 2 ^ g \<le> a + 2 ^ k \<and> peak_pos b g \<le> peak_pos a k"
      using peak_pos_within [OF d(1) assms(3)] by simp
  }
  assume "\<not> b < a + 2 ^ k"
  then have "a + 2 ^ k \<le> b" by simp
  moreover have "peak_pos a k < mmr_size (a + 2 ^ k)" by (rule peak_pos_less_own_size [OF d(1)])
  moreover have "mmr_size (a + 2 ^ k) \<le> mmr_size b" using calculation(1) by simp
  ultimately show "a + 2 ^ k \<le> b \<and> b + 2 ^ g \<le> a + 2 ^ k + 2 ^ k \<and> peak_pos a k < peak_pos b g"
    using mmr_size_le_peak_pos [of b g] assms(4) by (simp del: mmr_size_le_iff)
qed

lemma within_eq:
  fixes a b :: nat
  assumes "2 ^ h dvd a" "2 ^ g dvd b" "a \<le> b" "b + 2 ^ g \<le> a + 2 ^ h" "h \<le> g"
  shows "g = h \<and> b = a"
proof -
  have "(2::nat) ^ h \<le> 2 ^ g" using assms(5) by simp
  then have "b = a" "(2::nat) ^ g = 2 ^ h" using assms(3,4) by linarith+
  then show ?thesis by simp
qed

lemma path_loop_path_up:
  assumes "2 ^ h dvd a" "2 ^ g dvd b" "a \<le> b" "b + 2 ^ g \<le> a + 2 ^ h" "peak_pos a h < 2 ^ 63"
  shows "path_loop (of_nat (peak_pos a h)) (of_nat h) (of_nat (peak_pos b g)) acc
    = (of_nat (peak_pos b g), acc @ rev (path_up a h b g))"
  using assms
proof (induction h arbitrary: a acc)
  case 0
  then have "g = 0 \<and> b = a" using within_eq by blast
  then show ?case by (simp add: path_loop.simps)
next
  case (Suc k)
  show ?case
  proof (cases "Suc k \<le> g")
    case True
    then have "g = Suc k \<and> b = a" using within_eq Suc.prems by blast
    then show ?thesis by (simp add: path_loop.simps)
  next
    case False
    then have gk: "g \<le> k" by simp
    note ds = descend [OF Suc.prems(1-4) gk]
    have d: "2 ^ k dvd a" "2 ^ k dvd a + 2 ^ k" using dvd_half [OF Suc.prems(1)] by auto
    have k: "Suc k < 63" by (rule height_less_63 [OF Suc.prems(5)])
    have pl: "peak_pos a k < 2 ^ 63" "peak_pos (a + 2 ^ k) k < 2 ^ 63"
      using peak_pos_left [of a k] peak_pos_right [OF Suc.prems(1)] Suc.prems(5) by linarith+
    have pb: "peak_pos b g < peak_pos a (Suc k)"
    proof (cases "b < a + 2 ^ k")
      case True
      then show ?thesis using ds(1) peak_pos_left [of a k] peak_pos_ge [of k a] pow2_ge1 [of "Suc k"]
        by linarith
    next
      case False
      have "peak_pos b g \<le> peak_pos (a + 2 ^ k) k"
        by (rule peak_pos_within) (use d ds(2) False in auto)
      then show ?thesis using peak_pos_right [OF Suc.prems(1)] peak_pos_ge [of k a] pow2_ge1 [of "Suc k"]
        by linarith
    qed
    have wk: "unat (of_nat (Suc k) :: uint64) = Suc k" by (rule unat_height [OF k])
    have gt: "(of_nat (Suc k) :: uint64) > 0" using wk by (simp add: word_less_nat_alt)
    have ne: "(of_nat (peak_pos a (Suc k)) :: uint64) \<noteq> of_nat (peak_pos b g)"
      using pb Suc.prems(5) of_nat64_eq_iff [of "peak_pos a (Suc k)" "peak_pos b g"] by simp
    have l: "of_nat (peak_pos a (Suc k)) - (push_bit (unat (of_nat (Suc k) :: uint64)) 1 - 1) - 1
        = (of_nat (peak_pos a k) :: uint64)"
      using of_nat64_diff [OF peak_pos_ge [of k a]] peak_pos_left [of a k]
      by (simp only: wk push_bit64_one) (simp add: algebra_simps)
    have r: "of_nat (peak_pos a (Suc k)) - 1 = (of_nat (peak_pos (a + 2 ^ k) k) :: uint64)"
    proof -
      have "1 \<le> peak_pos a (Suc k)" using peak_pos_ge [of k a] pow2_ge1 [of "Suc k"] by linarith
      from of_nat64_diff [OF this] show ?thesis using peak_pos_right [OF Suc.prems(1)] by simp
    qed
    have hm: "(of_nat (Suc k) :: uint64) - 1 = of_nat k" by simp
    have c: "(of_nat (peak_pos b g) :: uint64) \<le> of_nat (peak_pos a k) \<longleftrightarrow> b < a + 2 ^ k"
    proof -
      have "peak_pos b g \<le> peak_pos a k \<longleftrightarrow> b < a + 2 ^ k"
        using ds by (cases "b < a + 2 ^ k") simp_all
      then show ?thesis
        using pl(1) pb Suc.prems(5) of_nat64_le_iff [of "peak_pos b g" "peak_pos a k"] by simp
    qed
    show ?thesis
    proof (cases "b < a + 2 ^ k")
      case True
      then show ?thesis
        using Suc.IH [OF d(1) Suc.prems(2,3) _ pl(1)] ds(1) [OF True] gt ne c False
        by (subst path_loop.simps) (simp only: l r hm Let_def path_up.simps if_True if_False
            simp_thms rev_append rev.simps append_Nil append.assoc append.simps)
    next
      case nb: False
      then show ?thesis
        using Suc.IH [OF d(2) Suc.prems(2) _ _ pl(2)] ds(2) [OF nb] gt ne c False
        by (subst path_loop.simps) (simp only: l r hm Let_def path_up.simps if_True if_False
            simp_thms rev_append rev.simps append_Nil append.assoc append.simps)
    qed
  qed
qed

lemma pathToPeak_eq:
  assumes "2 ^ h dvd a" "2 ^ g dvd b" "a \<le> b" "b + 2 ^ g \<le> a + 2 ^ h" "peak_pos a h < 2 ^ 63"
  shows "pathToPeak (of_nat (peak_pos a h)) (of_nat h) (of_nat (peak_pos b g)) = Some (path_up a h b g)"
  using path_loop_path_up [OF assms, of "[]"] by (simp add: pathToPeak_def)

end
