(* ===== verification/Mmr_Complete.thy ===== *)
theory Mmr_Complete
  imports Mmr_Paths
begin

text \<open>
  What the operations of \<open>mmr/tree.go\<close> do on well-formed trees: \<open>New\<close> accepts exactly the
  well-formed node sequences and never panics; \<open>Append\<close> extends the committed sequence of
  identities; every proof a tree generates is accepted by its verifier.
\<close>

section \<open>Restoring a tree\<close>

lemma idx_of_nat: "i < length xs \<Longrightarrow> length xs < 2 ^ 63 \<Longrightarrow> idx xs (of_nat i) = Inr (xs ! i)"
  by (simp add: idx_def unat_of_nat64)

lemma index_height_less_63: "p < 2 ^ 63 \<Longrightarrow> index_height p < 63"
proof -
  assume "p < 2 ^ 63"
  then have "2 * (2::nat) ^ index_height p \<le> 2 ^ 63 + 1" using index_height_ge [of p] by linarith
  then have "(2::nat) ^ index_height p < 2 ^ 63" by simp
  then show "index_height p < 63" by (rule power_less_imp_less_exp [rotated]) simp
qed

lemma interior_children:
  assumes "index_height p = Suc h"
  shows "2 ^ Suc h \<le> p" "1 \<le> p"
  using index_height_ge [of p] assms pow2_ge1 [of h] by (simp_all, linarith+)

context dtmmr_lib
begin

lemma checkNodes_step:
  assumes "length ns < 2 ^ 63" "i < length ns"
  shows "checkNodes dt ns (i # is) =
    (if length (ns ! i) \<noteq> 32 then Inl (ErrMsg ''node has wrong length'')
     else case index_height i of
       0 \<Rightarrow> checkNodes dt ns is
     | Suc h \<Rightarrow> if ns ! i \<noteq> interiorHash (ns ! (i - 2 ^ Suc h)) (ns ! (i - 1)) (of_nat i)
         then Inl (ErrMsg ''interior node does not match its children'')
         else checkNodes dt ns is)"
proof (cases "index_height i")
  case 0
  then show ?thesis using IndexHeight [of i] assms by (simp add: hashSize_def)
next
  case (Suc h)
  have i: "i < 2 ^ 63" using assms by simp
  have h: "Suc h < 63" using index_height_less_63 [OF i] Suc by simp
  have ih: "dt_IndexHeight dt (of_nat i) = of_nat (Suc h)" using IndexHeight [OF i] Suc by simp
  have nz: "(of_nat (Suc h) :: uint64) \<noteq> 0" using unat_height [OF h] by (metis unat_0 nat.distinct(1))
  have ph: "push_bit (unat (of_nat (Suc h) - 1 :: uint64)) (2 :: uint64) = of_nat (2 ^ Suc h)"
    using unat_height [of h] h by (simp add: push_bit_eq_mult)
  note c = interior_children [OF Suc]
  have l: "idx ns (of_nat i - of_nat (2 ^ Suc h)) = Inr (ns ! (i - 2 ^ Suc h))"
    using idx_of_nat [of "i - 2 ^ Suc h" ns] of_nat64_diff [OF c(1)] assms
    by (metis less_imp_diff_less)
  have r: "idx ns (of_nat i - 1) = Inr (ns ! (i - 1))"
    using idx_of_nat [of "i - 1" ns] of_nat64_diff [OF c(2)] assms by simp
  show ?thesis
    using Suc by (simp only: checkNodes.simps Let_def ih nz if_False ph l r rbind_simps)
      (simp add: interiorHash_def hashSize_def)
qed

lemma checkNodes_Inr_iff:
  assumes "length ns < 2 ^ 63" "set is \<subseteq> {..<length ns}"
  shows "checkNodes dt ns is = Inr () \<longleftrightarrow> (\<forall>i \<in> set is. length (ns ! i) = 32 \<and>
     (\<forall>h. index_height i = Suc h \<longrightarrow>
        ns ! i = interiorHash (ns ! (i - 2 ^ Suc h)) (ns ! (i - 1)) (of_nat i)))"
  using assms(2)
proof (induction "is")
  case (Cons i "is")
  then show ?case using checkNodes_step [OF assms(1), of i "is"] by (auto split: nat.splits)
qed simp

lemma checkNodes_no_panic:
  assumes "length ns < 2 ^ 63" "set is \<subseteq> {..<length ns}"
  shows "checkNodes dt ns is \<noteq> Inl Panic"
  using assms(2)
proof (induction "is")
  case (Cons i "is")
  then show ?case using checkNodes_step [OF assms(1), of i "is"] by (auto split: nat.splits)
qed simp

lemma New_iff:
  assumes "length ns < 2 ^ 63"
  shows "New dt ns = Inr t \<longleftrightarrow> nodes t = ns \<and> (\<exists>n. mmr_tree t n)"
proof -
  have "New dt ns = Inr t \<longleftrightarrow> (\<exists>n. mmr_size n = length ns) \<and> node_hashes_ok ns \<and> t = \<lparr>nodes = ns\<rparr>"
    using validMMRSize_of_nat [OF assms] checkNodes_Inr_iff [OF assms, of "[0..<length ns]"]
    by (auto simp: New_def result_simps node_hashes_ok_def lessThan_atLeast0)
  also have "\<dots> \<longleftrightarrow> nodes t = ns \<and> (\<exists>n. mmr_tree t n)"
    using assms by (cases t) (auto simp: mmr_tree_def, metis)
  finally show ?thesis .
qed

lemma New_no_panic: "length ns < 2 ^ 63 \<Longrightarrow> New dt ns \<noteq> Inl Panic"
  using checkNodes_no_panic [of ns "[0..<length ns]"]
  by (cases "checkNodes dt ns [0..<length ns]") (auto simp: New_def lessThan_atLeast0)

end

section \<open>Appending\<close>

interpretation tree_store: node_store nodeStore_Get nodeStore_Append nodes "\<lambda>_. True" "2 ^ 63"
proof
  fix s :: Tree and i
  assume "i < length (nodes s)" "length (nodes s) \<le> 2 ^ 63"
  then show "nodeStore_Get s (of_nat i) = Inr (nodes s ! i)"
    by (simp add: nodeStore_Get_def unat_of_nat64 of_nat64_le_iff)
qed (simp add: nodeStore_Append_def)

lemma leaf_added_hashes_ok:
  assumes la: "leaf_added sha256 n leaf ns ns'" and ns: "length ns = mmr_size n" "node_hashes_ok ns"
    and leaf: "length leaf = 32"
  shows "node_hashes_ok ns'"
  unfolding node_hashes_ok_def
proof (intro allI impI)
  fix p assume p: "p < length ns'"
  have low: "ns' ! q = ns ! q" if "q < length ns" for q
    using la that unfolding leaf_added_def by (metis nth_take)
  consider "p < length ns" | "p = length ns" | "length ns < p" by linarith
  then show "length (ns' ! p) = 32 \<and> (\<forall>h. index_height p = Suc h \<longrightarrow>
      ns' ! p = interiorHash (ns' ! (p - 2 ^ Suc h)) (ns' ! (p - 1)) (of_nat p))"
  proof cases
    case 1
    then have "p - 2 ^ Suc h < length ns" "p - 1 < length ns" for h by linarith+
    with 1 low show ?thesis using ns(2) unfolding node_hashes_ok_def by metis
  next
    case 2
    have "index_height p = 0" using index_height_peak_pos [of 0 n] 2 ns(1) by simp
    then show ?thesis using 2 la leaf by (simp add: leaf_added_def)
  next
    case 3
    obtain t where t: "2 ^ t dvd Suc n" "\<not> 2 ^ Suc t dvd Suc n" by (rule trailing_ones)
    define j where "j = p - mmr_size n"
    have j: "p = mmr_size n + j" "0 < j" "j \<le> t"
      using 3 ns(1) p la mmr_size_Suc_eq [OF t] by (auto simp: j_def leaf_added_def)
    have dj: "2 ^ j dvd Suc n" using t(1) j(3) by (meson dvd_trans le_imp_power_dvd)
    then have "2 ^ j dvd Suc n - 2 ^ j" by (simp add: dvd_diff_nat)
    then have "index_height p = j"
      using index_height_peak_pos position_after_leaf [OF dj] j(1) by metis
    then obtain h where "index_height p = Suc h" using j(2) by (cases j) auto
    then have "ns' ! p = interiorHash (ns' ! (p - 2 ^ Suc h)) (ns' ! (p - 1)) (of_nat p)"
      using la 3 p unfolding leaf_added_def interiorHash_def by blast
    then show ?thesis using \<open>index_height p = Suc h\<close> by simp
  qed
qed

text \<open>
  \<open>commits t vs\<close>: the tree commits to the sequence \<open>vs\<close> of 32-byte identities, leaf \<open>i\<close> holding
  the leaf hash of \<open>vs ! i\<close>. It is the abstraction relation of package \<open>mmr\<close>: a tree stands
  for the list of identities appended so far.
\<close>

definition commits :: "Tree \<Rightarrow> bytes list \<Rightarrow> bool" where
  "commits t vs \<longleftrightarrow> mmr_tree t (length vs) \<and>
     (\<forall>i < length vs. length (vs ! i) = 32 \<and> nodes t ! mmr_size i = leafHash (vs ! i))"

lemma commits_empty: "commits \<lparr>nodes = []\<rparr> []"
  by (simp add: commits_def mmr_tree_def node_hashes_ok_def)

lemma commits_leaf_added:
  assumes c: "commits t vs" and v: "length v = 32" and b: "mmr_size (Suc (length vs)) < 2 ^ 63"
    and la: "leaf_added sha256 (length vs) (leafHash v) (nodes t) (nodes t')"
  shows "commits t' (vs @ [v])"
proof -
  let ?n = "length vs"
  have t: "length (nodes t) = mmr_size ?n" "node_hashes_ok (nodes t)"
    using c by (auto simp: commits_def mmr_tree_def)
  have "node_hashes_ok (nodes t')" by (rule leaf_added_hashes_ok [OF la t]) simp
  then have mt: "mmr_tree t' (Suc ?n)" using la b by (simp add: mmr_tree_def leaf_added_def)
  have tk: "take (length (nodes t)) (nodes t') = nodes t" using la by (simp add: leaf_added_def)
  have "nodes t' ! mmr_size i = leafHash ((vs @ [v]) ! i)" "length ((vs @ [v]) ! i) = 32"
    if "i < Suc ?n" for i
  proof -
    show "length ((vs @ [v]) ! i) = 32"
      using that c v by (auto simp: commits_def nth_append less_Suc_eq)
    show "nodes t' ! mmr_size i = leafHash ((vs @ [v]) ! i)"
    proof (cases "i = ?n")
      case True
      then show ?thesis using la t(1) by (simp add: leaf_added_def)
    next
      case False
      then have i: "i < ?n" using that by simp
      then have "nodes t' ! mmr_size i = nodes t ! mmr_size i"
        using tk t(1) by (metis mmr_size_less_iff nth_take)
      then show ?thesis using i c by (simp add: commits_def nth_append)
    qed
  qed
  then show ?thesis using mt by (simp add: commits_def)
qed

lemma commits_Append:
  assumes "dtmmr_append dt ahl" "commits t vs" "length v = 32" "length vs < 2 ^ 62"
  shows "\<exists>t'. Tree_Append ahl t v = (Inr (Tree_Size t'), t') \<and> commits t' (vs @ [v])
    \<and> take (length (nodes t)) (nodes t') = nodes t"
proof -
  let ?n = "length vs"
  have t: "length (nodes t) = mmr_size ?n" using assms(2) by (auto simp: commits_def mmr_tree_def)
  have b: "mmr_size (Suc ?n) < 2 ^ 63" using assms(4) unfolding mmr_size_bound63 by simp
  obtain t' where t': "ahl nodeStore_Get nodeStore_Append sha256 (leafHash v) t
      = (Inr (of_nat (mmr_size (Suc ?n))), t')" "leaf_added sha256 ?n (leafHash v) (nodes t) (nodes t')"
    using dtmmr_append.AddHashedLeaf [OF assms(1) tree_store.node_store_axioms TrueI t(1) b less_imp_le [OF b],
        of "leafHash v" sha256] by auto
  have "commits t' (vs @ [v])" by (rule commits_leaf_added [OF assms(2,3) b t'(2)])
  moreover have "Tree_Append ahl t v = (Inr (Tree_Size t'), t')"
    using t' assms(3) by (simp add: Tree_Append_def hashSize_def Tree_Size_def leaf_added_def)
  ultimately show ?thesis using t'(2) by (auto simp: leaf_added_def)
qed

text \<open>The identities determine the nodes.\<close>

lemma peak_pos_exists:
  "p < mmr_size n \<Longrightarrow> \<exists>a h. 2 ^ h dvd a \<and> a + 2 ^ h \<le> n \<and> p = peak_pos a h"
proof (induction n)
  case (Suc n)
  show ?case
  proof (cases "p < mmr_size n")
    case True
    then show ?thesis using Suc.IH by (meson le_SucI)
  next
    case False
    obtain t where t: "2 ^ t dvd Suc n" "\<not> 2 ^ Suc t dvd Suc n" by (rule trailing_ones)
    define j where "j = p - mmr_size n"
    have j: "p = mmr_size n + j" "j \<le> t"
      using False Suc.prems mmr_size_Suc_eq [OF t] by (auto simp: j_def)
    have dj: "2 ^ j dvd Suc n" using t(1) j(2) by (meson dvd_trans le_imp_power_dvd)
    moreover have "2 ^ j \<le> Suc n" using dj by (intro dvd_imp_le) auto
    ultimately have "2 ^ j dvd Suc n - 2 ^ j" "Suc n - 2 ^ j + 2 ^ j \<le> Suc n"
      by (simp_all add: dvd_diff_nat)
    then show ?thesis using position_after_leaf [OF dj] j(1) by metis
  qed
qed simp

lemma commits_nodes_unique:
  assumes "commits t vs" "commits t' vs"
  shows "t = t'"
proof -
  have len: "length (nodes t) = mmr_size (length vs)" "length (nodes t') = mmr_size (length vs)"
    and ok: "node_hashes_ok (nodes t)" "node_hashes_ok (nodes t')"
    using assms by (auto simp: commits_def mmr_tree_def)
  have "nodes t ! peak_pos a h = nodes t' ! peak_pos a h"
    if "2 ^ h dvd a" "a + 2 ^ h \<le> length vs" for a h
    using that
  proof (induction h arbitrary: a)
    case 0
    then show ?case using assms by (simp add: commits_def)
  next
    case (Suc k)
    have d: "2 ^ k dvd a" "2 ^ k dvd a + 2 ^ k" using dvd_half [OF Suc.prems(1)] by auto
    have "peak_pos a (Suc k) < mmr_size (length vs)" by (rule peak_pos_less_size [OF Suc.prems])
    then show ?case
      using node_split [OF ok(1) Suc.prems(1)] node_split [OF ok(2) Suc.prems(1)] len
        Suc.IH [OF d(1)] Suc.IH [OF d(2)] Suc.prems(2) by simp
  qed
  then have "nodes t ! p = nodes t' ! p" if "p < mmr_size (length vs)" for p
    using peak_pos_exists [OF that] by auto
  then have "nodes t = nodes t'" using len by (intro nth_equalityI) auto
  then show ?thesis by simp
qed

section \<open>Peaks and roots\<close>

definition peaks_at :: "Tree \<Rightarrow> nat \<Rightarrow> bytes list" where
  "peaks_at t m = map (\<lambda>p. nodes t ! p) (peak_positions m)"

lemma length_peaks_at [simp]: "length (peaks_at t m) = length (peak_positions m)"
  by (simp add: peaks_at_def)

lemma peak_positions_less_mono: "p \<in> set (peak_positions m) \<Longrightarrow> m \<le> n \<Longrightarrow> p < mmr_size n"
  using peak_positions_less [of p m] mmr_size_le_iff [of m n] by linarith

lemma peaks_at_width:
  assumes "mmr_tree t n" "m \<le> n"
  shows "list_all (\<lambda>p. length p = 32) (peaks_at t m)"
proof -
  have "length (nodes t ! p) = 32" if "p \<in> set (peak_positions m)" for p
    using peak_positions_less_mono [OF that assms(2)] assms node_width [of "nodes t" p]
    by (simp add: mmr_tree_def)
  then show ?thesis by (auto simp: peaks_at_def list_all_iff)
qed

lemma tree_get_peaks:
  assumes "mmr_tree t n" "m \<le> n" "p \<in> set (peak_positions m)"
  shows "nodeStore_Get t (of_nat p) = Inr (nodes t ! p)"
  using peak_positions_less_mono [OF assms(3,2)] tree_store.get [of p t] mmr_treeD [OF assms(1)]
  by simp

lemma tree_size_le:
  assumes "mmr_tree t n" "m \<le> n"
  shows "\<not> of_nat (mmr_size m) > (of_nat (length (nodes t)) :: uint64)" "mmr_size m < 2 ^ 63"
proof -
  have "mmr_size m \<le> mmr_size n" using assms(2) by simp
  then show "mmr_size m < 2 ^ 63" using mmr_treeD(2) [OF assms(1)] by linarith
  then show "\<not> of_nat (mmr_size m) > (of_nat (length (nodes t)) :: uint64)"
    using mmr_treeD [OF assms(1)] assms(2) of_nat64_less_iff [of "mmr_size n" "mmr_size m"] by simp
qed

context dtmmr_lib
begin

lemma RootFromPeaks_eq:
  "RootFromPeaks dt ps = (if ps = [] then zeroRoot else bag_peaks sha256 ps)"
  by (simp add: RootFromPeaks_def HashPeaksRHS)

lemma PeakHashesAt_eq:
  assumes "mmr_tree t n" "m \<le> n"
  shows "peakHashesAtLocked dt t (of_nat (mmr_size m)) = Inr (peaks_at t m)"
proof (cases "m = 0")
  case True
  then show ?thesis by (simp add: peakHashesAtLocked_def peaks_at_def)
next
  case False
  note b = tree_size_le [OF assms]
  have nz: "(of_nat (mmr_size m) :: uint64) \<noteq> 0"
    using False b(2) of_nat64_eq_iff [of "mmr_size m" 0] by simp
  have m1: "(of_nat (mmr_size m) :: uint64) - 1 = of_nat (mmr_size m - 1)"
    using False of_nat64_diff [of 1 "mmr_size m"] by (simp add: Suc_leI)
  have v: "validMMRSize dt (of_nat (mmr_size m))" using validMMRSize_of_nat [OF b(2)] by blast
  have "dt_PeakHashes dt (nodeStore_Get t) (of_nat (mmr_size m - 1)) = Inr (peaks_at t m)"
    unfolding peaks_at_def by (rule PeakHashes) (use False b tree_get_peaks [OF assms] in auto)
  then show ?thesis using b(1) nz m1 v by (simp add: peakHashesAtLocked_def)
qed

lemma Root_eq:
  assumes "mmr_tree t n"
  shows "Tree_Root dt t = Inr (RootFromPeaks dt (peaks_at t n))"
proof (cases "n = 0")
  case True
  then show ?thesis using mmr_treeD(1) [OF assms] by (simp add: Tree_Root_def RootFromPeaks_def peaks_at_def)
next
  case False
  have "dt_GetRoot dt (of_nat (mmr_size n)) (nodeStore_Get t) sha256
      = Inr (bag_peaks sha256 (map (\<lambda>p. nodes t ! p) (peak_positions n)))"
    by (rule GetRoot) (use False mmr_treeD [OF assms] tree_get_peaks [OF assms order_refl] in auto)
  moreover have "nodes t \<noteq> []" using mmr_treeD(1) [OF assms] False by auto
  ultimately show ?thesis
    using mmr_treeD(1) [OF assms] peak_positions_not_Nil [of n] False
    by (simp add: Tree_Root_def RootFromPeaks_eq peaks_at_def)
qed

end

lemma length_bag_peaks:
  "ps \<noteq> [] \<Longrightarrow> list_all (\<lambda>p. length p = 32) ps \<Longrightarrow> length (bag_peaks sha256 ps) = 32"
  by (induction sha256 ps rule: bag_peaks.induct) auto

context dtmmr_lib
begin

lemma length_RootFromPeaks:
  "list_all (\<lambda>p. length p = 32) ps \<Longrightarrow> length (RootFromPeaks dt ps) = 32"
  using length_bag_peaks by (simp add: RootFromPeaks_eq zeroRoot_def)

end

section \<open>Climbing a path\<close>

lemma climb_append:
  "length ss = length ws \<Longrightarrow>
   climb x (ss @ ss') (ws @ ws') = Option.bind (climb x ss ws) (\<lambda>y. climb y ss' ws')"
proof (induction ss ws arbitrary: x rule: list_induct2)
  case Nil
  then show ?case by simp
next
  case (Cons s ss w ws)
  then show ?case by simp
qed

lemma subtree_children_bounds:
  assumes "2 ^ Suc k dvd a" "peak_pos a (Suc k) < L"
  shows "2 ^ k dvd a" "2 ^ k dvd a + 2 ^ k" "peak_pos a k < L" "peak_pos (a + 2 ^ k) k < L"
  using dvd_half [OF assms(1)] peak_pos_left [of a k] peak_pos_right [OF assms(1)] assms(2)
  by auto

lemma path_up_siblings:
  assumes "2 ^ h dvd a" "peak_pos a h < L" "L < 2 ^ 64"
  shows "\<forall>s \<in> set (path_up a h b g). unat (sibling s) < L"
  using assms(1,2)
proof (induction h arbitrary: a)
  case (Suc k)
  note c = subtree_children_bounds [OF Suc.prems]
  have "unat (of_nat (peak_pos a k) :: uint64) < L" "unat (of_nat (peak_pos (a + 2 ^ k) k) :: uint64) < L"
    using c(3,4) assms(3) by (simp_all add: unat_of_nat64)
  then show ?case using Suc.IH [OF c(1,3)] Suc.IH [OF c(2,4)] by auto
qed simp

lemma climb_path_up:
  assumes ok: "node_hashes_ok ns" "length ns < 2 ^ 63"
    and sub: "2 ^ h dvd a" "2 ^ g dvd b" "a \<le> b" "b + 2 ^ g \<le> a + 2 ^ h" "peak_pos a h < length ns"
  shows "climb (ns ! peak_pos b g) (path_up a h b g)
      (map (\<lambda>s. ns ! unat (sibling s)) (path_up a h b g)) = Some (ns ! peak_pos a h)"
  using sub
proof (induction h arbitrary: a)
  case 0
  then have "g = 0 \<and> b = a" using within_eq by blast
  then show ?case by simp
next
  case (Suc k)
  show ?case
  proof (cases "Suc k \<le> g")
    case True
    then have "g = Suc k \<and> b = a" using within_eq Suc.prems by blast
    then show ?thesis by simp
  next
    case False
    then have gk: "g \<le> k" by simp
    note c = subtree_children_bounds [OF Suc.prems(1,5)]
    note ds = descend [OF Suc.prems(1-4) gk]
    note sp = node_split [OF ok(1) Suc.prems(1,5)]
    have w: "length (ns ! peak_pos a k) = 32" "length (ns ! peak_pos (a + 2 ^ k) k) = 32"
      using node_width [OF ok(1)] c by auto
    have u: "unat (of_nat (peak_pos a k) :: uint64) = peak_pos a k"
      "unat (of_nat (peak_pos (a + 2 ^ k) k) :: uint64) = peak_pos (a + 2 ^ k) k"
      using c ok(2) by (simp_all add: unat_of_nat64)
    show ?thesis
    proof (cases "b < a + 2 ^ k")
      case True
      then have "climb (ns ! peak_pos b g) (path_up a k b g)
          (map (\<lambda>s. ns ! unat (sibling s)) (path_up a k b g)) = Some (ns ! peak_pos a k)"
        using Suc.IH [OF c(1) Suc.prems(2,3) _ c(3)] ds(1) by blast
      then show ?thesis using True False w u sp by (simp add: climb_append hashSize_def)
    next
      case nb: False
      then have "climb (ns ! peak_pos b g) (path_up (a + 2 ^ k) k b g)
          (map (\<lambda>s. ns ! unat (sibling s)) (path_up (a + 2 ^ k) k b g))
          = Some (ns ! peak_pos (a + 2 ^ k) k)"
        using Suc.IH [OF c(2) Suc.prems(2) _ _ c(4)] ds(2) by blast
      then show ?thesis using nb False w u sp by (simp add: climb_append hashSize_def)
    qed
  qed
qed

lemma path_siblings_eq:
  assumes "2 ^ h dvd a" "peak_pos a h < length (nodes t)" "length (nodes t) < 2 ^ 63"
  shows "path_siblings t (path_up a h b g)
    = Inr (map (\<lambda>s. nodes t ! unat (sibling s)) (path_up a h b g))"
  unfolding path_siblings_def
  by (rule rmap_Inr) (use path_up_siblings [OF assms(1,2)] assms(3) in \<open>auto simp: idx_def\<close>)

section \<open>The mountain that contains a subtree\<close>

text \<open>
  Everything the generators and verifiers compute for a target subtree: the index of the
  mountain that contains it, the path to that mountain's peak, and the peak's place in the
  accumulator.
\<close>

context dtmmr_lib
begin

lemma locate:
  assumes m: "mmr_size m < 2 ^ 63" and sub: "2 ^ g dvd b" "b + 2 ^ g \<le> m"
  obtains k c h where "k < length (peak_positions m)" "peak_positions m ! k = peak_pos c h"
    "2 ^ h dvd c" "c \<le> b" "b + 2 ^ g \<le> c + 2 ^ h" "peak_pos c h < mmr_size m"
    "containingPeak dt (of_nat (peak_pos b g)) (map of_nat (peak_positions m)) = Some k"
    "pathToPeak (map of_nat (peak_positions m) ! k) (dt_IndexHeight dt (map of_nat (peak_positions m) ! k))
       (of_nat (peak_pos b g)) = Some (path_up c h b g)"
proof -
  have le: "b + 2 ^ g \<le> 0 + m" using sub(2) by simp
  obtain pre c h post where mt: "mountains 0 m = pre @ (c, h) # post" "c \<le> b" "b + 2 ^ g \<le> c + 2 ^ h"
    and pre: "\<forall>(c', h') \<in> set pre. c' + 2 ^ h' \<le> b \<and> 2 ^ h' dvd c'"
    by (rule mountains_cover [OF aligned_0 sub(1) le0 le])
  have ch: "2 ^ h dvd c" "c + 2 ^ h \<le> m" using mountains_mem [OF aligned_0, of c h m] mt(1) by auto
  have ps: "peak_pos c h < mmr_size m" by (rule peak_pos_less_size [OF ch])
  have k: "length pre < length (peak_positions m)" "peak_positions m ! length pre = peak_pos c h"
    unfolding peak_positions_def mt(1) by (simp_all add: nth_append)
  have tgt: "mmr_size c \<le> peak_pos b g" "peak_pos b g \<le> peak_pos c h"
    using mmr_size_le_peak_pos [of b g] mmr_size_le_iff [of c b] mt(2)
      peak_pos_within [OF ch(1) mt(2,3)] by linarith+
  have "peak_pos c' h' < peak_pos b g" if "(c', h') \<in> set pre" for c' h'
    using pre that peak_pos_less_size [of h' c' b] mmr_size_le_peak_pos [of b g] by fastforce
  then have cp: "containingPeak dt (of_nat (peak_pos b g)) (map of_nat (peak_positions m)) = Some (length pre)"
    using containingPeak_at [OF aligned_0 mt(1) m tgt] by blast
  have p63: "peak_pos c h < 2 ^ 63" using ps m by linarith
  have "pathToPeak (of_nat (peak_pos c h)) (dt_IndexHeight dt (of_nat (peak_pos c h)))
      (of_nat (peak_pos b g)) = Some (path_up c h b g)"
    using pathToPeak_eq [OF ch(1) sub(1) mt(2,3) p63] IndexHeight_peak [OF ch(1) p63] by simp
  then show thesis using that [OF k ch(1) mt(2,3) ps cp] k by simp
qed

section \<open>Inclusion proofs\<close>

lemma leafIndex_less:
  assumes "mmr_size m < 2 ^ 63" "i < m"
  shows "\<not> of_nat i \<ge> dt_LeafCount dt (of_nat (mmr_size m))" "dt_MMRIndex dt (of_nat i) = of_nat (mmr_size i)"
proof -
  have "m < 2 ^ 64" using le_mmr_size [of m] assms(1) by simp
  then show "\<not> of_nat i \<ge> dt_LeafCount dt (of_nat (mmr_size m))"
    using LeafCount [OF assms(1)] assms(2) of_nat64_le_iff [of m i] by simp
  have "mmr_size i < 2 ^ 63" using assms mmr_size_less [of i m] by linarith
  then show "dt_MMRIndex dt (of_nat i) = of_nat (mmr_size i)" by (rule MMRIndex)
qed

lemma inclusion_complete:
  assumes t: "mmr_tree t n" "m \<le> n" "i < m"
    and v: "length v = 32" "nodes t ! mmr_size i = leafHash v"
  shows "\<exists>pf. InclusionProofAt dt t (of_nat i) (of_nat (mmr_size m)) = Inr pf \<and>
    VerifyInclusion dt (RootFromPeaks dt (peaks_at t m)) (of_nat (mmr_size m)) (of_nat i) v pf"
proof -
  note b = tree_size_le [OF t(1,2)]
  have val: "validMMRSize dt (of_nat (mmr_size m))" using validMMRSize_of_nat [OF b(2)] by blast
  note li = leafIndex_less [OF b(2) t(3)]
  obtain k c h where k: "k < length (peak_positions m)" "peak_positions m ! k = peak_pos c h"
    and ch: "2 ^ h dvd c" "c \<le> i" "i + 2 ^ 0 \<le> c + 2 ^ h" "peak_pos c h < mmr_size m"
    and cp: "containingPeak dt (of_nat (peak_pos i 0)) (map of_nat (peak_positions m)) = Some k"
    and pt: "pathToPeak (map of_nat (peak_positions m) ! k)
        (dt_IndexHeight dt (map of_nat (peak_positions m) ! k)) (of_nat (peak_pos i 0)) = Some (path_up c h i 0)"
    using locate [OF b(2), of 0 i] t(3) by auto
  have nz: "(of_nat (mmr_size m) :: uint64) \<noteq> 0"
    using t(3) b(2) of_nat64_eq_iff [of "mmr_size m" 0] by simp
  have dp: "dt_Peaks dt (of_nat (mmr_size m) - 1) = map of_nat (peak_positions m)"
    using peakPositions_eq [OF b(2)] nz by (simp add: peakPositions_def)
  note pk = PeakHashesAt_eq [OF t(1,2)]
  have len: "peak_pos c h < length (nodes t)" "length (nodes t) < 2 ^ 63"
    using ch(4) t(2) mmr_treeD [OF t(1)] mmr_size_le_iff [of m n] by linarith+
  note sb = path_siblings_eq [OF ch(1) len]
  have cl: "climb (leafHash v) (path_up c h i 0)
      (map (\<lambda>s. nodes t ! unat (sibling s)) (path_up c h i 0)) = Some (peaks_at t m ! k)"
    using climb_path_up [OF mmr_treeD(3) [OF t(1)] len(2) ch(1) _ ch(2,3) len(1)] v(2) k
    by (simp add: peaks_at_def)
  let ?P = "peaks_at t m"
  let ?pf = "\<lparr>IpV = 1, IpKind = ''inclusion'', IpSize = of_nat (mmr_size m), IpLeafIndex = of_nat i,
    IpWitness = map (\<lambda>s. nodes t ! unat (sibling s)) (path_up c h i 0),
    IpPeaksLeft = take k ?P, IpPeaksRight = drop (Suc k) ?P\<rparr>"
  have "InclusionProofAt dt t (of_nat i) (of_nat (mmr_size m)) = Inr ?pf"
    using b(1) val li dp cp pt sb pk k(1) by (simp add: InclusionProofAt_def)
  moreover have "take k ?P @ ?P ! k # drop (Suc k) ?P = ?P"
    using k(1) by (simp add: id_take_nth_drop [symmetric])
  moreover have "list_all (\<lambda>p. length p = 32) ?P" by (rule peaks_at_width [OF t(1,2)])
  moreover have "length (RootFromPeaks dt ?P) = 32" by (rule length_RootFromPeaks) fact
  ultimately show ?thesis
    using val li cp pt cl v(1) k(1) peakPositions_eq [OF b(2)]
    by (simp add: VerifyInclusion_def hashSize_def)
qed

end

end
