(* ===== verification/Mmr_Consistency.thy ===== *)
theory Mmr_Consistency
  imports Mmr_Complete
begin

text \<open>
  Completeness of consistency proofs: \<open>ConsistencyProofAt\<close> succeeds for every pair of historical
  sizes of a well-formed tree, and \<open>VerifyConsistency\<close> accepts its result for the two roots.
\<close>

lemma rmap_ex:
  "(\<And>x. x \<in> set xs \<Longrightarrow> \<exists>y. f x = Inr y \<and> P x y) \<Longrightarrow> \<exists>ys. rmap f xs = Inr ys \<and> list_all2 P xs ys"
proof (induction xs)
  case (Cons x xs)
  obtain y where "f x = Inr y" "P x y" using Cons.prems by auto
  moreover obtain ys where "rmap f xs = Inr ys" "list_all2 P xs ys" using Cons by fastforce
  ultimately show ?case by simp
qed simp

lemma rmap_map: "rmap f (map g xs) = rmap (f \<circ> g) xs"
  by (induction xs) simp_all

lemma peak_positions_mem:
  assumes "p \<in> set (peak_positions m)"
  obtains b g where "p = peak_pos b g" "2 ^ g dvd b" "b + 2 ^ g \<le> m"
  using assms mountains_mem [OF aligned_0, of _ _ m] by (auto simp: peak_positions_def)

context dtmmr_lib
begin

lemma old_peak_complete:
  assumes t: "mmr_tree t n" "r \<le> n" and sub: "2 ^ g dvd b" "b + 2 ^ g \<le> r"
  shows "\<exists>w. oldPeakWitness dt t (map of_nat (peak_positions r)) (of_nat (peak_pos b g)) = Inr w \<and>
    check_old_peak dt (map of_nat (peak_positions r)) (peaks_at t r) (of_nat (peak_pos b g))
      (nodes t ! peak_pos b g) w"
proof -
  note b = tree_size_le [OF t]
  obtain k c h where k: "k < length (peak_positions r)" "peak_positions r ! k = peak_pos c h"
    and ch: "2 ^ h dvd c" "c \<le> b" "b + 2 ^ g \<le> c + 2 ^ h" "peak_pos c h < mmr_size r"
    and cp: "containingPeak dt (of_nat (peak_pos b g)) (map of_nat (peak_positions r)) = Some k"
    and pt: "pathToPeak (map of_nat (peak_positions r) ! k)
        (dt_IndexHeight dt (map of_nat (peak_positions r) ! k)) (of_nat (peak_pos b g)) = Some (path_up c h b g)"
    by (rule locate [OF b(2) sub])
  have len: "peak_pos c h < length (nodes t)" "length (nodes t) < 2 ^ 63"
    using ch(4) t(2) mmr_treeD [OF t(1)] mmr_size_le_iff [of r n] by linarith+
  have "climb (nodes t ! peak_pos b g) (path_up c h b g)
      (map (\<lambda>s. nodes t ! unat (sibling s)) (path_up c h b g)) = Some (peaks_at t r ! k)"
    using climb_path_up [OF mmr_treeD(3) [OF t(1)] len(2) ch(1) sub(1) ch(2,3) len(1)] k
    by (simp add: peaks_at_def)
  then show ?thesis
    using cp pt path_siblings_eq [OF ch(1) len, of b g]
    by (simp add: oldPeakWitness_def check_old_peak_def)
qed

lemma consistency_complete:
  assumes t: "mmr_tree t n" "r \<le> n" "m \<le> r"
  shows "\<exists>pf. ConsistencyProofAt dt t (of_nat (mmr_size m)) (of_nat (mmr_size r)) = Inr pf \<and>
    CpOldSize pf = of_nat (mmr_size m) \<and> CpNewSize pf = of_nat (mmr_size r) \<and>
    VerifyConsistency dt (RootFromPeaks dt (peaks_at t m)) (RootFromPeaks dt (peaks_at t r)) pf"
proof -
  have mn: "m \<le> n" using t by simp
  note bm = tree_size_le [OF t(1) mn] and br = tree_size_le [OF t(1,2)]
  have val: "validMMRSize dt (of_nat (mmr_size m))" "validMMRSize dt (of_nat (mmr_size r))"
    using validMMRSize_of_nat bm(2) br(2) by blast+
  have le: "\<not> of_nat (mmr_size m) > (of_nat (mmr_size r) :: uint64)"
    using of_nat64_less_iff [of "mmr_size r" "mmr_size m"] bm(2) br(2) t(3) by simp
  let ?new = "map of_nat (peak_positions r) :: uint64 list"
  let ?P = "\<lambda>p w. check_old_peak dt ?new (peaks_at t r) (of_nat p) (nodes t ! p) w"
  have one: "\<exists>w. oldPeakWitness dt t ?new (of_nat p) = Inr w \<and> ?P p w"
    if p: "p \<in> set (peak_positions m)" for p
  proof -
    obtain b g where bg: "p = peak_pos b g" "2 ^ g dvd b" "b + 2 ^ g \<le> m"
      by (rule peak_positions_mem [OF p])
    then have "b + 2 ^ g \<le> r" using t(3) by linarith
    then show ?thesis using old_peak_complete [OF t(1,2) bg(2)] bg(1) by blast
  qed
  obtain ws where ws: "rmap (\<lambda>p. oldPeakWitness dt t ?new (of_nat p)) (peak_positions m) = Inr ws"
    "list_all2 ?P (peak_positions m) ws"
    using rmap_ex [of "peak_positions m" "\<lambda>p. oldPeakWitness dt t ?new (of_nat p)" ?P, OF one] by blast
  have ws': "rmap (oldPeakWitness dt t ?new) (map of_nat (peak_positions m)) = Inr ws"
    using ws(1) by (simp add: rmap_map comp_def)
  have wd: "list_all (\<lambda>p. length p = 32) (peaks_at t m)" "list_all (\<lambda>p. length p = 32) (peaks_at t r)"
    using peaks_at_width [OF t(1) mn] peaks_at_width [OF t(1,2)] by blast+
  have chk: "check_old_peak dt ?new (peaks_at t r) (of_nat (peak_positions m ! i)) (peaks_at t m ! i) (ws ! i)"
    if "i < length (peak_positions m)" for i
    using ws(2) that by (auto simp: list_all2_conv_all_nth peaks_at_def)
  have lw: "length ws = length (peak_positions m)" using ws(2) by (simp add: list_all2_lengthD)
  show ?thesis
    using le bm br val PeakHashesAt_eq [OF t(1) mn] PeakHashesAt_eq [OF t(1,2)] ws'
      length_RootFromPeaks wd lw chk peakPositions_eq [OF bm(2)] peakPositions_eq [OF br(2)]
    by (simp add: ConsistencyProofAt_def VerifyConsistency_def hashSize_def list_all_iff ball_Un)
qed

end

end
