(* ===== verification/Mmr_Range.thy ===== *)
theory Mmr_Range
  imports Mmr_Consistency
begin

text \<open>
  Completeness of range proofs: the witness list \<open>RangeProofAt\<close> produces is consumed exactly by
  the reconstruction of \<open>VerifyRange\<close>, which rebuilds every peak of the tree.
\<close>

section \<open>One level of the recursions\<close>

lemma subtree_leaf_bound:
  assumes "peak_pos a h < 2 ^ 63"
  shows "a + 2 ^ h \<le> 2 ^ 63" "(of_nat a :: uint64) + push_bit (unat (of_nat h :: uint64)) 1 - 1 = of_nat (a + 2 ^ h - 1)"
proof -
  show "a + 2 ^ h \<le> 2 ^ 63"
    using assms le_mmr_size [of a] pow2_ge1 [of h] unfolding peak_pos_def by linarith
  have "of_nat a + push_bit h (1 :: uint64) - 1 = of_nat (a + 2 ^ h) - of_nat 1"
    by (simp add: push_bit64_one)
  also have "\<dots> = of_nat (a + 2 ^ h - 1)" using pow2_ge1 [of h] by (intro of_nat64_diff) linarith
  finally show "(of_nat a :: uint64) + push_bit (unat (of_nat h :: uint64)) 1 - 1 = of_nat (a + 2 ^ h - 1)"
    using unat_height [OF height_less_63 [OF assms]] by simp
qed

lemma subtree_child_words:
  assumes "2 ^ Suc k dvd a" "peak_pos a (Suc k) < 2 ^ 63"
  shows "(of_nat (peak_pos a (Suc k)) :: uint64) - push_bit (unat (of_nat (Suc k) :: uint64)) 1 = of_nat (peak_pos a k)"
    "(of_nat (peak_pos a (Suc k)) :: uint64) - 1 = of_nat (peak_pos (a + 2 ^ k) k)"
    "(of_nat (Suc k) :: uint64) - 1 = of_nat k"
    "(of_nat a :: uint64) + push_bit (unat (of_nat k :: uint64)) 1 = of_nat (a + 2 ^ k)"
    "(of_nat (Suc k) :: uint64) \<noteq> 0"
proof -
  have k: "Suc k < 63" by (rule height_less_63 [OF assms(2)])
  note u = unat_height [OF k] unat_height [of k]
  show "(of_nat (peak_pos a (Suc k)) :: uint64) - push_bit (unat (of_nat (Suc k) :: uint64)) 1 = of_nat (peak_pos a k)"
    using of_nat64_diff [OF peak_pos_ge [of k a]] peak_pos_left [of a k]
    by (metis push_bit64_one u(1))
  have "1 \<le> peak_pos a (Suc k)" using peak_pos_ge [of k a] pow2_ge1 [of "Suc k"] by linarith
  then show "(of_nat (peak_pos a (Suc k)) :: uint64) - 1 = of_nat (peak_pos (a + 2 ^ k) k)"
    using of_nat64_diff [of 1 "peak_pos a (Suc k)"] peak_pos_right [OF assms(1)] by (metis of_nat_1)
  show "(of_nat (Suc k) :: uint64) - 1 = of_nat k" by simp
  show "(of_nat a :: uint64) + push_bit (unat (of_nat k :: uint64)) 1 = of_nat (a + 2 ^ k)"
    using u(2) k by (simp add: push_bit64_one)
  show "(of_nat (Suc k) :: uint64) \<noteq> 0" using u(1) by (metis unat_0 nat.distinct(1))
qed

lemma outside_words:
  assumes "peak_pos a h < 2 ^ 63" "lo < 2 ^ 63" "hi < 2 ^ 63"
  shows "(of_nat (a + 2 ^ h - 1) :: uint64) < of_nat lo \<longleftrightarrow> a + 2 ^ h \<le> lo"
    "(of_nat a :: uint64) > of_nat hi \<longleftrightarrow> hi < a"
    "(of_nat a :: uint64) \<ge> of_nat lo \<longleftrightarrow> lo \<le> a"
    "(of_nat (a + 2 ^ h - 1) :: uint64) \<le> of_nat hi \<longleftrightarrow> a + 2 ^ h \<le> Suc hi"
proof -
  have b: "a + 2 ^ h - 1 < 2 ^ 64" "a < 2 ^ 64" "lo < 2 ^ 64" "hi < 2 ^ 64"
    using subtree_leaf_bound(1) [OF assms(1)] assms(2,3) by simp_all
  show "(of_nat (a + 2 ^ h - 1) :: uint64) < of_nat lo \<longleftrightarrow> a + 2 ^ h \<le> lo"
    using of_nat64_less_iff [OF b(1,3)] pow2_ge1 [of h] by linarith
  show "(of_nat a :: uint64) > of_nat hi \<longleftrightarrow> hi < a" by (rule of_nat64_less_iff [OF b(4,2)])
  show "(of_nat a :: uint64) \<ge> of_nat lo \<longleftrightarrow> lo \<le> a" by (rule of_nat64_le_iff [OF b(3,2)])
  show "(of_nat (a + 2 ^ h - 1) :: uint64) \<le> of_nat hi \<longleftrightarrow> a + 2 ^ h \<le> Suc hi"
    using of_nat64_le_iff [OF b(1,4)] pow2_ge1 [of h] by linarith
qed

text \<open>The two recursions at a subtree given by its first leaf and its height.\<close>

lemma reconstruct_outside:
  assumes "peak_pos a h < 2 ^ 63" "lo < 2 ^ 63" "hi < 2 ^ 63" "a + 2 ^ h \<le> lo \<or> hi < a"
  shows "reconstructRangeSubtree (of_nat (peak_pos a h)) (of_nat h) (of_nat a) (of_nat lo) (of_nat hi) D w cur
    = (if cur \<ge> length w then None else Some (w ! cur, Suc cur))"
  using assms(4) subtree_leaf_bound(2) [OF assms(1)] outside_words [OF assms(1-3)]
  by (simp add: reconstructRangeSubtree.simps Let_def)

lemma reconstruct_leaf:
  assumes "mmr_size a < 2 ^ 63" "lo < 2 ^ 63" "hi < 2 ^ 63" "lo \<le> a" "a \<le> hi"
  shows "reconstructRangeSubtree (of_nat (mmr_size a)) 0 (of_nat a) (of_nat lo) (of_nat hi) D w cur
    = map_option (\<lambda>body. (leafHash body, cur)) (D (of_nat a))"
  using assms(4,5) outside_words [of a 0 lo hi] assms(1-3)
  by (simp add: reconstructRangeSubtree.simps Let_def split: option.split)

lemma reconstruct_node:
  assumes "2 ^ Suc k dvd a" "peak_pos a (Suc k) < 2 ^ 63" "lo < 2 ^ 63" "hi < 2 ^ 63"
    "\<not> (a + 2 ^ Suc k \<le> lo \<or> hi < a)"
  shows "reconstructRangeSubtree (of_nat (peak_pos a (Suc k))) (of_nat (Suc k)) (of_nat a) (of_nat lo) (of_nat hi) D w cur
    = (case reconstructRangeSubtree (of_nat (peak_pos a k)) (of_nat k) (of_nat a) (of_nat lo) (of_nat hi) D w cur of
         None \<Rightarrow> None
       | Some (left, cur') \<Rightarrow>
           (case reconstructRangeSubtree (of_nat (peak_pos (a + 2 ^ k) k)) (of_nat k) (of_nat (a + 2 ^ k))
                   (of_nat lo) (of_nat hi) D w cur' of
              None \<Rightarrow> None
            | Some (right, cur'') \<Rightarrow> Some (interiorHash left right (of_nat (peak_pos a (Suc k))), cur'')))"
proof -
  have out: "\<not> ((of_nat a :: uint64) + push_bit (unat (of_nat (Suc k) :: uint64)) 1 - 1 < of_nat lo
      \<or> (of_nat a :: uint64) > of_nat hi)"
    using assms(5) subtree_leaf_bound(2) [OF assms(2)] outside_words(1,2) [OF assms(2-4)] by simp
  show ?thesis
    by (subst reconstructRangeSubtree.simps)
      (simp only: Let_def out if_False subtree_child_words [OF assms(1,2)])
qed

lemma rangeWitnesses_outside:
  assumes "peak_pos a h < length (nodes t)" "length (nodes t) < 2 ^ 63" "lo < 2 ^ 63" "hi < 2 ^ 63"
    "a + 2 ^ h \<le> lo \<or> hi < a"
  shows "rangeWitnesses t (of_nat (peak_pos a h)) (of_nat h) (of_nat a) (of_nat lo) (of_nat hi) out
    = Inr (out @ [nodes t ! peak_pos a h])"
proof -
  have p: "peak_pos a h < 2 ^ 63" using assms(1,2) by linarith
  show ?thesis
    using assms(5) subtree_leaf_bound(2) [OF p] outside_words [OF p assms(3,4)]
      idx_of_nat [OF assms(1,2)]
    by (simp add: rangeWitnesses.simps Let_def)
qed

lemma rangeWitnesses_inside:
  assumes "peak_pos a h < 2 ^ 63" "lo < 2 ^ 63" "hi < 2 ^ 63" "lo \<le> a" "a + 2 ^ h \<le> Suc hi"
  shows "rangeWitnesses t (of_nat (peak_pos a h)) (of_nat h) (of_nat a) (of_nat lo) (of_nat hi) out
    = Inr out"
proof -
  have "\<not> (a + 2 ^ h \<le> lo \<or> hi < a)" using assms(4,5) pow2_ge1 [of h] by linarith
  then show ?thesis
    using assms(4,5) subtree_leaf_bound(2) [OF assms(1)] outside_words [OF assms(1-3)]
    by (simp add: rangeWitnesses.simps Let_def)
qed

lemma rangeWitnesses_node:
  assumes "2 ^ Suc k dvd a" "peak_pos a (Suc k) < 2 ^ 63" "lo < 2 ^ 63" "hi < 2 ^ 63"
    "\<not> (a + 2 ^ Suc k \<le> lo \<or> hi < a)" "\<not> (lo \<le> a \<and> a + 2 ^ Suc k \<le> Suc hi)"
  shows "rangeWitnesses t (of_nat (peak_pos a (Suc k))) (of_nat (Suc k)) (of_nat a) (of_nat lo) (of_nat hi) out
    = rbind (rangeWitnesses t (of_nat (peak_pos a k)) (of_nat k) (of_nat a) (of_nat lo) (of_nat hi) out)
        (rangeWitnesses t (of_nat (peak_pos (a + 2 ^ k) k)) (of_nat k) (of_nat (a + 2 ^ k)) (of_nat lo) (of_nat hi))"
proof -
  have out: "\<not> ((of_nat a :: uint64) + push_bit (unat (of_nat (Suc k) :: uint64)) 1 - 1 < of_nat lo
      \<or> (of_nat a :: uint64) > of_nat hi)"
    "\<not> ((of_nat a :: uint64) \<ge> of_nat lo \<and> of_nat a + push_bit (unat (of_nat (Suc k) :: uint64)) 1 - 1 \<le> (of_nat hi :: uint64))"
    using assms(5,6) subtree_leaf_bound(2) [OF assms(2)] outside_words [OF assms(2-4)] by simp_all
  show ?thesis
    by (subst rangeWitnesses.simps)
      (simp only: Let_def out if_False subtree_child_words [OF assms(1,2)])
qed


section \<open>The witness list\<close>

text \<open>The nodes a range proof carries for one subtree: the maximal subtrees outside the range.\<close>

fun range_wit :: "bytes list \<Rightarrow> nat \<Rightarrow> nat \<Rightarrow> nat \<Rightarrow> nat \<Rightarrow> bytes list" where
  "range_wit ns a 0 lo hi = (if Suc a \<le> lo \<or> hi < a then [ns ! mmr_size a] else [])"
| "range_wit ns a (Suc k) lo hi =
     (if a + 2 ^ Suc k \<le> lo \<or> hi < a then [ns ! peak_pos a (Suc k)]
      else range_wit ns a k lo hi @ range_wit ns (a + 2 ^ k) k lo hi)"

lemma range_wit_inside: "lo \<le> a \<Longrightarrow> a + 2 ^ h \<le> Suc hi \<Longrightarrow> range_wit ns a h lo hi = []"
proof (induction h arbitrary: a)
  case (Suc k)
  have "\<not> (a + 2 ^ Suc k \<le> lo \<or> hi < a)" using Suc.prems pow2_ge1 [of "Suc k"] by linarith
  moreover have "a + 2 ^ k \<le> Suc hi" "a + 2 ^ k + 2 ^ k \<le> Suc hi" using Suc.prems by simp_all
  ultimately show ?case using Suc.IH [of a] Suc.IH [of "a + 2 ^ k"] Suc.prems(1) by simp
qed simp

lemma range_wit_outside:
  "a + 2 ^ h \<le> lo \<or> hi < a \<Longrightarrow> range_wit ns a h lo hi = [ns ! peak_pos a h]"
  by (cases h) auto

lemma rangeWitnesses_eq:
  assumes "2 ^ h dvd a" "peak_pos a h < length (nodes t)" "length (nodes t) < 2 ^ 63"
    and r: "lo < 2 ^ 63" "hi < 2 ^ 63"
  shows "rangeWitnesses t (of_nat (peak_pos a h)) (of_nat h) (of_nat a) (of_nat lo) (of_nat hi) out
    = Inr (out @ range_wit (nodes t) a h lo hi)"
  using assms(1-2)
proof (induction h arbitrary: a out)
  case 0
  note p = rangeWitnesses_outside [of a 0 t lo hi] rangeWitnesses_inside [of a 0 lo hi t]
  show ?case
  proof (cases "Suc a \<le> lo \<or> hi < a")
    case True
    then show ?thesis using p(1) [OF 0(2) assms(3) r] by simp
  next
    case False
    then show ?thesis using p(2) [OF _ r] 0(2) assms(3) by simp
  qed
next
  case (Suc k)
  have p: "peak_pos a (Suc k) < 2 ^ 63" using Suc.prems(2) assms(3) by linarith
  note c = subtree_children_bounds [OF Suc.prems]
  consider (out) "a + 2 ^ Suc k \<le> lo \<or> hi < a" | (ins) "lo \<le> a \<and> a + 2 ^ Suc k \<le> Suc hi"
    | (part) "\<not> (a + 2 ^ Suc k \<le> lo \<or> hi < a)" "\<not> (lo \<le> a \<and> a + 2 ^ Suc k \<le> Suc hi)"
    by blast
  then show ?case
  proof cases
    case out
    then show ?thesis using rangeWitnesses_outside [OF Suc.prems(2) assms(3) r] by simp
  next
    case ins
    then have "range_wit (nodes t) a (Suc k) lo hi = []" by (intro range_wit_inside) auto
    then show ?thesis using rangeWitnesses_inside [OF p r] ins by simp
  next
    case part
    show ?thesis
      using rangeWitnesses_node [OF Suc.prems(1) p r part] Suc.IH [OF c(1,3)] Suc.IH [OF c(2,4)] part
      by simp
  qed
qed

section \<open>Reconstruction from the honest witness\<close>

lemma reconstruct_complete:
  assumes ok: "node_hashes_ok ns" "length ns < 2 ^ 63" and r: "lo < 2 ^ 63" "hi < 2 ^ 63"
    and D: "\<And>i. lo \<le> i \<Longrightarrow> i \<le> hi \<Longrightarrow> \<exists>v. D (of_nat i) = Some v \<and> ns ! mmr_size i = leafHash v"
    and sub: "2 ^ h dvd a" "peak_pos a h < length ns"
  shows "reconstructRangeSubtree (of_nat (peak_pos a h)) (of_nat h) (of_nat a) (of_nat lo) (of_nat hi) D
      (pre @ range_wit ns a h lo hi @ post) (length pre)
    = Some (ns ! peak_pos a h, length (pre @ range_wit ns a h lo hi))"
  using sub
proof (induction h arbitrary: a pre post)
  case 0
  have p: "peak_pos a 0 < 2 ^ 63" using 0(2) ok(2) by linarith
  show ?case
  proof (cases "a + 2 ^ 0 \<le> lo \<or> hi < a")
    case True
    then show ?thesis using reconstruct_outside [OF p r] by simp
  next
    case False
    then obtain v where "D (of_nat a) = Some v" "ns ! mmr_size a = leafHash v" using D [of a] by auto
    then show ?thesis using reconstruct_leaf [of a lo hi D] p r False by simp
  qed
next
  case (Suc k)
  have p: "peak_pos a (Suc k) < 2 ^ 63" using Suc.prems(2) ok(2) by linarith
  note c = subtree_children_bounds [OF Suc.prems]
  show ?case
  proof (cases "a + 2 ^ Suc k \<le> lo \<or> hi < a")
    case True
    then show ?thesis using reconstruct_outside [OF p r] by simp
  next
    case False
    let ?l = "range_wit ns a k lo hi" and ?r = "range_wit ns (a + 2 ^ k) k lo hi"
    have "range_wit ns a (Suc k) lo hi = ?l @ ?r" using False by simp
    then show ?thesis
      using reconstruct_node [OF Suc.prems(1) p r False] node_split [OF ok(1) Suc.prems]
        Suc.IH [OF c(1,3), of pre "?r @ post"] Suc.IH [OF c(2,4), of "pre @ ?l" post]
      by simp
  qed
qed

section \<open>All peaks\<close>

lemma mountain_node_facts:
  assumes "(c, h) \<in> set (mountains a r)" "aligned a r" "a + r \<le> n" "mmr_size n < 2 ^ 63"
  shows "2 ^ h dvd c" "peak_pos c h < mmr_size n" "peak_pos c h < 2 ^ 63"
proof -
  show "2 ^ h dvd c" using mountains_mem [OF assms(2,1)] by simp
  moreover have "c + 2 ^ h \<le> n" using mountains_mem [OF assms(2,1)] assms(3) by simp
  ultimately show "peak_pos c h < mmr_size n" by (rule peak_pos_less_size)
  then show "peak_pos c h < 2 ^ 63" using assms(4) by linarith
qed

definition range_wits :: "bytes list \<Rightarrow> nat \<Rightarrow> nat \<Rightarrow> (nat \<times> nat) list \<Rightarrow> bytes list" where
  "range_wits ns lo hi ms = concat (map (\<lambda>(c, h). range_wit ns c h lo hi) ms)"

context dtmmr_lib
begin

lemma mountain_next_leaf:
  assumes "2 ^ h dvd c" "peak_pos c h < 2 ^ 63"
  shows "(of_nat c :: uint64) + push_bit (unat (dt_IndexHeight dt (of_nat (peak_pos c h)))) 1 = of_nat (c + 2 ^ h)"
  using IndexHeight_peak [OF assms] unat_height [OF height_less_63 [OF assms(2)]]
  by (simp add: push_bit64_one)

lemma rangeProof_peaks_eq:
  assumes "aligned a r" "a + r \<le> n" "mmr_tree t n" "lo < 2 ^ 63" "hi < 2 ^ 63"
  shows "rangeProof_peaks dt t (of_nat lo) (of_nat hi)
      (map (\<lambda>(c, h). of_nat (peak_pos c h)) (mountains a r)) (of_nat a) out
    = Inr (out @ range_wits (nodes t) lo hi (mountains a r))"
  using assms(1,2)
proof (induction a r arbitrary: out rule: mountains_induct)
  case (empty a)
  then show ?case by (simp add: range_wits_def)
next
  case (step a n')
  let ?k = "ilog2 n'"
  note b = mmr_treeD [OF assms(3)]
  have mem: "(a, ?k) \<in> set (mountains a n')" using step.hyps by (simp add: mountains_Cons)
  have al: "aligned a n'" using step.hyps by (simp add: aligned_def)
  note m = mountain_node_facts [OF mem al step.prems b(2)]
  have "rangeWitnesses t (of_nat (peak_pos a ?k)) (of_nat ?k) (of_nat a) (of_nat lo) (of_nat hi) out
      = Inr (out @ range_wit (nodes t) a ?k lo hi)"
    using rangeWitnesses_eq [OF m(1) _ _ assms(4,5)] m(2) b by simp
  then show ?case
    using step mountains_Cons [of n' a] IndexHeight_peak [OF m(1,3)] mountain_next_leaf [OF m(1,3)]
    by (simp add: range_wits_def)
qed

lemma reconstruct_peaks_complete:
  assumes "aligned a r" "a + r \<le> n" "node_hashes_ok ns" "length ns = mmr_size n" "mmr_size n < 2 ^ 63"
    "lo < 2 ^ 63" "hi < 2 ^ 63"
    and D: "\<And>i. lo \<le> i \<Longrightarrow> i \<le> hi \<Longrightarrow> \<exists>v. D (of_nat i) = Some v \<and> ns ! mmr_size i = leafHash v"
  shows "reconstruct_peaks dt (of_nat lo) (of_nat hi) D (pre @ range_wits ns lo hi (mountains a r) @ post)
      (map (\<lambda>(c, h). of_nat (peak_pos c h)) (mountains a r)) (of_nat a) (length pre)
    = Some (map (\<lambda>(c, h). ns ! peak_pos c h) (mountains a r),
        length (pre @ range_wits ns lo hi (mountains a r)))"
  using assms(1,2)
proof (induction a r arbitrary: pre post rule: mountains_induct)
  case (empty a)
  then show ?case by (simp add: range_wits_def)
next
  case (step a n')
  let ?k = "ilog2 n'"
  have mem: "(a, ?k) \<in> set (mountains a n')" using step.hyps by (simp add: mountains_Cons)
  have al: "aligned a n'" using step.hyps by (simp add: aligned_def)
  note m = mountain_node_facts [OF mem al step.prems assms(5)]
  have len: "length ns < 2 ^ 63" "peak_pos a ?k < length ns" using assms(4,5) m(2) by simp_all
  let ?w = "range_wit ns a ?k lo hi" and ?ms = "mountains (a + 2 ^ ?k) (n' - 2 ^ ?k)"
  note rc = reconstruct_complete [OF assms(3) len(1) assms(6,7) D m(1) len(2),
      of pre "range_wits ns lo hi ?ms @ post"]
  have "a + 2 ^ ?k + (n' - 2 ^ ?k) \<le> n" using step by simp
  from step.IH [OF this, of "pre @ ?w" post] rc show ?case
    using mountains_Cons [OF step.hyps(1), of a] IndexHeight_peak [OF m(1,3)] mountain_next_leaf [OF m(1,3)]
    by (simp add: range_wits_def)
qed

end

lemma range_wit_nodes:
  "2 ^ h dvd a \<Longrightarrow> peak_pos a h < length ns \<Longrightarrow> x \<in> set (range_wit ns a h lo hi) \<Longrightarrow> x \<in> set ns"
proof (induction h arbitrary: a)
  case (Suc k)
  note c = subtree_children_bounds [OF Suc.prems(1,2)]
  then show ?case
    using Suc.IH [OF c(1,3)] Suc.IH [OF c(2,4)] Suc.prems by (auto split: if_splits)
qed (auto split: if_splits)

lemma range_wits_width:
  assumes t: "mmr_tree t n" "m \<le> n"
  shows "list_all (\<lambda>x. length x = 32) (range_wits (nodes t) lo hi (mountains 0 m))"
  unfolding list_all_iff
proof
  fix x assume "x \<in> set (range_wits (nodes t) lo hi (mountains 0 m))"
  then obtain c h where ch: "(c, h) \<in> set (mountains 0 m)" "x \<in> set (range_wit (nodes t) c h lo hi)"
    by (auto simp: range_wits_def)
  have "2 ^ h dvd c" "peak_pos c h < length (nodes t)"
    using mountain_node_facts [OF ch(1) aligned_0 _ mmr_treeD(2) [OF t(1)]] t(2) mmr_treeD(1) [OF t(1)]
    by simp_all
  then have "x \<in> set (nodes t)" using ch(2) by (rule range_wit_nodes)
  then show "length x = 32" using node_width [OF mmr_treeD(3) [OF t(1)]] by (auto simp: in_set_conv_nth)
qed

lemma digestsByIndex_nth:
  assumes "lo + i < 2 ^ 64" "i < length body" "lo + length body \<le> 2 ^ 64"
  shows "digestsByIndex (of_nat lo) body (of_nat (lo + i)) = Some (body ! i)"
proof -
  let ?ks = "map (\<lambda>index. of_nat lo + of_nat index :: uint64) [0..<length body]"
  have "inj_on (\<lambda>index. of_nat (lo + index) :: uint64) {0..<length body}"
    by (rule inj_onI) (use assms(3) in \<open>auto simp: of_nat64_eq_iff simp del: of_nat_add\<close>)
  then have "distinct ?ks" by (simp add: distinct_map)
  then have "map_of (zip ?ks body) (?ks ! i) = Some (body ! i)"
    using assms(2) by (intro map_of_zip_nth) auto
  then show ?thesis using assms(2) by (simp add: digestsByIndex_def)
qed

context dtmmr_lib
begin

lemma range_complete:
  assumes t: "mmr_tree t n" "m \<le> n" and r: "lo \<le> hi" "hi < m" and sz: "mmr_size m < 2 ^ 50"
    and body: "length body = Suc hi - lo"
      "\<And>i. i < length body \<Longrightarrow> length (body ! i) = 32 \<and> nodes t ! mmr_size (lo + i) = leafHash (body ! i)"
  shows "\<exists>pf. RangeProofAt dt t (of_nat lo) (of_nat hi) (of_nat (mmr_size m)) = Inr pf \<and>
    VerifyRange dt (RootFromPeaks dt (peaks_at t m)) (of_nat (mmr_size m)) (of_nat lo) (of_nat hi) body pf"
proof -
  note b = tree_size_le [OF t]
  have lm: "m < 2 ^ 63" "lo < 2 ^ 63" "hi < 2 ^ 63"
    using le_mmr_size [of m] sz r by simp_all
  have val: "validMMRSize dt (of_nat (mmr_size m))" using validMMRSize_of_nat [OF b(2)] by blast
  have ord: "\<not> (of_nat hi :: uint64) < of_nat lo" "\<not> (of_nat hi :: uint64) \<ge> of_nat m"
    using of_nat64_less_iff [of hi lo] of_nat64_le_iff [of m hi] lm r by simp_all
  have maxs: "\<not> of_nat (mmr_size m) \<ge> maxMMRSize"
    using of_nat64_le_iff [of "2 ^ 50" "mmr_size m"] sz by (simp add: maxMMRSize_def)
  have cnt: "of_nat (length body) = (of_nat hi :: uint64) - of_nat lo + 1"
    using of_nat64_diff [OF r(1)] body(1) r(1) by (simp add: Suc_diff_le)
  have D: "\<exists>v. digestsByIndex (of_nat lo) body (of_nat i) = Some v \<and> nodes t ! mmr_size i = leafHash v"
    if "lo \<le> i" "i \<le> hi" for i
    using digestsByIndex_nth [of lo "i - lo" body] body(2) [of "i - lo"] body(1) that lm by auto
  let ?w = "range_wits (nodes t) lo hi (mountains 0 m)"
  have pp: "peakPositions dt (of_nat (mmr_size m)) = map (\<lambda>(c, h). of_nat (peak_pos c h)) (mountains 0 m)"
    using peakPositions_eq [OF b(2)] by (simp add: peak_positions_def case_prod_unfold comp_def)
  have gen: "rangeProof_peaks dt t (of_nat lo) (of_nat hi) (peakPositions dt (of_nat (mmr_size m))) 0 [] = Inr ?w"
    using rangeProof_peaks_eq [OF aligned_0 _ t(1) lm(2,3), of m "[]"] t(2) pp by simp
  note tt = mmr_treeD [OF t(1)]
  have rec: "reconstruct_peaks dt (of_nat lo) (of_nat hi) (digestsByIndex (of_nat lo) body) ?w
      (peakPositions dt (of_nat (mmr_size m))) 0 0 = Some (peaks_at t m, length ?w)"
    using reconstruct_peaks_complete [OF aligned_0 _ tt(3,1,2) lm(2,3) D, of m "[]" "[]"] t(2) pp
    by (simp add: peaks_at_def peak_positions_def case_prod_unfold comp_def)
  have wd: "list_all (\<lambda>x. length x = 32) ?w" by (rule range_wits_width [OF t])
  have bd: "list_all (\<lambda>x. length x = 32) body" using body(2) by (auto simp: list_all_length)
  have root: "length (RootFromPeaks dt (peaks_at t m)) = 32"
    by (rule length_RootFromPeaks [OF peaks_at_width [OF t]])
  show ?thesis
    using ord b val gen rec wd bd root maxs cnt LeafCount [OF b(2)] LeafCount_valid [OF b(2)]
    by (simp add: RangeProofAt_def VerifyRange_def hashSize_def)
qed

end

end
