(* ===== verification/Mmr_Sound.thy ===== *)
theory Mmr_Sound
  imports Mmr_Range
begin

text \<open>
  Soundness of the three verifiers of \<open>mmr/tree.go\<close>, without assuming that SHA-256 is injective.
  Each verifier hashes finitely many strings, which the functions \<open>climb_inputs\<close>, \<open>bag_inputs\<close>
  and \<open>range_inputs\<close> list, and the committed tree was built by hashing the strings
  \<open>tree_inputs\<close>. An accepted proof is true, or one string of each list form a SHA-256 collision.
\<close>

section \<open>The strings that are hashed\<close>

fun bag_inputs :: "bytes list \<Rightarrow> bytes list" where
  "bag_inputs (p # q # ps) = (bag_peaks sha256 (q # ps) @ p) # bag_inputs (q # ps)"
| "bag_inputs _ = []"

definition step_input :: "pathStep \<Rightarrow> bytes \<Rightarrow> bytes \<Rightarrow> bytes" where
  "step_input s acc sib = be64 (parent s + 1) @ (if targetIsRight s then sib @ acc else acc @ sib)"

fun climb_inputs :: "bytes \<Rightarrow> pathStep list \<Rightarrow> bytes list \<Rightarrow> bytes list" where
  "climb_inputs acc (s # ss) (w # ws) =
     step_input s acc w # climb_inputs (sha256 (step_input s acc w)) ss ws"
| "climb_inputs acc _ _ = []"

definition node_inputs :: "bytes list \<Rightarrow> bytes list" where
  "node_inputs ns = concat (map (\<lambda>p. case index_height p of 0 \<Rightarrow> []
     | Suc h \<Rightarrow> [be64 (of_nat p + 1) @ ns ! (p - 2 ^ Suc h) @ ns ! (p - 1)]) [0..<length ns])"

definition tree_inputs :: "Tree \<Rightarrow> bytes list \<Rightarrow> nat \<Rightarrow> bytes list" where
  "tree_inputs t vs m = map ((#) 0) vs @ node_inputs (nodes t) @ bag_inputs (peaks_at t m)"

section \<open>Bagging is binding\<close>

lemma bag_peaks_binding:
  assumes "length ps = length qs" "list_all (\<lambda>p. length p = 32) ps" "list_all (\<lambda>p. length p = 32) qs"
    "bag_peaks sha256 ps = bag_peaks sha256 qs"
  shows "ps = qs \<or> hash_clash (bag_inputs ps) (bag_inputs qs)"
  using assms
proof (induction sha256 ps arbitrary: qs rule: bag_peaks.induct)
  case (3 p q ps)
  obtain p' q' ps' where qs: "qs = p' # q' # ps'"
    using "3.prems"(1) by (cases qs rule: bag_inputs.cases) auto
  let ?x = "bag_peaks sha256 (q # ps) @ p" and ?y = "bag_peaks sha256 (q' # ps') @ p'"
  have "sha256 ?x = sha256 ?y" using "3.prems"(4) qs by simp
  then have "?x = ?y \<or> hash_clash (bag_inputs (p # q # ps)) (bag_inputs qs)"
    by (rule sha256_inj_or_clash) (simp_all add: qs)
  moreover have "length p = length p'" using "3.prems" qs by simp
  moreover have "q # ps = q' # ps' \<or> hash_clash (bag_inputs (q # ps)) (bag_inputs (q' # ps'))"
    if "bag_peaks sha256 (q # ps) = bag_peaks sha256 (q' # ps')"
    using "3.hyps" [of "q' # ps'"] "3.prems" qs that by simp
  moreover have "hash_clash (bag_inputs (p # q # ps)) (bag_inputs qs)"
    if "hash_clash (bag_inputs (q # ps)) (bag_inputs (q' # ps'))"
    using that by (rule hash_clash_mono) (auto simp: qs)
  ultimately show ?case using qs by auto
next
  case (2 p)
  then show ?case by (cases qs rule: bag_inputs.cases) auto
qed auto

section \<open>Climbing is binding\<close>

lemma climb_step: "climb acc (s # ss) (w # ws) =
    (if length w \<noteq> 32 then None else climb (sha256 (step_input s acc w)) ss ws)"
  by (simp add: hashSize_def step_input_def interiorHash_def)

declare climb.simps(1) [simp del]

lemma climb_inputs_append:
  "length ss = length ws \<Longrightarrow> climb x ss ws = Some y \<Longrightarrow>
   climb_inputs x (ss @ ss') (ws @ ws') = climb_inputs x ss ws @ climb_inputs y ss' ws'"
proof (induction ss ws arbitrary: x rule: list_induct2)
  case (Cons s ss w ws)
  then show ?case by (simp add: climb_step split: if_splits)
qed simp

lemma climb_width: "climb x ss ws = Some y \<Longrightarrow> length x = 32 \<Longrightarrow> length y = 32"
proof (induction x ss ws rule: climb_inputs.induct)
  case (1 acc s ss w ws)
  then show ?case by (simp add: climb_step split: if_splits)
qed auto

lemma node_inputs_mem:
  assumes "2 ^ Suc k dvd a" "peak_pos a (Suc k) < length ns"
  shows "be64 (of_nat (peak_pos a (Suc k)) + 1) @ ns ! peak_pos a k @ ns ! peak_pos (a + 2 ^ k) k
    \<in> set (node_inputs ns)"
proof -
  have "index_height (peak_pos a (Suc k)) = Suc k" by (rule index_height_peak_pos [OF assms(1)])
  then show ?thesis
    using assms(2) peak_pos_left [of a k] peak_pos_right [OF assms(1)]
    by (auto simp: node_inputs_def intro!: bexI [of _ "peak_pos a (Suc k)"])
qed

lemma climb_binding:
  assumes ok: "node_hashes_ok ns"
    and sub: "2 ^ h dvd a" "2 ^ g dvd b" "a \<le> b" "b + 2 ^ g \<le> a + 2 ^ h" "peak_pos a h < length ns"
    and x: "length x = 32" "length ws = length (path_up a h b g)"
      "climb x (path_up a h b g) ws = Some (ns ! peak_pos a h)"
  shows "x = ns ! peak_pos b g \<or> hash_clash (climb_inputs x (path_up a h b g) ws) (node_inputs ns)"
  using sub x
proof (induction h arbitrary: a ws)
  case 0
  then have "g = 0 \<and> b = a" using within_eq by blast
  then show ?case using "0.prems" by simp
next
  case (Suc k)
  show ?case
  proof (cases "Suc k \<le> g")
    case True
    then have "g = Suc k \<and> b = a" using within_eq Suc.prems by blast
    then show ?thesis using Suc.prems by simp
  next
    case False
    then have gk: "g \<le> k" by simp
    note c = subtree_children_bounds [OF Suc.prems(1,5)]
    note ds = descend [OF Suc.prems(1-4) gk]
    define left where "left = (b < a + 2 ^ k)"
    define a' where "a' = (if left then a else a + 2 ^ k)"
    define s where "s = \<lparr>sibling = of_nat (peak_pos (if left then a + 2 ^ k else a) k),
      targetIsRight = \<not> left, parent = of_nat (peak_pos a (Suc k))\<rparr>"
    let ?p = "path_up a' k b g"
    have pu: "path_up a (Suc k) b g = ?p @ [s]" using False by (simp add: left_def a'_def s_def)
    obtain ws' w where ws: "ws = ws' @ [w]" "length ws' = length ?p"
      using Suc.prems(7) pu by (metis length_Suc_conv_rev length_append_singleton)
    obtain y where y: "climb x ?p ws' = Some y" and top: "climb y [s] [w] = Some (ns ! peak_pos a (Suc k))"
      using Suc.prems(8) pu ws by (auto simp: climb_append split: bind_splits)
    have ly: "length y = 32" by (rule climb_width [OF y Suc.prems(6)])
    have lw: "length w = 32" and hs: "sha256 (step_input s y w) = ns ! peak_pos a (Suc k)"
      using top by (simp_all add: climb_step split: if_splits)
    let ?in = "be64 (of_nat (peak_pos a (Suc k)) + 1) @ ns ! peak_pos a k @ ns ! peak_pos (a + 2 ^ k) k"
    have "sha256 (step_input s y w) = sha256 ?in"
      using hs node_split [OF ok Suc.prems(1,5)] by (simp add: interiorHash_def)
    moreover have inp: "climb_inputs x (path_up a (Suc k) b g) ws = climb_inputs x ?p ws' @ [step_input s y w]"
      unfolding pu ws(1) by (subst climb_inputs_append [OF ws(2) [symmetric] y]) simp
    ultimately have "step_input s y w = ?in \<or>
        hash_clash (climb_inputs x (path_up a (Suc k) b g) ws) (node_inputs ns)"
      using node_inputs_mem [OF Suc.prems(1,5)] by (intro sha256_inj_or_clash) simp_all
    moreover have "y = ns ! peak_pos a' k" if "step_input s y w = ?in"
      using that ly lw node_width [OF ok c(3)] node_width [OF ok c(4)]
      by (auto simp: step_input_def s_def a'_def split: if_splits)
    moreover have "x = ns ! peak_pos b g \<or> hash_clash (climb_inputs x ?p ws') (node_inputs ns)"
      if "y = ns ! peak_pos a' k"
      using Suc.IH [of a' ws'] c ds Suc.prems(2,3,6) ws(2) y that
      by (auto simp: a'_def left_def split: if_splits)
    moreover have "hash_clash (climb_inputs x (path_up a (Suc k) b g) ws) (node_inputs ns)"
      if "hash_clash (climb_inputs x ?p ws') (node_inputs ns)"
      using that by (rule hash_clash_mono) (simp_all only: inp set_append Un_upper1 order_refl)
    ultimately show ?thesis by blast
  qed
qed

section \<open>Accepted inclusion proofs\<close>

text \<open>The strings \<open>VerifyInclusion\<close> and \<open>VerifyConsistency\<close> hash on a given input.\<close>

definition path_inputs :: "dtmmr \<Rightarrow> uint64 list \<Rightarrow> uint64 \<Rightarrow> bytes \<Rightarrow> bytes list \<Rightarrow> bytes list \<times> bytes" where
  "path_inputs dt positions target acc witness =
     (case containingPeak dt target positions of
        None \<Rightarrow> ([], acc)
      | Some k \<Rightarrow>
          (case pathToPeak (positions ! k) (dt_IndexHeight dt (positions ! k)) target of
             None \<Rightarrow> ([], acc)
           | Some steps \<Rightarrow> (climb_inputs acc steps witness, the (climb acc steps witness))))"

definition inclusion_inputs :: "dtmmr \<Rightarrow> uint64 \<Rightarrow> uint64 \<Rightarrow> bytes \<Rightarrow> InclusionProof \<Rightarrow> bytes list" where
  "inclusion_inputs dt sz leafIndex v pf =
     (let (ins, acc) = path_inputs dt (peakPositions dt sz) (dt_MMRIndex dt leafIndex) (leafHash v) (IpWitness pf)
      in (0 # v) # ins @ bag_inputs (IpPeaksLeft pf @ [acc] @ IpPeaksRight pf))"

lemma commitsD:
  assumes "commits t vs"
  shows "mmr_tree t (length vs)" "i < length vs \<Longrightarrow> length (vs ! i) = 32"
    "i < length vs \<Longrightarrow> nodes t ! mmr_size i = leafHash (vs ! i)"
  using assms by (auto simp: commits_def)

lemma leafHash_binding:
  assumes "leafHash v = leafHash v'" "0 # v \<in> set xs" "0 # v' \<in> set ys"
  shows "v = v' \<or> hash_clash xs ys"
  using sha256_inj_or_clash [of "0 # v" "0 # v'"] assms by (auto simp: leafHash_def)

context dtmmr_lib
begin

lemma RootFromPeaks_binding:
  assumes "length ps = length qs" "list_all (\<lambda>p. length p = 32) ps" "list_all (\<lambda>p. length p = 32) qs"
    "RootFromPeaks dt ps = RootFromPeaks dt qs"
  shows "ps = qs \<or> hash_clash (bag_inputs ps) (bag_inputs qs)"
proof (cases "ps = []")
  case False
  moreover from this have "qs \<noteq> []" using assms(1) by auto
  ultimately show ?thesis using bag_peaks_binding assms by (simp add: RootFromPeaks_eq)
qed (use assms(1) in auto)

lemma inclusion_sound:
  assumes c: "commits t vs" and m: "m \<le> length vs" and i: "i < m"
    and acc: "VerifyInclusion dt (RootFromPeaks dt (peaks_at t m)) (of_nat (mmr_size m)) (of_nat i) v pf"
  shows "v = vs ! i \<or> hash_clash (inclusion_inputs dt (of_nat (mmr_size m)) (of_nat i) v pf) (tree_inputs t vs m)"
    (is "_ \<or> hash_clash ?I ?T")
proof -
  note t = commitsD [OF c]
  note b = tree_size_le [OF t(1) m]
  note li = leafIndex_less [OF b(2) i]
  have ii: "2 ^ 0 dvd i" "i + 2 ^ 0 \<le> m" using i by simp_all
  obtain k ca h where k: "k < length (peak_positions m)" "peak_positions m ! k = peak_pos ca h"
    and ch: "2 ^ h dvd ca" "ca \<le> i" "i + 2 ^ 0 \<le> ca + 2 ^ h" "peak_pos ca h < mmr_size m"
    and cp: "containingPeak dt (of_nat (peak_pos i 0)) (map of_nat (peak_positions m)) = Some k"
    and pt: "pathToPeak (map of_nat (peak_positions m) ! k)
        (dt_IndexHeight dt (map of_nat (peak_positions m) ! k)) (of_nat (peak_pos i 0)) = Some (path_up ca h i 0)"
    by (rule locate [OF b(2) ii])
  let ?L = "IpPeaksLeft pf" and ?R = "IpPeaksRight pf" and ?w = "IpWitness pf" and ?p = "path_up ca h i 0"
  obtain y where y: "climb (leafHash v) ?p ?w = Some y" "length ?L = k"
      "length ?w = length ?p" "length (?L @ [y] @ ?R) = length (peak_positions m)"
    and w: "list_all (\<lambda>p. length p = 32) (?L @ [y] @ ?R)"
    and r: "RootFromPeaks dt (?L @ [y] @ ?R) = RootFromPeaks dt (peaks_at t m)"
    using acc cp pt li peakPositions_eq [OF b(2)] k(1)
    by (auto simp: VerifyInclusion_def hashSize_def Let_def split: if_splits option.splits)
  have I: "?I = (0 # v) # climb_inputs (leafHash v) ?p ?w @ bag_inputs (?L @ [y] @ ?R)"
    using cp pt li y(1) peakPositions_eq [OF b(2)] by (simp add: inclusion_inputs_def path_inputs_def)
  have "?L @ [y] @ ?R = peaks_at t m \<or> hash_clash (bag_inputs (?L @ [y] @ ?R)) (bag_inputs (peaks_at t m))"
    by (rule RootFromPeaks_binding [OF _ w peaks_at_width [OF t(1) m] r]) (use y(4) in simp)
  moreover have "y = nodes t ! peak_pos ca h" if "?L @ [y] @ ?R = peaks_at t m"
  proof -
    have "(?L @ [y] @ ?R) ! k = y" using y(2) by (simp add: nth_append)
    then show ?thesis using that k by (simp add: peaks_at_def)
  qed
  moreover have "leafHash v = nodes t ! mmr_size i \<or> hash_clash (climb_inputs (leafHash v) ?p ?w) (node_inputs (nodes t))"
    if "y = nodes t ! peak_pos ca h"
  proof -
    have "peak_pos ca h < length (nodes t)"
      using ch(4) m mmr_treeD(1) [OF t(1)] mmr_size_le_iff [of m "length vs"] by linarith
    then show ?thesis
      using climb_binding [OF mmr_treeD(3) [OF t(1)] ch(1) ii(1) ch(2,3), of "leafHash v" ?w] y that by simp
  qed
  moreover have "v = vs ! i \<or> hash_clash ?I ?T" if "leafHash v = nodes t ! mmr_size i"
    by (rule leafHash_binding) (use that t(3) [of i] i m in \<open>auto simp: I tree_inputs_def\<close>)
  moreover have "hash_clash ?I ?T" if "hash_clash (bag_inputs (?L @ [y] @ ?R)) (bag_inputs (peaks_at t m))"
    using that by (rule hash_clash_mono) (auto simp: I tree_inputs_def)
  moreover have "hash_clash ?I ?T" if "hash_clash (climb_inputs (leafHash v) ?p ?w) (node_inputs (nodes t))"
    using that by (rule hash_clash_mono) (auto simp: I tree_inputs_def)
  ultimately show ?thesis by blast
qed

end

end
