(* ===== verification/Mmr_Sound_Consistency.thy ===== *)
theory Mmr_Sound_Consistency
  imports Mmr_Sound
begin

text \<open>
  A root binds the whole committed sequence, and an accepted consistency proof shows that the old
  root is the root of a prefix: the append-only guarantee of the log. As in \<open>Mmr_Sound\<close> the
  alternative is a SHA-256 collision between strings that were hashed.
\<close>

section \<open>A root binds the sequence\<close>

lemma tree_inputs_nodes: "set (node_inputs (nodes t)) \<subseteq> set (tree_inputs t vs m)"
  by (auto simp: tree_inputs_def)

lemma subtree_binding:
  assumes ok: "node_hashes_ok ns" "node_hashes_ok ns'"
    and sub: "2 ^ h dvd a" "peak_pos a h < length ns" "peak_pos a h < length ns'"
      "ns ! peak_pos a h = ns' ! peak_pos a h" and i: "a \<le> i" "i < a + 2 ^ h"
  shows "ns ! mmr_size i = ns' ! mmr_size i \<or> hash_clash (node_inputs ns) (node_inputs ns')"
  using sub i
proof (induction h arbitrary: a)
  case 0
  then have "i = a" by simp
  then show ?case using "0.prems" by simp
next
  case (Suc k)
  note c = subtree_children_bounds [OF Suc.prems(1,2)] and c' = subtree_children_bounds [OF Suc.prems(1,3)]
  let ?x = "\<lambda>ns. be64 (of_nat (peak_pos a (Suc k)) + 1) @ ns ! peak_pos a k @ ns ! peak_pos (a + 2 ^ k) k"
  have "sha256 (?x ns) = sha256 (?x ns')"
    using Suc.prems(4) node_split [OF ok(1) Suc.prems(1,2)] node_split [OF ok(2) Suc.prems(1,3)]
    by (simp add: interiorHash_def)
  then have "?x ns = ?x ns' \<or> hash_clash (node_inputs ns) (node_inputs ns')"
    by (rule sha256_inj_or_clash) (rule node_inputs_mem Suc.prems)+
  moreover have "ns ! mmr_size i = ns' ! mmr_size i \<or> hash_clash (node_inputs ns) (node_inputs ns')"
    if "?x ns = ?x ns'"
  proof -
    have "ns ! peak_pos a k = ns' ! peak_pos a k" "ns ! peak_pos (a + 2 ^ k) k = ns' ! peak_pos (a + 2 ^ k) k"
      using that node_width [OF ok(1) c(3)] node_width [OF ok(2) c'(3)] by simp_all
    then show ?thesis
      using Suc.IH [OF c(1,3) c'(3)] Suc.IH [OF c(2,4) c'(4)] Suc.prems(5,6)
      by (cases "i < a + 2 ^ k") auto
  qed
  ultimately show ?case by blast
qed

lemma mountains_leaf:
  assumes "i < m"
  obtains c h where "(c, h) \<in> set (mountains 0 m)" "c \<le> i" "i < c + 2 ^ h"
proof -
  have "2 ^ 0 dvd i" "i + 2 ^ 0 \<le> 0 + m" using assms by simp_all
  then obtain pre c h post where "mountains 0 m = pre @ (c, h) # post" "c \<le> i" "i + 2 ^ 0 \<le> c + 2 ^ h"
    using mountains_cover [OF aligned_0 _ le0, of 0 i m] by metis
  then show thesis by (intro that [of c h]) auto
qed

text \<open>Equal peaks: the identities below them are equal, or there is a collision.\<close>

lemma peaks_binding:
  assumes c: "commits t vs" "commits t' vs'" and m: "m \<le> length vs" "m \<le> length vs'"
    and eq: "peaks_at t m = peaks_at t' m"
  shows "take m vs = take m vs' \<or> hash_clash (tree_inputs t vs k) (tree_inputs t' vs' k')"
proof (cases "hash_clash (tree_inputs t vs k) (tree_inputs t' vs' k')")
  case False
  note t = commitsD [OF c(1)] and t' = commitsD [OF c(2)]
  have nc: "\<not> hash_clash (node_inputs (nodes t)) (node_inputs (nodes t'))"
    using False hash_clash_mono [of "node_inputs (nodes t)" "node_inputs (nodes t')"]
    by (meson tree_inputs_nodes)
  have "vs ! i = vs' ! i" if i: "i < m" for i
  proof -
    obtain a h where ah: "(a, h) \<in> set (mountains 0 m)" "a \<le> i" "i < a + 2 ^ h"
      by (rule mountains_leaf [OF i])
    have "peak_pos a h \<in> set (peak_positions m)" using ah(1) by (force simp: peak_positions_def)
    then have pk: "nodes t ! peak_pos a h = nodes t' ! peak_pos a h"
      using eq by (simp add: peaks_at_def)
    note f = mountain_node_facts [OF ah(1) aligned_0 _ mmr_treeD(2) [OF t(1)]]
      mountain_node_facts [OF ah(1) aligned_0 _ mmr_treeD(2) [OF t'(1)]]
    have "nodes t ! mmr_size i = nodes t' ! mmr_size i"
      using subtree_binding [OF mmr_treeD(3) [OF t(1)] mmr_treeD(3) [OF t'(1)] f(1) _ _ pk ah(2,3)]
        f m mmr_treeD(1) [OF t(1)] mmr_treeD(1) [OF t'(1)] nc by simp
    then have "leafHash (vs ! i) = leafHash (vs' ! i)" using t(3) [of i] t'(3) [of i] i m by simp
    then have "vs ! i = vs' ! i \<or> hash_clash (tree_inputs t vs k) (tree_inputs t' vs' k')"
      by (rule leafHash_binding) (use i m in \<open>auto simp: tree_inputs_def\<close>)
    then show ?thesis using False by blast
  qed
  then have "take m vs = take m vs'" using m by (intro nth_equalityI) auto
  then show ?thesis by blast
qed simp

section \<open>Accepted consistency proofs\<close>

definition consistency_inputs :: "dtmmr \<Rightarrow> ConsistencyProof \<Rightarrow> bytes list" where
  "consistency_inputs dt pf =
     (let old = peakPositions dt (CpOldSize pf); new = peakPositions dt (CpNewSize pf)
      in bag_inputs (CpOldPeaks pf) @ bag_inputs (CpNewPeaks pf) @ concat (map (\<lambda>index.
           fst (path_inputs dt new (old ! index) (CpOldPeaks pf ! index) (CpWitness pf ! index)))
           [0..<length old]))"

context dtmmr_lib
begin

lemma root_binding:
  assumes c: "commits t vs" "commits t' vs'" and m: "m \<le> length vs" "m \<le> length vs'"
    and eq: "RootFromPeaks dt (peaks_at t m) = RootFromPeaks dt (peaks_at t' m)"
  shows "take m vs = take m vs' \<or> hash_clash (tree_inputs t vs m) (tree_inputs t' vs' m)"
proof -
  have "peaks_at t m = peaks_at t' m \<or> hash_clash (bag_inputs (peaks_at t m)) (bag_inputs (peaks_at t' m))"
    by (rule RootFromPeaks_binding)
      (use eq peaks_at_width [OF commitsD(1) [OF c(1)] m(1)] peaks_at_width [OF commitsD(1) [OF c(2)] m(2)] in auto)
  moreover have "hash_clash (tree_inputs t vs m) (tree_inputs t' vs' m)"
    if "hash_clash (bag_inputs (peaks_at t m)) (bag_inputs (peaks_at t' m))"
    using that by (rule hash_clash_mono) (auto simp: tree_inputs_def)
  ultimately show ?thesis using peaks_binding [OF c m] by blast
qed

lemma old_peak_sound:
  assumes c: "commits t vs" and r: "r \<le> length vs" and sub: "2 ^ g dvd b" "b + 2 ^ g \<le> r"
    and x: "length x = 32"
    and chk: "check_old_peak dt (map of_nat (peak_positions r)) (peaks_at t r) (of_nat (peak_pos b g)) x w"
  shows "x = nodes t ! peak_pos b g \<or>
    hash_clash (fst (path_inputs dt (map of_nat (peak_positions r)) (of_nat (peak_pos b g)) x w)) (node_inputs (nodes t))"
proof -
  note t = commitsD [OF c]
  note bd = tree_size_le [OF t(1) r]
  obtain k ca h where k: "k < length (peak_positions r)" "peak_positions r ! k = peak_pos ca h"
    and ch: "2 ^ h dvd ca" "ca \<le> b" "b + 2 ^ g \<le> ca + 2 ^ h" "peak_pos ca h < mmr_size r"
    and cp: "containingPeak dt (of_nat (peak_pos b g)) (map of_nat (peak_positions r)) = Some k"
    and pt: "pathToPeak (map of_nat (peak_positions r) ! k)
        (dt_IndexHeight dt (map of_nat (peak_positions r) ! k)) (of_nat (peak_pos b g)) = Some (path_up ca h b g)"
    by (rule locate [OF bd(2) sub])
  have lt: "peak_pos ca h < length (nodes t)"
    using ch(4) r mmr_treeD(1) [OF t(1)] mmr_size_le_iff [of r "length vs"] by linarith
  have cl: "climb x (path_up ca h b g) w = Some (nodes t ! peak_pos ca h)" "length w = length (path_up ca h b g)"
    using chk cp pt k by (auto simp: check_old_peak_def peaks_at_def split: if_splits option.splits)
  show ?thesis
    using climb_binding [OF mmr_treeD(3) [OF t(1)] ch(1) sub(1) ch(2,3) lt x cl(2,1)] cp pt
    by (simp add: path_inputs_def)
qed

lemma consistency_sound:
  assumes c: "commits t vs" and r: "r \<le> length vs" and nsz: "CpNewSize pf = of_nat (mmr_size r)"
    and acc: "VerifyConsistency dt oldRoot (RootFromPeaks dt (peaks_at t r)) pf"
  shows "\<exists>m \<le> r. CpOldSize pf = of_nat (mmr_size m) \<and>
    (oldRoot = RootFromPeaks dt (peaks_at t m) \<and> CpOldPeaks pf = peaks_at t m
     \<or> hash_clash (consistency_inputs dt pf) (tree_inputs t vs r))"
    (is "\<exists>m \<le> r. _ m \<and> (_ m \<or> hash_clash ?I ?T)")
proof -
  note t = commitsD [OF c]
  note bd = tree_size_le [OF t(1) r]
  have "validMMRSize dt (CpOldSize pf)" using acc by (simp add: VerifyConsistency_def split: if_splits)
  then obtain m where m: "CpOldSize pf = of_nat (mmr_size m)" "mmr_size m < 2 ^ 63"
    by (rule validMMRSizeE)
  have mr: "m \<le> r"
    using acc nsz m bd(2) of_nat64_less_iff [of "mmr_size r" "mmr_size m"]
    by (auto simp: VerifyConsistency_def split: if_splits)
  then have ml: "m \<le> length vs" using r by simp
  let ?old = "map of_nat (peak_positions m) :: uint64 list" and ?new = "map of_nat (peak_positions r) :: uint64 list"
  have pp: "peakPositions dt (CpOldSize pf) = ?old" "peakPositions dt (CpNewSize pf) = ?new"
    using peakPositions_eq m bd(2) nsz by simp_all
  have v: "length (CpOldPeaks pf) = length (peak_positions m)" "length (CpNewPeaks pf) = length (peak_positions r)"
    "list_all (\<lambda>p. length p = 32) (CpOldPeaks pf)" "list_all (\<lambda>p. length p = 32) (CpNewPeaks pf)"
    "RootFromPeaks dt (CpOldPeaks pf) = oldRoot" "RootFromPeaks dt (CpNewPeaks pf) = RootFromPeaks dt (peaks_at t r)"
    and chk: "list_all (\<lambda>i. check_old_peak dt ?new (CpNewPeaks pf) (?old ! i) (CpOldPeaks pf ! i) (CpWitness pf ! i))
       [0..<length (peak_positions m)]"
    using acc pp by (simp_all add: VerifyConsistency_def hashSize_def Let_def split: if_splits)
  show ?thesis
  proof (cases "hash_clash ?I ?T")
    case False
    have "CpNewPeaks pf = peaks_at t r \<or> hash_clash (bag_inputs (CpNewPeaks pf)) (bag_inputs (peaks_at t r))"
      by (rule RootFromPeaks_binding [OF _ v(4) peaks_at_width [OF t(1) r] v(6)]) (simp add: v(2))
    moreover have "\<not> hash_clash (bag_inputs (CpNewPeaks pf)) (bag_inputs (peaks_at t r))"
      using False hash_clash_mono [of "bag_inputs (CpNewPeaks pf)" _ ?I ?T]
      by (force simp: consistency_inputs_def Let_def tree_inputs_def)
    ultimately have new: "CpNewPeaks pf = peaks_at t r" by blast
    have "CpOldPeaks pf ! i = peaks_at t m ! i" if i: "i < length (peak_positions m)" for i
    proof -
      have "peak_positions m ! i \<in> set (peak_positions m)" using i by simp
      then obtain b g where bg: "peak_positions m ! i = peak_pos b g" "2 ^ g dvd b" "b + 2 ^ g \<le> m"
        by (rule peak_positions_mem)
      let ?in = "fst (path_inputs dt ?new (of_nat (peak_pos b g)) (CpOldPeaks pf ! i) (CpWitness pf ! i))"
      have "CpOldPeaks pf ! i = nodes t ! peak_pos b g \<or> hash_clash ?in (node_inputs (nodes t))"
        by (rule old_peak_sound [OF c r bg(2)])
          (use bg i v(1,3) chk new mr in \<open>auto simp: list_all_length\<close>)
      moreover have "hash_clash ?I ?T" if "hash_clash ?in (node_inputs (nodes t))"
        using that
      proof (rule hash_clash_mono)
        show "set ?in \<subseteq> set ?I"
          using i bg(1) pp by (force simp: consistency_inputs_def Let_def)
      qed (auto simp: tree_inputs_def)
      ultimately have "CpOldPeaks pf ! i = nodes t ! peak_pos b g" using False by blast
      then show ?thesis using i bg(1) by (simp add: peaks_at_def)
    qed
    then have "CpOldPeaks pf = peaks_at t m" using v(1) by (intro nth_equalityI) auto
    then show ?thesis using m(1) mr v(5) by (intro exI [of _ m]) simp
  next
    case True
    then show ?thesis using m(1) mr by (intro exI [of _ m]) simp
  qed
qed

end

end
