(* ===== verification/Mmr_Sound_Range.thy ===== *)
theory Mmr_Sound_Range
  imports Mmr_Sound_Consistency
begin

text \<open>
  Soundness of \<open>VerifyRange\<close>: the digests of an accepted range proof are the committed identities
  of that range, or the strings hashed contain a SHA-256 collision.
\<close>

section \<open>The strings a reconstruction hashes\<close>

definition reconstruct_at ::
    "uint64 \<Rightarrow> uint64 \<Rightarrow> (uint64 \<rightharpoonup> bytes) \<Rightarrow> bytes list \<Rightarrow> nat \<Rightarrow> nat \<Rightarrow> nat \<Rightarrow> (bytes \<times> nat) option" where
  "reconstruct_at lo hi D w a h cur =
     reconstructRangeSubtree (of_nat (peak_pos a h)) (of_nat h) (of_nat a) lo hi D w cur"

fun range_inputs ::
    "uint64 \<Rightarrow> uint64 \<Rightarrow> (uint64 \<rightharpoonup> bytes) \<Rightarrow> bytes list \<Rightarrow> nat \<Rightarrow> nat \<Rightarrow> nat \<Rightarrow> bytes list" where
  "range_inputs lo hi D w a 0 cur = map ((#) 0) (case D (of_nat a) of None \<Rightarrow> [] | Some b \<Rightarrow> [b])"
| "range_inputs lo hi D w a (Suc k) cur =
     (case reconstruct_at lo hi D w a k cur of
        None \<Rightarrow> []
      | Some (l, cur') \<Rightarrow>
          (case reconstruct_at lo hi D w (a + 2 ^ k) k cur' of
             None \<Rightarrow> []
           | Some (r, cur'') \<Rightarrow> (be64 (of_nat (peak_pos a (Suc k)) + 1) @ l @ r)
               # range_inputs lo hi D w a k cur @ range_inputs lo hi D w (a + 2 ^ k) k cur'))"

fun range_peaks_inputs ::
    "uint64 \<Rightarrow> uint64 \<Rightarrow> (uint64 \<rightharpoonup> bytes) \<Rightarrow> bytes list \<Rightarrow> (nat \<times> nat) list \<Rightarrow> nat \<Rightarrow> bytes list" where
  "range_peaks_inputs lo hi D w [] cur = []"
| "range_peaks_inputs lo hi D w ((a, h) # ms) cur =
     range_inputs lo hi D w a h cur @
     (case reconstruct_at lo hi D w a h cur of
        None \<Rightarrow> []
      | Some (_, cur') \<Rightarrow> range_peaks_inputs lo hi D w ms cur')"

section \<open>One subtree\<close>

lemma reconstruct_width:
  assumes "list_all (\<lambda>x. length x = 32) w"
  shows "reconstructRangeSubtree p h s lo hi D w cur = Some (x, c) \<Longrightarrow> length x = 32"
  using assms
  by (subst (asm) reconstructRangeSubtree.simps)
    (auto simp: Let_def list_all_length split: if_splits option.splits)

lemma reconstruct_binding:
  assumes ok: "node_hashes_ok ns" "length ns < 2 ^ 63" and r: "lo < 2 ^ 63" "hi < 2 ^ 63"
    and w: "list_all (\<lambda>x. length x = 32) w"
    and sub: "2 ^ h dvd a" "peak_pos a h < length ns"
      "reconstruct_at (of_nat lo) (of_nat hi) D w a h cur = Some (ns ! peak_pos a h, cur')"
    and i: "a \<le> i" "i < a + 2 ^ h" "lo \<le> i" "i \<le> hi"
  shows "(\<exists>b. D (of_nat i) = Some b \<and> leafHash b = ns ! mmr_size i
        \<and> 0 # b \<in> set (range_inputs (of_nat lo) (of_nat hi) D w a h cur))
    \<or> hash_clash (range_inputs (of_nat lo) (of_nat hi) D w a h cur) (node_inputs ns)"
  using sub i(1,2)
proof (induction h arbitrary: a cur cur')
  case 0
  then have "i = a" by simp
  moreover have "mmr_size a < 2 ^ 63" using "0.prems"(2) ok(2) by simp
  ultimately show ?case
    using reconstruct_leaf [of a lo hi D w cur] "0.prems"(3) r i
    by (cases "D (of_nat a)") (auto simp: reconstruct_at_def)
next
  case (Suc k)
  let ?lo = "of_nat lo :: uint64" and ?hi = "of_nat hi :: uint64"
  have p: "peak_pos a (Suc k) < 2 ^ 63" using Suc.prems(2) ok(2) by linarith
  note c = subtree_children_bounds [OF Suc.prems(1,2)]
  have part: "\<not> (a + 2 ^ Suc k \<le> lo \<or> hi < a)" using Suc.prems(4,5) i by linarith
  obtain l c1 x c2 where l: "reconstruct_at ?lo ?hi D w a k cur = Some (l, c1)"
    and x: "reconstruct_at ?lo ?hi D w (a + 2 ^ k) k c1 = Some (x, c2)"
    and top: "interiorHash l x (of_nat (peak_pos a (Suc k))) = ns ! peak_pos a (Suc k)"
    using Suc.prems(3) reconstruct_node [OF Suc.prems(1) p r part, of D w cur]
    by (auto simp: reconstruct_at_def split: option.splits)
  let ?I = "range_inputs ?lo ?hi D w a (Suc k) cur"
  have I: "?I = (be64 (of_nat (peak_pos a (Suc k)) + 1) @ l @ x)
      # range_inputs ?lo ?hi D w a k cur @ range_inputs ?lo ?hi D w (a + 2 ^ k) k c1"
    using l x by simp
  have wd: "length l = 32" "length x = 32"
    using reconstruct_width [OF w] l x unfolding reconstruct_at_def by blast+
  let ?in = "be64 (of_nat (peak_pos a (Suc k)) + 1) @ ns ! peak_pos a k @ ns ! peak_pos (a + 2 ^ k) k"
  have "sha256 (be64 (of_nat (peak_pos a (Suc k)) + 1) @ l @ x) = sha256 ?in"
    using top node_split [OF ok(1) Suc.prems(1,2)] by (simp add: interiorHash_def)
  then have "be64 (of_nat (peak_pos a (Suc k)) + 1) @ l @ x = ?in \<or> hash_clash ?I (node_inputs ns)"
    by (rule sha256_inj_or_clash) (use I node_inputs_mem [OF Suc.prems(1,2)] in auto)
  then show ?case
  proof
    assume "be64 (of_nat (peak_pos a (Suc k)) + 1) @ l @ x = ?in"
    then have lx: "l = ns ! peak_pos a k" "x = ns ! peak_pos (a + 2 ^ k) k"
      using wd node_width [OF ok(1) c(3)] by simp_all
    have mono: "hash_clash ?I (node_inputs ns)"
      if "hash_clash J (node_inputs ns)" "set J \<subseteq> set ?I" for J
      using hash_clash_mono [OF that] by blast
    show ?thesis
    proof (cases "i < a + 2 ^ k")
      case True
      then show ?thesis
        using Suc.IH [OF c(1,3) l [unfolded lx(1)] Suc.prems(4)] mono [of "range_inputs ?lo ?hi D w a k cur"]
        unfolding I by auto
    next
      case False
      then show ?thesis
        using Suc.IH [OF c(2,4) x [unfolded lx(2)]] mono [of "range_inputs ?lo ?hi D w (a + 2 ^ k) k c1"] Suc.prems(5)
        unfolding I by auto
    qed
  qed blast
qed


section \<open>All peaks\<close>

context dtmmr_lib
begin

lemma reconstruct_peaks_step:
  assumes "2 ^ h dvd a" "peak_pos a h < 2 ^ 63"
  shows "reconstruct_peaks dt lo hi D w (of_nat (peak_pos a h) # ps) (of_nat a) cur =
    (case reconstruct_at lo hi D w a h cur of
       None \<Rightarrow> None
     | Some (node, cur') \<Rightarrow>
         (case reconstruct_peaks dt lo hi D w ps (of_nat (a + 2 ^ h)) cur' of
            None \<Rightarrow> None
          | Some (ns, cur'') \<Rightarrow> Some (node # ns, cur'')))"
  unfolding reconstruct_peaks.simps Let_def reconstruct_at_def mountain_next_leaf [OF assms]
  unfolding IndexHeight_peak [OF assms] by (rule refl)

lemma reconstruct_peaks_binding:
  assumes "aligned a r" "a + r \<le> n" "node_hashes_ok ns" "length ns = mmr_size n" "mmr_size n < 2 ^ 63"
    "lo < 2 ^ 63" "hi < 2 ^ 63" "list_all (\<lambda>x. length x = 32) w"
    and rec: "reconstruct_peaks dt (of_nat lo) (of_nat hi) D w
      (map (\<lambda>(c, h). of_nat (peak_pos c h)) (mountains a r)) (of_nat a) cur
      = Some (map (\<lambda>(c, h). ns ! peak_pos c h) (mountains a r), cur')"
    and i: "a \<le> i" "i < a + r" "lo \<le> i" "i \<le> hi"
  shows "(\<exists>b. D (of_nat i) = Some b \<and> leafHash b = ns ! mmr_size i
        \<and> 0 # b \<in> set (range_peaks_inputs (of_nat lo) (of_nat hi) D w (mountains a r) cur))
    \<or> hash_clash (range_peaks_inputs (of_nat lo) (of_nat hi) D w (mountains a r) cur) (node_inputs ns)"
  using assms(1,2) rec i(1,2)
proof (induction a r arbitrary: cur rule: mountains_induct)
  case (empty a)
  then show ?case by simp
next
  case (step a n')
  let ?k = "ilog2 n'" and ?lo = "of_nat lo :: uint64" and ?hi = "of_nat hi :: uint64"
  let ?ms = "mountains (a + 2 ^ ?k) (n' - 2 ^ ?k)"
  have ms: "mountains a n' = (a, ?k) # ?ms" by (rule mountains_Cons [OF step.hyps(1)])
  have al: "aligned a n'" using step.hyps by (simp add: aligned_def)
  have mem: "(a, ?k) \<in> set (mountains a n')" by (simp add: ms)
  note m = mountain_node_facts [OF mem al step.prems(1) assms(5)]
  obtain c1 where h: "reconstruct_at ?lo ?hi D w a ?k cur = Some (ns ! peak_pos a ?k, c1)"
    and tl: "reconstruct_peaks dt ?lo ?hi D w (map (\<lambda>(c, h). of_nat (peak_pos c h)) ?ms) (of_nat (a + 2 ^ ?k)) c1
      = Some (map (\<lambda>(c, h). ns ! peak_pos c h) ?ms, cur')"
    using step.prems(2) unfolding ms list.map case_prod_conv reconstruct_peaks_step [OF m(1,3)]
    by (auto split: option.splits)
  have I: "range_peaks_inputs ?lo ?hi D w (mountains a n') cur
      = range_inputs ?lo ?hi D w a ?k cur @ range_peaks_inputs ?lo ?hi D w ?ms c1"
    unfolding ms by (simp add: h)
  have len: "length ns < 2 ^ 63" "peak_pos a ?k < length ns" using assms(4,5) m(2) by simp_all
  have mono: "hash_clash (range_peaks_inputs ?lo ?hi D w (mountains a n') cur) (node_inputs ns)"
    if "hash_clash J (node_inputs ns)" "set J \<subseteq> set (range_peaks_inputs ?lo ?hi D w (mountains a n') cur)" for J
    using hash_clash_mono [OF that] by blast
  show ?case
  proof (cases "i < a + 2 ^ ?k")
    case True
    show ?thesis
      using reconstruct_binding [OF assms(3) len(1) assms(6-8) m(1) len(2) h step.prems(3) True i(3,4)]
        mono [of "range_inputs ?lo ?hi D w a ?k cur"] unfolding I by auto
  next
    case False
    have "a + 2 ^ ?k + (n' - 2 ^ ?k) \<le> n" "a + 2 ^ ?k \<le> i" "i < a + 2 ^ ?k + (n' - 2 ^ ?k)"
      using False step by simp_all
    from step.IH [OF this(1) tl this(2,3)] show ?thesis
      using mono [of "range_peaks_inputs ?lo ?hi D w ?ms c1"] unfolding I by auto
  qed
qed

lemma reconstruct_peaks_shape:
  assumes w: "list_all (\<lambda>x. length x = 32) w"
  shows "reconstruct_peaks dt lo hi D w ps s cur = Some (xs, cur') \<Longrightarrow>
    length xs = length ps \<and> list_all (\<lambda>x. length x = 32) xs"
proof (induction ps arbitrary: s cur xs)
  case (Cons p ps)
  then show ?case
    using reconstruct_width [OF w] by (fastforce simp: Let_def split: option.splits)
qed simp

end

section \<open>Accepted range proofs\<close>

definition range_proof_inputs ::
    "dtmmr \<Rightarrow> nat \<Rightarrow> uint64 \<Rightarrow> uint64 \<Rightarrow> bytes list \<Rightarrow> RangeProof \<Rightarrow> bytes list" where
  "range_proof_inputs dt m lo hi body pf =
     (let D = digestsByIndex lo body; w = RpWitness pf
      in range_peaks_inputs lo hi D w (mountains 0 m) 0 @
         (case reconstruct_peaks dt lo hi D w (peakPositions dt (of_nat (mmr_size m))) 0 0 of
            None \<Rightarrow> []
          | Some (peaks, _) \<Rightarrow> bag_inputs peaks))"

lemma VerifyRange_checks:
  assumes "VerifyRange dt root sz lo hi body pf"
  shows "\<not> hi < lo" "of_nat (length body) = hi - lo + 1" "\<not> hi \<ge> fst (mmr_LeafCount dt sz)"
    "list_all (\<lambda>x. length x = 32) body" "list_all (\<lambda>x. length x = 32) (RpWitness pf)"
    "case reconstruct_peaks dt lo hi (digestsByIndex lo body) (RpWitness pf) (peakPositions dt sz) 0 0 of
       None \<Rightarrow> False
     | Some (peaks, cursor) \<Rightarrow> cursor = length (RpWitness pf) \<and> RootFromPeaks dt peaks = root"
  using assms unfolding VerifyRange_def hashSize_def Let_def case_prod_unfold
  by (simp_all split: if_split_asm option.split_asm)

context dtmmr_lib
begin

lemma VerifyRangeD:
  assumes b: "mmr_size m < 2 ^ 63" and lh: "lo < 2 ^ 64" "hi < 2 ^ 64" and n: "length body < 2 ^ 63"
    and acc: "VerifyRange dt root (of_nat (mmr_size m)) (of_nat lo) (of_nat hi) body pf"
  obtains peaks where "lo \<le> hi" "hi < m" "length body = Suc hi - lo"
    "list_all (\<lambda>x. length x = 32) body" "list_all (\<lambda>x. length x = 32) (RpWitness pf)"
    "reconstruct_peaks dt (of_nat lo) (of_nat hi) (digestsByIndex (of_nat lo) body) (RpWitness pf)
       (peakPositions dt (of_nat (mmr_size m))) 0 0 = Some (peaks, length (RpWitness pf))"
    "RootFromPeaks dt peaks = root"
proof -
  note v = VerifyRange_checks [OF acc, unfolded LeafCount_valid [OF b] fst_conv]
  obtain peaks where rec: "reconstruct_peaks dt (of_nat lo) (of_nat hi) (digestsByIndex (of_nat lo) body) (RpWitness pf)
       (peakPositions dt (of_nat (mmr_size m))) 0 0 = Some (peaks, length (RpWitness pf))"
       "RootFromPeaks dt peaks = root"
    using v(6) by (auto split: option.splits)
  have m: "m < 2 ^ 63" using le_mmr_size [of m] b by linarith
  have le: "lo \<le> hi" using v(1) of_nat64_less_iff [OF lh(2,1)] by simp
  have hm: "hi < m" using v(3) of_nat64_le_iff [of m hi] m lh(2) by simp
  have "(of_nat (length body) :: uint64) = of_nat (Suc hi - lo)"
    using v(2) unfolding of_nat64_diff [OF le] Suc_diff_le [OF le] of_nat_Suc add.commute [of 1] .
  moreover have "length body < 2 ^ 64" "Suc hi - lo < 2 ^ 64" using n hm m by simp_all
  ultimately have "length body = Suc hi - lo" using of_nat64_eq_iff by blast
  from that [OF le hm this v(4,5) rec] show thesis .
qed

lemma range_sound:
  assumes c: "commits t vs" and m: "m \<le> length vs" and lh: "lo < 2 ^ 64" "hi < 2 ^ 64"
    and n: "length body < 2 ^ 63"
    and acc: "VerifyRange dt (RootFromPeaks dt (peaks_at t m)) (of_nat (mmr_size m)) (of_nat lo) (of_nat hi) body pf"
  shows "lo \<le> hi \<and> hi < m \<and> (body = take (Suc hi - lo) (drop lo vs) \<or>
    hash_clash (range_proof_inputs dt m (of_nat lo) (of_nat hi) body pf) (tree_inputs t vs m))"
    (is "_ \<and> _ \<and> (_ \<or> hash_clash ?I ?T)")
proof -
  note t = commitsD [OF c]
  note b = tree_size_le [OF t(1) m]
  let ?D = "digestsByIndex (of_nat lo) body" and ?w = "RpWitness pf"
  let ?lo = "of_nat lo :: uint64" and ?hi = "of_nat hi :: uint64"
  obtain peaks where v: "lo \<le> hi" "hi < m" "length body = Suc hi - lo"
    "list_all (\<lambda>x. length x = 32) ?w"
    and rec: "reconstruct_peaks dt ?lo ?hi ?D ?w (peakPositions dt (of_nat (mmr_size m))) 0 0 = Some (peaks, length ?w)"
    and root: "RootFromPeaks dt peaks = RootFromPeaks dt (peaks_at t m)"
    by (rule VerifyRangeD [OF b(2) lh n acc])
  have I: "?I = range_peaks_inputs ?lo ?hi ?D ?w (mountains 0 m) 0 @ bag_inputs peaks"
    using rec by (simp add: range_proof_inputs_def)
  have pp: "peakPositions dt (of_nat (mmr_size m)) = map (\<lambda>(c, h). of_nat (peak_pos c h)) (mountains 0 m)"
    using peakPositions_eq [OF b(2)] by (simp add: peak_positions_def case_prod_unfold comp_def)
  have "body = take (Suc hi - lo) (drop lo vs)" if nc: "\<not> hash_clash ?I ?T"
  proof (rule nth_equalityI)
    show "length body = length (take (Suc hi - lo) (drop lo vs))" using v(1-3) m by simp
    have "length peaks = length (peaks_at t m)" "list_all (\<lambda>x. length x = 32) peaks"
      using reconstruct_peaks_shape [OF v(4) rec] pp by (simp_all add: peaks_at_def peak_positions_def)
    then have "peaks = peaks_at t m \<or> hash_clash (bag_inputs peaks) (bag_inputs (peaks_at t m))"
      by (rule RootFromPeaks_binding) (use root peaks_at_width [OF t(1) m] in auto)
    moreover have "hash_clash ?I ?T" if "hash_clash (bag_inputs peaks) (bag_inputs (peaks_at t m))"
      using that by (rule hash_clash_mono) (auto simp: I tree_inputs_def)
    ultimately have "peaks = peaks_at t m" using nc by blast
    then have "peaks = map (\<lambda>(c, h). nodes t ! peak_pos c h) (mountains 0 m)"
      by (simp add: peaks_at_def peak_positions_def case_prod_unfold comp_def)
    with rec pp have rec': "reconstruct_peaks dt ?lo ?hi ?D ?w (map (\<lambda>(c, h). of_nat (peak_pos c h)) (mountains 0 m))
        (of_nat 0) 0 = Some (map (\<lambda>(c, h). nodes t ! peak_pos c h) (mountains 0 m), length ?w)" by simp
    fix j assume j: "j < length body"
    have h63: "hi < 2 ^ 63" "lo < 2 ^ 63" using v(1,2) m t(1) le_mmr_size [of m] b(2) by linarith+
    let ?J = "range_peaks_inputs ?lo ?hi ?D ?w (mountains 0 m) 0"
    have "(\<exists>b. ?D (of_nat (lo + j)) = Some b \<and> leafHash b = nodes t ! mmr_size (lo + j) \<and> 0 # b \<in> set ?J)
        \<or> hash_clash ?J (node_inputs (nodes t))"
      by (rule reconstruct_peaks_binding [OF aligned_0 _ mmr_treeD(3,1,2) [OF t(1)] h63(2,1) v(4) rec'])
        (use j v(1-3) m in auto)
    moreover have "hash_clash ?I ?T" if "hash_clash ?J (node_inputs (nodes t))"
      using that by (rule hash_clash_mono) (auto simp: I tree_inputs_def)
    moreover have "?D (of_nat (lo + j)) = Some (body ! j)"
      by (rule digestsByIndex_nth) (use j v(1-3) h63 in auto)
    ultimately have "leafHash (body ! j) = nodes t ! mmr_size (lo + j) \<and> 0 # body ! j \<in> set ?J"
      using nc by auto
    then have lf: "leafHash (body ! j) = nodes t ! mmr_size (lo + j)" "0 # body ! j \<in> set ?I"
      unfolding I by simp_all
    have lj: "lo + j < length vs" using j v(1-3) m by simp
    have "body ! j = vs ! (lo + j) \<or> hash_clash ?I ?T"
      by (rule leafHash_binding) (use lf t(3) [OF lj] lj in \<open>auto simp: tree_inputs_def\<close>)
    then show "body ! j = take (Suc hi - lo) (drop lo vs) ! j" using nc j v(1-3) lj by simp
  qed
  then show ?thesis using v(1,2) by blast
qed

end

end
