(* ===== verification/Mmr_Properties.thy ===== *)
theory Mmr_Properties
  imports Mmr_Sound_Range
begin

text \<open>
  The properties of package \<open>mmr\<close>, stated over the operations of \<open>Mmr_Tree\<close> for every library
  \<open>dt\<close> that satisfies the laws of \<open>Mmr_Lib\<close>, with the example tree their witnesses use: three
  identities, hence the two peaks at positions 2 and 3.
\<close>

section \<open>An example tree\<close>

definition ex_ids :: "bytes list" where
  "ex_ids = [replicate 32 1, replicate 32 2, replicate 32 3]"

definition ex_tree :: Tree where
  "ex_tree = (let l = map leafHash ex_ids
     in \<lparr>nodes = [l ! 0, l ! 1, interiorHash (l ! 0) (l ! 1) 2, l ! 2]\<rparr>)"

lemma ex_sizes [simp]: "mmr_size (Suc 0) = 1" "mmr_size 2 = 3" "mmr_size 3 = 4"
  using mmr_size_power [of 0] mmr_size_power [of 1] mmr_size_step [of 1 3] by simp_all

lemma ex_heights: "index_height 0 = 0" "index_height (Suc 0) = 0" "index_height 2 = 1" "index_height 3 = 0"
  by (simp_all add: index_height.simps ilog2.simps Let_def)

lemma ex_commits: "commits ex_tree ex_ids"
proof -
  have nodes4: "i < 4 \<longleftrightarrow> i = 0 \<or> i = Suc 0 \<or> i = 2 \<or> i = 3" for i :: nat by auto
  have i3: "i < 3 \<longleftrightarrow> i = 0 \<or> i = Suc 0 \<or> i = 2" for i :: nat by auto
  let ?l = "\<lambda>b. leafHash (replicate 32 b)"
  have ns: "nodes ex_tree = [?l 1, ?l 2, interiorHash (?l 1) (?l 2) 2, ?l 3]" and len: "length ex_ids = 3"
    by (simp_all add: ex_tree_def ex_ids_def Let_def)
  have "length (nodes ex_tree ! p) = 32 \<and> (\<forall>h. index_height p = Suc h \<longrightarrow> nodes ex_tree ! p =
      interiorHash (nodes ex_tree ! (p - 2 ^ Suc h)) (nodes ex_tree ! (p - 1)) (of_nat p))" if "p < 4" for p
    using that unfolding nodes4 by (elim disjE) (simp_all add: ns ex_heights)
  then have "node_hashes_ok (nodes ex_tree)" unfolding node_hashes_ok_def by (simp add: ns)
  then have "mmr_tree ex_tree 3" by (simp add: mmr_tree_def ns)
  moreover have "length (ex_ids ! i) = 32 \<and> nodes ex_tree ! mmr_size i = leafHash (ex_ids ! i)" if "i < 3" for i
    using that unfolding i3 by (elim disjE) (simp_all add: ns ex_ids_def)
  ultimately show ?thesis by (simp add: commits_def len)
qed

lemma length_ex_ids [simp]: "length ex_ids = 3"
  by (simp add: ex_ids_def)

lemma length_ex_id: "i < 3 \<Longrightarrow> length (ex_ids ! i) = 32"
  using commitsD(2) [OF ex_commits] by simp

lemmas ref_laws = ref_lib.dtmmr_lib_axioms

lemma PeakHashesAt_commits:
  assumes "dtmmr_lib dt" "commits t vs" "m \<le> length vs"
  shows "PeakHashesAt dt t (of_nat (mmr_size m)) = Inr (peaks_at t m)"
  using dtmmr_lib.PeakHashesAt_eq [OF assms(1) commitsD(1) [OF assms(2)] assms(3)]
  by (simp add: PeakHashesAt_def)

lemma ex_peaks: "PeakHashesAt dt_ref ex_tree 4 = Inr (peaks_at ex_tree 3)" "PeakHashesAt dt_ref ex_tree 3 = Inr (peaks_at ex_tree 2)"
  using PeakHashesAt_commits [OF ref_laws ex_commits, of 3] PeakHashesAt_commits [OF ref_laws ex_commits, of 2] by simp_all

section \<open>Building a tree\<close>

text \<open>
  C11 (\<open>Tree.Append\<close>): appending a 32-byte identity to a tree that commits to \<open>vs\<close> succeeds,
  returns the new size, and gives a tree that commits to \<open>vs @ [v]\<close>; no node that was there
  changes, and the peaks at every earlier size stay what they were. \<open>2 ^ 62\<close> leaves is where
  complete sizes reach the \<open>2 ^ 63 - 1\<close> bound of \<open>validMMRSize\<close>.
\<close>

theorem Append_refines_snoc:
  assumes "dtmmr_append dt ahl" "commits t vs" "length v = 32" "length vs < 2 ^ 62"
  shows "\<exists>t'. Tree_Append ahl t v = (Inr (Tree_Size t'), t') \<and> commits t' (vs @ [v]) \<and>
    take (length (nodes t)) (nodes t') = nodes t \<and>
    (\<forall>m \<le> length vs. PeakHashesAt dt t' (of_nat (mmr_size m)) = PeakHashesAt dt t (of_nat (mmr_size m)))"
proof -
  have lib: "dtmmr_lib dt" using assms(1) by (simp add: dtmmr_append_def)
  obtain t' where t': "Tree_Append ahl t v = (Inr (Tree_Size t'), t')" "commits t' (vs @ [v])"
    "take (length (nodes t)) (nodes t') = nodes t"
    using commits_Append [OF assms] by blast
  have "peaks_at t' m = peaks_at t m" if m: "m \<le> length vs" for m
  proof -
    have "nodes t' ! p = nodes t ! p" if "p \<in> set (peak_positions m)" for p
      using t'(3) peak_positions_less_mono [OF that m] mmr_treeD(1) [OF commitsD(1) [OF assms(2)]]
      by (metis nth_take)
    then show ?thesis by (simp add: peaks_at_def)
  qed
  then have "\<forall>m \<le> length vs. PeakHashesAt dt t' (of_nat (mmr_size m)) = PeakHashesAt dt t (of_nat (mmr_size m))"
    using PeakHashesAt_commits [OF lib assms(2)] PeakHashesAt_commits [OF lib t'(2)] by simp
  with t' show ?thesis by blast
qed

theorem Append_refines_snoc_witness:
  "\<exists>t'. Tree_Append ahl_ref ex_tree (replicate 32 4) = (Inr (Tree_Size t'), t') \<and>
     commits t' (ex_ids @ [replicate 32 4])"
  using Append_refines_snoc [OF ref_append.dtmmr_append_axioms ex_commits, of "replicate 32 4"] by auto

text \<open>
  C25 (\<open>New\<close>): a node sequence is accepted exactly when it is the node array of a well-formed MMR
  (a complete size, 32-byte nodes, every interior node the hash of its children), the tree holds
  exactly those nodes, and no input makes the validation index out of range.
\<close>

theorem New_accepts_wellformed:
  assumes "dtmmr_lib dt" "length ns < 2 ^ 63"
  shows "(New dt ns = Inr t \<longleftrightarrow> nodes t = ns \<and> (\<exists>n. mmr_tree t n)) \<and> New dt ns \<noteq> Inl Panic"
  using dtmmr_lib.New_iff [OF assms] dtmmr_lib.New_no_panic [OF assms] by blast

theorem New_accepts_wellformed_witness:
  "New dt_ref (nodes ex_tree) = Inr ex_tree \<and> (\<forall>t. New dt_ref [[0]] \<noteq> Inr t)"
proof -
  have n: "length (nodes ex_tree) < 2 ^ 63" by (simp add: ex_tree_def Let_def)
  have "nodes t \<noteq> [[0]]" if "mmr_tree t n" for t n
    using node_width [OF mmr_treeD(3) [OF that], of 0] by auto
  moreover have "length [[0] :: bytes] < 2 ^ 63" by simp
  ultimately show ?thesis
    using New_accepts_wellformed [OF ref_laws n, of ex_tree] New_accepts_wellformed [OF ref_laws, of "[[0]]"]
      commitsD(1) [OF ex_commits] by blast
qed

section \<open>Proofs that are generated are accepted\<close>

text \<open>
  C22 (\<open>Tree.InclusionProofAt\<close>, \<open>VerifyInclusion\<close>): for every leaf and every historical size that
  contains it, a proof is generated and verifies against the root of that size.
\<close>

theorem InclusionProofAt_verifies:
  assumes "dtmmr_lib dt" "commits t vs" "m \<le> length vs" "i < m"
    "PeakHashesAt dt t (of_nat (mmr_size m)) = Inr peaks"
  shows "\<exists>pf. InclusionProofAt dt t (of_nat i) (of_nat (mmr_size m)) = Inr pf \<and>
    VerifyInclusion dt (RootFromPeaks dt peaks) (of_nat (mmr_size m)) (of_nat i) (vs ! i) pf"
  using dtmmr_lib.inclusion_complete [OF assms(1) commitsD(1) [OF assms(2)] assms(3,4), of "vs ! i"]
    commitsD(2,3) [OF assms(2), of i] PeakHashesAt_commits [OF assms(1-3)] assms(3-5) by simp

theorem InclusionProofAt_verifies_witness:
  "\<exists>pf. InclusionProofAt dt_ref ex_tree 1 4 = Inr pf \<and>
     VerifyInclusion dt_ref (RootFromPeaks dt_ref (peaks_at ex_tree 3)) 4 1 (ex_ids ! 1) pf"
  using InclusionProofAt_verifies [OF ref_laws ex_commits, of 3 1 "peaks_at ex_tree 3"] ex_peaks by simp

text \<open>
  C21 (\<open>Tree.ConsistencyProofAt\<close>, \<open>VerifyConsistency\<close>): for any two historical sizes, the smaller
  first, a proof is generated, carries those sizes, and verifies for the two roots.
\<close>

theorem ConsistencyProofAt_verifies:
  assumes "dtmmr_lib dt" "commits t vs" "m \<le> r" "r \<le> length vs"
    "PeakHashesAt dt t (of_nat (mmr_size m)) = Inr old" "PeakHashesAt dt t (of_nat (mmr_size r)) = Inr new"
  shows "\<exists>pf. ConsistencyProofAt dt t (of_nat (mmr_size m)) (of_nat (mmr_size r)) = Inr pf \<and>
    CpOldSize pf = of_nat (mmr_size m) \<and> CpNewSize pf = of_nat (mmr_size r) \<and>
    VerifyConsistency dt (RootFromPeaks dt old) (RootFromPeaks dt new) pf"
  using dtmmr_lib.consistency_complete [OF assms(1) commitsD(1) [OF assms(2)] assms(4,3)]
    PeakHashesAt_commits [OF assms(1,2)] assms(3-6) by simp

theorem ConsistencyProofAt_verifies_witness:
  "\<exists>pf. ConsistencyProofAt dt_ref ex_tree 3 4 = Inr pf \<and>
     VerifyConsistency dt_ref (RootFromPeaks dt_ref (peaks_at ex_tree 2)) (RootFromPeaks dt_ref (peaks_at ex_tree 3)) pf"
  using ConsistencyProofAt_verifies [OF ref_laws ex_commits, of 2 3] ex_peaks by auto

text \<open>
  C23 (\<open>Tree.RangeProofAt\<close>, \<open>VerifyRange\<close>): for every leaf range within a historical size below
  \<open>maxMMRSize\<close>, a proof is generated and verifies for the identities of that range.
\<close>

theorem RangeProofAt_verifies:
  assumes "dtmmr_lib dt" "commits t vs" "m \<le> length vs" "lo \<le> hi" "hi < m" "mmr_size m < 2 ^ 50"
    "PeakHashesAt dt t (of_nat (mmr_size m)) = Inr peaks"
  shows "\<exists>pf. RangeProofAt dt t (of_nat lo) (of_nat hi) (of_nat (mmr_size m)) = Inr pf \<and>
    VerifyRange dt (RootFromPeaks dt peaks) (of_nat (mmr_size m)) (of_nat lo) (of_nat hi)
      (take (Suc hi - lo) (drop lo vs)) pf"
proof -
  let ?body = "take (Suc hi - lo) (drop lo vs)"
  have len: "length ?body = Suc hi - lo" using assms(3-5) by simp
  have "length (?body ! i) = 32 \<and> nodes t ! mmr_size (lo + i) = leafHash (?body ! i)"
    if "i < length ?body" for i
    using that commitsD(2,3) [OF assms(2), of "lo + i"] assms(3-5) by auto
  then show ?thesis
    using dtmmr_lib.range_complete [OF assms(1) commitsD(1) [OF assms(2)] assms(3-6) len]
      PeakHashesAt_commits [OF assms(1-3)] assms(7) by auto
qed

theorem RangeProofAt_verifies_witness:
  "\<exists>pf. RangeProofAt dt_ref ex_tree 1 2 4 = Inr pf \<and>
     VerifyRange dt_ref (RootFromPeaks dt_ref (peaks_at ex_tree 3)) 4 1 2 [replicate 32 2, replicate 32 3] pf"
  using RangeProofAt_verifies [OF ref_laws ex_commits, of 3 1 2] ex_peaks by (simp add: ex_ids_def)

section \<open>Proofs that are accepted are true\<close>

text \<open>
  C3 (\<open>VerifyInclusion\<close>): a proof accepted against the root of a tree at some historical size is
  about an existing leaf, and the value is the identity committed there; otherwise the strings
  hashed by the verification and by the tree contain a SHA-256 collision.
\<close>

theorem VerifyInclusion_sound:
  assumes "dtmmr_lib dt" "commits t vs" "m \<le> length vs"
    "PeakHashesAt dt t (of_nat (mmr_size m)) = Inr peaks"
    "VerifyInclusion dt (RootFromPeaks dt peaks) (of_nat (mmr_size m)) leafIndex v pf"
  shows "unat leafIndex < m \<and> (v = vs ! unat leafIndex \<or>
    hash_clash (inclusion_inputs dt (of_nat (mmr_size m)) leafIndex v pf) (tree_inputs t vs m))"
proof -
  have sz: "mmr_size m < 2 ^ 63" by (rule tree_size_le(2) [OF commitsD(1) [OF assms(2)] assms(3)])
  then have m: "m < 2 ^ 64" using le_mmr_size [of m] by simp
  have "\<not> leafIndex \<ge> dt_LeafCount dt (of_nat (mmr_size m))"
    using assms(5) by (simp add: VerifyInclusion_def split: if_splits)
  then have "leafIndex < of_nat m" using dtmmr_lib.LeafCount [OF assms(1) sz] by simp
  then have i: "unat leafIndex < m" using m by (simp add: word_less_nat_alt unat_of_nat64)
  have peaks: "peaks = peaks_at t m" using PeakHashesAt_commits [OF assms(1-3)] assms(4) by simp
  show ?thesis
    using dtmmr_lib.inclusion_sound [OF assms(1-3) i, of v pf] assms(5) i unfolding peaks by simp
qed

theorem VerifyInclusion_sound_witness:
  "\<exists>pf. VerifyInclusion dt_ref (RootFromPeaks dt_ref (peaks_at ex_tree 3)) 4 1 (ex_ids ! 1) pf \<and>
     unat (1 :: uint64) < 3"
proof -
  have ex: "\<exists>pf. VerifyInclusion dt_ref (RootFromPeaks dt_ref (peaks_at ex_tree 3)) 4 1 (ex_ids ! 1) pf"
    using ref_lib.inclusion_complete [OF commitsD(1) [OF ex_commits], of 3 1 "ex_ids ! 1"]
      commitsD(2,3) [OF ex_commits, of 1] by auto
  then show ?thesis
    using VerifyInclusion_sound [OF ref_laws ex_commits, of 3 "peaks_at ex_tree 3" 1 "ex_ids ! 1"] ex_peaks by auto
qed

text \<open>
  C1 (\<open>VerifyConsistency\<close>): a proof accepted for the root of a tree at a historical size \<open>r\<close> names
  an old size \<open>m \<le> r\<close>, and the old root is the root that very tree had at \<open>m\<close> (so no history
  before \<open>m\<close> was rewritten); otherwise there is a SHA-256 collision among the strings hashed.
\<close>

theorem VerifyConsistency_sound:
  assumes "dtmmr_lib dt" "commits t vs" "r \<le> length vs" "CpNewSize pf = of_nat (mmr_size r)"
    "PeakHashesAt dt t (of_nat (mmr_size r)) = Inr new"
    "VerifyConsistency dt oldRoot (RootFromPeaks dt new) pf"
  shows "\<exists>m \<le> r. CpOldSize pf = of_nat (mmr_size m) \<and>
    (PeakHashesAt dt t (CpOldSize pf) = Inr (CpOldPeaks pf) \<and> oldRoot = RootFromPeaks dt (CpOldPeaks pf)
     \<or> hash_clash (consistency_inputs dt pf) (tree_inputs t vs r))"
proof -
  have new: "new = peaks_at t r" using PeakHashesAt_commits [OF assms(1-3)] assms(5) by simp
  obtain m where m: "m \<le> r" "CpOldSize pf = of_nat (mmr_size m)"
    "oldRoot = RootFromPeaks dt (peaks_at t m) \<and> CpOldPeaks pf = peaks_at t m
     \<or> hash_clash (consistency_inputs dt pf) (tree_inputs t vs r)"
    using dtmmr_lib.consistency_sound [OF assms(1-4)] assms(6) unfolding new by blast
  moreover have "PeakHashesAt dt t (of_nat (mmr_size m)) = Inr (peaks_at t m)"
    using PeakHashesAt_commits [OF assms(1,2), of m] m(1) assms(3) by simp
  ultimately show ?thesis by (intro exI [of _ m]) auto
qed

theorem VerifyConsistency_sound_witness:
  "\<exists>pf m. CpNewSize pf = 4 \<and> m \<le> 3 \<and> CpOldSize pf = of_nat (mmr_size m) \<and>
     VerifyConsistency dt_ref (RootFromPeaks dt_ref (peaks_at ex_tree 2)) (RootFromPeaks dt_ref (peaks_at ex_tree 3)) pf"
proof -
  obtain pf where pf: "CpNewSize pf = of_nat (mmr_size 3)"
    "VerifyConsistency dt_ref (RootFromPeaks dt_ref (peaks_at ex_tree 2)) (RootFromPeaks dt_ref (peaks_at ex_tree 3)) pf"
    using ref_lib.consistency_complete [OF commitsD(1) [OF ex_commits], of 3 2] by auto
  show ?thesis
    using VerifyConsistency_sound [OF ref_laws ex_commits _ pf(1) _ pf(2)] ex_peaks pf by auto
qed

text \<open>
  C9 (\<open>VerifyRange\<close>): the digests of an accepted range proof are exactly the committed identities
  of the range, which lies within the tree; otherwise there is a SHA-256 collision among the
  strings hashed. (The length of a Go slice is below \<open>2 ^ 63\<close>.)
\<close>

theorem VerifyRange_sound:
  assumes "dtmmr_lib dt" "commits t vs" "m \<le> length vs" "length body < 2 ^ 63"
    "PeakHashesAt dt t (of_nat (mmr_size m)) = Inr peaks"
    "VerifyRange dt (RootFromPeaks dt peaks) (of_nat (mmr_size m)) lo hi body pf"
  shows "unat lo \<le> unat hi \<and> unat hi < m \<and>
    (body = take (Suc (unat hi) - unat lo) (drop (unat lo) vs) \<or>
     hash_clash (range_proof_inputs dt m lo hi body pf) (tree_inputs t vs m))"
proof -
  have "peaks = peaks_at t m" using PeakHashesAt_commits [OF assms(1-3)] assms(5) by simp
  then show ?thesis
    using dtmmr_lib.range_sound [OF assms(1-3) unat64_less [of lo] unat64_less [of hi] assms(4)] assms(6)
    by simp
qed

theorem VerifyRange_sound_witness:
  "\<exists>pf. VerifyRange dt_ref (RootFromPeaks dt_ref (peaks_at ex_tree 3)) 4 1 2 (drop 1 ex_ids) pf \<and>
     unat (2 :: uint64) < 3"
proof -
  have "length (drop 1 ex_ids ! i) = 32 \<and> nodes ex_tree ! mmr_size (1 + i) = leafHash (drop 1 ex_ids ! i)"
    if "i < length (drop 1 ex_ids)" for i
    using that commitsD(2,3) [OF ex_commits, of "1 + i"] by simp
  then have "\<exists>pf. VerifyRange dt_ref (RootFromPeaks dt_ref (peaks_at ex_tree 3)) 4 1 2 (drop 1 ex_ids) pf"
    using ref_lib.range_complete [OF commitsD(1) [OF ex_commits], of 3 1 2 "drop 1 ex_ids"] by auto
  then obtain pf where pf: "VerifyRange dt_ref (RootFromPeaks dt_ref (peaks_at ex_tree 3)) (of_nat (mmr_size 3)) 1 2 (drop 1 ex_ids) pf"
    by auto
  from VerifyRange_sound [OF ref_laws ex_commits _ _ _ pf] show ?thesis using pf ex_peaks by auto
qed

text \<open>
  \<open>Tree.Root\<close>: the root binds the sequence. Two trees with the same number of leaves and the
  same root commit to the same identities, or the strings hashed to build them collide.
\<close>

lemma Root_binds_identities:
  assumes "dtmmr_lib dt" "commits t vs" "commits t' vs'" "length vs = length vs'"
    "Tree_Root dt t = Inr root" "Tree_Root dt t' = Inr root"
  shows "vs = vs' \<or> hash_clash (tree_inputs t vs (length vs)) (tree_inputs t' vs' (length vs))"
proof -
  have "RootFromPeaks dt (peaks_at t (length vs)) = RootFromPeaks dt (peaks_at t' (length vs))"
    using dtmmr_lib.Root_eq [OF assms(1) commitsD(1) [OF assms(2)]]
      dtmmr_lib.Root_eq [OF assms(1) commitsD(1) [OF assms(3)]] assms(4-6) by simp
  from dtmmr_lib.root_binding [OF assms(1-3) order_refl _ this] show ?thesis using assms(4) by simp
qed

end
