(* ===== verification/Node_Store.thy ===== *)
theory Node_Store
  imports Mmr_Properties
begin

text \<open>
  \<open>mmr/node_store.go\<close>: the durable node store, a flat file of 32-byte records. The file is the
  list of its bytes. The environment decides which I/O calls fail: the field \<open>faults\<close> scripts the
  outcome of the coming appends (an empty script means that all of them succeed), and a write that
  fails may leave any prefix of its bytes in the file. \<open>Sync\<close> makes the contents durable, so a
  crash loses nothing that an \<open>Append\<close> returned for.
\<close>

section \<open>Files\<close>

datatype io_fault = IoOk | WriteFails nat | SyncFails

definition write_at :: "bytes \<Rightarrow> nat \<Rightarrow> bytes \<Rightarrow> bytes" where
  "write_at content off v =
     take off (content @ replicate (off - length content) 0) @ v @ drop (off + length v) content"

definition read_at :: "bytes \<Rightarrow> int \<Rightarrow> nat \<Rightarrow> bytes result" where
  "read_at content off n =
     (if off < 0 \<or> nat off + n > length content then Inl (ErrMsg ''read MMR node'')
      else Inr (take n (drop (nat off) content)))"

text \<open>\<open>int64(index) * hashSize\<close>: the product wraps at 64 bits and is read as a signed number.\<close>

definition node_offset :: "uint64 \<Rightarrow> int" where
  "node_offset index = sint (index * of_nat hashSize)"

section \<open>The store\<close>

record FileNodeStore =
  contents :: bytes
  nodeCount :: uint64
  faults :: "io_fault list"

record OpenReport =
  NodeCount :: uint64
  TruncatedBytes :: uint64

definition OpenFileNodeStore ::
    "error option \<Rightarrow> error option \<Rightarrow> error option \<Rightarrow> error option \<Rightarrow> io_fault list \<Rightarrow> bytes
      \<Rightarrow> (FileNodeStore \<times> OpenReport) result" where
  "OpenFileNodeStore openErr statErr truncErr syncErr script content =
     (case openErr of Some e \<Rightarrow> Inl e | None \<Rightarrow>
     (case statErr of Some e \<Rightarrow> Inl e | None \<Rightarrow>
       let len = of_nat (length content) :: uint64;
           wholeRecords = len div of_nat hashSize;
           truncatedBytes = len mod of_nat hashSize;
           report = \<lparr>NodeCount = wholeRecords, TruncatedBytes = truncatedBytes\<rparr>
       in if truncatedBytes \<noteq> 0 then
            (case truncErr of Some e \<Rightarrow> Inl e | None \<Rightarrow>
            (case syncErr of Some e \<Rightarrow> Inl e | None \<Rightarrow>
               Inr (\<lparr>contents = take (unat (wholeRecords * of_nat hashSize)) content,
                      nodeCount = wholeRecords, faults = script\<rparr>, report)))
          else Inr (\<lparr>contents = content, nodeCount = wholeRecords, faults = script\<rparr>, report)))"

definition FileNodeStore_Size :: "FileNodeStore \<Rightarrow> uint64" where
  "FileNodeStore_Size s = nodeCount s"

definition FileNodeStore_Get :: "FileNodeStore node_get" where
  "FileNodeStore_Get s index =
     (if index \<ge> nodeCount s then Inl DtNotFound
      else read_at (contents s) (node_offset index) hashSize)"

definition FileNodeStore_Append :: "FileNodeStore node_append" where
  "FileNodeStore_Append s value =
     (if length value \<noteq> hashSize then (Inl (ErrMsg ''MMR node must be exactly 32 bytes''), s)
      else
        let fault = (case faults s of [] \<Rightarrow> IoOk | f # _ \<Rightarrow> f);
            s' = s\<lparr>faults := tl (faults s)\<rparr>;
            off = node_offset (nodeCount s)
        in if off < 0 then (Inl (ErrMsg ''write MMR node: negative offset''), s')
           else (case fault of
              WriteFails k \<Rightarrow>
                (Inl (ErrMsg ''write MMR node''),
                 s'\<lparr>contents := write_at (contents s) (nat off) (take k value)\<rparr>)
            | SyncFails \<Rightarrow>
                (Inl (ErrMsg ''fsync MMR node file''),
                 s'\<lparr>contents := write_at (contents s) (nat off) value\<rparr>)
            | IoOk \<Rightarrow>
                (Inr (nodeCount s + 1),
                 s'\<lparr>contents := write_at (contents s) (nat off) value, nodeCount := nodeCount s + 1\<rparr>)))"

definition FileNodeStore_Nodes :: "FileNodeStore \<Rightarrow> bytes list result" where
  "FileNodeStore_Nodes s =
     rmap (\<lambda>index. FileNodeStore_Get s (of_nat index)) [0..<unat (nodeCount s)]"

definition NewFromNodeStore :: "dtmmr \<Rightarrow> FileNodeStore \<Rightarrow> Tree result" where
  "NewFromNodeStore dt store = rbind (FileNodeStore_Nodes store) (New dt)"

fun rebuild_loop :: "FileNodeStore add_hashed_leaf \<Rightarrow> FileNodeStore \<Rightarrow> bytes list \<Rightarrow> unit result \<times> FileNodeStore" where
  "rebuild_loop ahl store [] = (Inr (), store)"
| "rebuild_loop ahl store (value # rest) =
     (if length value \<noteq> hashSize then (Inl (ErrMsg ''CLL leaf value must be exactly 32 bytes''), store)
      else (case ahl FileNodeStore_Get FileNodeStore_Append sha256 (leafHash value) store of
              (Inl e, store') \<Rightarrow> (Inl e, store')
            | (Inr _, store') \<Rightarrow> rebuild_loop ahl store' rest))"

text \<open>
  \<open>removeErr\<close> is the error of \<open>os.Remove\<close> other than \<open>os.ErrNotExist\<close>, which the code ignores;
  after the removal the file is created empty.
\<close>

definition RebuildFileNodeStoreFromLeaves ::
    "FileNodeStore add_hashed_leaf \<Rightarrow> error option \<Rightarrow> error option \<Rightarrow> io_fault list \<Rightarrow> bytes list
      \<Rightarrow> FileNodeStore result" where
  "RebuildFileNodeStoreFromLeaves ahl removeErr openErr script leafBodyDigests =
     (case removeErr of Some e \<Rightarrow> Inl e | None \<Rightarrow>
     (case openErr of Some e \<Rightarrow> Inl e | None \<Rightarrow>
       (case rebuild_loop ahl \<lparr>contents = [], nodeCount = 0, faults = script\<rparr> leafBodyDigests of
          (Inl e, _) \<Rightarrow> Inl e
        | (Inr _, store) \<Rightarrow> Inr store)))"

section \<open>The store as a list of nodes\<close>

definition records :: "bytes \<Rightarrow> bytes list" where
  "records content = map (\<lambda>i. take 32 (drop (32 * i) content)) [0..<length content div 32]"

definition store_ok :: "FileNodeStore \<Rightarrow> bool" where
  "store_ok s \<longleftrightarrow> faults s = [] \<and> unat (nodeCount s) * 32 = length (contents s) \<and> unat (nodeCount s) \<le> 2 ^ 58"

lemma length_records [simp]: "length (records c) = length c div 32"
  by (simp add: records_def)

lemma records_Nil [simp]: "records [] = []"
  by (simp add: records_def)

lemma nth_records: "i < length c div 32 \<Longrightarrow> records c ! i = take 32 (drop (32 * i) c)"
  by (simp add: records_def)

lemma records_snoc:
  assumes "length c = 32 * n" "length v = 32"
  shows "records (c @ v) = records c @ [v]"
proof (rule nth_equalityI)
  show "length (records (c @ v)) = length (records c @ [v])" using assms by simp
  fix i assume "i < length (records (c @ v))"
  then have i: "i \<le> n" using assms by simp
  show "records (c @ v) ! i = (records c @ [v]) ! i"
  proof (cases "i = n")
    case True
    then show ?thesis using assms by (simp add: nth_records nth_append)
  next
    case False
    then have "32 * i + 32 \<le> 32 * n" using i by simp
    then show ?thesis using assms False i by (simp add: nth_records nth_append)
  qed
qed

lemma length_concat_records: "list_all (\<lambda>x. length x = 32) ns \<Longrightarrow> length (concat ns) = 32 * length ns"
  by (induction ns) auto

lemma records_concat:
  assumes "list_all (\<lambda>x. length x = 32) ns"
  shows "records (concat ns) = ns"
  using assms
proof (induction ns rule: rev_induct)
  case (snoc x xs)
  then show ?case using records_snoc [of "concat xs" "length xs" x] length_concat_records [of xs] by simp
qed simp

lemma records_torn:
  assumes "list_all (\<lambda>x. length x = 32) ns" "length torn < 32"
  shows "records (concat ns @ torn) = ns"
proof (rule nth_equalityI)
  note len = length_concat_records [OF assms(1)]
  show "length (records (concat ns @ torn)) = length ns" using len assms(2) by simp
  fix i assume "i < length (records (concat ns @ torn))"
  then have i: "i < length ns" using len assms(2) by simp
  then have "records (concat ns @ torn) ! i = take 32 (drop (32 * i) (concat ns))"
    using len assms(2) by (simp add: nth_records)
  also have "\<dots> = records (concat ns) ! i" using i len by (simp add: nth_records)
  finally show "records (concat ns @ torn) ! i = ns ! i" by (simp add: records_concat [OF assms(1)])
qed

lemma node_offset_eq: "unat w < 2 ^ 58 \<Longrightarrow> node_offset w = int (32 * unat w)"
proof -
  assume w: "unat w < 2 ^ 58"
  obtain n where n: "w = of_nat n" "n < 2 ^ 64" by (rule uint64_as_nat)
  then have n58: "n < 2 ^ 58" using w by (simp add: unat_of_nat64)
  have "w * of_nat hashSize = of_nat (32 * n)" by (simp add: n(1) hashSize_def)
  moreover have "sint (of_nat (32 * n) :: uint64) = int (32 * n)"
    using n58 by (simp add: signed_of_nat signed_take_bit_int_eq_self del: of_nat_mult)
  ultimately show ?thesis using n by (simp add: node_offset_def unat_of_nat64)
qed

lemma write_at_end [simp]: "write_at c (length c) v = c @ v"
  by (simp add: write_at_def)

lemma store_get:
  assumes "store_ok s" "i < length (records (contents s))"
  shows "FileNodeStore_Get s (of_nat i) = Inr (records (contents s) ! i)"
proof -
  have n: "unat (nodeCount s) * 32 = length (contents s)" "unat (nodeCount s) \<le> 2 ^ 58"
    using assms(1) by (simp_all add: store_ok_def)
  have i: "i < unat (nodeCount s)" using assms(2) n by simp
  then have u: "unat (of_nat i :: uint64) = i" using n(2) by (intro unat_of_nat64) simp
  have "\<not> of_nat i \<ge> nodeCount s" using i u by (simp add: word_le_nat_alt)
  moreover have "node_offset (of_nat i) = int (32 * i)"
    using node_offset_eq [of "of_nat i"] u i n(2) by (metis less_le_trans)
  then have "0 \<le> node_offset (of_nat i)" "nat (node_offset (of_nat i)) = 32 * i"
    by (simp_all only: nat_int of_nat_0_le_iff)
  moreover have "32 * i + 32 \<le> length (contents s)" using i n(1) by simp
  ultimately show ?thesis
    by (simp add: FileNodeStore_Get_def read_at_def hashSize_def nth_records)
qed

interpretation file_store: node_store FileNodeStore_Get FileNodeStore_Append
  "\<lambda>s. records (contents s)" store_ok "2 ^ 58"
proof
  fix s :: FileNodeStore and v :: bytes
  assume s: "store_ok s" and v: "length v = 32" and cap: "length (records (contents s)) < 2 ^ 58"
  let ?n = "unat (nodeCount s)"
  have n: "?n * 32 = length (contents s)" "faults s = []" using s by (simp_all add: store_ok_def)
  have n58: "?n < 2 ^ 58" using cap n(1) by simp
  have off: "node_offset (nodeCount s) = int (length (contents s))" by (metis node_offset_eq [OF n58] n(1) mult.commute)
  have w: "nodeCount s + 1 = of_nat (Suc ?n)" by simp
  have "Suc ?n < 2 ^ 64" using n58 by simp
  then have u: "unat (nodeCount s + 1) = Suc ?n" unfolding w by (rule unat_of_nat64)
  have len: "length (records (contents s)) = ?n" using n(1) by (simp flip: n(1))
  let ?s' = "s\<lparr>faults := tl (faults s), contents := contents s @ v, nodeCount := nodeCount s + 1\<rparr>"
  have "FileNodeStore_Append s v = (Inr (nodeCount s + 1), ?s')"
    using off v n(2) by (simp add: FileNodeStore_Append_def hashSize_def)
  moreover have "nodeCount s + 1 = of_nat (Suc (length (records (contents s))))"
    unfolding len by (rule w)
  moreover have "records (contents ?s') = records (contents s) @ [v]"
    using records_snoc [of "contents s" ?n v] n(1) v by simp
  moreover have "store_ok ?s'" using u n n58 v by (simp add: store_ok_def)
  ultimately show "\<exists>s'. FileNodeStore_Append s v = (Inr (of_nat (Suc (length (records (contents s))))), s')
      \<and> records (contents s') = records (contents s) @ [v] \<and> store_ok s'"
    by (intro exI [of _ ?s']) simp
qed (rule store_get)

section \<open>Rebuilding\<close>

lemma rebuild_loop_commits:
  assumes ahl: "dtmmr_append dt ahl"
  shows "store_ok s \<Longrightarrow> commits \<lparr>nodes = records (contents s)\<rparr> vs \<Longrightarrow> list_all (\<lambda>v. length v = 32) ws \<Longrightarrow>
    mmr_size (length vs + length ws) \<le> 2 ^ 58 \<Longrightarrow>
    \<exists>s'. rebuild_loop ahl s ws = (Inr (), s') \<and> store_ok s' \<and> commits \<lparr>nodes = records (contents s')\<rparr> (vs @ ws)"
proof (induction ws arbitrary: s vs)
  case (Cons v ws)
  have "mmr_size (Suc (length vs)) \<le> mmr_size (length vs + length (v # ws))" by simp
  then have cap: "mmr_size (Suc (length vs)) \<le> 2 ^ 58" using Cons.prems(4) by (rule order_trans)
  then have b: "mmr_size (Suc (length vs)) < 2 ^ 63" by simp
  have len: "length (records (contents s)) = mmr_size (length vs)"
    using Cons.prems(2) by (simp add: commits_def mmr_tree_def)
  obtain s' where s': "ahl FileNodeStore_Get FileNodeStore_Append sha256 (leafHash v) s
      = (Inr (of_nat (mmr_size (Suc (length vs)))), s')" "store_ok s'"
    "leaf_added sha256 (length vs) (leafHash v) (records (contents s)) (records (contents s'))"
    using dtmmr_append.AddHashedLeaf [OF ahl file_store.node_store_axioms Cons.prems(1) len b cap,
        of "leafHash v" sha256] by auto
  have "commits \<lparr>nodes = records (contents s')\<rparr> (vs @ [v])"
    by (rule commits_leaf_added [OF Cons.prems(2) _ b]) (use s'(3) Cons.prems(3) in simp_all)
  from Cons.IH [OF s'(2) this] show ?case using Cons.prems s'(1) by (simp add: hashSize_def)
qed simp

lemma store_ok_empty: "store_ok \<lparr>contents = [], nodeCount = 0, faults = []\<rparr>"
  by (simp add: store_ok_def)

lemma store_Nodes:
  assumes "store_ok s"
  shows "FileNodeStore_Nodes s = Inr (records (contents s))"
proof -
  have n: "length (records (contents s)) = unat (nodeCount s)"
    using assms by (simp add: store_ok_def) (metis mult.commute nonzero_mult_div_cancel_left zero_neq_numeral)
  have "rmap (\<lambda>i. FileNodeStore_Get s (of_nat i)) [0..<unat (nodeCount s)]
      = Inr (map (\<lambda>i. records (contents s) ! i) [0..<unat (nodeCount s)])"
    by (rule rmap_Inr) (use store_get [OF assms] n in simp)
  then show ?thesis using n by (metis FileNodeStore_Nodes_def map_nth)
qed

lemma concat_records:
  assumes "length c = 32 * n"
  shows "concat (records c) = c"
  using assms
proof (induction n arbitrary: c)
  case (Suc n)
  let ?d = "take (32 * n) c" and ?v = "drop (32 * n) c"
  have l: "length ?d = 32 * n" "length ?v = 32" using Suc.prems by simp_all
  have "concat (records (?d @ ?v)) = ?d @ ?v"
    unfolding records_snoc [OF l] using Suc.IH [OF l(1)] by simp
  then show ?case by simp
qed simp

text \<open>
  C33 (\<open>RebuildFileNodeStoreFromLeaves\<close>, \<open>NewFromNodeStore\<close>): rebuilding the node file from the
  leaf digests succeeds when no I/O fails; the tree loaded from the rebuilt file commits to exactly
  those digests, and the file is the concatenation of that tree's nodes. (A file of \<open>2 ^ 58\<close> nodes
  has the largest length an \<open>int64\<close> offset can address.)
\<close>

theorem Rebuild_commits:
  assumes "dtmmr_append dt ahl" "list_all (\<lambda>v. length v = 32) vs" "mmr_size (length vs) \<le> 2 ^ 58"
  shows "\<exists>store t. RebuildFileNodeStoreFromLeaves ahl None None [] vs = Inr store \<and>
    NewFromNodeStore dt store = Inr t \<and> commits t vs \<and> contents store = concat (Tree_Nodes t)"
proof -
  have lib: "dtmmr_lib dt" using assms(1) by (simp add: dtmmr_append_def)
  have c0: "commits \<lparr>nodes = records (contents \<lparr>contents = [], nodeCount = 0, faults = []\<rparr>)\<rparr> []"
    using commits_empty by simp
  obtain s where s: "rebuild_loop ahl \<lparr>contents = [], nodeCount = 0, faults = []\<rparr> vs = (Inr (), s)"
    "store_ok s" "commits \<lparr>nodes = records (contents s)\<rparr> vs"
    using rebuild_loop_commits [OF assms(1) store_ok_empty c0 assms(2)] assms(3) by auto
  let ?t = "\<lparr>nodes = records (contents s)\<rparr>"
  note mt = mmr_treeD [OF commitsD(1) [OF s(3)]]
  have "New dt (records (contents s)) = Inr ?t"
    using dtmmr_lib.New_iff [OF lib, of "records (contents s)" ?t] mt commitsD(1) [OF s(3)] by auto
  then have "NewFromNodeStore dt s = Inr ?t" using store_Nodes [OF s(2)] by (simp add: NewFromNodeStore_def)
  moreover have "concat (records (contents s)) = contents s"
    using s(2) by (intro concat_records [of _ "unat (nodeCount s)"]) (simp add: store_ok_def)
  ultimately show ?thesis
    using s by (simp add: RebuildFileNodeStoreFromLeaves_def Tree_Nodes_def)
qed

theorem Rebuild_commits_witness:
  "\<exists>store t. RebuildFileNodeStoreFromLeaves ahl_ref None None [] ex_ids = Inr store \<and>
     NewFromNodeStore dt_ref store = Inr t \<and> commits t ex_ids \<and> contents store = concat (Tree_Nodes t)"
proof -
  have "mmr_size (length ex_ids) \<le> 2 ^ 58" "list_all (\<lambda>v. length v = 32) ex_ids"
    by (simp, simp add: ex_ids_def)
  then show ?thesis using Rebuild_commits [OF ref_append.dtmmr_append_axioms] by blast
qed

section \<open>Crash safety\<close>

lemma OpenFileNodeStore_eq:
  assumes "list_all (\<lambda>x. length x = 32) ns" "length torn < 32" "length (concat ns @ torn) < 2 ^ 63"
  shows "OpenFileNodeStore None None None None script (concat ns @ torn)
    = Inr (\<lparr>contents = concat ns, nodeCount = of_nat (length ns), faults = script\<rparr>,
           \<lparr>NodeCount = of_nat (length ns), TruncatedBytes = of_nat (length torn)\<rparr>)"
proof -
  note len = length_concat_records [OF assms(1)]
  let ?l = "length (concat ns @ torn)"
  have l: "?l = 32 * length ns + length torn" using len by simp
  have wd: "(of_nat ?l :: uint64) div 32 = of_nat (length ns)" "(of_nat ?l :: uint64) mod 32 = of_nat (length torn)"
  proof -
    have ul: "unat (of_nat ?l :: uint64) = 32 * length ns + length torn"
      unfolding l using assms(3) l by (intro unat_of_nat64) simp
    show "(of_nat ?l :: uint64) div 32 = of_nat (length ns)" "(of_nat ?l :: uint64) mod 32 = of_nat (length torn)"
      unfolding word_arith_nat_div word_arith_nat_mod ul using assms(2) by simp_all
  qed
  have u: "unat (of_nat (length ns) * 32 :: uint64) = 32 * length ns"
    using unat_of_nat64 [of "32 * length ns"] assms(3) l by (simp add: mult.commute)
  have z: "(of_nat (length torn) :: uint64) \<noteq> 0 \<longleftrightarrow> torn \<noteq> []"
    using of_nat64_eq_iff [of "length torn" 0] assms(2) by simp
  show ?thesis
    using wd u z len by (auto simp: OpenFileNodeStore_def hashSize_def Let_def)
qed

lemma records_width: "list_all (\<lambda>r. length r = 32) (records c)"
  by (auto simp: records_def list_all_iff)

lemma Append_contents:
  assumes "unat (nodeCount s) * 32 = length (contents s)" "length (contents s) < 2 ^ 63" "length v = 32"
  shows "\<exists>res s' k. FileNodeStore_Append s v = (res, s') \<and> contents s' = contents s @ take k v \<and> (isl res \<or> k = 32)"
proof -
  have "unat (nodeCount s) < 2 ^ 58" using assms(1,2) by simp
  then have "node_offset (nodeCount s) = int (length (contents s))"
    using assms(1) by (metis node_offset_eq mult.commute)
  then show ?thesis
    using assms(3) by (cases "case faults s of [] \<Rightarrow> IoOk | f # _ \<Rightarrow> f")
      (auto simp: FileNodeStore_Append_def hashSize_def Let_def intro: exI [of _ 32])
qed



end
