(* ===== verification/Portable_Time.thy ===== *)
theory Portable_Time
  imports Cll_Types Encodings
begin

text \<open>
  \<open>internal/portable/time.go\<close>: times shared with the ECMAScript runtime. A \<open>time.Time\<close> is an
  instant in nanoseconds since the Unix epoch (the location only affects printing, and every use
  is in UTC). Go's zero time, from which \<open>Truncate\<close> counts, is a whole number of seconds away
  from the epoch, so truncation to milliseconds is rounding down to a multiple of \<open>10 ^ 6\<close>.
\<close>

section \<open>Normalisation and range\<close>

definition ns_per_ms :: int where "ns_per_ms = 1000000"

definition UnixMilli :: "int \<Rightarrow> time" where "UnixMilli ms = ms * ns_per_ms"

definition NormalizeTime :: "time \<Rightarrow> time" where
  "NormalizeTime value = value div ns_per_ms * ns_per_ms"

definition ValidateTime :: "time \<Rightarrow> unit result" where
  "ValidateTime value =
     (let value = NormalizeTime value;
          minimum = UnixMilli MinPortableUnixMillis;
          maximum = UnixMilli MaxPortableUnixMillis
      in if value < minimum \<or> value > maximum then Inl (ErrMsg ''time is outside the portable range'')
         else Inr ())"

lemma NormalizeTime_idem [simp]: "NormalizeTime (NormalizeTime t) = NormalizeTime t"
  by (simp add: NormalizeTime_def ns_per_ms_def)

lemma NormalizeTime_le: "NormalizeTime t \<le> t" "t < NormalizeTime t + ns_per_ms"
  by (simp_all add: NormalizeTime_def ns_per_ms_def)

lemma ValidateTime_Normalize [simp]: "ValidateTime (NormalizeTime t) = ValidateTime t"
  by (simp add: ValidateTime_def Let_def)

lemma ValidateTime_iff:
  "ValidateTime t = Inr () \<longleftrightarrow>
     MinPortableUnixMillis \<le> t div ns_per_ms \<and> t div ns_per_ms \<le> MaxPortableUnixMillis"
  by (auto simp: ValidateTime_def NormalizeTime_def UnixMilli_def ns_per_ms_def Let_def)

section \<open>The calendar of package \<open>time\<close>\<close>

text \<open>
  Go's \<open>time\<close> uses the proleptic Gregorian calendar. Years are counted from March, so that the
  leap day is the last one of its year: \<open>c\<close> centuries, \<open>q\<close> four-year cycles and \<open>a\<close> years lie
  before the day within its 400-year era of 146097 days.
\<close>

definition civil_from_days :: "int \<Rightarrow> int \<times> int \<times> int" where
  "civil_from_days days =
     (let z = days + 719468;
          era = z div 146097; doe = z mod 146097;
          c = min 3 (doe div 36524); r = doe - c * 36524;
          q = r div 1461; r2 = r - q * 1461;
          a = min 3 (r2 div 365); doy = r2 - a * 365;
          y = era * 400 + c * 100 + q * 4 + a;
          mp = (5 * doy + 2) div 153;
          d = doy - (153 * mp + 2) div 5 + 1;
          m = (if mp < 10 then mp + 3 else mp - 9)
      in (if m \<le> 2 then y + 1 else y, m, d))"

text \<open>Month 1 to 12; the day may lie outside the month, as in \<open>time.Date\<close>.\<close>

definition days_from_civil :: "int \<Rightarrow> int \<Rightarrow> int \<Rightarrow> int" where
  "days_from_civil year month day =
     (let y = (if month \<le> 2 then year - 1 else year);
          mp = (if month > 2 then month - 3 else month + 9);
          doy = (153 * mp + 2) div 5 + day - 1
      in y * 365 + y div 4 - y div 100 + y div 400 + doy - 719468)"

definition ns_per_day :: int where "ns_per_day = 86400000000000"

text \<open>\<open>time.Date\<close> in UTC, with its normalisation of values outside their usual ranges.\<close>

definition time_Date :: "int \<Rightarrow> int \<Rightarrow> int \<Rightarrow> int \<Rightarrow> int \<Rightarrow> int \<Rightarrow> int \<Rightarrow> time" where
  "time_Date year month day hour minute second nsec =
     days_from_civil (year + (month - 1) div 12) ((month - 1) mod 12 + 1) day * ns_per_day
     + hour * 3600000000000 + minute * 60000000000 + second * 1000000000 + nsec"

lemma civil_decomp:
  assumes "civil_from_days days = (y, m, d)"
  obtains era c q a doy mp where
    "era = (days + 719468) div 146097"
    "days + 719468 = era * 146097 + c * 36524 + q * 1461 + a * 365 + doy"
    "0 \<le> c" "c \<le> 3" "0 \<le> q" "q \<le> 24" "0 \<le> a" "a \<le> 3" "0 \<le> doy" "doy \<le> 365"
    "doy = 365 \<longrightarrow> a = 3 \<and> (q = 24 \<longrightarrow> c = 3)"
    "mp = (5 * doy + 2) div 153" "0 \<le> mp" "mp \<le> 11"
    "m = (if mp < 10 then mp + 3 else mp - 9)"
    "y = (if m \<le> 2 then era * 400 + c * 100 + q * 4 + a + 1 else era * 400 + c * 100 + q * 4 + a)"
    "d = doy - (153 * mp + 2) div 5 + 1"
proof -
  define z where "z = days + 719468"
  define era where "era = z div 146097"
  define doe where "doe = z mod 146097"
  define c where "c = min 3 (doe div 36524)"
  define r where "r = doe - c * 36524"
  define q where "q = r div 1461"
  define r2 where "r2 = r - q * 1461"
  define a where "a = min 3 (r2 div 365)"
  define doy where "doy = r2 - a * 365"
  define mp where "mp = (5 * doy + 2) div 153"
  have doe: "0 \<le> doe" "doe \<le> 146096" "z = era * 146097 + doe" by (simp_all add: doe_def era_def)
  have c: "0 \<le> c" "c \<le> 3" "0 \<le> r" "r \<le> 36524" "r = 36524 \<Longrightarrow> c = 3"
    using doe by (auto simp: c_def r_def min_def split: if_splits)
  have q: "0 \<le> q" "q \<le> 24" "0 \<le> r2" "r2 \<le> 1460" using c by (auto simp: q_def r2_def)
  have a: "0 \<le> a" "a \<le> 3" "0 \<le> doy" "doy \<le> 365" using q by (auto simp: a_def doy_def min_def)
  have leap: "doy = 365 \<longrightarrow> a = 3 \<and> (q = 24 \<longrightarrow> c = 3)"
  proof
    assume "doy = 365"
    then have "r2 = a * 365 + 365" by (simp add: doy_def)
    then have "a = 3" "r2 = 1460" using a q by (auto simp: a_def min_def split: if_splits)
    then show "a = 3 \<and> (q = 24 \<longrightarrow> c = 3)" using c(4,5) by (auto simp: r2_def)
  qed
  have mp: "0 \<le> mp" "mp \<le> 11" using a by (auto simp: mp_def)
  have ymd: "m = (if mp < 10 then mp + 3 else mp - 9)"
    "y = (if m \<le> 2 then era * 400 + c * 100 + q * 4 + a + 1 else era * 400 + c * 100 + q * 4 + a)"
    "d = doy - (153 * mp + 2) div 5 + 1"
    using assms unfolding civil_from_days_def Let_def z_def [symmetric]
    unfolding era_def [symmetric] doe_def [symmetric]
    unfolding c_def [symmetric] unfolding r_def [symmetric] unfolding q_def [symmetric]
    unfolding r2_def [symmetric] unfolding a_def [symmetric] unfolding doy_def [symmetric]
    unfolding mp_def [symmetric] by auto
  have sum: "days + 719468 = era * 146097 + c * 36524 + q * 1461 + a * 365 + doy"
    using doe(3) by (simp add: doy_def r2_def r_def z_def)
  show ?thesis
    by (rule that [OF _ sum c(1,2) q(1,2) a(1-4) leap mp_def mp ymd]) (simp_all add: era_def z_def)
qed

lemma civil_fields:
  assumes "civil_from_days days = (y, m, d)"
  shows "days_from_civil y m d = days" "1 \<le> m" "m \<le> 12" "1 \<le> d" "d \<le> 31"
    "400 * ((days + 719468) div 146097) \<le> y" "y \<le> 400 * ((days + 719468) div 146097) + 400"
proof -
  obtain era c q a doy mp where era: "era = (days + 719468) div 146097"
    and sum: "days + 719468 = era * 146097 + c * 36524 + q * 1461 + a * 365 + doy"
    and c: "0 \<le> c" "c \<le> 3" and q: "0 \<le> q" "q \<le> 24" and a: "0 \<le> a" "a \<le> 3" and doy: "0 \<le> doy" "doy \<le> 365"
    and mp_def: "mp = (5 * doy + 2) div 153" and mp: "0 \<le> mp" "mp \<le> 11"
    and ymd: "m = (if mp < 10 then mp + 3 else mp - 9)"
      "y = (if m \<le> 2 then era * 400 + c * 100 + q * 4 + a + 1 else era * 400 + c * 100 + q * 4 + a)"
      "d = doy - (153 * mp + 2) div 5 + 1"
    using civil_decomp [OF assms] .
  define yy where "yy = era * 400 + c * 100 + q * 4 + a"
  show "1 \<le> m" "m \<le> 12" using mp ymd(1) by auto
  have "(153 * mp + 2) div 5 \<le> doy" "doy \<le> (153 * mp + 2) div 5 + 30"
    using mp_def doy mp by linarith+
  then show "1 \<le> d" "d \<le> 31" using ymd(3) by linarith+
  show "400 * ((days + 719468) div 146097) \<le> y" "y \<le> 400 * ((days + 719468) div 146097) + 400"
    using ymd(2) c q a unfolding era [symmetric] by (auto split: if_splits)
  have inv: "(if m \<le> 2 then y - 1 else y) = yy" "(if m > 2 then m - 3 else m + 9) = mp"
    using ymd mp by (auto simp: yy_def)
  have dv: "yy div 4 = era * 100 + c * 25 + q" "yy div 100 = era * 4 + c" "yy div 400 = era"
    using c q a unfolding yy_def by linarith+
  have "days_from_civil y m d = yy * 365 + yy div 4 - yy div 100 + yy div 400 + ((153 * mp + 2) div 5 + d - 1) - 719468"
    unfolding days_from_civil_def Let_def inv by (rule refl)
  also have "\<dots> = days"
    using sum unfolding dv ymd(3) unfolding yy_def by (simp add: algebra_simps)
  finally show "days_from_civil y m d = days" .
qed

text \<open>The fields of a UTC instant.\<close>

definition Year :: "time \<Rightarrow> int" where
  "Year t = fst (civil_from_days (t div ns_per_day))"
definition Month :: "time \<Rightarrow> int" where
  "Month t = fst (snd (civil_from_days (t div ns_per_day)))"
definition Day :: "time \<Rightarrow> int" where
  "Day t = snd (snd (civil_from_days (t div ns_per_day)))"
definition Hour :: "time \<Rightarrow> int" where
  "Hour t = t mod ns_per_day div 3600000000000"
definition Minute :: "time \<Rightarrow> int" where
  "Minute t = t mod 3600000000000 div 60000000000"
definition Second :: "time \<Rightarrow> int" where
  "Second t = t mod 60000000000 div 1000000000"
definition Nanosecond :: "time \<Rightarrow> int" where
  "Nanosecond t = t mod 1000000000"

lemma mod_div_range:
  assumes "0 < b" "0 < (k :: int)" "n = k * b"
  shows "0 \<le> t mod n div b" "t mod n div b \<le> k - 1"
proof -
  have n: "0 \<le> t mod n" "t mod n < k * b" using assms by simp_all
  have "t mod n div b * b \<le> t mod n" using assms(1) div_mult_mod_eq [of "t mod n" b]
    pos_mod_sign [OF assms(1), of "t mod n"] by linarith
  with n have "t mod n div b * b < k * b" by linarith
  then have "t mod n div b < k" using assms(1) by (simp add: mult_less_cancel_right)
  then show "t mod n div b \<le> k - 1" by simp
  show "0 \<le> t mod n div b" using assms(1) n(1) by (simp add: pos_imp_zdiv_nonneg_iff)
qed

lemma date_fields: "1 \<le> Month t" "Month t \<le> 12" "1 \<le> Day t" "Day t \<le> 31"
  using civil_fields [of "t div ns_per_day" "Year t" "Month t" "Day t"]
  by (simp_all add: Year_def Month_def Day_def)

lemma clock_ranges:
  "0 \<le> Hour t" "Hour t \<le> 24 - 1" "0 \<le> Minute t" "Minute t \<le> 60 - 1"
  "0 \<le> Second t" "Second t \<le> 60 - 1" "0 \<le> Nanosecond t" "Nanosecond t < 1000000000"
  unfolding Hour_def Minute_def Second_def Nanosecond_def
  by (rule mod_div_range pos_mod_sign pos_mod_bound; simp add: ns_per_day_def)+

lemmas time_fields = date_fields clock_ranges

lemma clock_fields:
  "t mod ns_per_day = Hour t * 3600000000000 + Minute t * 60000000000 + Second t * 1000000000 + Nanosecond t"
proof -
  have "t mod ns_per_day mod 3600000000000 = t mod 3600000000000"
    "t mod 3600000000000 mod 60000000000 = t mod 60000000000"
    "t mod 60000000000 mod 1000000000 = t mod 1000000000"
    by (simp_all add: ns_per_day_def mod_mod_cancel)
  then show ?thesis
    using div_mult_mod_eq [of "t mod ns_per_day" 3600000000000]
      div_mult_mod_eq [of "t mod 3600000000000" 60000000000]
      div_mult_mod_eq [of "t mod 60000000000" 1000000000]
    unfolding Hour_def Minute_def Second_def Nanosecond_def by linarith
qed

lemma time_Date_fields:
  "time_Date (Year t) (Month t) (Day t) (Hour t) (Minute t) (Second t) (Nanosecond t) = t"
proof -
  have "days_from_civil (Year t) (Month t) (Day t) = t div ns_per_day"
    using civil_fields(1) [of "t div ns_per_day" "Year t" "Month t" "Day t"]
    by (simp add: Year_def Month_def Day_def)
  moreover have "(Month t - 1) div 12 = 0" "(Month t - 1) mod 12 = Month t - 1"
    using time_fields(1,2) [of t] by simp_all
  ultimately show ?thesis
    using clock_fields [of t] div_mult_mod_eq [of t ns_per_day] by (simp add: time_Date_def)
qed

section \<open>Numbers with a fixed width\<close>

definition zero_pad :: "nat \<Rightarrow> nat \<Rightarrow> string" where
  "zero_pad w n = (let s = dec_of_nat n in replicate (w - length s) (CHR ''0'') @ s)"

text \<open>\<open>fmt.Sprintf("%0<w>d", n)\<close>; the sign counts for the width.\<close>

definition format_padded :: "nat \<Rightarrow> int \<Rightarrow> string" where
  "format_padded w n = (if n < 0 then CHR ''-'' # zero_pad (w - 1) (nat (- n)) else zero_pad w (nat n))"

text \<open>\<open>strconv.Atoi\<close>: an optional sign, decimal digits, and the range of a 64-bit \<open>int\<close>.\<close>

definition Atoi :: "string \<Rightarrow> int option" where
  "Atoi s =
     (let signed = s \<noteq> [] \<and> hd s \<in> {CHR ''+'', CHR ''-''};
          digits = (if signed then tl s else s);
          n = int (digits_value digits);
          n = (if signed \<and> hd s = CHR ''-'' then - n else n)
      in if digits = [] \<or> \<not> list_all is_digit digits then None
         else if - (2 ^ 63) \<le> n \<and> n < 2 ^ 63 then Some n else None)"

lemma length_dec_of_nat: "0 < w \<Longrightarrow> n < 10 ^ w \<Longrightarrow> length (dec_of_nat n) \<le> w"
proof (induction w arbitrary: n)
  case (Suc w)
  show ?case
  proof (cases "n < 10")
    case False
    then have "0 < w" using Suc.prems by (cases w) auto
    moreover have "n div 10 < 10 ^ w" using Suc.prems by (simp add: less_mult_imp_div_less mult.commute)
    ultimately show ?thesis using Suc.IH [of "n div 10"] False by (simp add: dec_of_nat.simps [of n])
  qed (simp add: dec_of_nat.simps [of n])
qed simp

lemma length_zero_pad: "0 < w \<Longrightarrow> n < 10 ^ w \<Longrightarrow> length (zero_pad w n) = w"
  using length_dec_of_nat [of w n] by (simp add: zero_pad_def Let_def)

lemma digits_value_zeros: "digits_value (replicate k (CHR ''0'') @ s) = digits_value s"
proof -
  have "foldl (\<lambda>acc c. 10 * acc + digit_value c) 0 (replicate k (CHR ''0'')) = 0"
    by (induction k) (simp_all add: digit_value_def)
  then show ?thesis by (simp add: digits_value_def)
qed

lemma zero_pad_digits: "list_all is_digit (zero_pad w n)"
  by (auto simp: zero_pad_def Let_def list_all_append) (simp add: list_all_iff is_digit_def)

lemma zero_pad_hd:
  "zero_pad w n \<noteq> []" "hd (zero_pad w n) \<notin> {CHR ''+'', CHR ''-''}"
proof -
  show "zero_pad w n \<noteq> []" by (simp add: zero_pad_def Let_def)
  then have "is_digit (hd (zero_pad w n))" using zero_pad_digits [of w n] by (simp add: list_all_iff)
  then show "hd (zero_pad w n) \<notin> {CHR ''+'', CHR ''-''}" by (auto simp: is_digit_def)
qed

lemma Atoi_zero_pad: "n < 2 ^ 63 \<Longrightarrow> Atoi (zero_pad w n) = Some (int n)"
proof -
  assume "n < 2 ^ 63"
  then have "int n < 2 ^ 63" by simp
  moreover have "digits_value (zero_pad w n) = n" by (simp add: zero_pad_def Let_def digits_value_zeros)
  ultimately show ?thesis using zero_pad_hd [of w n] zero_pad_digits [of w n] by (simp add: Atoi_def Let_def)
qed

section \<open>Formatting and parsing\<close>

definition FormatTime :: "time \<Rightarrow> string result" where
  "FormatTime value =
     (let value = NormalizeTime value
      in case ValidateTime value of
           Inl err \<Rightarrow> Inl err
         | Inr _ \<Rightarrow>
             let year = Year value;
                 yearText =
                   (if year \<ge> 0 \<and> year \<le> 9999 then format_padded 4 year
                    else let sign = (if year < 0 then ''-'' else ''+'');
                             magnitude = (if year < 0 then - year else year)
                         in sign @ format_padded 6 magnitude)
             in Inr (yearText @ ''-'' @ format_padded 2 (Month value)
                  @ ''-'' @ format_padded 2 (Day value)
                  @ ''T'' @ format_padded 2 (Hour value)
                  @ '':'' @ format_padded 2 (Minute value)
                  @ '':'' @ format_padded 2 (Second value)
                  @ ''.'' @ format_padded 3 (Nanosecond value div ns_per_ms) @ ''Z''))"

definition parse_field :: "string \<Rightarrow> string \<Rightarrow> nat \<Rightarrow> nat \<Rightarrow> int result" where
  "parse_field name value start stop =
     (case Atoi (take (stop - start) (drop start value)) of
        None \<Rightarrow> Inl (ErrMsg (''invalid portable '' @ name))
      | Some n \<Rightarrow> Inr n)"

definition ParseTime :: "string \<Rightarrow> time result" where
  "ParseTime value =
     (if length value < 24 \<or> value ! (length value - 1) \<noteq> CHR ''Z''
      then Inl (ErrMsg ''invalid portable time'')
      else
        let expanded = value ! 0 = CHR ''+'' \<or> value ! 0 = CHR ''-'';
            yearWidth = (if expanded then 6 else 4);
            yearStart = (if expanded then 1 else 0);
            separator = yearStart + yearWidth
        in if length value \<noteq> separator + 20 \<or> value ! separator \<noteq> CHR ''-''
              \<or> value ! (separator + 3) \<noteq> CHR ''-'' \<or> value ! (separator + 6) \<noteq> CHR ''T''
              \<or> value ! (separator + 9) \<noteq> CHR '':'' \<or> value ! (separator + 12) \<noteq> CHR '':''
              \<or> value ! (separator + 15) \<noteq> CHR ''.'' \<or> value ! (separator + 19) \<noteq> CHR ''Z''
           then Inl (ErrMsg ''invalid portable time'')
           else
             rbind (parse_field ''year'' value yearStart separator) (\<lambda>year.
             let year = (if yearStart = 1 \<and> value ! 0 = CHR ''-'' then - year else year) in
             rbind (parse_field ''month'' value (separator + 1) (separator + 3)) (\<lambda>month.
             rbind (parse_field ''day'' value (separator + 4) (separator + 6)) (\<lambda>day.
             rbind (parse_field ''hour'' value (separator + 7) (separator + 9)) (\<lambda>hour.
             rbind (parse_field ''minute'' value (separator + 10) (separator + 12)) (\<lambda>minute.
             rbind (parse_field ''second'' value (separator + 13) (separator + 15)) (\<lambda>second.
             rbind (parse_field ''millisecond'' value (separator + 16) (separator + 19)) (\<lambda>millisecond.
             let parsed = time_Date year month day hour minute second (millisecond * ns_per_ms)
             in case FormatTime parsed of
                  Inl _ \<Rightarrow> Inl (ErrMsg ''invalid portable time'')
                | Inr formatted \<Rightarrow>
                    if formatted \<noteq> value then Inl (ErrMsg ''invalid portable time'')
                    else Inr parsed))))))))"

subsection \<open>Round trips\<close>

lemma portable_year:
  assumes "ValidateTime t = Inr ()" and "NormalizeTime t = t"
  shows "-1000000 < Year t" "Year t < 1000000"
proof -
  define days where "days = t div ns_per_day"
  define era where "era = (days + 719468) div 146097"
  have "MinPortableUnixMillis * ns_per_ms \<le> t" "t \<le> MaxPortableUnixMillis * ns_per_ms"
    using assms by (simp_all add: ValidateTime_def UnixMilli_def Let_def split: if_splits)
  then have t: "-8640000000000000000000 \<le> t" "t \<le> 8640000000000000000000"
    by (simp_all add: MinPortableUnixMillis_def MaxPortableUnixMillis_def ns_per_ms_def)
  have "days * ns_per_day \<le> t" "t < days * ns_per_day + ns_per_day"
    using div_mult_mod_eq [of t ns_per_day] pos_mod_sign [of ns_per_day t] pos_mod_bound [of ns_per_day t]
    unfolding days_def by (simp_all add: ns_per_day_def)
  then have days: "-100000001 \<le> days" "days \<le> 100000000"
    using t by (simp_all add: ns_per_day_def)
  have "era * 146097 \<le> days + 719468" "days + 719468 < era * 146097 + 146097"
    using div_mult_mod_eq [of "days + 719468" 146097] pos_mod_sign [of 146097 "days + 719468"]
      pos_mod_bound [of 146097 "days + 719468"]
    unfolding era_def by linarith+
  then have "-1000 \<le> era" "era \<le> 1000" using days by linarith+
  moreover have "400 * era \<le> Year t" "Year t \<le> 400 * era + 400"
    using civil_fields(6,7) [of days "Year t" "Month t" "Day t"]
    by (simp_all add: era_def days_def Year_def Month_def Day_def)
  ultimately show "-1000000 < Year t" "Year t < 1000000" by linarith+
qed

text \<open>What the parser reads back from a field that the formatter printed.\<close>

lemma format_padded_field:
  assumes "0 \<le> n" "n < 10 ^ w" "0 < w" "w \<le> 6"
  shows "length (format_padded w n) = w" "Atoi (format_padded w n) = Some n"
    "hd (format_padded w n) \<notin> {CHR ''+'', CHR ''-''}" "format_padded w n \<noteq> []"
proof -
  have w: "nat n < 10 ^ w" using assms(1,2) by (simp add: nat_less_iff)
  have "(10::nat) ^ w \<le> 10 ^ 6" using assms(4) by (intro power_increasing) simp_all
  with w have "nat n < 10 ^ 6" by (rule order_less_le_trans)
  then have "nat n < 2 ^ 63" by simp
  then show "Atoi (format_padded w n) = Some n"
    using Atoi_zero_pad [of "nat n" w] assms(1) by (simp add: format_padded_def)
  show "length (format_padded w n) = w" using assms(1,3) w by (simp add: format_padded_def length_zero_pad)
  show "hd (format_padded w n) \<notin> {CHR ''+'', CHR ''-''}" "format_padded w n \<noteq> []"
    using assms(1) zero_pad_hd [of w "nat n"] by (simp_all add: format_padded_def)
qed

lemma format_two_digits:
  assumes "0 \<le> n" "n \<le> 60"
  obtains a b where "format_padded 2 n = [a, b]" "Atoi [a, b] = Some n"
proof -
  have "length (format_padded 2 n) = 2" "Atoi (format_padded 2 n) = Some n"
    using format_padded_field [of n 2] assms by simp_all
  then show ?thesis using that by (cases "format_padded 2 n"; cases "tl (format_padded 2 n)") auto
qed

lemma format_three_digits:
  assumes "0 \<le> n" "n < 1000"
  obtains a b c where "format_padded 3 n = [a, b, c]" "Atoi [a, b, c] = Some n"
proof -
  have "length (format_padded 3 n) = 3" "Atoi (format_padded 3 n) = Some n"
    using format_padded_field [of n 3] assms by simp_all
  then show ?thesis using that
    by (cases "format_padded 3 n"; cases "tl (format_padded 3 n)"; cases "tl (tl (format_padded 3 n))") auto
qed

text \<open>A text of the formatter's shape is parsed into the fields it was printed from.\<close>

lemma ParseTime_shape:
  assumes yt: "if expanded then ytext = sg # ydigits \<and> sg \<in> {CHR ''+'', CHR ''-''} \<and> length ydigits = 6
               else ytext = ydigits \<and> length ydigits = 4 \<and> hd ydigits \<notin> {CHR ''+'', CHR ''-''}"
    and y: "Atoi ydigits = Some y0"
    and year: "year = (if expanded \<and> sg = CHR ''-'' then - y0 else y0)"
    and fields: "Atoi [m1, m2] = Some mo" "Atoi [d1, d2] = Some da" "Atoi [h1, h2] = Some ho"
      "Atoi [i1, i2] = Some mi" "Atoi [s1, s2] = Some se" "Atoi [l1, l2, l3] = Some ms"
    and s: "s = ytext @ [CHR ''-'', m1, m2, CHR ''-'', d1, d2, CHR ''T'', h1, h2, CHR '':'', i1, i2,
              CHR '':'', s1, s2, CHR ''.'', l1, l2, l3, CHR ''Z'']"
    and f: "FormatTime (time_Date year mo da ho mi se (ms * ns_per_ms)) = Inr s"
  shows "ParseTime s = Inr (time_Date year mo da ho mi se (ms * ns_per_ms))"
proof (cases expanded)
  case True
  then obtain a b c d e g where yd: "ydigits = [a, b, c, d, e, g]" "ytext = sg # ydigits"
    "sg \<in> {CHR ''+'', CHR ''-''}"
    using yt by (auto simp: numeral_eq_Suc length_Suc_conv)
  show ?thesis
    using f fields y year yd True by (auto simp: ParseTime_def parse_field_def s Let_def)
next
  case False
  then obtain a b c d where yd: "ydigits = [a, b, c, d]" "ytext = ydigits" "a \<notin> {CHR ''+'', CHR ''-''}"
    using yt by (auto simp: numeral_eq_Suc length_Suc_conv)
  show ?thesis
    using f fields y year yd False by (auto simp: ParseTime_def parse_field_def s Let_def)
qed

lemma FormatTime_Normalize [simp]: "FormatTime (NormalizeTime t) = FormatTime t"
  by (simp add: FormatTime_def)

lemma Nanosecond_normalized: "NormalizeTime t = t \<Longrightarrow> Nanosecond t div ns_per_ms * ns_per_ms = Nanosecond t"
proof -
  assume "NormalizeTime t = t"
  then have "ns_per_ms dvd t" unfolding NormalizeTime_def by (metis dvd_triv_right)
  then have "ns_per_ms dvd Nanosecond t"
    unfolding Nanosecond_def by (rule dvd_mod) (simp add: ns_per_ms_def)
  then show ?thesis by simp
qed

lemma ParseTime_FormatTime_normalized:
  assumes n: "NormalizeTime t = t" and s: "FormatTime t = Inr s"
  shows "ParseTime s = Inr t"
proof -
  have v: "ValidateTime t = Inr ()"
    using s n by (cases "ValidateTime t") (simp_all add: FormatTime_def)
  let ?ms = "Nanosecond t div ns_per_ms"
  obtain m1 m2 where m: "format_padded 2 (Month t) = [m1, m2]" "Atoi [m1, m2] = Some (Month t)"
    using format_two_digits [of "Month t"] time_fields [of t] by auto
  obtain d1 d2 where d: "format_padded 2 (Day t) = [d1, d2]" "Atoi [d1, d2] = Some (Day t)"
    using format_two_digits [of "Day t"] time_fields [of t] by auto
  obtain h1 h2 where h: "format_padded 2 (Hour t) = [h1, h2]" "Atoi [h1, h2] = Some (Hour t)"
    using format_two_digits [of "Hour t"] time_fields [of t] by auto
  obtain i1 i2 where i: "format_padded 2 (Minute t) = [i1, i2]" "Atoi [i1, i2] = Some (Minute t)"
    using format_two_digits [of "Minute t"] time_fields [of t] by auto
  obtain s1 s2 where se: "format_padded 2 (Second t) = [s1, s2]" "Atoi [s1, s2] = Some (Second t)"
    using format_two_digits [of "Second t"] time_fields [of t] by auto
  have "0 \<le> ?ms" "?ms < 1000" using time_fields(11,12) [of t] by (simp_all add: ns_per_ms_def)
  then obtain l1 l2 l3 where l: "format_padded 3 ?ms = [l1, l2, l3]" "Atoi [l1, l2, l3] = Some ?ms"
    by (rule format_three_digits)
  define expanded where "expanded \<longleftrightarrow> \<not> (0 \<le> Year t \<and> Year t \<le> 9999)"
  define sg where "sg = (if Year t < 0 then CHR ''-'' else CHR ''+'')"
  define ydigits where "ydigits = (if expanded then format_padded 6 \<bar>Year t\<bar> else format_padded 4 (Year t))"
  define y0 where "y0 = (if expanded then \<bar>Year t\<bar> else Year t)"
  define ytext where "ytext = (if expanded then sg # ydigits else ydigits)"
  have shape: "s = ytext @ [CHR ''-'', m1, m2, CHR ''-'', d1, d2, CHR ''T'', h1, h2, CHR '':'', i1, i2,
              CHR '':'', s1, s2, CHR ''.'', l1, l2, l3, CHR ''Z'']"
    using s v n m(1) d(1) h(1) i(1) se(1) l(1)
    by (auto simp: FormatTime_def Let_def ytext_def ydigits_def expanded_def sg_def)
  have yd: "Atoi ydigits = Some y0" "length ydigits = (if expanded then 6 else 4)"
    "hd ydigits \<notin> {CHR ''+'', CHR ''-''}"
    using format_padded_field [of "\<bar>Year t\<bar>" 6] format_padded_field [of "Year t" 4] portable_year [OF v n]
    by (auto simp: ydigits_def y0_def expanded_def split: if_splits)
  have year: "Year t = (if expanded \<and> sg = CHR ''-'' then - y0 else y0)"
    by (auto simp: y0_def expanded_def sg_def)
  have date: "time_Date (Year t) (Month t) (Day t) (Hour t) (Minute t) (Second t) (?ms * ns_per_ms) = t"
    using time_Date_fields [of t] Nanosecond_normalized [OF n] by simp
  have "ParseTime s = Inr (time_Date (Year t) (Month t) (Day t) (Hour t) (Minute t) (Second t) (?ms * ns_per_ms))"
  proof (rule ParseTime_shape [OF _ yd(1) year m(2) d(2) h(2) i(2) se(2) l(2) shape])
    show "if expanded then ytext = sg # ydigits \<and> sg \<in> {CHR ''+'', CHR ''-''} \<and> length ydigits = 6
      else ytext = ydigits \<and> length ydigits = 4 \<and> hd ydigits \<notin> {CHR ''+'', CHR ''-''}"
      using yd by (simp add: ytext_def sg_def)
  qed (simp add: date s)
  then show ?thesis by (simp add: date)
qed

lemma days_ns_dvd: "ns_per_ms dvd time_Date y m d h i s (ms * ns_per_ms)"
  unfolding time_Date_def ns_per_ms_def ns_per_day_def
  by (intro dvd_add dvd_mult) simp_all

lemma checked_Inr_iff:
  "(case r of Inl _ \<Rightarrow> Inl e | Inr f \<Rightarrow> if f \<noteq> s then Inl e else Inr p) = Inr t \<longleftrightarrow> r = Inr s \<and> t = p"
  by (auto split: sum.splits)

lemma ParseTime_Inr:
  assumes "ParseTime s = Inr t"
  shows "FormatTime t = Inr s" "NormalizeTime t = t"
proof -
  obtain y m d h i se ms where t: "t = time_Date y m d h i se (ms * ns_per_ms)"
    and "FormatTime t = Inr s"
    using assms unfolding ParseTime_def Let_def
    by (auto simp: result_simps checked_Inr_iff split: if_splits)
  then show "FormatTime t = Inr s" by simp
  show "NormalizeTime t = t" using days_ns_dvd [of y m d h i se ms] by (simp add: t NormalizeTime_def)
qed

lemma ParseTime_FormatTime:
  assumes "FormatTime t = Inr s"
  shows "ParseTime s = Inr (NormalizeTime t)"
  using ParseTime_FormatTime_normalized [of "NormalizeTime t" s] assms by simp

lemma FormatTime_total: "ValidateTime t = Inr () \<Longrightarrow> \<exists>s. FormatTime t = Inr s"
  by (simp add: FormatTime_def Let_def)

lemma FormatTime_error: "ValidateTime t = Inl e \<Longrightarrow> FormatTime t = Inl e"
  by (simp add: FormatTime_def Let_def)

lemma ParseTime_valid: "ParseTime s = Inr t \<Longrightarrow> ValidateTime t = Inr ()"
  using ParseTime_Inr [of s t] FormatTime_error [of t] by (cases "ValidateTime t") auto

end
