(* ===== verification/Backend_Engine.thy ===== *)
theory Backend_Engine
  imports Portable_Time Mmr_Tree "HOL-Library.Char_ord" "HOL-Library.List_Lexorder"
    "HOL-Library.Product_Lexorder"
begin

text \<open>
  \<open>internal/backend/engine.go\<close> and \<open>clone.go\<close>: the in-memory representation and the transition
  rules that every backend shares. The clone functions copy values so that callers never alias
  engine memory; in HOL values are never aliased, so they are identities and are left out. The
  map \<open>byValue\<close> is a partial function on entry values. \<open>dt\<close> is the MMR library, reached through
  \<open>mmr.LeafCount\<close>.
\<close>

section \<open>State\<close>

record Engine =
  entries :: "Entry list"
  byValue :: "bytes \<rightharpoonup> nat"
  state :: State

record Snapshot =
  entryCount :: nat
  snapshotState :: State

definition Engine_New :: Engine where
  "Engine_New = \<lparr>entries = [], byValue = Map.empty, state = empty_State\<rparr>"

section \<open>Validation\<close>

definition WitnessKey :: "string \<Rightarrow> uint64 \<Rightarrow> string" where
  "WitnessKey wid sz = wid @ [CHR 0x00] @ FormatUint sz"

definition witness_key :: "WitnessState \<Rightarrow> string" where
  "witness_key w = WitnessKey (WitnessID w) (CheckpointSize w)"

definition validEntryHash :: "string \<Rightarrow> bool" where
  "validEntryHash value =
     (case hex_DecodeString value of
        None \<Rightarrow> False
      | Some decoded \<Rightarrow> length decoded = EntryBytes \<and> hex_EncodeToString decoded = value)"

definition invalid_position :: "int option \<Rightarrow> bool" where
  "invalid_position position =
     (case position of None \<Rightarrow> False | Some p \<Rightarrow> p < 0 \<or> p > int (unat MaxPortableInteger))"

definition validateWitness :: "WitnessState \<Rightarrow> error \<Rightarrow> unit result" where
  "validateWitness value class_err =
     (if isl (ValidateIdentifier (WitnessID value)) \<or> CheckpointSize value = 0
        \<or> length (WitnessCheckpoint value) < 1 \<or> length (WitnessCheckpoint value) > MaxCheckpointBytes
        \<or> isl (ValidateTime (NextAttemptAt value)) \<or> length (LastError value) > MaxReasonBytes
      then Inl class_err
      else case Receipt value of
        None \<Rightarrow> Inr ()
      | Some receipt \<Rightarrow>
          if length (ReceiptBytes receipt) < 1 \<or> length (ReceiptBytes receipt) > MaxWitnessResponseBytes
          then Inl class_err
          else if EntryHash receipt \<noteq> [] \<and> \<not> validEntryHash (EntryHash receipt) then Inl class_err
          else if EntryHashScheme receipt \<noteq> [] \<and> EntryHashScheme receipt \<noteq> ''legacy''
          then Inl class_err
          else if list_ex invalid_position [LeafIndex receipt, TreeSize receipt] then Inl class_err
          else Inr ())"

fun validateWitnesses :: "WitnessState list \<Rightarrow> string set \<Rightarrow> error \<Rightarrow> unit result" where
  "validateWitnesses [] seen class_err = Inr ()"
| "validateWitnesses (witness # rest) seen class_err =
     rbind (validateWitness witness class_err) (\<lambda>_.
       if witness_key witness \<in> seen then Inl class_err
       else validateWitnesses rest (insert (witness_key witness) seen) class_err)"

definition validateStateMetadata :: "dtmmr \<Rightarrow> State \<Rightarrow> uint64 \<Rightarrow> error \<Rightarrow> unit result" where
  "validateStateMetadata dt value nodeCount class_err =
     (if Size value \<noteq> nodeCount then Inl class_err
      else
        let (leaves, complete) = mmr_LeafCount dt (Size value)
        in if \<not> complete \<or> leaves \<noteq> IndexedSeq value then Inl class_err
           else if (case FirstPendingAt value of None \<Rightarrow> False | Some t \<Rightarrow> isl (ValidateTime t))
           then Inl class_err
           else if (case Checkpoint value of None \<Rightarrow> False
             | Some checkpoint \<Rightarrow>
                 length (CheckpointBytes checkpoint) < 1
                 \<or> length (CheckpointBytes checkpoint) > MaxCheckpointBytes
                 \<or> CkSize checkpoint = 0 \<or> CkSize checkpoint > Size value
                 \<or> CkIndexedSeq checkpoint > IndexedSeq value
                 \<or> list_ex (\<lambda>peak. length peak \<noteq> EntryBytes) (Peaks checkpoint))
           then Inl class_err
           else validateWitnesses (Witnesses value) {} class_err)"

definition validateState :: "dtmmr \<Rightarrow> State \<Rightarrow> error \<Rightarrow> unit result" where
  "validateState dt value class_err =
     rbind (validateStateMetadata dt value (of_nat (length (Nodes value))) class_err) (\<lambda>_.
       if list_ex (\<lambda>node. length node \<noteq> EntryBytes) (Nodes value) then Inl class_err else Inr ())"

definition sameOptional :: "CheckpointState option \<Rightarrow> bytes option \<Rightarrow> bool" where
  "sameOptional checkpoint expected =
     (case checkpoint of
        None \<Rightarrow> expected = None
      | Some c \<Rightarrow> (case expected of None \<Rightarrow> False | Some e \<Rightarrow> CheckpointBytes c = e))"

definition prefixEqual :: "bytes list \<Rightarrow> bytes list \<Rightarrow> bool" where
  "prefixEqual pre values =
     (if length values < length pre then False
      else list_all (\<lambda>index. pre ! index = values ! index) [0..<length pre])"

definition listEqual :: "bytes list \<Rightarrow> bytes list \<Rightarrow> bool" where
  "listEqual left right \<longleftrightarrow> length left = length right \<and> prefixEqual left right"

section \<open>CLL transitions\<close>

fun addedWitnesses ::
    "(string \<rightharpoonup> WitnessState) \<Rightarrow> WitnessState list \<Rightarrow> string set \<Rightarrow> WitnessState list result" where
  "addedWitnesses existing [] seen = Inr []"
| "addedWitnesses existing (witness # rest) seen =
     (let key = witness_key witness
      in if key \<in> seen then Inl ErrInvalid
         else case existing key of
           Some currentWitness \<Rightarrow>
             if WitnessCheckpoint currentWitness \<noteq> WitnessCheckpoint witness then Inl ErrContention
             else addedWitnesses existing rest (insert key seen)
         | None \<Rightarrow>
             rbind (addedWitnesses existing rest (insert key seen)) (\<lambda>added. Inr (witness # added)))"

definition witnessMap :: "WitnessState list \<Rightarrow> (string \<rightharpoonup> WitnessState)" where
  "witnessMap ws = foldl (\<lambda>m w. m(witness_key w \<mapsto> w)) Map.empty ws"

definition checkpointTransition :: "CheckpointState option \<Rightarrow> CheckpointState option \<Rightarrow> unit result" where
  "checkpointTransition current next_cp =
     (case (current, next_cp) of
        (Some c, None) \<Rightarrow> Inl ErrContention
      | (Some c, Some n) \<Rightarrow>
          if CkSize n < CkSize c \<or> CkIndexedSeq n < CkIndexedSeq c then Inl ErrContention
          else if CkSize n = CkSize c \<and> (CheckpointBytes n \<noteq> CheckpointBytes c
             \<or> CkIndexedSeq n \<noteq> CkIndexedSeq c \<or> \<not> listEqual (Peaks n) (Peaks c))
          then Inl ErrContention
          else Inr ()
      | _ \<Rightarrow> Inr ())"

definition validateCLLTransition :: "State \<Rightarrow> State \<Rightarrow> WitnessState list result" where
  "validateCLLTransition current next_st =
     (if IndexedSeq next_st < IndexedSeq current then Inl ErrInvalid
      else rbind (checkpointTransition (Checkpoint current) (Checkpoint next_st)) (\<lambda>_.
             addedWitnesses (witnessMap (Witnesses current)) (Witnesses next_st) {}))"

definition ApplyCLL :: "dtmmr \<Rightarrow> State \<Rightarrow> uint64 \<Rightarrow> bytes option \<Rightarrow> State \<Rightarrow> State result" where
  "ApplyCLL dt current expectedSize expectedCheckpoint next_st =
     (if Size current \<noteq> expectedSize \<or> \<not> sameOptional (Checkpoint current) expectedCheckpoint
      then Inl ErrContention
      else rbind (validateState dt next_st ErrInvalid) (\<lambda>_.
        if Size next_st < Size current \<or> IndexedSeq next_st < IndexedSeq current
          \<or> \<not> prefixEqual (Nodes current) (Nodes next_st)
        then Inl ErrInvalid
        else rbind (validateCLLTransition current next_st) (\<lambda>added.
          Inr (next_st\<lparr>Witnesses := Witnesses current @ added\<rparr>))))"

definition CommitCLL :: "dtmmr \<Rightarrow> Engine \<Rightarrow> uint64 \<Rightarrow> bytes option \<Rightarrow> State \<Rightarrow> unit result \<times> Engine" where
  "CommitCLL dt e expectedSize expectedCheckpoint next_st =
     (case ApplyCLL dt (state e) expectedSize expectedCheckpoint next_st of
        Inl err \<Rightarrow> (Inl err, e)
      | Inr updated \<Rightarrow> (Inr (), e\<lparr>state := updated\<rparr>))"

definition CommitCLLDelta ::
    "dtmmr \<Rightarrow> Engine \<Rightarrow> uint64 \<Rightarrow> bytes option \<Rightarrow> State \<Rightarrow> unit result \<times> Engine" where
  "CommitCLLDelta dt e expectedSize expectedCheckpoint delta =
     (let current = state e
      in if Size current \<noteq> expectedSize \<or> \<not> sameOptional (Checkpoint current) expectedCheckpoint
         then (Inl ErrContention, e)
         else
           let addedCount = of_nat (length (Nodes delta))
           in if Size delta < Size current \<or> Size current + addedCount < Size current
                \<or> Size delta \<noteq> Size current + addedCount
              then (Inl ErrInvalid, e)
              else (case validateStateMetadata dt delta (Size delta) ErrInvalid of
                Inl err \<Rightarrow> (Inl err, e)
              | Inr _ \<Rightarrow>
                  if list_ex (\<lambda>node. length node \<noteq> EntryBytes) (Nodes delta) then (Inl ErrInvalid, e)
                  else (case validateCLLTransition current delta of
                    Inl err \<Rightarrow> (Inl err, e)
                  | Inr added \<Rightarrow>
                      (Inr (), e\<lparr>state := delta\<lparr>Nodes := Nodes current @ Nodes delta,
                                                Witnesses := Witnesses current @ added\<rparr>\<rparr>))))"

section \<open>Snapshots\<close>

definition Engine_Snapshot :: "Engine \<Rightarrow> Snapshot" where
  "Engine_Snapshot e = \<lparr>entryCount = length (entries e), snapshotState = state e\<rparr>"

definition Restore :: "Engine \<Rightarrow> Snapshot \<Rightarrow> unit result \<times> Engine" where
  "Restore e snapshot =
     (if entryCount snapshot > length (entries e) then (Inl ErrCorrupt, e)
      else (Inr (), \<lparr>entries = take (entryCount snapshot) (entries e),
              byValue = foldl (\<lambda>m en. m(Value en := None)) (byValue e)
                (drop (entryCount snapshot) (entries e)),
              state = snapshotState snapshot\<rparr>))"

definition DeltaSince :: "Engine \<Rightarrow> Snapshot \<Rightarrow> State result" where
  "DeltaSince e snapshot =
     (let before = snapshotState snapshot; current = state e
      in if length (Nodes current) < length (Nodes before) then Inl ErrCorrupt
         else
           let existing = set (map witness_key (Witnesses before))
           in Inr (current\<lparr>Nodes := drop (length (Nodes before)) (Nodes current),
                Witnesses := filter (\<lambda>witness. witness_key witness \<notin> existing) (Witnesses current)\<rparr>))"

definition Engine_Entries :: "Engine \<Rightarrow> Entry list" where
  "Engine_Entries e = entries e"

definition Engine_State :: "Engine \<Rightarrow> State" where
  "Engine_State e = state e"

fun checkEntries :: "Entry list \<Rightarrow> nat \<Rightarrow> bytes set \<Rightarrow> unit result" where
  "checkEntries [] index seen = Inr ()"
| "checkEntries (entry # rest) index seen =
     (if Seq entry \<noteq> of_nat (index + 1) \<or> Seq entry > MaxPortableInteger
        \<or> length (Value entry) \<noteq> EntryBytes \<or> isl (ValidateTime (AppendedAt entry))
      then Inl ErrCorrupt
      else if Value entry \<in> seen then Inl ErrCorrupt
      else checkEntries rest (index + 1) (insert (Value entry) seen))"

definition indexEntries :: "Entry list \<Rightarrow> (bytes \<rightharpoonup> nat)" where
  "indexEntries es = foldl (\<lambda>m index. m(Value (es ! index) \<mapsto> index)) Map.empty [0..<length es]"

definition Replace :: "dtmmr \<Rightarrow> Engine \<Rightarrow> Entry list \<Rightarrow> State \<Rightarrow> unit result \<times> Engine" where
  "Replace dt e es st =
     (case rbind (checkEntries es 0 {}) (\<lambda>_. validateState dt st ErrCorrupt) of
        Inl err \<Rightarrow> (Inl err, e)
      | Inr _ \<Rightarrow> (Inr (), \<lparr>entries = es, byValue = indexEntries es, state = st\<rparr>))"

section \<open>Entries\<close>

definition Engine_Append :: "Engine \<Rightarrow> AppendInput \<Rightarrow> AppendResult result \<times> Engine" where
  "Engine_Append e input =
     (if length (InputValue input) \<noteq> EntryBytes \<or> isl (ValidateTime (InputAppendedAt input))
      then (Inl ErrInvalid, e)
      else case byValue e (InputValue input) of
        Some index \<Rightarrow>
          (if index < length (entries e)
           then (Inr \<lparr>ResultEntry = entries e ! index, Outcome = AppendIdempotent\<rparr>, e)
           else (Inl Panic, e))
      | None \<Rightarrow>
          let seq = of_nat (length (entries e) + 1)
          in if seq > MaxPortableInteger then (Inl ErrInvalid, e)
             else
               let entry = \<lparr>Seq = seq, Value = InputValue input,
                              AppendedAt = NormalizeTime (InputAppendedAt input)\<rparr>;
                   es = entries e @ [entry]
               in (Inr \<lparr>ResultEntry = entry, Outcome = AppendInserted\<rparr>,
                   e\<lparr>entries := es, byValue := (byValue e)(InputValue input \<mapsto> length es - 1)\<rparr>))"

definition GetEntry :: "Engine \<Rightarrow> bytes \<Rightarrow> Entry result" where
  "GetEntry e value =
     (if length value \<noteq> EntryBytes then Inl ErrInvalid
      else case byValue e value of
        None \<Rightarrow> Inl ErrNotFound
      | Some index \<Rightarrow> if index < length (entries e) then Inr (entries e ! index) else Inl Panic)"

definition ScanEntries :: "Engine \<Rightarrow> uint64 \<Rightarrow> int \<Rightarrow> Entry list result" where
  "ScanEntries e afterSeq limit =
     (if afterSeq > MaxPortableInteger \<or> limit < 1 \<or> limit > MaxScanLimit then Inl ErrInvalid
      else
        let len = of_nat (length (entries e)) :: uint64;
            start = (if afterSeq > len then len else afterSeq);
            stop = start + of_int limit;
            stop = (if stop > len then len else stop)
        in if start \<le> stop \<and> unat stop \<le> length (entries e)
           then Inr (take (unat stop - unat start) (drop (unat start) (entries e)))
           else Inl Panic)"

section \<open>Witnesses\<close>

definition PendingWitnesses :: "Engine \<Rightarrow> time \<Rightarrow> int \<Rightarrow> WitnessState list result" where
  "PendingWitnesses e now limit =
     (if isl (ValidateTime now) \<or> limit < 1 \<or> limit > MaxWitnesses then Inl ErrInvalid
      else
        let result = filter (\<lambda>w. Receipt w = None \<and> \<not> Permanent w \<and> \<not> NextAttemptAt w > now)
                       (Witnesses (state e));
            result = sort_key (\<lambda>w. (CheckpointSize w, WitnessID w)) result
        in Inr (if int (length result) > limit then take (nat limit) result else result))"

definition GetWitness :: "Engine \<Rightarrow> string \<Rightarrow> uint64 \<Rightarrow> WitnessState result" where
  "GetWitness e wid sz =
     (if isl (ValidateIdentifier wid) \<or> sz = 0 then Inl ErrInvalid
      else case find (\<lambda>w. witness_key w = WitnessKey wid sz) (Witnesses (state e)) of
        Some w \<Rightarrow> Inr w
      | None \<Rightarrow> Inl ErrNotFound)"

fun replaceWitness :: "uint32 \<Rightarrow> WitnessState \<Rightarrow> WitnessState list \<Rightarrow> WitnessState list result" where
  "replaceWitness expectedAttempts next_w [] = Inl ErrContention"
| "replaceWitness expectedAttempts next_w (witness # rest) =
     (if witness_key witness \<noteq> witness_key next_w
      then rbind (replaceWitness expectedAttempts next_w rest) (\<lambda>ws. Inr (witness # ws))
      else if Attempts witness \<noteq> expectedAttempts then Inl ErrContention
      else if WitnessCheckpoint witness \<noteq> WitnessCheckpoint next_w then Inl ErrContention
      else Inr (next_w # rest))"

definition ApplyWitness :: "State \<Rightarrow> uint32 \<Rightarrow> WitnessState \<Rightarrow> State result" where
  "ApplyWitness current expectedAttempts next_w =
     rbind (validateWitness next_w ErrInvalid) (\<lambda>_.
     rbind (replaceWitness expectedAttempts next_w (Witnesses current)) (\<lambda>ws.
       Inr (current\<lparr>Witnesses := ws\<rparr>)))"

definition CommitWitness :: "Engine \<Rightarrow> uint32 \<Rightarrow> WitnessState \<Rightarrow> unit result \<times> Engine" where
  "CommitWitness e expectedAttempts next_w =
     (case ApplyWitness (state e) expectedAttempts next_w of
        Inl err \<Rightarrow> (Inl err, e)
      | Inr updated \<Rightarrow> (Inr (), e\<lparr>state := updated\<rparr>))"

end
