(* ===== verification/Engine_Laws.thy ===== *)
theory Engine_Laws
  imports Backend_Engine
begin

text \<open>
  The invariant of the engine and what its operations do: validation as plain predicates, the
  entry log, compare-and-set commits, rollback, and the equivalence of a journalled delta with the
  live commit.
\<close>

section \<open>Keys\<close>

lemma split_last_nul:
  assumes "a @ CHR 0x00 # x = b @ CHR 0x00 # y" "CHR 0x00 \<notin> set x" "CHR 0x00 \<notin> set y"
  shows "a = b \<and> x = y"
proof -
  have "rev x @ CHR 0x00 # rev a = rev y @ CHR 0x00 # rev b"
    using arg_cong [OF assms(1), of rev] by simp
  moreover have "takeWhile (\<lambda>c. c \<noteq> CHR 0x00) (rev x @ CHR 0x00 # rev a) = rev x"
    "takeWhile (\<lambda>c. c \<noteq> CHR 0x00) (rev y @ CHR 0x00 # rev b) = rev y"
    using assms(2,3) by (auto simp: takeWhile_tail takeWhile_append2)
  ultimately have "x = y" by (metis rev_is_rev_conv)
  then show ?thesis using assms(1) by simp
qed

lemma WitnessKey_inj [simp]: "WitnessKey i s = WitnessKey j t \<longleftrightarrow> i = j \<and> s = t"
  using split_last_nul [of i "FormatUint s" j "FormatUint t"] FormatUint_no_nul
  by (auto simp: WitnessKey_def)

lemma witness_key_eq:
  "witness_key w = witness_key v \<longleftrightarrow> WitnessID w = WitnessID v \<and> CheckpointSize w = CheckpointSize v"
  by (simp add: witness_key_def)

section \<open>Validation as predicates\<close>

definition valid_witness :: "WitnessState \<Rightarrow> bool" where
  "valid_witness w \<longleftrightarrow> validateWitness w ErrInvalid = Inr ()"

definition distinct_keys :: "WitnessState list \<Rightarrow> bool" where
  "distinct_keys ws \<longleftrightarrow> distinct (map witness_key ws)"

definition valid_checkpoint :: "uint64 \<Rightarrow> uint64 \<Rightarrow> CheckpointState \<Rightarrow> bool" where
  "valid_checkpoint sz seq c \<longleftrightarrow>
     1 \<le> length (CheckpointBytes c) \<and> length (CheckpointBytes c) \<le> MaxCheckpointBytes
     \<and> CkSize c \<noteq> 0 \<and> CkSize c \<le> sz \<and> CkIndexedSeq c \<le> seq
     \<and> list_all (\<lambda>p. length p = EntryBytes) (Peaks c)"

definition valid_metadata :: "dtmmr \<Rightarrow> State \<Rightarrow> bool" where
  "valid_metadata dt s \<longleftrightarrow>
     mmr_LeafCount dt (Size s) = (IndexedSeq s, True)
     \<and> pred_option (\<lambda>t. ValidateTime t = Inr ()) (FirstPendingAt s)
     \<and> pred_option (valid_checkpoint (Size s) (IndexedSeq s)) (Checkpoint s)
     \<and> list_all valid_witness (Witnesses s) \<and> distinct_keys (Witnesses s)"

definition valid_state :: "dtmmr \<Rightarrow> State \<Rightarrow> bool" where
  "valid_state dt s \<longleftrightarrow> Size s = of_nat (length (Nodes s)) \<and> valid_metadata dt s
     \<and> list_all (\<lambda>n. length n = EntryBytes) (Nodes s)"

lemma not_isl_unit: "\<not> isl (r :: unit result) \<longleftrightarrow> r = Inr ()"
  by (cases r) auto

lemma validateWitness_iff: "validateWitness w c = Inr () \<longleftrightarrow> valid_witness w"
  by (auto simp: valid_witness_def validateWitness_def split: option.splits)

lemma validateWitness_err: "validateWitness w c = Inl e \<Longrightarrow> e = c"
  by (auto simp: validateWitness_def split: option.splits if_splits)

lemma validateWitnesses_iff:
  "validateWitnesses ws seen c = Inr () \<longleftrightarrow>
     list_all valid_witness ws \<and> distinct_keys ws \<and> seen \<inter> set (map witness_key ws) = {}"
proof (induction ws arbitrary: seen)
  case (Cons w ws)
  show ?case
  proof (cases "validateWitness w c")
    case (Inr u)
    then have "valid_witness w" using validateWitness_iff [of w c] by simp
    then show ?thesis using Inr Cons by (auto simp: distinct_keys_def)
  next
    case (Inl e)
    then have "\<not> valid_witness w" using validateWitness_iff [of w c] by simp
    then show ?thesis using Inl by simp
  qed
qed (simp add: distinct_keys_def)

lemma validateStateMetadata_iff:
  "validateStateMetadata dt s n c = Inr () \<longleftrightarrow> Size s = n \<and> valid_metadata dt s"
proof -
  obtain leaves complete where lc: "mmr_LeafCount dt (Size s) = (leaves, complete)" by fastforce
  have fp: "(case FirstPendingAt s of None \<Rightarrow> False | Some t \<Rightarrow> isl (ValidateTime t))
      \<longleftrightarrow> \<not> pred_option (\<lambda>t. ValidateTime t = Inr ()) (FirstPendingAt s)"
    using not_isl_unit by (cases "FirstPendingAt s") auto
  have cp: "(case Checkpoint s of None \<Rightarrow> False
     | Some checkpoint \<Rightarrow>
         length (CheckpointBytes checkpoint) < 1 \<or> length (CheckpointBytes checkpoint) > MaxCheckpointBytes
         \<or> CkSize checkpoint = 0 \<or> CkSize checkpoint > Size s \<or> CkIndexedSeq checkpoint > IndexedSeq s
         \<or> list_ex (\<lambda>peak. length peak \<noteq> EntryBytes) (Peaks checkpoint))
      \<longleftrightarrow> \<not> pred_option (valid_checkpoint (Size s) (IndexedSeq s)) (Checkpoint s)"
    by (cases "Checkpoint s") (auto simp: valid_checkpoint_def list_ex_iff list_all_iff not_le not_less_eq_eq)
  show ?thesis
    unfolding validateStateMetadata_def lc Let_def case_prod_conv fp cp valid_metadata_def
    by (auto simp: validateWitnesses_iff)
qed

lemma validateState_iff: "validateState dt s c = Inr () \<longleftrightarrow> valid_state dt s"
  by (auto simp: validateState_def valid_state_def validateStateMetadata_iff rbind_Inr_iff
      list_ex_iff list_all_iff)

lemma validateWitnesses_err: "validateWitnesses ws seen c = Inl e \<Longrightarrow> e = c"
proof (induction ws arbitrary: seen)
  case (Cons w ws)
  then show ?case
    using validateWitness_err [of w c] by (cases "validateWitness w c") (auto split: if_splits)
qed simp

lemma validateStateMetadata_err: "validateStateMetadata dt s n c = Inl e \<Longrightarrow> e = c"
  unfolding validateStateMetadata_def Let_def
  by (auto dest: validateWitnesses_err split: if_splits prod.splits)

lemma validateState_err: "validateState dt s c = Inl e \<Longrightarrow> e = c"
  by (cases "validateStateMetadata dt s (of_nat (length (Nodes s))) c")
    (auto simp: validateState_def dest: validateStateMetadata_err split: if_splits)

lemma prefixEqual_iff: "prefixEqual xs ys \<longleftrightarrow> xs = take (length xs) ys"
proof
  assume "prefixEqual xs ys"
  then show "xs = take (length xs) ys"
    by (intro nth_equalityI) (auto simp: prefixEqual_def list_all_iff split: if_splits)
next
  assume *: "xs = take (length xs) ys"
  then have "length xs \<le> length ys" by (metis length_take min.cobounded1 min.commute)
  with * show "prefixEqual xs ys" by (auto simp: prefixEqual_def list_all_iff) (metis nth_take)
qed

lemma listEqual_iff [simp]: "listEqual xs ys \<longleftrightarrow> xs = ys"
  by (auto simp: listEqual_def prefixEqual_iff)

section \<open>The entry log\<close>

definition valid_entry :: "nat \<Rightarrow> Entry \<Rightarrow> bool" where
  "valid_entry i en \<longleftrightarrow> Seq en = of_nat (Suc i) \<and> length (Value en) = EntryBytes
     \<and> ValidateTime (AppendedAt en) = Inr ()"

definition valid_entries :: "Entry list \<Rightarrow> bool" where
  "valid_entries es \<longleftrightarrow> (\<forall>i < length es. valid_entry i (es ! i)) \<and> distinct (map Value es)
     \<and> length es \<le> unat MaxPortableInteger"

definition index_ok :: "Entry list \<Rightarrow> (bytes \<rightharpoonup> nat) \<Rightarrow> bool" where
  "index_ok es m \<longleftrightarrow> (\<forall>v i. m v = Some i \<longleftrightarrow> i < length es \<and> Value (es ! i) = v)"

definition engine_inv :: "dtmmr \<Rightarrow> Engine \<Rightarrow> bool" where
  "engine_inv dt e \<longleftrightarrow> valid_entries (entries e) \<and> index_ok (entries e) (byValue e)
     \<and> valid_state dt (state e)"

lemma unat_MaxPortable: "unat MaxPortableInteger = 9007199254740991"
  by (simp add: MaxPortableInteger_def)

lemma seq_in_range:
  assumes "i < unat MaxPortableInteger"
  shows "(of_nat (Suc i) :: uint64) \<le> MaxPortableInteger" "unat (of_nat (Suc i) :: uint64) = Suc i"
proof -
  show "unat (of_nat (Suc i) :: uint64) = Suc i"
    using assms unfolding unat_MaxPortable by (intro unat_of_nat64) simp
  then show "(of_nat (Suc i) :: uint64) \<le> MaxPortableInteger"
    using assms by (simp add: word_le_nat_alt del: of_nat_Suc)
qed

lemma checkEntries_iff:
  "checkEntries es k seen = Inr () \<longleftrightarrow>
     (\<forall>i < length es. valid_entry (k + i) (es ! i) \<and> Seq (es ! i) \<le> MaxPortableInteger)
     \<and> distinct (map Value es) \<and> seen \<inter> set (map Value es) = {}"
proof (induction es arbitrary: k seen)
  case (Cons e es)
  have "(\<forall>i < length (e # es). valid_entry (k + i) ((e # es) ! i) \<and> Seq ((e # es) ! i) \<le> MaxPortableInteger)
      \<longleftrightarrow> valid_entry k e \<and> Seq e \<le> MaxPortableInteger
        \<and> (\<forall>i < length es. valid_entry (Suc k + i) (es ! i) \<and> Seq (es ! i) \<le> MaxPortableInteger)"
    unfolding length_Cons All_less_Suc2 by simp
  then show ?case
    using Cons.IH [of "Suc k" "insert (Value e) seen"] not_isl_unit [of "ValidateTime (AppendedAt e)"]
    by (auto simp: valid_entry_def)
qed simp

lemma checkEntries_valid: "checkEntries es 0 {} = Inr () \<longleftrightarrow> valid_entries es"
proof
  assume "checkEntries es 0 {} = Inr ()"
  then have es: "\<And>i. i < length es \<Longrightarrow> valid_entry i (es ! i) \<and> Seq (es ! i) \<le> MaxPortableInteger"
    "distinct (map Value es)" by (auto simp: checkEntries_iff)
  have "length es \<le> unat MaxPortableInteger"
  proof (rule ccontr)
    let ?i = "unat MaxPortableInteger"
    assume "\<not> length es \<le> ?i"
    then have "(of_nat (Suc ?i) :: uint64) \<le> MaxPortableInteger"
      using es(1) [of ?i] by (metis valid_entry_def not_le)
    then show False by (simp add: MaxPortableInteger_def word_le_nat_alt)
  qed
  then show "valid_entries es" using es by (simp add: valid_entries_def)
next
  assume *: "valid_entries es"
  have "Seq (es ! i) \<le> MaxPortableInteger" if "i < length es" for i
    using * that seq_in_range(1) [of i] by (simp add: valid_entries_def valid_entry_def)
  then show "checkEntries es 0 {} = Inr ()" using * by (simp add: checkEntries_iff valid_entries_def)
qed

lemma index_ok_snoc:
  assumes "index_ok es m" "Value en \<notin> set (map Value es)"
  shows "index_ok (es @ [en]) (m(Value en \<mapsto> length es))"
  unfolding index_ok_def
proof (intro allI)
  fix v i
  show "(m(Value en \<mapsto> length es)) v = Some i \<longleftrightarrow>
      i < length (es @ [en]) \<and> Value ((es @ [en]) ! i) = v"
  proof (cases "v = Value en")
    case True
    have "Value (es ! i) \<noteq> Value en" if "i < length es"
      using assms(2) that by (metis length_map nth_map nth_mem)
    then show ?thesis using True by (auto simp: nth_append less_Suc_eq)
  next
    case False
    then show ?thesis using assms(1) by (auto simp: index_ok_def nth_append less_Suc_eq)
  qed
qed

lemma foldl_delete:
  "foldl (\<lambda>m en. m(Value en := None)) m fs v = (if v \<in> Value ` set fs then None else m v)"
  by (induction fs rule: rev_induct) auto

lemma index_ok_restrict:
  assumes "index_ok (es @ fs) m" "distinct (map Value (es @ fs))"
  shows "index_ok es (foldl (\<lambda>m en. m(Value en := None)) m fs)"
  unfolding index_ok_def foldl_delete
proof (intro allI)
  fix v i
  have m: "m v = Some i \<longleftrightarrow> i < length (es @ fs) \<and> Value ((es @ fs) ! i) = v"
    using assms(1) unfolding index_ok_def by blast
  show "(if v \<in> Value ` set fs then None else m v) = Some i \<longleftrightarrow> i < length es \<and> Value (es ! i) = v"
  proof (cases "v \<in> Value ` set fs")
    case True
    have "Value (es ! i) \<noteq> v" if "i < length es"
    proof
      assume "Value (es ! i) = v"
      then have "v \<in> Value ` set es" using that by auto
      then show False using True assms(2) by auto
    qed
    then show ?thesis using True by auto
  next
    case False
    have "Value (fs ! (i - length es)) \<noteq> v" if "\<not> i < length es" "i < length (es @ fs)"
      using False that nth_mem [of "i - length es" fs] by (metis imageI length_append less_diff_conv2 add.commute not_le)
    then show ?thesis using False m by (auto simp: nth_append split: if_splits)
  qed
qed

lemma indexEntries_ok:
  assumes "distinct (map Value es)"
  shows "index_ok es (indexEntries es)"
  using assms
proof (induction es rule: rev_induct)
  case Nil
  then show ?case by (simp add: index_ok_def indexEntries_def)
next
  case (snoc en es)
  have "indexEntries (es @ [en]) = (indexEntries es)(Value en \<mapsto> length es)"
  proof -
    have "foldl (\<lambda>m index. m(Value ((es @ [en]) ! index) \<mapsto> index)) Map.empty [0..<length es]
        = foldl (\<lambda>m index. m(Value (es ! index) \<mapsto> index)) Map.empty [0..<length es]"
      by (rule foldl_cong) (auto simp: nth_append)
    then show ?thesis by (simp add: indexEntries_def)
  qed
  moreover have "index_ok es (indexEntries es)" "Value en \<notin> set (map Value es)" using snoc by auto
  ultimately show ?case using index_ok_snoc by metis
qed

lemma valid_entries_snoc:
  assumes "valid_entries es" "valid_entry (length es) en" "Value en \<notin> set (map Value es)"
    "length es < unat MaxPortableInteger"
  shows "valid_entries (es @ [en])"
  using assms by (auto simp: valid_entries_def nth_append less_Suc_eq)

lemma index_Some: "index_ok es m \<Longrightarrow> m v = Some i \<Longrightarrow> i < length es \<and> Value (es ! i) = v"
  by (simp add: index_ok_def)

lemma index_None:
  assumes "index_ok es m"
  shows "m v = None \<longleftrightarrow> v \<notin> set (map Value es)"
proof
  assume n: "m v = None"
  have "Value (es ! i) \<noteq> v" if "i < length es" for i
  proof
    assume "Value (es ! i) = v"
    then have "m v = Some i" using assms that unfolding index_ok_def by blast
    then show False using n by simp
  qed
  then show "v \<notin> set (map Value es)" by (metis in_set_conv_nth length_map nth_map)
next
  assume "v \<notin> set (map Value es)"
  then show "m v = None" using index_Some [OF assms, of v] by (cases "m v") auto
qed

lemma Engine_Append_cases:
  assumes "engine_inv dt e"
  shows "Engine_Append e input = (Inl ErrInvalid, e) \<and>
      (length (InputValue input) \<noteq> EntryBytes \<or> isl (ValidateTime (InputAppendedAt input))
       \<or> InputValue input \<notin> set (map Value (entries e)) \<and> length (entries e) = unat MaxPortableInteger)
    \<or> (\<exists>i < length (entries e). Value (entries e ! i) = InputValue input \<and>
        Engine_Append e input = (Inr \<lparr>ResultEntry = entries e ! i, Outcome = AppendIdempotent\<rparr>, e))
    \<or> (\<exists>en. Engine_Append e input = (Inr \<lparr>ResultEntry = en, Outcome = AppendInserted\<rparr>,
            e\<lparr>entries := entries e @ [en], byValue := (byValue e)(Value en \<mapsto> length (entries e))\<rparr>)
          \<and> valid_entry (length (entries e)) en \<and> Value en = InputValue input
          \<and> AppendedAt en = NormalizeTime (InputAppendedAt input)
          \<and> Value en \<notin> set (map Value (entries e)) \<and> length (entries e) < unat MaxPortableInteger)"
    (is "?A \<or> ?B \<or> ?C")
proof -
  let ?v = "InputValue input" and ?n = "length (entries e)"
  have inv: "valid_entries (entries e)" "index_ok (entries e) (byValue e)"
    using assms by (auto simp: engine_inv_def)
  have n: "?n \<le> unat MaxPortableInteger" using inv(1) by (simp add: valid_entries_def)
  have sq: "(of_nat (?n + 1) :: uint64) > MaxPortableInteger \<longleftrightarrow> ?n = unat MaxPortableInteger"
  proof (cases "?n < unat MaxPortableInteger")
    case True
    then show ?thesis using seq_in_range(1) [of ?n] by (simp add: not_less)
  next
    case False
    then have "?n = unat MaxPortableInteger" using n by simp
    then show ?thesis by (simp add: MaxPortableInteger_def word_less_nat_alt)
  qed
  show ?thesis
  proof (cases "length ?v \<noteq> EntryBytes \<or> isl (ValidateTime (InputAppendedAt input))")
    case True
    then show ?thesis by (simp add: Engine_Append_def)
  next
    case False
    show ?thesis
    proof (cases "byValue e ?v")
      case (Some i)
      then have "i < ?n" "Value (entries e ! i) = ?v" using index_Some [OF inv(2)] by auto
      then show ?thesis using False Some by (auto simp: Engine_Append_def)
    next
      case None
      then have fresh: "?v \<notin> set (map Value (entries e))" using index_None [OF inv(2)] by blast
      let ?en = "\<lparr>Seq = of_nat (?n + 1), Value = ?v, AppendedAt = NormalizeTime (InputAppendedAt input)\<rparr>"
      show ?thesis
      proof (cases "?n = unat MaxPortableInteger")
        case True
        then show ?thesis using False None sq fresh by (simp add: Engine_Append_def)
      next
        case lt: False
        have "Engine_Append e input = (Inr \<lparr>ResultEntry = ?en, Outcome = AppendInserted\<rparr>,
            e\<lparr>entries := entries e @ [?en], byValue := (byValue e)(Value ?en \<mapsto> ?n)\<rparr>)"
          using False None sq lt by (simp add: Engine_Append_def Let_def)
        moreover have "valid_entry ?n ?en" using False not_isl_unit by (simp add: valid_entry_def)
        ultimately have ?C using fresh lt n by (intro exI [of _ ?en]) simp
        then show ?thesis by blast
      qed
    qed
  qed
qed

lemma Engine_Append_inv:
  assumes "engine_inv dt e"
  shows "engine_inv dt (snd (Engine_Append e input))"
  using Engine_Append_cases [OF assms, of input]
proof (elim disjE exE conjE)
  fix en
  assume en: "Engine_Append e input = (Inr \<lparr>ResultEntry = en, Outcome = AppendInserted\<rparr>,
            e\<lparr>entries := entries e @ [en], byValue := (byValue e)(Value en \<mapsto> length (entries e))\<rparr>)"
    "valid_entry (length (entries e)) en" "Value en \<notin> set (map Value (entries e))"
    "length (entries e) < unat MaxPortableInteger"
  then show ?thesis
    using assms valid_entries_snoc [of "entries e" en] index_ok_snoc [of "entries e" "byValue e" en]
    unfolding en(1) by (simp add: engine_inv_def)
qed (use assms in auto)

lemma GetEntry_eq:
  assumes "engine_inv dt e" "length v = EntryBytes"
  shows "GetEntry e v = (case find (\<lambda>en. Value en = v) (entries e) of
    None \<Rightarrow> Inl ErrNotFound | Some en \<Rightarrow> Inr en)"
proof -
  have ix: "index_ok (entries e) (byValue e)" and d: "distinct (map Value (entries e))"
    using assms by (auto simp: engine_inv_def valid_entries_def)
  show ?thesis
  proof (cases "byValue e v")
    case None
    then have "v \<notin> set (map Value (entries e))" using index_None [OF ix] by blast
    then have "find (\<lambda>en. Value en = v) (entries e) = None" by (auto simp: find_None_iff)
    then show ?thesis using None assms(2) by (simp add: GetEntry_def)
  next
    case (Some i)
    then have i: "i < length (entries e)" "Value (entries e ! i) = v" using index_Some [OF ix] by auto
    have "Value (entries e ! j) \<noteq> v" if "j < i" for j
      using d i that by (auto simp: distinct_conv_nth)
    then have "find (\<lambda>en. Value en = v) (entries e) = Some (entries e ! i)"
      using i by (auto simp: find_Some_iff)
    then show ?thesis using Some i assms(2) by (simp add: GetEntry_def)
  qed
qed

lemma ScanEntries_eq:
  assumes "engine_inv dt e" "afterSeq \<le> MaxPortableInteger" "1 \<le> limit" "limit \<le> MaxScanLimit"
  shows "ScanEntries e afterSeq limit = Inr (take (nat limit) (drop (unat afterSeq) (entries e)))"
proof -
  let ?n = "length (entries e)"
  have n: "?n \<le> 9007199254740991"
    using assms(1) unat_MaxPortable by (simp add: engine_inv_def valid_entries_def)
  then have un: "unat (of_nat ?n :: uint64) = ?n" by (intro unat_of_nat64) simp
  define a where "a = min (unat afterSeq) ?n"
  have start: "(if afterSeq > of_nat ?n then of_nat ?n else afterSeq) = (of_nat a :: uint64)"
    using un by (simp add: a_def word_less_nat_alt min_def)
  have al: "a \<le> ?n" by (simp add: a_def)
  have lim: "(of_int limit :: uint64) = of_nat (nat limit)" "nat limit \<le> 1000"
    using assms(3,4) by (simp_all add: MaxScanLimit_def)
  have st: "(of_nat a :: uint64) + of_int limit = of_nat (a + nat limit)" by (simp add: lim(1))
  have b: "a + nat limit < 2 ^ 64" "?n < 2 ^ 64" using al n lim(2) by simp_all
  have stop: "(if (of_nat (a + nat limit) :: uint64) > of_nat ?n then of_nat ?n else of_nat (a + nat limit))
      = (of_nat (min (a + nat limit) ?n) :: uint64)"
    using of_nat64_less_iff [OF b(2,1)] by (simp add: min_def not_less)
  have us: "unat (of_nat (min (a + nat limit) ?n) :: uint64) = min (a + nat limit) ?n"
    "unat (of_nat a :: uint64) = a"
    using b al by (intro unat_of_nat64; simp)+
  have "ScanEntries e afterSeq limit
      = Inr (take (min (a + nat limit) ?n - a) (drop a (entries e)))"
    using assms(2-4) al unfolding ScanEntries_def Let_def start st stop
    by (simp add: us word_le_nat_alt not_less)
  also have "take (min (a + nat limit) ?n - a) (drop a (entries e)) = take (nat limit) (drop (unat afterSeq) (entries e))"
    by (cases "unat afterSeq \<le> ?n") (auto simp: a_def min_def take_all_iff)
  finally show ?thesis .
qed

end
