(* ===== verification/Backend_Wire.thy ===== *)
theory Backend_Wire
  imports Engine_Laws
begin

text \<open>
  \<open>internal/backend/wire.go\<close>: the portable projections of entries, witness rows and CLL state that
  the durable backends store. A JSON field that may be absent (a pointer in Go) is an \<open>option\<close>;
  a text field with \<open>omitempty\<close> is absent exactly when it is empty, so it stays a string. The
  JSON text itself is produced and read by the stores.
\<close>

section \<open>Wire records\<close>

record WireEntry =
  WeSeq :: string
  WeValue :: string
  WeAppendedAt :: string

record WireWitness =
  WwWitnessID :: string
  WwCheckpointSize :: string
  WwCheckpoint :: string
  WwAttempts :: uint32
  WwNextAttemptAt :: string
  WwReceipt :: "string option"
  WwEntryHash :: string
  WwEntryHashScheme :: string
  WwLeafIndex :: "int option"
  WwTreeSize :: "int option"
  WwPermanent :: bool
  WwLastError :: string

record WireState =
  WsSize :: string
  WsIndexedSeq :: string
  WsNodes :: "string list"
  WsFirstPendingAt :: "string option"
  WsCheckpoint :: "string option"
  WsCheckpointSize :: "string option"
  WsCheckpointIndexedSeq :: "string option"
  WsCheckpointPeaks :: "string list option"
  WsWitnesses :: "WireWitness list"

section \<open>Decimal numbers\<close>

definition parseDecimal :: "string \<Rightarrow> uint64 result" where
  "parseDecimal value =
     (if value = [] \<or> (length value > 1 \<and> value ! 0 = CHR ''0'') then Inl (ErrMsg ''invalid decimal'')
      else case ParseUint64 value of
        None \<Rightarrow> Inl (ErrMsg ''strconv.ParseUint'')
      | Some n \<Rightarrow> Inr n)"

section \<open>Entries\<close>

definition EntryToWire :: "Entry \<Rightarrow> WireEntry result" where
  "EntryToWire entry =
     rbind (FormatTime (AppendedAt entry)) (\<lambda>timestamp.
       Inr \<lparr>WeSeq = FormatUint (Seq entry), WeValue = base64_EncodeToString (Value entry),
            WeAppendedAt = timestamp\<rparr>)"

definition EntryFromWire :: "WireEntry \<Rightarrow> Entry result" where
  "EntryFromWire wire =
     (case parseDecimal (WeSeq wire) of
        Inl _ \<Rightarrow> Inl ErrCorrupt
      | Inr seq \<Rightarrow>
          if seq = 0 \<or> seq > MaxPortableInteger then Inl ErrCorrupt
          else (case base64_StrictDecodeString (WeValue wire) of
            None \<Rightarrow> Inl ErrCorrupt
          | Some value \<Rightarrow>
              if length value \<noteq> EntryBytes then Inl ErrCorrupt
              else (case ParseTime (WeAppendedAt wire) of
                Inl _ \<Rightarrow> Inl ErrCorrupt
              | Inr appendedAt \<Rightarrow>
                  Inr \<lparr>Seq = seq, Value = value, AppendedAt = appendedAt\<rparr>)))"

section \<open>Witness rows\<close>

definition WitnessToWire :: "WitnessState \<Rightarrow> WireWitness result" where
  "WitnessToWire value =
     rbind (FormatTime (NextAttemptAt value)) (\<lambda>timestamp.
       let wire = \<lparr>WwWitnessID = WitnessID value, WwCheckpointSize = FormatUint (CheckpointSize value),
                   WwCheckpoint = base64_EncodeToString (WitnessCheckpoint value),
                   WwAttempts = Attempts value, WwNextAttemptAt = timestamp, WwReceipt = None,
                   WwEntryHash = [], WwEntryHashScheme = [], WwLeafIndex = None, WwTreeSize = None,
                   WwPermanent = Permanent value, WwLastError = LastError value\<rparr>
       in Inr (case Receipt value of
            None \<Rightarrow> wire
          | Some r \<Rightarrow> wire\<lparr>WwReceipt := Some (base64_EncodeToString (ReceiptBytes r)),
                WwEntryHash := EntryHash r, WwEntryHashScheme := EntryHashScheme r,
                WwLeafIndex := LeafIndex r, WwTreeSize := TreeSize r\<rparr>))"

definition receiptFromWire :: "WireWitness \<Rightarrow> WitnessReceiptState option result" where
  "receiptFromWire wire =
     (case WwReceipt wire of
        Some encoded \<Rightarrow>
          (case base64_StrictDecodeString encoded of
             None \<Rightarrow> Inl ErrCorrupt
           | Some receipt \<Rightarrow>
               Inr (Some \<lparr>ReceiptBytes = receipt, EntryHash = WwEntryHash wire,
                 EntryHashScheme = WwEntryHashScheme wire, LeafIndex = WwLeafIndex wire,
                 TreeSize = WwTreeSize wire\<rparr>))
      | None \<Rightarrow>
          if WwEntryHash wire \<noteq> [] \<or> WwEntryHashScheme wire \<noteq> [] \<or> WwLeafIndex wire \<noteq> None
            \<or> WwTreeSize wire \<noteq> None
          then Inl ErrCorrupt else Inr None)"

definition WitnessFromWire :: "WireWitness \<Rightarrow> WitnessState result" where
  "WitnessFromWire wire =
     (case parseDecimal (WwCheckpointSize wire) of
        Inl _ \<Rightarrow> Inl ErrCorrupt
      | Inr sz \<Rightarrow>
     case base64_StrictDecodeString (WwCheckpoint wire) of
        None \<Rightarrow> Inl ErrCorrupt
      | Some checkpoint \<Rightarrow>
     case ParseTime (WwNextAttemptAt wire) of
        Inl _ \<Rightarrow> Inl ErrCorrupt
      | Inr next_at \<Rightarrow>
     rbind (receiptFromWire wire) (\<lambda>receipt.
       let value = \<lparr>WitnessID = WwWitnessID wire, CheckpointSize = sz, WitnessCheckpoint = checkpoint,
                    Attempts = WwAttempts wire, NextAttemptAt = next_at, Receipt = receipt,
                    Permanent = WwPermanent wire, LastError = WwLastError wire\<rparr>
       in rbind (validateWitness value ErrCorrupt) (\<lambda>_. Inr value)))"

section \<open>State\<close>

definition StateToWire :: "State \<Rightarrow> WireState result" where
  "StateToWire value =
     rbind (case FirstPendingAt value of
              None \<Rightarrow> Inr None
            | Some t \<Rightarrow> rbind (FormatTime t) (\<lambda>encoded. Inr (Some encoded))) (\<lambda>pending.
     rbind (rmap WitnessToWire (Witnesses value)) (\<lambda>witnesses.
       Inr \<lparr>WsSize = FormatUint (Size value), WsIndexedSeq = FormatUint (IndexedSeq value),
            WsNodes = map base64_EncodeToString (Nodes value), WsFirstPendingAt = pending,
            WsCheckpoint = map_option (\<lambda>c. base64_EncodeToString (CheckpointBytes c)) (Checkpoint value),
            WsCheckpointSize = map_option (\<lambda>c. FormatUint (CkSize c)) (Checkpoint value),
            WsCheckpointIndexedSeq = map_option (\<lambda>c. FormatUint (CkIndexedSeq c)) (Checkpoint value),
            WsCheckpointPeaks = map_option (\<lambda>c. map base64_EncodeToString (Peaks c)) (Checkpoint value),
            WsWitnesses = witnesses\<rparr>))"

definition decodeNode :: "string \<Rightarrow> bytes result" where
  "decodeNode encoded =
     (case base64_StrictDecodeString encoded of None \<Rightarrow> Inl ErrCorrupt | Some node \<Rightarrow> Inr node)"

definition checkpointFromWire :: "WireState \<Rightarrow> CheckpointState option result" where
  "checkpointFromWire wire =
     (let present = length (filter id [WsCheckpoint wire \<noteq> None, WsCheckpointSize wire \<noteq> None,
            WsCheckpointIndexedSeq wire \<noteq> None, WsCheckpointPeaks wire \<noteq> None])
      in if present \<noteq> 0 \<and> present \<noteq> 4 then Inl ErrCorrupt
         else if present = 4
         then (case base64_StrictDecodeString (the (WsCheckpoint wire)) of
             None \<Rightarrow> Inl ErrCorrupt
           | Some checkpoint \<Rightarrow>
               (case (parseDecimal (the (WsCheckpointSize wire)),
                      parseDecimal (the (WsCheckpointIndexedSeq wire))) of
                  (Inr checkpointSize, Inr checkpointIndexed) \<Rightarrow>
                    rbind (rmap decodeNode (the (WsCheckpointPeaks wire))) (\<lambda>peaks.
                      Inr (Some \<lparr>CheckpointBytes = checkpoint, CkSize = checkpointSize,
                                 CkIndexedSeq = checkpointIndexed, Peaks = peaks\<rparr>))
                | _ \<Rightarrow> Inl ErrCorrupt))
         else Inr None)"

definition stateFromWire :: "WireState \<Rightarrow> State result" where
  "stateFromWire wire =
     (case parseDecimal (WsSize wire) of
        Inl _ \<Rightarrow> Inl ErrCorrupt
      | Inr sz \<Rightarrow>
     case parseDecimal (WsIndexedSeq wire) of
        Inl _ \<Rightarrow> Inl ErrCorrupt
      | Inr indexed \<Rightarrow>
     rbind (rmap decodeNode (WsNodes wire)) (\<lambda>nodes.
     rbind (case WsFirstPendingAt wire of
              None \<Rightarrow> Inr None
            | Some encoded \<Rightarrow>
                (case ParseTime encoded of Inl _ \<Rightarrow> Inl ErrCorrupt | Inr timestamp \<Rightarrow> Inr (Some timestamp)))
       (\<lambda>pending.
     rbind (checkpointFromWire wire) (\<lambda>checkpoint.
     rbind (rmap WitnessFromWire (WsWitnesses wire)) (\<lambda>witnesses.
       Inr \<lparr>Size = sz, Nodes = nodes, IndexedSeq = indexed, FirstPendingAt = pending,
            Checkpoint = checkpoint, Witnesses = witnesses\<rparr>)))))"

definition StateFromWire :: "dtmmr \<Rightarrow> WireState \<Rightarrow> State result" where
  "StateFromWire dt wire =
     rbind (stateFromWire wire) (\<lambda>value.
     rbind (validateState dt value ErrCorrupt) (\<lambda>_. Inr value))"

definition StateDeltaFromWire :: "WireState \<Rightarrow> State result" where
  "StateDeltaFromWire wire = stateFromWire wire"

section \<open>What the wire keeps\<close>

text \<open>The wire has millisecond times: a stored value comes back with its times normalised.\<close>

definition norm_entry :: "Entry \<Rightarrow> Entry" where
  "norm_entry en = en\<lparr>AppendedAt := NormalizeTime (AppendedAt en)\<rparr>"

definition norm_witness :: "WitnessState \<Rightarrow> WitnessState" where
  "norm_witness w = w\<lparr>NextAttemptAt := NormalizeTime (NextAttemptAt w)\<rparr>"

definition norm_state :: "State \<Rightarrow> State" where
  "norm_state s = s\<lparr>FirstPendingAt := map_option NormalizeTime (FirstPendingAt s),
     Witnesses := map norm_witness (Witnesses s)\<rparr>"

lemma parseDecimal_FormatUint [simp]: "parseDecimal (FormatUint n) = Inr n"
  using dec_of_nat_leading [of "unat n"] ParseUint64_FormatUint [of n]
  by (auto simp: parseDecimal_def FormatUint_def)

lemma decodeNode_Encode [simp]: "decodeNode (base64_EncodeToString b) = Inr b"
  by (simp add: decodeNode_def)

lemma rmap_decodeNode [simp]: "rmap decodeNode (map base64_EncodeToString bs) = Inr bs"
  by (induction bs) simp_all

lemma norm_witness_fields [simp]:
  "WitnessID (norm_witness w) = WitnessID w" "CheckpointSize (norm_witness w) = CheckpointSize w"
  "WitnessCheckpoint (norm_witness w) = WitnessCheckpoint w" "Attempts (norm_witness w) = Attempts w"
  "Receipt (norm_witness w) = Receipt w" "Permanent (norm_witness w) = Permanent w"
  "LastError (norm_witness w) = LastError w" "witness_key (norm_witness w) = witness_key w"
  "NextAttemptAt (norm_witness w) = NormalizeTime (NextAttemptAt w)"
  by (simp_all add: norm_witness_def witness_key_def)

lemma validateWitness_norm [simp]: "validateWitness (norm_witness w) c = validateWitness w c"
  by (simp add: validateWitness_def)

lemma valid_witness_norm [simp]: "valid_witness (norm_witness w) = valid_witness w"
  by (simp add: valid_witness_def)

lemma valid_state_norm [simp]: "valid_state dt (norm_state s) = valid_state dt s"
proof -
  have "pred_option (\<lambda>t. ValidateTime t = Inr ()) (map_option NormalizeTime o') =
    pred_option (\<lambda>t. ValidateTime t = Inr ()) o'" for o' by (cases o') simp_all
  then show ?thesis
    by (simp add: valid_state_def valid_metadata_def norm_state_def list_all_iff distinct_keys_def o_def)
qed

text \<open>A row that \<open>validateWitness\<close> accepts survives the wire, whatever its receipt.\<close>

lemma valid_witness_time: "valid_witness w \<Longrightarrow> ValidateTime (NextAttemptAt w) = Inr ()"
  using not_isl_unit by (auto simp: valid_witness_def validateWitness_def split: if_splits)

lemma WitnessToWire_total:
  assumes "ValidateTime (NextAttemptAt w) = Inr ()"
  obtains wire where "WitnessToWire w = Inr wire"
  using FormatTime_total [OF assms] by (auto simp: WitnessToWire_def Let_def)

lemma WitnessFromWire_ToWire:
  assumes "WitnessToWire w = Inr wire" and "valid_witness w"
  shows "WitnessFromWire wire = Inr (norm_witness w)"
proof -
  obtain ts where ts: "FormatTime (NextAttemptAt w) = Inr ts"
    using assms(1) by (auto simp: WitnessToWire_def result_simps)
  note pt = ParseTime_FormatTime [OF ts]
  have v: "validateWitness w ErrCorrupt = Inr ()" using assms(2) by (simp add: validateWitness_iff)
  have r: "receiptFromWire wire = Inr (Receipt w)"
    using assms(1) ts by (cases "Receipt w") (auto simp: WitnessToWire_def receiptFromWire_def Let_def)
  have w: "WwWitnessID wire = WitnessID w" "WwCheckpointSize wire = FormatUint (CheckpointSize w)"
    "WwCheckpoint wire = base64_EncodeToString (WitnessCheckpoint w)" "WwAttempts wire = Attempts w"
    "WwNextAttemptAt wire = ts" "WwPermanent wire = Permanent w" "WwLastError wire = LastError w"
    using assms(1) ts by (auto simp: WitnessToWire_def Let_def split: option.splits)
  have eq: "\<lparr>WitnessID = WitnessID w, CheckpointSize = CheckpointSize w, WitnessCheckpoint = WitnessCheckpoint w,
      Attempts = Attempts w, NextAttemptAt = NormalizeTime (NextAttemptAt w), Receipt = Receipt w,
      Permanent = Permanent w, LastError = LastError w\<rparr> = norm_witness w"
    by (simp add: norm_witness_def)
  show ?thesis by (simp add: WitnessFromWire_def w r pt Let_def eq v)
qed

lemma WitnessFromWire_valid:
  assumes "WitnessFromWire wire = Inr w"
  shows "valid_witness w" "norm_witness w = w"
proof -
  show "valid_witness w"
    using assms validateWitness_iff
    by (auto simp: WitnessFromWire_def result_simps Let_def split: sum.splits option.splits)
  have "ParseTime (WwNextAttemptAt wire) = Inr (NextAttemptAt w)"
    using assms by (auto simp: WitnessFromWire_def result_simps Let_def split: sum.splits option.splits)
  then show "norm_witness w = w" using ParseTime_Inr by (simp add: norm_witness_def)
qed

lemma rmap_witnesses:
  assumes "list_all valid_witness ws"
  obtains wires where "rmap WitnessToWire ws = Inr wires" "rmap WitnessFromWire wires = Inr (map norm_witness ws)"
  using assms
proof (induction ws arbitrary: thesis)
  case (Cons w ws)
  from Cons.prems(2) have w: "valid_witness w" "list_all valid_witness ws" by simp_all
  obtain wire where wire: "WitnessToWire w = Inr wire"
    using WitnessToWire_total [OF valid_witness_time [OF w(1)]] .
  obtain wires where "rmap WitnessToWire ws = Inr wires" "rmap WitnessFromWire wires = Inr (map norm_witness ws)"
    using Cons.IH w(2) by blast
  then show ?case
    using Cons.prems(1) [of "wire # wires"] wire WitnessFromWire_ToWire [OF wire w(1)] by simp
qed simp

lemma EntryFromWire_ToWire:
  assumes "EntryToWire en = Inr wire"
    and "Seq en \<noteq> 0" "Seq en \<le> MaxPortableInteger" "length (Value en) = EntryBytes"
  shows "EntryFromWire wire = Inr (norm_entry en)"
proof -
  obtain ts where ts: "FormatTime (AppendedAt en) = Inr ts"
    using assms(1) by (auto simp: EntryToWire_def result_simps)
  then have "wire = \<lparr>WeSeq = FormatUint (Seq en), WeValue = base64_EncodeToString (Value en), WeAppendedAt = ts\<rparr>"
    using assms(1) by (simp add: EntryToWire_def)
  then show ?thesis
    using assms ParseTime_FormatTime [OF ts] by (simp add: EntryFromWire_def norm_entry_def not_less)
qed

lemma EntryFromWire_valid:
  assumes "EntryFromWire wire = Inr en"
  shows "Seq en \<noteq> 0" "Seq en \<le> MaxPortableInteger" "length (Value en) = EntryBytes"
    "ValidateTime (AppendedAt en) = Inr ()" "norm_entry en = en"
  using assms ParseTime_valid ParseTime_Inr
  by (auto simp: EntryFromWire_def norm_entry_def split: sum.splits option.splits if_splits)

lemma checkpointFromWire_ToWire:
  assumes "StateToWire s = Inr wire"
  shows "checkpointFromWire wire = Inr (Checkpoint s)"
  using assms by (cases "Checkpoint s") (auto simp: StateToWire_def checkpointFromWire_def result_simps)

text \<open>The delta decoder inverts the encoder on any state whose rows are valid.\<close>

lemma stateFromWire_ToWire:
  assumes "pred_option (\<lambda>t. ValidateTime t = Inr ()) (FirstPendingAt s)"
    and "list_all valid_witness (Witnesses s)"
  obtains wire where "StateToWire s = Inr wire" "stateFromWire wire = Inr (norm_state s)"
proof -
  obtain wires where wires: "rmap WitnessToWire (Witnesses s) = Inr wires"
      "rmap WitnessFromWire wires = Inr (map norm_witness (Witnesses s))"
    using rmap_witnesses [OF assms(2)] .
  define enc where "enc = (case FirstPendingAt s of
              None \<Rightarrow> Inr None
            | Some t \<Rightarrow> rbind (FormatTime t) (\<lambda>encoded. Inr (Some encoded)))"
  obtain pending where pending: "enc = Inr pending"
      "(case pending of
          None \<Rightarrow> Inr None
        | Some encoded \<Rightarrow>
            (case ParseTime encoded of Inl _ \<Rightarrow> Inl ErrCorrupt | Inr timestamp \<Rightarrow> Inr (Some timestamp)))
        = Inr (map_option NormalizeTime (FirstPendingAt s))"
  proof (cases "FirstPendingAt s")
    case None
    then show ?thesis using that [of None] by (simp add: enc_def)
  next
    case (Some t)
    then obtain ts where "FormatTime t = Inr ts" using FormatTime_total assms(1) by auto
    then show ?thesis using that [of "Some ts"] Some ParseTime_FormatTime by (simp add: enc_def)
  qed
  obtain wire where wire: "StateToWire s = Inr wire"
    using wires(1) pending(1) by (simp add: StateToWire_def enc_def)
  have f: "WsSize wire = FormatUint (Size s)" "WsIndexedSeq wire = FormatUint (IndexedSeq s)"
    "WsNodes wire = map base64_EncodeToString (Nodes s)" "WsFirstPendingAt wire = pending"
    "WsWitnesses wire = wires"
    using wire wires(1) pending(1) by (auto simp: StateToWire_def enc_def)
  have "stateFromWire wire = Inr (norm_state s)"
    using pending(2) wires(2) checkpointFromWire_ToWire [OF wire]
    by (simp add: stateFromWire_def f norm_state_def)
  with wire show ?thesis by (rule that)
qed

lemma StateFromWire_ToWire:
  assumes "valid_state dt s"
  obtains wire where "StateToWire s = Inr wire" "StateFromWire dt wire = Inr (norm_state s)"
proof -
  obtain wire where w: "StateToWire s = Inr wire" "stateFromWire wire = Inr (norm_state s)"
    using stateFromWire_ToWire assms by (auto simp: valid_state_def valid_metadata_def)
  have "validateState dt (norm_state s) ErrCorrupt = Inr ()"
    using assms by (simp add: validateState_iff)
  then have "StateFromWire dt wire = Inr (norm_state s)" by (simp add: StateFromWire_def w(2))
  with w(1) show ?thesis by (rule that)
qed

lemma stateFromWire_norm:
  assumes "stateFromWire wire = Inr s"
  shows "norm_state s = s" "list_all valid_witness (Witnesses s)"
proof -
  have w: "rmap WitnessFromWire (WsWitnesses wire) = Inr (Witnesses s)"
    using assms by (auto simp: stateFromWire_def result_simps split: sum.splits)
  have each: "valid_witness w \<and> norm_witness w = w" if m: "w \<in> set (Witnesses s)" for w
  proof -
    obtain i where i: "i < length (Witnesses s)" "Witnesses s ! i = w"
      using m by (auto simp: in_set_conv_nth)
    have "WitnessFromWire (WsWitnesses wire ! i) = Inr (Witnesses s ! i)"
      using w i(1) unfolding rmap_Inr_iff by (simp add: list_all2_conv_all_nth)
    then show ?thesis using WitnessFromWire_valid i(2) by simp
  qed
  then show "list_all valid_witness (Witnesses s)" by (simp add: list_all_iff)
  have "map_option NormalizeTime (FirstPendingAt s) = FirstPendingAt s"
    using assms ParseTime_Inr
    by (auto simp: stateFromWire_def result_simps split: sum.splits option.splits)
  with each show "norm_state s = s" by (simp add: norm_state_def map_idI)
qed

end
