(* ===== verification/Engine_Commit.thy ===== *)
theory Engine_Commit
  imports Engine_Laws
begin

text \<open>
  Commits of the engine: when \<open>CommitCLL\<close> and \<open>CommitWitness\<close> succeed and what they change, that
  they keep the invariant, that a journalled delta replays to the state of the live commit, and
  that \<open>Restore\<close> undoes everything since a snapshot.
\<close>

section \<open>Witness lists\<close>

lemma witnessMap_snoc: "witnessMap (ws @ [w]) = (witnessMap ws)(witness_key w \<mapsto> w)"
  by (simp add: witnessMap_def)

lemma witnessMap_Nil [simp]: "witnessMap [] = Map.empty"
  by (simp add: witnessMap_def)

lemma witnessMap_None: "witnessMap ws k = None \<longleftrightarrow> k \<notin> set (map witness_key ws)"
  by (induction ws rule: rev_induct) (auto simp: witnessMap_snoc)

lemma witnessMap_Some: "witnessMap ws k = Some w \<Longrightarrow> w \<in> set ws \<and> witness_key w = k"
  by (induction ws rule: rev_induct) (auto simp: witnessMap_snoc split: if_splits)

lemma addedWitnesses_iff:
  "addedWitnesses ex ws seen = Inr added \<longleftrightarrow>
     added = filter (\<lambda>w. ex (witness_key w) = None) ws \<and> distinct_keys ws
     \<and> seen \<inter> set (map witness_key ws) = {}
     \<and> (\<forall>w \<in> set ws. \<forall>c. ex (witness_key w) = Some c \<longrightarrow> WitnessCheckpoint c = WitnessCheckpoint w)"
proof (induction ws arbitrary: seen added)
  case (Cons w ws)
  let ?k = "witness_key w"
  have d: "distinct_keys (w # ws) \<longleftrightarrow> ?k \<notin> set (map witness_key ws) \<and> distinct_keys ws"
    by (simp add: distinct_keys_def)
  have s: "seen \<inter> set (map witness_key (w # ws)) = {} \<longleftrightarrow> ?k \<notin> seen \<and> seen \<inter> set (map witness_key ws) = {}"
    "insert ?k seen \<inter> set (map witness_key ws) = {}
      \<longleftrightarrow> ?k \<notin> set (map witness_key ws) \<and> seen \<inter> set (map witness_key ws) = {}"
    by auto
  show ?case
  proof (cases "ex ?k")
    case None
    then have "addedWitnesses ex (w # ws) seen = Inr added \<longleftrightarrow>
        ?k \<notin> seen \<and> (\<exists>a. addedWitnesses ex ws (insert ?k seen) = Inr a \<and> added = w # a)"
      by (auto simp: Let_def rbind_Inr_iff)
    then show ?thesis unfolding Cons.IH d s using None by auto
  next
    case (Some c)
    then have "addedWitnesses ex (w # ws) seen = Inr added \<longleftrightarrow>
        ?k \<notin> seen \<and> WitnessCheckpoint c = WitnessCheckpoint w \<and> addedWitnesses ex ws (insert ?k seen) = Inr added"
      by (simp add: Let_def)
    then show ?thesis unfolding Cons.IH d s using Some by auto
  qed
qed (auto simp: distinct_keys_def)

section \<open>\<open>ApplyCLL\<close>\<close>

definition new_witnesses :: "WitnessState list \<Rightarrow> WitnessState list \<Rightarrow> WitnessState list" where
  "new_witnesses ws vs = filter (\<lambda>v. witness_key v \<notin> set (map witness_key ws)) vs"

definition mergeable :: "WitnessState list \<Rightarrow> WitnessState list \<Rightarrow> bool" where
  "mergeable ws vs \<longleftrightarrow> distinct_keys vs \<and> (\<forall>v \<in> set vs. \<forall>w. witnessMap ws (witness_key v) = Some w \<longrightarrow>
     WitnessCheckpoint w = WitnessCheckpoint v)"

lemma added_eq:
  "addedWitnesses (witnessMap ws) vs {} = Inr added \<longleftrightarrow> added = new_witnesses ws vs \<and> mergeable ws vs"
proof -
  have "filter (\<lambda>v. witnessMap ws (witness_key v) = None) vs = new_witnesses ws vs"
    unfolding new_witnesses_def by (rule filter_cong) (simp_all add: witnessMap_None)
  then show ?thesis unfolding addedWitnesses_iff mergeable_def by simp
qed

lemma unit_ex: "(\<exists>u :: unit. P u) \<longleftrightarrow> P ()"
  by auto

lemma ApplyCLL_iff:
  "ApplyCLL dt cur sz ck nxt = Inr st \<longleftrightarrow>
     Size cur = sz \<and> sameOptional (Checkpoint cur) ck \<and> valid_state dt nxt
     \<and> Size cur \<le> Size nxt \<and> IndexedSeq cur \<le> IndexedSeq nxt
     \<and> Nodes cur = take (length (Nodes cur)) (Nodes nxt)
     \<and> checkpointTransition (Checkpoint cur) (Checkpoint nxt) = Inr ()
     \<and> mergeable (Witnesses cur) (Witnesses nxt)
     \<and> st = nxt\<lparr>Witnesses := Witnesses cur @ new_witnesses (Witnesses cur) (Witnesses nxt)\<rparr>"
proof -
  have t: "validateCLLTransition cur nxt = Inr added \<longleftrightarrow> IndexedSeq cur \<le> IndexedSeq nxt
      \<and> checkpointTransition (Checkpoint cur) (Checkpoint nxt) = Inr ()
      \<and> added = new_witnesses (Witnesses cur) (Witnesses nxt) \<and> mergeable (Witnesses cur) (Witnesses nxt)" for added
    unfolding validateCLLTransition_def if_Inl_Inr_iff rbind_Inr_iff unit_ex added_eq by (simp add: not_less)
  show ?thesis
    unfolding ApplyCLL_def if_Inl_Inr_iff rbind_Inr_iff unit_ex validateState_iff t prefixEqual_iff
    by (auto simp: not_less)
qed

lemma distinct_keys_append_new:
  assumes "distinct_keys ws" "distinct_keys vs"
  shows "distinct_keys (ws @ new_witnesses ws vs)"
proof -
  have "\<forall>k \<in> set (map witness_key (new_witnesses ws vs)). k \<notin> set (map witness_key ws)"
    by (simp add: new_witnesses_def)
  then have "set (map witness_key ws) \<inter> set (map witness_key (new_witnesses ws vs)) = {}"
    by (meson disjoint_iff)
  moreover have "distinct (map witness_key (new_witnesses ws vs))"
    using assms(2) unfolding distinct_keys_def new_witnesses_def by (rule distinct_map_filter)
  ultimately show ?thesis using assms(1) by (simp only: distinct_keys_def map_append distinct_append)
qed

lemma valid_state_witnesses:
  "valid_state dt s \<Longrightarrow> distinct_keys ws \<Longrightarrow> list_all valid_witness ws \<Longrightarrow> valid_state dt (s\<lparr>Witnesses := ws\<rparr>)"
  by (auto simp: valid_state_def valid_metadata_def)

lemma ApplyCLL_valid:
  assumes "ApplyCLL dt cur sz ck nxt = Inr st" "valid_state dt cur"
  shows "valid_state dt st"
proof -
  let ?ws = "Witnesses cur @ new_witnesses (Witnesses cur) (Witnesses nxt)"
  have *: "valid_state dt nxt" "st = nxt\<lparr>Witnesses := ?ws\<rparr>" using assms(1) by (auto simp: ApplyCLL_iff)
  have "distinct_keys ?ws"
    using distinct_keys_append_new *(1) assms(2) by (simp add: valid_state_def valid_metadata_def)
  moreover have "list_all valid_witness ?ws"
    using *(1) assms(2) by (auto simp: valid_state_def valid_metadata_def list_all_iff new_witnesses_def)
  ultimately show ?thesis using valid_state_witnesses *(1) unfolding *(2) by blast
qed

lemma CommitCLL_cases:
  obtains (fail) err where "CommitCLL dt e sz ck nxt = (Inl err, e)"
    "ApplyCLL dt (state e) sz ck nxt = Inl err"
  | (ok) st where "CommitCLL dt e sz ck nxt = (Inr (), e\<lparr>state := st\<rparr>)"
    "ApplyCLL dt (state e) sz ck nxt = Inr st"
  by (cases "ApplyCLL dt (state e) sz ck nxt") (auto simp: CommitCLL_def)

lemma CommitCLL_inv:
  assumes "engine_inv dt e"
  shows "engine_inv dt (snd (CommitCLL dt e sz ck nxt))"
  using assms ApplyCLL_valid [of dt "state e"]
  by (cases rule: CommitCLL_cases [of dt e sz ck nxt]) (auto simp: engine_inv_def)

section \<open>Journalled deltas\<close>

lemma prefix_length: "xs = take (length xs) ys \<Longrightarrow> length xs \<le> length ys"
  by (metis length_take min.cobounded1 min.commute)

lemma delta_of_commit:
  assumes "ApplyCLL dt (state e) sz ck nxt = Inr st"
  shows "DeltaSince (e\<lparr>state := st\<rparr>) (Engine_Snapshot e) = Inr (nxt\<lparr>
    Nodes := drop (length (Nodes (state e))) (Nodes nxt),
    Witnesses := new_witnesses (Witnesses (state e)) (Witnesses nxt)\<rparr>)"
proof -
  let ?ws = "Witnesses (state e)"
  have st: "st = nxt\<lparr>Witnesses := ?ws @ new_witnesses ?ws (Witnesses nxt)\<rparr>"
    "Nodes (state e) = take (length (Nodes (state e))) (Nodes nxt)"
    using assms by (auto simp: ApplyCLL_iff)
  have "filter (\<lambda>w. witness_key w \<notin> set (map witness_key ?ws)) (?ws @ new_witnesses ?ws (Witnesses nxt))
      = new_witnesses ?ws (Witnesses nxt)"
    by (simp add: new_witnesses_def filter_empty_conv)
  then show ?thesis
    using prefix_length [OF st(2)] unfolding DeltaSince_def Engine_Snapshot_def st(1) Let_def by simp
qed

lemma checkpoint_bound:
  assumes "valid_state dt s" "length (Nodes s) < 2 ^ 64"
  shows "unat (Size s) = length (Nodes s)"
  using assms by (simp add: valid_state_def unat_of_nat64)

lemma mergeable_new:
  assumes "distinct_keys vs"
  shows "mergeable ws (new_witnesses ws vs)"
proof -
  have "witnessMap ws (witness_key v) = None" if "v \<in> set (new_witnesses ws vs)" for v
    using that unfolding witnessMap_None by (simp add: new_witnesses_def)
  then show ?thesis
    using assms by (simp add: mergeable_def distinct_keys_def new_witnesses_def distinct_map_filter)
qed

lemma new_witnesses_idem [simp]: "new_witnesses ws (new_witnesses ws vs) = new_witnesses ws vs"
  by (simp add: new_witnesses_def)

lemma valid_metadata_sub:
  "valid_metadata dt s \<Longrightarrow>
   valid_metadata dt (s\<lparr>Nodes := ns, Witnesses := new_witnesses ws (Witnesses s)\<rparr>)"
  by (auto simp: valid_metadata_def new_witnesses_def list_all_iff distinct_keys_def distinct_map_filter)

lemma CommitCLLDelta_replays:
  assumes inv: "valid_state dt (state e)" and ok: "ApplyCLL dt (state e) sz ck nxt = Inr st"
    and len: "length (Nodes nxt) < 2 ^ 64"
    and delta: "DeltaSince (e\<lparr>state := st\<rparr>) (Engine_Snapshot e) = Inr delta"
  shows "CommitCLLDelta dt e sz ck delta = (Inr (), e\<lparr>state := st\<rparr>)"
proof -
  let ?cur = "state e" and ?ws = "Witnesses (state e)"
  let ?new = "new_witnesses ?ws (Witnesses nxt)" and ?k = "length (Nodes (state e))"
  have ap: "Size ?cur = sz" "sameOptional (Checkpoint ?cur) ck" "valid_state dt nxt"
    "IndexedSeq ?cur \<le> IndexedSeq nxt" "Nodes ?cur = take ?k (Nodes nxt)"
    "checkpointTransition (Checkpoint ?cur) (Checkpoint nxt) = Inr ()" "mergeable ?ws (Witnesses nxt)"
    and st: "st = nxt\<lparr>Witnesses := ?ws @ ?new\<rparr>"
    using ok by (auto simp: ApplyCLL_iff)
  have d: "delta = nxt\<lparr>Nodes := drop ?k (Nodes nxt), Witnesses := ?new\<rparr>"
    using delta delta_of_commit [OF ok] by simp
  have kle: "?k \<le> length (Nodes nxt)" by (rule prefix_length [OF ap(5)])
  have sizes: "Size nxt = of_nat (length (Nodes nxt))" "Size ?cur = of_nat ?k"
    using ap(3) inv by (simp_all add: valid_state_def)
  have sz: "Size ?cur + of_nat (length (Nodes delta)) = Size nxt"
    using kle sizes by (simp add: d flip: of_nat_add)
  have le: "Size ?cur \<le> Size nxt"
    using kle len of_nat64_le_iff [of ?k "length (Nodes nxt)"] unfolding sizes by simp
  have meta: "validateStateMetadata dt delta (Size delta) ErrInvalid = Inr ()"
    using valid_metadata_sub [of dt nxt] ap(3) by (simp add: validateStateMetadata_iff d valid_state_def)
  have wd: "\<not> list_ex (\<lambda>node. length node \<noteq> EntryBytes) (Nodes delta)"
    using ap(3) by (auto simp: d valid_state_def list_ex_iff list_all_iff dest: in_set_dropD)
  have "distinct_keys (Witnesses nxt)" using ap(7) by (simp add: mergeable_def)
  then have "addedWitnesses (witnessMap ?ws) ?new {} = Inr ?new"
    by (simp add: added_eq mergeable_new)
  then have tr: "validateCLLTransition ?cur delta = Inr ?new"
    using ap(4,6) by (simp add: validateCLLTransition_def d not_less)
  have "Nodes ?cur @ drop ?k (Nodes nxt) = Nodes nxt" using ap(5) by (metis append_take_drop_id)
  then show ?thesis
    using ap(1,2) sz le meta wd tr unfolding CommitCLLDelta_def Let_def
    by (simp add: d st not_less)
qed

section \<open>\<open>ApplyWitness\<close>\<close>

lemma replaceWitness_Inr:
  "replaceWitness a w ws = Inr ws' \<Longrightarrow> \<exists>pre old post. ws = pre @ old # post \<and> ws' = pre @ w # post
     \<and> witness_key old = witness_key w \<and> Attempts old = a \<and> WitnessCheckpoint old = WitnessCheckpoint w"
proof (induction ws arbitrary: ws')
  case (Cons v ws)
  show ?case
  proof (cases "witness_key v = witness_key w")
    case True
    then show ?thesis using Cons.prems by (intro exI [of _ "[]"]) (auto split: if_splits)
  next
    case False
    then obtain ws'' where ws'': "replaceWitness a w ws = Inr ws''" "ws' = v # ws''"
      using Cons.prems by (auto simp: rbind_Inr_iff)
    then obtain pre old post where "ws = pre @ old # post" "ws'' = pre @ w # post"
      "witness_key old = witness_key w" "Attempts old = a" "WitnessCheckpoint old = WitnessCheckpoint w"
      using Cons.IH by blast
    then show ?thesis using ws''(2) by (intro exI [of _ "v # pre"]) simp
  qed
qed simp

lemma replaceWitness_find:
  assumes "find (\<lambda>v. witness_key v = witness_key w) ws = Some old" "Attempts old = a"
    "WitnessCheckpoint old = WitnessCheckpoint w"
  shows "\<exists>ws'. replaceWitness a w ws = Inr ws'"
  using assms by (induction ws) (auto split: if_splits)

lemma ApplyWitness_Inr:
  assumes "ApplyWitness s a w = Inr s'"
  obtains pre old post where "Witnesses s = pre @ old # post" "s' = s\<lparr>Witnesses := pre @ w # post\<rparr>"
    "witness_key old = witness_key w" "Attempts old = a" "WitnessCheckpoint old = WitnessCheckpoint w"
    "valid_witness w"
proof -
  obtain ws where "validateWitness w ErrInvalid = Inr ()" "replaceWitness a w (Witnesses s) = Inr ws"
    "s' = s\<lparr>Witnesses := ws\<rparr>" using assms by (auto simp: ApplyWitness_def rbind_Inr_iff)
  then show thesis using replaceWitness_Inr [of a w "Witnesses s" ws] that validateWitness_iff by blast
qed

lemma ApplyWitness_valid:
  assumes "ApplyWitness s a w = Inr s'" "valid_state dt s"
  shows "valid_state dt s'"
proof -
  obtain pre old post where w: "Witnesses s = pre @ old # post" "s' = s\<lparr>Witnesses := pre @ w # post\<rparr>"
    "witness_key old = witness_key w" "valid_witness w"
    using ApplyWitness_Inr [OF assms(1)] by metis
  have "distinct_keys (pre @ w # post)"
    using assms(2) w by (simp add: valid_state_def valid_metadata_def distinct_keys_def)
  moreover have "list_all valid_witness (pre @ w # post)"
    using assms(2) w by (simp add: valid_state_def valid_metadata_def)
  ultimately show ?thesis using valid_state_witnesses [OF assms(2)] w(2) by blast
qed

lemma CommitWitness_cases:
  obtains (fail) err where "CommitWitness e a w = (Inl err, e)"
  | (ok) s' where "CommitWitness e a w = (Inr (), e\<lparr>state := s'\<rparr>)" "ApplyWitness (state e) a w = Inr s'"
  by (cases "ApplyWitness (state e) a w") (auto simp: CommitWitness_def)

lemma CommitWitness_inv:
  assumes "engine_inv dt e"
  shows "engine_inv dt (snd (CommitWitness e a w))"
  using assms ApplyWitness_valid
  by (cases rule: CommitWitness_cases [of e a w]) (auto simp: engine_inv_def)

section \<open>Replacing and rolling back\<close>

lemma valid_state_empty: "mmr_LeafCount dt 0 = (0, True) \<Longrightarrow> valid_state dt empty_State"
  by (simp add: valid_state_def valid_metadata_def empty_State_def distinct_keys_def)

lemma Replace_inv:
  assumes "Replace dt e es st = (Inr (), e')"
  shows "engine_inv dt e' \<and> entries e' = es \<and> state e' = st"
proof -
  have "checkEntries es 0 {} = Inr () \<and> validateState dt st ErrCorrupt = Inr ()"
    "e' = \<lparr>entries = es, byValue = indexEntries es, state = st\<rparr>"
    using assms by (auto simp: Replace_def rbind_Inr_iff split: sum.splits)
  then have "valid_entries es" "valid_state dt st"
    "e' = \<lparr>entries = es, byValue = indexEntries es, state = st\<rparr>"
    using checkEntries_valid validateState_iff by blast+
  then show ?thesis using indexEntries_ok [of es] by (simp add: engine_inv_def valid_entries_def)
qed

lemma Replace_accepts:
  assumes "valid_entries es" "valid_state dt st"
  shows "Replace dt e es st = (Inr (), \<lparr>entries = es, byValue = indexEntries es, state = st\<rparr>)"
  using assms checkEntries_valid [of es] validateState_iff [of dt st ErrCorrupt] by (simp add: Replace_def)

lemma index_ok_unique:
  assumes "index_ok es m" "index_ok es m'"
  shows "m = m'"
proof
  fix v
  have "m v = Some i \<longleftrightarrow> m' v = Some i" for i using assms by (simp add: index_ok_def)
  then show "m v = m' v" by (metis not_None_eq)
qed

lemma Restore_eq:
  assumes "engine_inv dt e" "engine_inv dt e'" "entries e = take (length (entries e)) (entries e')"
  shows "Restore e' (Engine_Snapshot e) = (Inr (), e)"
proof -
  let ?n = "length (entries e)"
  have n: "?n \<le> length (entries e')" by (rule prefix_length [OF assms(3)])
  have ix: "index_ok (take ?n (entries e') @ drop ?n (entries e')) (byValue e')"
    "distinct (map Value (take ?n (entries e') @ drop ?n (entries e')))"
    using assms(2) by (simp_all add: engine_inv_def valid_entries_def)
  have "index_ok (entries e) (foldl (\<lambda>m en. m(Value en := None)) (byValue e') (drop ?n (entries e')))"
    using index_ok_restrict [OF ix] assms(3) by simp
  moreover have "index_ok (entries e) (byValue e)" using assms(1) by (simp add: engine_inv_def)
  ultimately have "foldl (\<lambda>m en. m(Value en := None)) (byValue e') (drop ?n (entries e')) = byValue e"
    by (rule index_ok_unique)
  then show ?thesis using n assms(3) by (cases e) (simp add: Restore_def Engine_Snapshot_def)
qed

section \<open>Sequences of operations\<close>

inductive engine_step :: "dtmmr \<Rightarrow> Engine \<Rightarrow> Engine \<Rightarrow> bool" for dt where
  append: "Engine_Append e input = (r, e') \<Longrightarrow> engine_step dt e e'"
| commit_cll: "CommitCLL dt e expectedSize expectedCheckpoint nxt = (r, e') \<Longrightarrow> engine_step dt e e'"
| commit_witness: "CommitWitness e expectedAttempts w = (r, e') \<Longrightarrow> engine_step dt e e'"

inductive_cases engine_stepE: "engine_step dt e e'"

text \<open>What no operation takes back: entries, MMR nodes, the indexed position, and the checkpoint bytes a witness row is about.\<close>

definition grows :: "Engine \<Rightarrow> Engine \<Rightarrow> bool" where
  "grows e e' \<longleftrightarrow> entries e = take (length (entries e)) (entries e')
     \<and> Nodes (state e) = take (length (Nodes (state e))) (Nodes (state e'))
     \<and> IndexedSeq (state e) \<le> IndexedSeq (state e')
     \<and> (\<forall>w \<in> set (Witnesses (state e)). \<exists>w' \<in> set (Witnesses (state e')).
          witness_key w' = witness_key w \<and> WitnessCheckpoint w' = WitnessCheckpoint w)"

lemma grows_refl: "grows e e"
  by (auto simp: grows_def)

lemma take_trans: "xs = take (length xs) ys \<Longrightarrow> ys = take (length ys) zs \<Longrightarrow> xs = take (length xs) zs"
  by (metis prefix_length min.absorb1 take_take)

lemma growsD:
  assumes "grows e e'"
  shows "entries e = take (length (entries e)) (entries e')"
    "Nodes (state e) = take (length (Nodes (state e))) (Nodes (state e'))"
    "IndexedSeq (state e) \<le> IndexedSeq (state e')"
    "w \<in> set (Witnesses (state e)) \<Longrightarrow> \<exists>w' \<in> set (Witnesses (state e')).
       witness_key w' = witness_key w \<and> WitnessCheckpoint w' = WitnessCheckpoint w"
  using assms unfolding grows_def by blast+

lemma grows_trans:
  assumes ab: "grows a b" and bc: "grows b c"
  shows "grows a c"
  unfolding grows_def
proof (intro conjI ballI)
  show "entries a = take (length (entries a)) (entries c)"
    by (rule take_trans [OF growsD(1) [OF ab] growsD(1) [OF bc]])
  show "Nodes (state a) = take (length (Nodes (state a))) (Nodes (state c))"
    by (rule take_trans [OF growsD(2) [OF ab] growsD(2) [OF bc]])
  show "IndexedSeq (state a) \<le> IndexedSeq (state c)"
    by (rule order_trans [OF growsD(3) [OF ab] growsD(3) [OF bc]])
  fix w assume "w \<in> set (Witnesses (state a))"
  then obtain v where v: "v \<in> set (Witnesses (state b))" "witness_key v = witness_key w"
    "WitnessCheckpoint v = WitnessCheckpoint w" using growsD(4) [OF ab] by blast
  then obtain u where "u \<in> set (Witnesses (state c))" "witness_key u = witness_key v"
    "WitnessCheckpoint u = WitnessCheckpoint v" using growsD(4) [OF bc] by blast
  with v show "\<exists>u \<in> set (Witnesses (state c)). witness_key u = witness_key w \<and> WitnessCheckpoint u = WitnessCheckpoint w"
    by (intro bexI [of _ u]) simp_all
qed

lemma grows_entries:
  assumes "entries e' = entries e @ es" "state e' = state e"
  shows "grows e e'"
  using assms by (auto simp: grows_def)

lemma grows_state:
  assumes "Nodes (state e) = take (length (Nodes (state e))) (Nodes s')" "IndexedSeq (state e) \<le> IndexedSeq s'"
    "\<And>w. w \<in> set (Witnesses (state e)) \<Longrightarrow> \<exists>w' \<in> set (Witnesses s').
       witness_key w' = witness_key w \<and> WitnessCheckpoint w' = WitnessCheckpoint w"
  shows "grows e (e\<lparr>state := s'\<rparr>)"
  unfolding grows_def using assms by simp

lemma Append_grows:
  assumes "engine_inv dt e"
  shows "grows e (snd (Engine_Append e input))"
  using Engine_Append_cases [OF assms, of input]
  by (elim disjE exE conjE) (simp_all add: grows_refl grows_entries)

lemma CommitCLL_grows: "grows e (snd (CommitCLL dt e sz ck nxt))"
proof (cases rule: CommitCLL_cases [of dt e sz ck nxt])
  case (ok st)
  then have "Nodes (state e) = take (length (Nodes (state e))) (Nodes nxt)" "IndexedSeq (state e) \<le> IndexedSeq nxt"
    "st = nxt\<lparr>Witnesses := Witnesses (state e) @ new_witnesses (Witnesses (state e)) (Witnesses nxt)\<rparr>"
    by (auto simp: ApplyCLL_iff)
  then show ?thesis unfolding ok(1) snd_conv by (intro grows_state) auto
qed (simp add: grows_refl)

lemma CommitWitness_grows: "grows e (snd (CommitWitness e a w))"
proof (cases rule: CommitWitness_cases [of e a w])
  case (ok s')
  obtain pre old post where w: "Witnesses (state e) = pre @ old # post"
    "s' = (state e)\<lparr>Witnesses := pre @ w # post\<rparr>" "witness_key old = witness_key w"
    "WitnessCheckpoint old = WitnessCheckpoint w"
    using ApplyWitness_Inr [OF ok(2)] by metis
  show ?thesis
    unfolding ok(1) snd_conv by (rule grows_state) (use w in auto)
qed (simp add: grows_refl)

lemma engine_step_inv:
  assumes "engine_step dt e e'" "engine_inv dt e"
  shows "engine_inv dt e' \<and> grows e e'"
  using assms
proof cases
  case (append input r)
  then show ?thesis using Engine_Append_inv [OF assms(2), of input] Append_grows [OF assms(2), of input] by simp
next
  case (commit_cll sz ck nxt r)
  then show ?thesis using CommitCLL_inv [OF assms(2), of sz ck nxt] CommitCLL_grows [of e dt sz ck nxt] by simp
next
  case (commit_witness a w r)
  then show ?thesis using CommitWitness_inv [OF assms(2), of a w] CommitWitness_grows [of e a w] by simp
qed

lemma engine_steps_inv:
  assumes "(engine_step dt)\<^sup>*\<^sup>* e e'" "engine_inv dt e"
  shows "engine_inv dt e' \<and> grows e e'"
  using assms(1)
proof (induction rule: rtranclp_induct)
  case base
  then show ?case using assms(2) grows_refl by blast
next
  case (step y z)
  then show ?case using engine_step_inv [of dt y z] grows_trans [of e y z] by blast
qed

end
