(* ===== verification/Backend_Contract.thy ===== *)
theory Backend_Contract
  imports Engine_Commit
begin

text \<open>
  The persistence contract of package \<open>cll\<close> (\<open>EntrySource\<close>, \<open>CheckpointStateStore\<close> and the entry
  operations of \<open>Backend\<close> in \<open>cll/types.go\<close>) as two interfaces, with what clients get from them,
  and the engine as their first implementation.
\<close>

section \<open>An append-only, idempotent log of entries\<close>

locale entry_log =
  fixes ok :: "'s \<Rightarrow> bool" and log_of :: "'s \<Rightarrow> Entry list"
    and append :: "'s \<Rightarrow> AppendInput \<Rightarrow> AppendResult result \<times> 's"
    and get :: "'s \<Rightarrow> bytes \<Rightarrow> Entry result"
    and scan :: "'s \<Rightarrow> uint64 \<Rightarrow> int \<Rightarrow> Entry list result"
  assumes log_valid: "ok s \<Longrightarrow> valid_entries (log_of s)"
    and append_ok: "ok s \<Longrightarrow> ok (snd (append s i))"
    and append_new: "ok s \<Longrightarrow> append s i = (Inr r, s') \<Longrightarrow> InputValue i \<notin> set (map Value (log_of s)) \<Longrightarrow>
      Outcome r = AppendInserted \<and> log_of s' = log_of s @ [ResultEntry r] \<and> Value (ResultEntry r) = InputValue i"
    and append_old: "ok s \<Longrightarrow> append s i = (Inr r, s') \<Longrightarrow> InputValue i \<in> set (map Value (log_of s)) \<Longrightarrow>
      Outcome r = AppendIdempotent \<and> log_of s' = log_of s \<and> ResultEntry r \<in> set (log_of s)
        \<and> Value (ResultEntry r) = InputValue i"
    and append_err: "ok s \<Longrightarrow> append s i = (Inl e, s') \<Longrightarrow> log_of s' = log_of s"
    and get: "ok s \<Longrightarrow> length v = EntryBytes \<Longrightarrow> get s v =
      (case find (\<lambda>en. Value en = v) (log_of s) of None \<Rightarrow> Inl ErrNotFound | Some en \<Rightarrow> Inr en)"
    and scan: "ok s \<Longrightarrow> a \<le> MaxPortableInteger \<Longrightarrow> 1 \<le> l \<Longrightarrow> l \<le> MaxScanLimit \<Longrightarrow>
      scan s a l = Inr (take (nat l) (drop (unat a) (log_of s)))"

lemma distinct_value_unique:
  assumes "distinct (map Value es)" "x \<in> set es" "y \<in> set es" "Value x = Value y"
  shows "x = y"
  using assms by (metis distinct_map inj_onD)

lemma value_mem: "i < length es \<Longrightarrow> Value (es ! i) = v \<Longrightarrow> v \<in> Value ` set es"
  by (metis imageI nth_mem)

lemma find_unique:
  assumes "distinct (map Value es)" "en \<in> set es"
  shows "find (\<lambda>x. Value x = Value en) es = Some en"
proof (cases "find (\<lambda>x. Value x = Value en) es")
  case None
  then show ?thesis using assms(2) by (auto simp: find_None_iff)
next
  case (Some x)
  then have "x \<in> set es" "Value x = Value en" by (auto simp: find_Some_iff)
  then show ?thesis using distinct_value_unique [OF assms(1) _ assms(2)] Some by simp
qed

text \<open>Reading a log to its end, page by page, each page starting after the last sequence number seen.\<close>

fun read_pages :: "('s \<Rightarrow> uint64 \<Rightarrow> int \<Rightarrow> Entry list result) \<Rightarrow> nat \<Rightarrow> 's \<Rightarrow> uint64 \<Rightarrow> int \<Rightarrow> Entry list result" where
  "read_pages scan 0 s a l = Inl (ErrMsg ''out of fuel'')"
| "read_pages scan (Suc f) s a l =
     rbind (scan s a l) (\<lambda>es. if es = [] then Inr []
       else rbind (read_pages scan f s (Seq (last es)) l) (\<lambda>rest. Inr (es @ rest)))"

context entry_log
begin

lemma appended:
  assumes "ok s" "append s i = (Inr r, s')"
  shows "ResultEntry r \<in> set (log_of s')" "Value (ResultEntry r) = InputValue i"
    "log_of s = take (length (log_of s)) (log_of s')" "ok s'"
  using append_new [OF assms] append_old [OF assms] append_ok [OF assms(1), of i] assms(2)
  by (cases "InputValue i \<in> set (map Value (log_of s))"; simp)+

lemma append_get:
  assumes "ok s" "append s i = (Inr r, s')"
  shows "get s' (InputValue i) = Inr (ResultEntry r)"
proof -
  note a = appended [OF assms]
  have v: "valid_entries (log_of s')" by (rule log_valid [OF a(4)])
  then have "length (InputValue i) = EntryBytes"
    using a(1,2) by (auto simp: valid_entries_def valid_entry_def in_set_conv_nth)
  moreover have "find (\<lambda>en. Value en = InputValue i) (log_of s') = Some (ResultEntry r)"
    using find_unique [OF _ a(1)] v a(2) by (simp add: valid_entries_def)
  ultimately show ?thesis using get [OF a(4)] by simp
qed

lemma append_idempotent:
  assumes "ok s" "append s i = (Inr r, s')" "append s' j = (Inr r', s'')" "InputValue j = InputValue i"
  shows "Outcome r' = AppendIdempotent \<and> ResultEntry r' = ResultEntry r \<and> log_of s'' = log_of s'"
proof -
  note a = appended [OF assms(1,2)]
  have mem: "InputValue j \<in> set (map Value (log_of s'))" using a(1,2) assms(4) by force
  note o = append_old [OF a(4) assms(3) mem]
  have "distinct (map Value (log_of s'))" using log_valid [OF a(4)] by (simp add: valid_entries_def)
  then have "ResultEntry r' = ResultEntry r"
    using distinct_value_unique [of "log_of s'"] o a(1,2) assms(4) by simp
  then show ?thesis using o by blast
qed

lemma read_pages_all:
  assumes "ok s" "1 \<le> l" "l \<le> MaxScanLimit"
  shows "a \<le> MaxPortableInteger \<Longrightarrow> length (log_of s) - unat a < f \<Longrightarrow>
    read_pages scan f s a l = Inr (drop (unat a) (log_of s))"
proof (induction f arbitrary: a)
  case (Suc f)
  let ?log = "log_of s" and ?es = "take (nat l) (drop (unat a) (log_of s))"
  have v: "valid_entries ?log" by (rule log_valid [OF assms(1)])
  note sc = scan [OF assms(1) Suc.prems(1) assms(2,3)]
  show ?case
  proof (cases "length ?log \<le> unat a")
    case True
    then show ?thesis using sc by simp
  next
    case False
    define b where "b = min (unat a + nat l) (length ?log)"
    have b: "unat a < b" "b \<le> length ?log" using False assms(2) by (auto simp: b_def)
    have es: "?es = take (b - unat a) (drop (unat a) ?log)"
      using False by (auto simp: b_def min_def take_all_iff)
    have ne: "?es \<noteq> []" using False assms(2) by simp
    have "length ?es = b - unat a" unfolding es using b by simp
    then have "last ?es = ?es ! (b - unat a - 1)" using ne by (simp add: last_conv_nth)
    then have lst: "last ?es = ?log ! (b - 1)" unfolding es using b by simp
    have "b \<le> unat MaxPortableInteger" using v b(2) by (simp add: valid_entries_def)
    then have b1: "b - 1 < unat MaxPortableInteger" using b(1) by linarith
    have "valid_entry (b - 1) (?log ! (b - 1))" using v b unfolding valid_entries_def by auto
    then have sq: "Seq (last ?es) = of_nat b" using b(1) lst by (simp add: valid_entry_def)
    have ub: "unat (of_nat b :: uint64) = b" "(of_nat b :: uint64) \<le> MaxPortableInteger"
      using seq_in_range [OF b1] b(1) by simp_all
    have "read_pages scan f s (of_nat b) l = Inr (drop b ?log)"
      using Suc.IH [OF ub(2)] ub(1) b Suc.prems(2) by simp
    then have "read_pages scan (Suc f) s a l = Inr (?es @ drop b ?log)"
      unfolding read_pages.simps sc rbind_simps using ne sq by simp
    also have "?es @ drop b ?log = drop (unat a) ?log"
      unfolding es using b by (metis append_take_drop_id drop_drop le_add_diff_inverse2 less_imp_le)
    finally show ?thesis .
  qed
qed simp

end

section \<open>Compare-and-set checkpoint state\<close>

locale cas_store =
  fixes ok :: "'s \<Rightarrow> bool" and load :: "'s \<Rightarrow> State"
    and commit :: "'s \<Rightarrow> uint64 \<Rightarrow> bytes option \<Rightarrow> State \<Rightarrow> unit result \<times> 's"
  assumes commit_ok: "ok s \<Longrightarrow> ok (snd (commit s sz ck n))"
    and commit_stale: "ok s \<Longrightarrow> Size (load s) \<noteq> sz \<or> \<not> sameOptional (Checkpoint (load s)) ck \<Longrightarrow>
      commit s sz ck n = (Inl ErrContention, s)"
    and commit_done: "ok s \<Longrightarrow> commit s sz ck n = (Inr (), s') \<Longrightarrow>
      Size (load s') = Size n \<and> Nodes (load s') = Nodes n \<and> IndexedSeq (load s') = IndexedSeq n
      \<and> FirstPendingAt (load s') = FirstPendingAt n \<and> Checkpoint (load s') = Checkpoint n
      \<and> Nodes (load s) = take (length (Nodes (load s))) (Nodes n) \<and> IndexedSeq (load s) \<le> IndexedSeq n"
    and commit_err: "ok s \<Longrightarrow> commit s sz ck n = (Inl e, s') \<Longrightarrow> load s' = load s"

context cas_store
begin

text \<open>Two writers that read the same state: when the first commit moves the log, the second is refused.\<close>

lemma no_lost_update:
  assumes "ok s" "commit s sz ck n = (Inr (), s')" "Size n \<noteq> sz \<or> \<not> sameOptional (Checkpoint n) ck"
  shows "commit s' sz ck m = (Inl ErrContention, s')"
proof -
  have "ok s'" using commit_ok [OF assms(1), of sz ck n] assms(2) by simp
  moreover have "Size (load s') = Size n" "Checkpoint (load s') = Checkpoint n"
    using commit_done [OF assms(1,2)] by auto
  ultimately show ?thesis using commit_stale assms(3) by metis
qed

end

section \<open>The engine implements both\<close>

lemma engine_inv_entries: "engine_inv dt e \<Longrightarrow> valid_entries (entries e)"
  by (simp add: engine_inv_def)

interpretation engine_log: entry_log "engine_inv dt" entries Engine_Append GetEntry ScanEntries for dt
proof
  fix e :: Engine and i r e'
  assume e: "engine_inv dt e" and ap: "Engine_Append e i = (Inr r, e')"
  show "InputValue i \<notin> set (map Value (entries e)) \<Longrightarrow>
      Outcome r = AppendInserted \<and> entries e' = entries e @ [ResultEntry r] \<and> Value (ResultEntry r) = InputValue i"
    using Engine_Append_cases [OF e, of i] ap by (elim disjE exE conjE) (auto dest: value_mem)
  show "InputValue i \<in> set (map Value (entries e)) \<Longrightarrow>
      Outcome r = AppendIdempotent \<and> entries e' = entries e \<and> ResultEntry r \<in> set (entries e)
        \<and> Value (ResultEntry r) = InputValue i"
    using Engine_Append_cases [OF e, of i] ap by (elim disjE exE conjE) auto
next
  fix e :: Engine and i err e'
  assume e: "engine_inv dt e" and ap: "Engine_Append e i = (Inl err, e')"
  show "entries e' = entries e" using Engine_Append_cases [OF e, of i] ap by (elim disjE exE conjE) auto
qed (simp_all add: engine_inv_entries Engine_Append_inv GetEntry_eq ScanEntries_eq)


interpretation engine_cas: cas_store "engine_inv dt" state "CommitCLL dt" for dt
proof
  fix e :: Engine and sz ck n e'
  assume e: "engine_inv dt e"
  show "engine_inv dt (snd (CommitCLL dt e sz ck n))" by (rule CommitCLL_inv [OF e])
  show "Size (state e) \<noteq> sz \<or> \<not> sameOptional (Checkpoint (state e)) ck \<Longrightarrow>
      CommitCLL dt e sz ck n = (Inl ErrContention, e)"
    by (auto simp: CommitCLL_def ApplyCLL_def)
  show "CommitCLL dt e sz ck n = (Inl err, e') \<Longrightarrow> state e' = state e" for err
    by (cases rule: CommitCLL_cases [of dt e sz ck n]) auto
  assume dn: "CommitCLL dt e sz ck n = (Inr (), e')"
  show "Size (state e') = Size n \<and> Nodes (state e') = Nodes n \<and> IndexedSeq (state e') = IndexedSeq n
      \<and> FirstPendingAt (state e') = FirstPendingAt n \<and> Checkpoint (state e') = Checkpoint n
      \<and> Nodes (state e) = take (length (Nodes (state e))) (Nodes n) \<and> IndexedSeq (state e) \<le> IndexedSeq n"
  proof (cases rule: CommitCLL_cases [of dt e sz ck n])
    case (ok st)
    then have "state e' = st" using dn by simp
    moreover have "st = n\<lparr>Witnesses := Witnesses (state e) @ new_witnesses (Witnesses (state e)) (Witnesses n)\<rparr>"
      "Nodes (state e) = take (length (Nodes (state e))) (Nodes n)" "IndexedSeq (state e) \<le> IndexedSeq n"
      using ok(2) by (auto simp: ApplyCLL_iff)
    ultimately show ?thesis by simp
  qed (use dn in simp)
qed

end
