(* ===== verification/Memory_Store.thy ===== *)
theory Memory_Store
  imports Backend_Contract
begin

text \<open>
  \<open>store/memory/store.go\<close>: the in-memory backend. The context argument is the error \<open>ctx.Err()\<close>
  reports, if any. Methods run under the store's lock, so each is one step on the record.
\<close>

record MemoryStore =
  engine :: Engine
  closed :: bool

definition Memory_New :: MemoryStore where
  "Memory_New = \<lparr>engine = Engine_New, closed = False\<rparr>"

definition guarded :: "error option \<Rightarrow> bool \<Rightarrow> error option" where
  "guarded ctxErr isClosed = (case ctxErr of Some err \<Rightarrow> Some err | None \<Rightarrow> if isClosed then Some ErrClosed else None)"

definition Memory_Append :: "error option \<Rightarrow> MemoryStore \<Rightarrow> AppendInput \<Rightarrow> AppendResult result \<times> MemoryStore" where
  "Memory_Append ctxErr s input =
     (case guarded ctxErr (closed s) of
        Some err \<Rightarrow> (Inl err, s)
      | None \<Rightarrow> (case Engine_Append (engine s) input of (r, e) \<Rightarrow> (r, s\<lparr>engine := e\<rparr>)))"

definition Memory_GetEntry :: "error option \<Rightarrow> MemoryStore \<Rightarrow> bytes \<Rightarrow> Entry result" where
  "Memory_GetEntry ctxErr s value =
     (case guarded ctxErr (closed s) of Some err \<Rightarrow> Inl err | None \<Rightarrow> GetEntry (engine s) value)"

definition Memory_ScanEntries :: "error option \<Rightarrow> MemoryStore \<Rightarrow> uint64 \<Rightarrow> int \<Rightarrow> Entry list result" where
  "Memory_ScanEntries ctxErr s afterSeq limit =
     (case guarded ctxErr (closed s) of Some err \<Rightarrow> Inl err | None \<Rightarrow> ScanEntries (engine s) afterSeq limit)"

definition Memory_LoadCLL :: "error option \<Rightarrow> MemoryStore \<Rightarrow> State result" where
  "Memory_LoadCLL ctxErr s =
     (case guarded ctxErr (closed s) of Some err \<Rightarrow> Inl err | None \<Rightarrow> Inr (Engine_State (engine s)))"

definition Memory_CommitCLL ::
    "dtmmr \<Rightarrow> error option \<Rightarrow> MemoryStore \<Rightarrow> uint64 \<Rightarrow> bytes option \<Rightarrow> State \<Rightarrow> unit result \<times> MemoryStore" where
  "Memory_CommitCLL dt ctxErr s expectedSize expectedCheckpoint next_st =
     (case guarded ctxErr (closed s) of
        Some err \<Rightarrow> (Inl err, s)
      | None \<Rightarrow> (case CommitCLL dt (engine s) expectedSize expectedCheckpoint next_st of
                  (r, e) \<Rightarrow> (r, s\<lparr>engine := e\<rparr>)))"

definition Memory_PendingWitnesses :: "error option \<Rightarrow> MemoryStore \<Rightarrow> time \<Rightarrow> int \<Rightarrow> WitnessState list result" where
  "Memory_PendingWitnesses ctxErr s now limit =
     (case guarded ctxErr (closed s) of Some err \<Rightarrow> Inl err | None \<Rightarrow> PendingWitnesses (engine s) now limit)"

definition Memory_GetWitness :: "error option \<Rightarrow> MemoryStore \<Rightarrow> string \<Rightarrow> uint64 \<Rightarrow> WitnessState result" where
  "Memory_GetWitness ctxErr s wid sz =
     (case guarded ctxErr (closed s) of Some err \<Rightarrow> Inl err | None \<Rightarrow> GetWitness (engine s) wid sz)"

definition Memory_CommitWitness ::
    "error option \<Rightarrow> MemoryStore \<Rightarrow> uint32 \<Rightarrow> WitnessState \<Rightarrow> unit result \<times> MemoryStore" where
  "Memory_CommitWitness ctxErr s expectedAttempts next_w =
     (case guarded ctxErr (closed s) of
        Some err \<Rightarrow> (Inl err, s)
      | None \<Rightarrow> (case CommitWitness (engine s) expectedAttempts next_w of (r, e) \<Rightarrow> (r, s\<lparr>engine := e\<rparr>)))"

definition Memory_Close :: "MemoryStore \<Rightarrow> unit result \<times> MemoryStore" where
  "Memory_Close s = (Inr (), s\<lparr>closed := True\<rparr>)"

section \<open>The contract\<close>

definition memory_ok :: "dtmmr \<Rightarrow> MemoryStore \<Rightarrow> bool" where
  "memory_ok dt s \<longleftrightarrow> \<not> closed s \<and> engine_inv dt (engine s)"

lemma memory_open:
  assumes "memory_ok dt s"
  shows "Memory_Append None s i = apsnd (\<lambda>e. s\<lparr>engine := e\<rparr>) (Engine_Append (engine s) i)"
    "Memory_GetEntry None s v = GetEntry (engine s) v"
    "Memory_ScanEntries None s a l = ScanEntries (engine s) a l"
    "Memory_CommitCLL dt None s sz ck n = apsnd (\<lambda>e. s\<lparr>engine := e\<rparr>) (CommitCLL dt (engine s) sz ck n)"
  using assms
  by (auto simp: memory_ok_def guarded_def Memory_Append_def Memory_GetEntry_def Memory_ScanEntries_def
      Memory_CommitCLL_def split: prod.splits)

lemma memory_ok_engine: "memory_ok dt s \<Longrightarrow> engine_inv dt e \<Longrightarrow> memory_ok dt (s\<lparr>engine := e\<rparr>)"
  by (simp add: memory_ok_def)

interpretation memory_log: entry_log "memory_ok dt" "\<lambda>s. entries (engine s)"
  "Memory_Append None" "Memory_GetEntry None" "Memory_ScanEntries None" for dt
proof
  fix s :: MemoryStore and i
  assume s: "memory_ok dt s"
  then have e: "engine_inv dt (engine s)" by (simp add: memory_ok_def)
  show "valid_entries (entries (engine s))" by (rule engine_log.log_valid [OF e])
  show "memory_ok dt (snd (Memory_Append None s i))"
    using memory_ok_engine [OF s Engine_Append_inv [OF e]] by (simp add: memory_open [OF s] snd_apsnd)
  show "length v = EntryBytes \<Longrightarrow> Memory_GetEntry None s v =
      (case find (\<lambda>en. Value en = v) (entries (engine s)) of None \<Rightarrow> Inl ErrNotFound | Some en \<Rightarrow> Inr en)" for v
    unfolding memory_open [OF s] by (rule engine_log.get [OF e])
  show "a \<le> MaxPortableInteger \<Longrightarrow> 1 \<le> l \<Longrightarrow> l \<le> MaxScanLimit \<Longrightarrow>
      Memory_ScanEntries None s a l = Inr (take (nat l) (drop (unat a) (entries (engine s))))" for a l
    unfolding memory_open [OF s] by (rule engine_log.scan [OF e])
  fix s'
  show "Memory_Append None s i = (Inl err, s') \<Longrightarrow> entries (engine s') = entries (engine s)" for err
    using engine_log.append_err [OF e, of i err] by (cases "Engine_Append (engine s) i") (auto simp: memory_open [OF s])
  fix r
  assume ap: "Memory_Append None s i = (Inr r, s')"
  then obtain e' where e': "Engine_Append (engine s) i = (Inr r, e')" "engine s' = e'"
    by (cases "Engine_Append (engine s) i") (auto simp: memory_open [OF s])
  show "InputValue i \<notin> set (map Value (entries (engine s))) \<Longrightarrow>
      Outcome r = AppendInserted \<and> entries (engine s') = entries (engine s) @ [ResultEntry r]
      \<and> Value (ResultEntry r) = InputValue i"
    using engine_log.append_new [OF e e'(1)] e'(2) by simp
  show "InputValue i \<in> set (map Value (entries (engine s))) \<Longrightarrow>
      Outcome r = AppendIdempotent \<and> entries (engine s') = entries (engine s)
      \<and> ResultEntry r \<in> set (entries (engine s)) \<and> Value (ResultEntry r) = InputValue i"
    using engine_log.append_old [OF e e'(1)] e'(2) by simp
qed

interpretation memory_cas: cas_store "memory_ok dt" "\<lambda>s. state (engine s)" "Memory_CommitCLL dt None" for dt
proof
  fix s :: MemoryStore and sz ck n s'
  assume s: "memory_ok dt s"
  then have e: "engine_inv dt (engine s)" by (simp add: memory_ok_def)
  show "memory_ok dt (snd (Memory_CommitCLL dt None s sz ck n))"
    using memory_ok_engine [OF s engine_cas.commit_ok [OF e]] by (simp add: memory_open [OF s] snd_apsnd)
  show "Size (state (engine s)) \<noteq> sz \<or> \<not> sameOptional (Checkpoint (state (engine s))) ck \<Longrightarrow>
      Memory_CommitCLL dt None s sz ck n = (Inl ErrContention, s)"
    using engine_cas.commit_stale [OF e, of sz ck n] by (simp add: memory_open [OF s])
  show "Memory_CommitCLL dt None s sz ck n = (Inl err, s') \<Longrightarrow> state (engine s') = state (engine s)" for err
    using engine_cas.commit_err [OF e, of sz ck n err]
    by (cases "CommitCLL dt (engine s) sz ck n") (auto simp: memory_open [OF s])
  assume "Memory_CommitCLL dt None s sz ck n = (Inr (), s')"
  then have "CommitCLL dt (engine s) sz ck n = (Inr (), engine s')"
    by (cases "CommitCLL dt (engine s) sz ck n") (auto simp: memory_open [OF s])
  from engine_cas.commit_done [OF e this] show
    "Size (state (engine s')) = Size n \<and> Nodes (state (engine s')) = Nodes n
      \<and> IndexedSeq (state (engine s')) = IndexedSeq n \<and> FirstPendingAt (state (engine s')) = FirstPendingAt n
      \<and> Checkpoint (state (engine s')) = Checkpoint n
      \<and> Nodes (state (engine s)) = take (length (Nodes (state (engine s)))) (Nodes n)
      \<and> IndexedSeq (state (engine s)) \<le> IndexedSeq n" .
qed

end
