(* ===== verification/Backend_Properties.thy ===== *)
theory Backend_Properties
  imports Memory_Store Mmr_Properties
begin

text \<open>
  The properties of the transition engine and of the in-memory backend, with a one-leaf example
  state for their witnesses.
\<close>

section \<open>Example states\<close>

definition ex_input :: AppendInput where
  "ex_input = \<lparr>InputValue = replicate 32 7, InputAppendedAt = 1500000\<rparr>"

definition ex_witness :: WitnessState where
  "ex_witness = \<lparr>WitnessID = ''w'', CheckpointSize = 1, WitnessCheckpoint = [1], Attempts = 0,
     NextAttemptAt = 0, Receipt = None, Permanent = False, LastError = []\<rparr>"

definition ex_state :: State where
  "ex_state = \<lparr>Size = 1, Nodes = [replicate 32 9], IndexedSeq = 1, FirstPendingAt = Some 0,
     Checkpoint = Some \<lparr>CheckpointBytes = [1], CkSize = 1, CkIndexedSeq = 1, Peaks = [replicate 32 9]\<rparr>,
     Witnesses = [ex_witness]\<rparr>"

lemma lib_LeafCount_0: "dtmmr_lib dt \<Longrightarrow> mmr_LeafCount dt 0 = (0, True)"
  using dtmmr_lib.LeafCount_valid [of dt 0] by simp

lemma ex_LeafCount: "mmr_LeafCount dt_ref 1 = (1, True)"
  using ref_lib.LeafCount_valid [of 1] by simp

lemma ex_time: "ValidateTime 0 = Inr ()" "ValidateTime 1500000 = Inr ()"
  by (simp_all add: ValidateTime_iff ns_per_ms_def MinPortableUnixMillis_def MaxPortableUnixMillis_def)

lemma ex_witness_valid: "valid_witness ex_witness"
  by (simp add: valid_witness_def validateWitness_def ex_witness_def ex_time ValidateIdentifier_def
      identifierPattern_def identifier_char_def MaxIdentifierBytes_def MaxCheckpointBytes_def MaxReasonBytes_def)

lemma ex_state_valid: "valid_state dt_ref ex_state"
  using ex_LeafCount ex_witness_valid ex_time
  by (simp add: valid_state_def valid_metadata_def ex_state_def valid_checkpoint_def EntryBytes_def
      MaxCheckpointBytes_def distinct_keys_def)

lemma Engine_New_inv: "dtmmr_lib dt \<Longrightarrow> engine_inv dt Engine_New"
  using valid_state_empty [OF lib_LeafCount_0]
  by (simp add: engine_inv_def Engine_New_def valid_entries_def index_ok_def)

lemma ex_apply: "ApplyCLL dt_ref (state Engine_New) 0 None ex_state = Inr ex_state"
proof -
  have "mergeable [] (Witnesses ex_state)" by (simp add: mergeable_def ex_state_def distinct_keys_def)
  then show ?thesis
    unfolding ApplyCLL_iff
    by (simp add: Engine_New_def empty_State_def sameOptional_def ex_state_valid checkpointTransition_def new_witnesses_def)
qed

section \<open>The engine\<close>



text \<open>
  C13 (\<open>Engine.CommitCLLDelta\<close>, \<open>Engine.DeltaSince\<close>): replaying the delta of a successful commit
  gives exactly the engine the commit produced, under the same expectations.
\<close>

theorem CommitCLL_delta_replay:
  assumes "engine_inv dt e" "length (Nodes next_st) < 2 ^ 64"
    "CommitCLL dt e sz ck next_st = (Inr (), e')"
    "DeltaSince e' (Engine_Snapshot e) = Inr delta"
  shows "CommitCLLDelta dt e sz ck delta = (Inr (), e')"
proof (cases rule: CommitCLL_cases [of dt e sz ck next_st])
  case (ok st)
  then show ?thesis
    using CommitCLLDelta_replays [OF _ ok(2) assms(2)] assms by (simp add: engine_inv_def)
qed (use assms(3) in simp)

theorem CommitCLL_delta_replay_witness:
  "\<exists>delta. DeltaSince (Engine_New\<lparr>state := ex_state\<rparr>) (Engine_Snapshot Engine_New) = Inr delta \<and>
     CommitCLLDelta dt_ref Engine_New 0 None delta = (Inr (), Engine_New\<lparr>state := ex_state\<rparr>)"
proof -
  have c: "CommitCLL dt_ref Engine_New 0 None ex_state = (Inr (), Engine_New\<lparr>state := ex_state\<rparr>)"
    by (simp add: CommitCLL_def ex_apply)
  have n: "length (Nodes ex_state) < 2 ^ 64" by (simp add: ex_state_def)
  show ?thesis
    using CommitCLL_delta_replay [OF Engine_New_inv [OF ref_laws] n c] delta_of_commit [OF ex_apply] by auto
qed

text \<open>
  \<open>Engine.Snapshot\<close>, \<open>Engine.Restore\<close>: restoring a snapshot after any number of further
  operations gives back exactly the engine it was taken of, the value index included.
\<close>

lemma Restore_undoes_runs:
  assumes "engine_inv dt e" "(engine_step dt)\<^sup>*\<^sup>* e e'"
  shows "Restore e' (Engine_Snapshot e) = (Inr (), e)"
  using Restore_eq [OF assms(1)] engine_steps_inv [OF assms(2,1)] growsD(1) by blast

lemma find_key_mem:
  assumes "distinct_keys ws" "w \<in> set ws"
  shows "find (\<lambda>v. witness_key v = witness_key w) ws = Some w"
  using assms
proof (induction ws)
  case (Cons v ws)
  then show ?case by (cases "witness_key v = witness_key w") (auto simp: distinct_keys_def)
qed simp

lemma find_other_key:
  "witness_key old = witness_key w \<Longrightarrow> k \<noteq> witness_key w \<Longrightarrow>
   find (\<lambda>v. witness_key v = k) (pre @ w # post) = find (\<lambda>v. witness_key v = k) (pre @ old # post)"
  by (induction pre) auto

lemma valid_witness_key: "valid_witness w \<Longrightarrow> \<not> isl (ValidateIdentifier (WitnessID w)) \<and> CheckpointSize w \<noteq> 0"
  by (auto simp: valid_witness_def validateWitness_def split: if_splits)

lemma replaceWitness_err: "replaceWitness a w ws = Inl err \<Longrightarrow> err = ErrContention"
proof (induction ws)
  case (Cons v ws)
  then show ?case by (cases "replaceWitness a w ws") (auto split: if_splits)
qed simp

lemma CommitWitness_err: "CommitWitness e a w = (Inl err, e') \<Longrightarrow> e' = e \<and> (err = ErrInvalid \<or> err = ErrContention)"
  by (cases "validateWitness w ErrInvalid"; cases "replaceWitness a w (Witnesses (state e))")
    (auto simp: CommitWitness_def ApplyWitness_def dest: validateWitness_err replaceWitness_err)

lemma CommitWitness_accepts:
  assumes "distinct_keys (Witnesses (state e))" "valid_witness w" "old \<in> set (Witnesses (state e))"
    "witness_key old = witness_key w" "Attempts old = a" "WitnessCheckpoint old = WitnessCheckpoint w"
  shows "\<exists>e'. CommitWitness e a w = (Inr (), e')"
proof -
  have "find (\<lambda>v. witness_key v = witness_key w) (Witnesses (state e)) = Some old"
    using find_key_mem [OF assms(1,3)] assms(4) by simp
  then obtain ws where "replaceWitness a w (Witnesses (state e)) = Inr ws"
    using replaceWitness_find assms(5,6) by blast
  then show ?thesis using assms(2) by (simp add: CommitWitness_def ApplyWitness_def valid_witness_def)
qed

text \<open>
  C34 (\<open>Engine.CommitWitness\<close>, \<open>Engine.GetWitness\<close>): a witness update succeeds exactly when it is
  valid and the stored row has the expected attempts and the same checkpoint; then the row reads
  back as written and every other row is untouched. Otherwise the engine does not change and the
  error is \<open>ErrInvalid\<close> or \<open>ErrContention\<close>.
\<close>

theorem CommitWitness_compare_and_set:
  assumes "engine_inv dt e" "CommitWitness e a w = (r, e')"
  shows "(r = Inr () \<longleftrightarrow> validateWitness w ErrInvalid = Inr () \<and> (\<exists>old \<in> set (Witnesses (state e)).
       WitnessID old = WitnessID w \<and> CheckpointSize old = CheckpointSize w \<and> Attempts old = a
       \<and> WitnessCheckpoint old = WitnessCheckpoint w))
    \<and> (r = Inr () \<longrightarrow> GetWitness e' (WitnessID w) (CheckpointSize w) = Inr w
         \<and> (\<forall>i s. (i, s) \<noteq> (WitnessID w, CheckpointSize w) \<longrightarrow> GetWitness e' i s = GetWitness e i s))
    \<and> (r \<noteq> Inr () \<longrightarrow> e' = e \<and> (r = Inl ErrInvalid \<or> r = Inl ErrContention))"
proof -
  have dk: "distinct_keys (Witnesses (state e))"
    using assms(1) by (simp add: engine_inv_def valid_state_def valid_metadata_def)
  have rd: "GetWitness e' (WitnessID w) (CheckpointSize w) = Inr w"
    "\<And>i s. (i, s) \<noteq> (WitnessID w, CheckpointSize w) \<Longrightarrow> GetWitness e' i s = GetWitness e i s"
    "valid_witness w" "\<exists>old \<in> set (Witnesses (state e)). witness_key old = witness_key w \<and> Attempts old = a
       \<and> WitnessCheckpoint old = WitnessCheckpoint w"
    if ok: "r = Inr ()"
  proof -
    obtain s' where s': "e' = e\<lparr>state := s'\<rparr>" "ApplyWitness (state e) a w = Inr s'"
      using assms(2) ok by (cases rule: CommitWitness_cases [of e a w]) auto
    obtain pre old post where w: "Witnesses (state e) = pre @ old # post"
      "s' = (state e)\<lparr>Witnesses := pre @ w # post\<rparr>" "witness_key old = witness_key w" "Attempts old = a"
      "WitnessCheckpoint old = WitnessCheckpoint w" "valid_witness w"
      by (rule ApplyWitness_Inr [OF s'(2)])
    have ws: "Witnesses (state e') = pre @ w # post" using s' w by simp
    have "engine_inv dt e'" using CommitWitness_inv [OF assms(1), of a w] assms(2) by simp
    then have dk': "distinct_keys (pre @ w # post)"
      using ws by (simp add: engine_inv_def valid_state_def valid_metadata_def)
    show "GetWitness e' (WitnessID w) (CheckpointSize w) = Inr w"
      using find_key_mem [OF dk', of w] valid_witness_key [OF w(6)] ws
      by (simp add: GetWitness_def witness_key_def [of w])
    show "GetWitness e' i s = GetWitness e i s" if "(i, s) \<noteq> (WitnessID w, CheckpointSize w)" for i s
    proof -
      have "WitnessKey i s \<noteq> witness_key w" using that by (auto simp: witness_key_def)
      then show ?thesis unfolding GetWitness_def ws w(1) using find_other_key [OF w(3)] by simp
    qed
    show "valid_witness w" by (rule w(6))
    show "\<exists>old \<in> set (Witnesses (state e)). witness_key old = witness_key w \<and> Attempts old = a
       \<and> WitnessCheckpoint old = WitnessCheckpoint w" using w by auto
  qed
  have "r = Inr ()" if "valid_witness w" "old \<in> set (Witnesses (state e))" "witness_key old = witness_key w"
    "Attempts old = a" "WitnessCheckpoint old = WitnessCheckpoint w" for old
    using CommitWitness_accepts [OF dk that] assms(2) by simp
  then have iff: "r = Inr () \<longleftrightarrow> valid_witness w \<and> (\<exists>old \<in> set (Witnesses (state e)).
       witness_key old = witness_key w \<and> Attempts old = a \<and> WitnessCheckpoint old = WitnessCheckpoint w)"
    using rd(3,4) by blast
  have er: "e' = e \<and> (r = Inl ErrInvalid \<or> r = Inl ErrContention)" if "r \<noteq> Inr ()"
    using CommitWitness_err [of e a w _ e'] assms(2) that by (cases r) auto
  show ?thesis
    using iff rd(1,2) er unfolding valid_witness_def witness_key_eq by blast
qed

theorem CommitWitness_compare_and_set_witness:
  "\<exists>e'. CommitWitness (Engine_New\<lparr>state := ex_state\<rparr>) 0 (ex_witness\<lparr>Attempts := 1\<rparr>) = (Inr (), e')
     \<and> GetWitness e' ''w'' 1 = Inr (ex_witness\<lparr>Attempts := 1\<rparr>)"
proof -
  let ?e = "Engine_New\<lparr>state := ex_state\<rparr>" and ?w = "ex_witness\<lparr>Attempts := 1\<rparr>"
  have inv: "engine_inv dt_ref ?e" using Engine_New_inv [OF ref_laws] ex_state_valid by (simp add: engine_inv_def)
  have "validateWitness ?w ErrInvalid = validateWitness ex_witness ErrInvalid" by (simp add: validateWitness_def)
  then have v: "validateWitness ?w ErrInvalid = Inr ()" using ex_witness_valid by (simp add: valid_witness_def)
  note cas = CommitWitness_compare_and_set [OF inv surjective_pairing, of 0 ?w]
  have "ex_witness \<in> set (Witnesses (state ?e))" "Attempts ex_witness = 0" "WitnessID ?w = ''w''" "CheckpointSize ?w = 1"
    by (simp_all add: ex_state_def ex_witness_def)
  then have ok: "fst (CommitWitness ?e 0 ?w) = Inr ()"
    by (intro cas [THEN conjunct1, THEN iffD2] conjI v bexI [of _ ex_witness]) simp_all
  have "GetWitness (snd (CommitWitness ?e 0 ?w)) (WitnessID ?w) (CheckpointSize ?w) = Inr ?w"
    by (rule cas [THEN conjunct2, THEN conjunct1, THEN mp, OF ok, THEN conjunct1])
  then have "GetWitness (snd (CommitWitness ?e 0 ?w)) ''w'' 1 = Inr ?w" by (simp add: ex_witness_def)
  moreover have "CommitWitness ?e 0 ?w = (Inr (), snd (CommitWitness ?e 0 ?w))" using ok by (metis surjective_pairing)
  ultimately show ?thesis by blast
qed

text \<open>
  C35 (\<open>Engine.PendingWitnesses\<close>): the result is in order of checkpoint size and witness id, holds
  only rows that are due (no receipt, not permanent, next attempt not after \<open>now\<close>), and a due row
  is left out only when the limit is reached by rows that come before it.
\<close>

theorem PendingWitnesses_due:
  assumes "PendingWitnesses e now limit = Inr ws"
  shows "sorted (map (\<lambda>w. (CheckpointSize w, WitnessID w)) ws) \<and> int (length ws) \<le> limit
    \<and> (\<forall>w \<in> set ws. w \<in> set (Witnesses (state e)) \<and> Receipt w = None \<and> \<not> Permanent w \<and> NextAttemptAt w \<le> now)
    \<and> (\<forall>w \<in> set (Witnesses (state e)). Receipt w = None \<and> \<not> Permanent w \<and> NextAttemptAt w \<le> now \<and> w \<notin> set ws \<longrightarrow>
         int (length ws) = limit \<and>
         (\<forall>v \<in> set ws. (CheckpointSize v, WitnessID v) \<le> (CheckpointSize w, WitnessID w)))"
proof -
  let ?key = "\<lambda>w. (CheckpointSize w, WitnessID w)"
  let ?due = "\<lambda>w. Receipt w = None \<and> \<not> Permanent w \<and> \<not> NextAttemptAt w > now"
  define all where "all = sort_key ?key (filter ?due (Witnesses (state e)))"
  have lim: "1 \<le> limit" using assms unfolding PendingWitnesses_def by (simp split: if_splits)
  have "ws = (if int (length all) > limit then take (nat limit) all else all)"
    using assms unfolding PendingWitnesses_def Let_def all_def by (simp split: if_split_asm)
  then have ws: "ws = take (nat limit) all" using lim by simp
  have st: "sorted (map ?key all)" by (simp add: all_def)
  have mem: "w \<in> set all \<longleftrightarrow> w \<in> set (Witnesses (state e)) \<and> ?due w" for w by (auto simp: all_def)
  have rest: "int (length ws) = limit \<and> (\<forall>v \<in> set ws. ?key v \<le> ?key w)" if w: "w \<in> set all" "w \<notin> set ws" for w
  proof
    have split: "ws @ drop (nat limit) all = all" unfolding ws by (rule append_take_drop_id)
    then have "set ws \<union> set (drop (nat limit) all) = set all" by (metis set_append)
    then have dr: "w \<in> set (drop (nat limit) all)" using w by blast
    then have "drop (nat limit) all \<noteq> []" by (intro notI) simp
    then have "nat limit < length all" by simp
    then show "int (length ws) = limit" using ws lim by simp
    have "sorted (map ?key ws @ map ?key (drop (nat limit) all))"
      unfolding map_append [symmetric] split by (rule st)
    then have "\<forall>x \<in> set (map ?key ws). \<forall>y \<in> set (map ?key (drop (nat limit) all)). x \<le> y"
      unfolding sorted_append by (elim conjE)
    then show "\<forall>v \<in> set ws. ?key v \<le> ?key w" using dr by simp
  qed
  have sub: "w \<in> set all" if "w \<in> set ws" for w using that unfolding ws by (rule in_set_takeD)
  show ?thesis
  proof (intro conjI ballI impI)
    show "sorted (map ?key ws)" unfolding ws take_map [symmetric] by (rule sorted_wrt_take [OF st])
    show "int (length ws) \<le> limit" using ws lim by simp
  next
    fix w assume "w \<in> set ws"
    from sub [OF this] show "w \<in> set (Witnesses (state e))" "Receipt w = None" "\<not> Permanent w" "NextAttemptAt w \<le> now"
      unfolding mem by simp_all
  next
    fix w assume "w \<in> set (Witnesses (state e))"
      "Receipt w = None \<and> \<not> Permanent w \<and> NextAttemptAt w \<le> now \<and> w \<notin> set ws"
    then have w: "w \<in> set all" "w \<notin> set ws" unfolding mem by simp_all
    show "int (length ws) = limit" using rest [OF w] by blast
    show "?key v \<le> ?key w" if "v \<in> set ws" for v using rest [OF w] that by blast
  qed
qed

theorem PendingWitnesses_due_witness:
  "\<exists>ws. PendingWitnesses (Engine_New\<lparr>state := ex_state\<rparr>) 0 1 = Inr ws \<and> ex_witness \<in> set ws"
proof -
  obtain ws where ws: "PendingWitnesses (Engine_New\<lparr>state := ex_state\<rparr>) 0 1 = Inr ws"
    by (simp add: PendingWitnesses_def ex_time MaxWitnesses_def Let_def)
  have "length ws = 1" using ws by (auto simp: PendingWitnesses_def ex_time MaxWitnesses_def ex_state_def
        ex_witness_def Let_def)
  then obtain w where w: "w \<in> set ws" by (cases ws) auto
  then have "w = ex_witness" using PendingWitnesses_due [OF ws] by (auto simp: ex_state_def)
  then show ?thesis using ws w by blast
qed

section \<open>The in-memory backend\<close>

text \<open>
  C39 (\<open>memory.Store\<close>): an identity that was appended reads back as the entry the append returned;
  appending it again, at whatever time, returns that same entry as idempotent and changes nothing.
\<close>

theorem Memory_Append_idempotent:
  assumes "memory_ok dt s" "Memory_Append None s i = (Inr r, s')"
    "Memory_Append None s' j = (Inr r', s'')" "InputValue j = InputValue i"
  shows "Memory_GetEntry None s' (InputValue i) = Inr (ResultEntry r) \<and> Outcome r' = AppendIdempotent
    \<and> ResultEntry r' = ResultEntry r \<and> entries (engine s'') = entries (engine s')"
  using memory_log.append_get [OF assms(1,2)] memory_log.append_idempotent [OF assms] by blast

lemma Memory_New_ok: "dtmmr_lib dt \<Longrightarrow> memory_ok dt Memory_New"
  using Engine_New_inv by (simp add: memory_ok_def Memory_New_def)

theorem Memory_Append_idempotent_witness:
  "\<exists>r s' s''. Memory_Append None Memory_New ex_input = (Inr r, s') \<and>
     Memory_Append None s' ex_input = (Inr \<lparr>ResultEntry = ResultEntry r, Outcome = AppendIdempotent\<rparr>, s'')
     \<and> Memory_GetEntry None s' (InputValue ex_input) = Inr (ResultEntry r)"
proof -
  note defs = Memory_Append_def guarded_def Memory_New_def Engine_Append_def Engine_New_def ex_input_def
    ex_time EntryBytes_def MaxPortableInteger_def Let_def
  obtain r s' where a: "Memory_Append None Memory_New ex_input = (Inr r, s')" by (simp add: defs)
  obtain r' s'' where b: "Memory_Append None s' ex_input = (Inr r', s'')" using a by (auto simp: defs)
  from Memory_Append_idempotent [OF Memory_New_ok [OF ref_laws] a b refl] have
    "r' = \<lparr>ResultEntry = ResultEntry r, Outcome = AppendIdempotent\<rparr>"
    "Memory_GetEntry None s' (InputValue ex_input) = Inr (ResultEntry r)" by (cases r'; simp)+
  then show ?thesis using a b by auto
qed

text \<open>
  \<open>memory.Store.ScanEntries\<close>: reading page by page from sequence 0 with any legal page size,
  each page after the last sequence number of the one before, returns every entry once, in order.
\<close>

lemma Memory_scan_reads_all:
  assumes "memory_ok dt s" "1 \<le> limit" "limit \<le> MaxScanLimit"
  shows "read_pages (Memory_ScanEntries None) (Suc (length (entries (engine s)))) s 0 limit = Inr (entries (engine s))"
  using memory_log.read_pages_all [OF assms, of 0] by (simp del: read_pages.simps)

text \<open>
  C40 (\<open>memory.Store.CommitCLL\<close>): no lost updates. Of two writers that read the same state, when
  the first one's commit moves the log or its checkpoint, the second one's is refused with
  \<open>ErrContention\<close> and changes nothing, whatever it tries to write.
\<close>

theorem Memory_no_lost_update:
  assumes "memory_ok dt s" "Memory_CommitCLL dt None s sz ck n = (Inr (), s')"
    "Size n \<noteq> sz \<or> \<not> sameOptional (Checkpoint n) ck"
  shows "Memory_CommitCLL dt None s' sz ck m = (Inl ErrContention, s') \<and>
    Nodes (state (engine s)) = take (length (Nodes (state (engine s)))) (Nodes (state (engine s')))"
  using memory_cas.no_lost_update [OF assms] memory_cas.commit_done [OF assms(1,2)] by simp

theorem Memory_no_lost_update_witness:
  "\<exists>s'. Memory_CommitCLL dt_ref None Memory_New 0 None ex_state = (Inr (), s') \<and>
     Memory_CommitCLL dt_ref None s' 0 None ex_state = (Inl ErrContention, s')"
proof -
  obtain s' where s': "Memory_CommitCLL dt_ref None Memory_New 0 None ex_state = (Inr (), s')"
    using ex_apply by (simp add: Memory_CommitCLL_def guarded_def Memory_New_def CommitCLL_def)
  have "Size ex_state \<noteq> 0 \<or> \<not> sameOptional (Checkpoint ex_state) None" by (simp add: ex_state_def)
  then show ?thesis using Memory_no_lost_update [OF Memory_New_ok [OF ref_laws] s'] s' by blast
qed

text \<open>
  \<open>memory.Store.Close\<close>: a closed store refuses every operation with \<open>ErrClosed\<close>, keeps its
  contents, and can be closed again.
\<close>

lemma Memory_closed_refuses:
  "\<exists>s'. Memory_Close s = (Inr (), s') \<and> Memory_Close s' = (Inr (), s') \<and> engine s' = engine s
     \<and> Memory_Append None s' input = (Inl ErrClosed, s') \<and> Memory_GetEntry None s' value = Inl ErrClosed
     \<and> Memory_ScanEntries None s' afterSeq limit = Inl ErrClosed \<and> Memory_LoadCLL None s' = Inl ErrClosed
     \<and> Memory_CommitCLL dt None s' sz ck n = (Inl ErrClosed, s')
     \<and> Memory_PendingWitnesses None s' now limit = Inl ErrClosed
     \<and> Memory_GetWitness None s' wid sz = Inl ErrClosed
     \<and> Memory_CommitWitness None s' attempts w = (Inl ErrClosed, s')"
  by (simp add: Memory_Close_def Memory_Append_def Memory_GetEntry_def Memory_ScanEntries_def Memory_LoadCLL_def
      Memory_CommitCLL_def Memory_PendingWitnesses_def Memory_GetWitness_def Memory_CommitWitness_def guarded_def)

end
