(* ===== verification/Wire_Properties.thy ===== *)
theory Wire_Properties
  imports Backend_Wire Backend_Properties
begin

text \<open>
  The properties of the portable time profile and of the wire forms that the journal and the SQL
  backends store.
\<close>

text \<open>
  C38 (\<open>portable.ParseTime\<close>, \<open>portable.FormatTime\<close>): a string is accepted as a time exactly when it is
  what \<open>FormatTime\<close> prints for that time and the time has millisecond precision. So the two are
  inverse to each other, no time has two spellings, and no spelling is lenient.
\<close>

theorem ParseTime_exact:
  "ParseTime s = Inr t \<longleftrightarrow> FormatTime t = Inr s \<and> NormalizeTime t = t"
  using ParseTime_Inr [of s t] ParseTime_FormatTime [of t s] by auto

text \<open>
  C17 (\<open>StateToWire\<close>, \<open>StateFromWire\<close>): every state that passes validation has a wire form, and reading
  it back gives the same state with its times cut to milliseconds.
\<close>

theorem StateToWire_round_trip:
  assumes "valid_state dt s"
  shows "\<exists>wire. StateToWire s = Inr wire \<and> StateFromWire dt wire = Inr (norm_state s)"
  using StateFromWire_ToWire [OF assms] by blast

theorem StateToWire_round_trip_witness:
  "\<exists>wire. StateToWire ex_state = Inr wire \<and> StateFromWire dt_ref wire = Inr ex_state"
proof -
  have "norm_state ex_state = ex_state"
    by (simp add: norm_state_def norm_witness_def ex_state_def ex_witness_def NormalizeTime_def)
  then show ?thesis using StateToWire_round_trip [OF ex_state_valid] by simp
qed

text \<open>
  \<open>StateFromWire\<close>, \<open>EntryFromWire\<close>: whatever bytes a stored row holds, a state or an entry that
  is read from them is valid and normalised, so a damaged row is an error and never a bad state.
\<close>

lemma FromWire_only_valid:
  "(StateFromWire dt wire = Inr s \<longrightarrow> valid_state dt s \<and> norm_state s = s) \<and>
   (EntryFromWire wireEntry = Inr en \<longrightarrow> Seq en \<noteq> 0 \<and> Seq en \<le> MaxPortableInteger
      \<and> length (Value en) = EntryBytes \<and> ValidateTime (AppendedAt en) = Inr () \<and> norm_entry en = en)"
proof (intro conjI impI)
  assume "StateFromWire dt wire = Inr s"
  then have s: "stateFromWire wire = Inr s" "validateState dt s ErrCorrupt = Inr ()"
    by (auto simp: StateFromWire_def rbind_Inr_iff)
  show "valid_state dt s" using s(2) by (simp add: validateState_iff)
  show "norm_state s = s" by (rule stateFromWire_norm(1) [OF s(1)])
qed (use EntryFromWire_valid in auto)

end
