(* ===== verification/Rfc3339.thy ===== *)
theory Rfc3339
  imports Portable_Time
begin

text \<open>
  \<open>Time.Format(time.RFC3339Nano)\<close> and \<open>time.Parse(time.RFC3339Nano, s)\<close> of Go's package \<open>time\<close>, as
  the checkpoint profile uses them (\<open>formatTimestamp\<close>, \<open>ParsePayload\<close> and \<open>ParseRecord\<close> in
  \<open>checkpoint/checkpoint.go\<close>). The parser is the general layout parser with its leniencies: an
  hour of one digit, a comma before the fraction, and any number of fraction digits, of which
  nine count. A parsed time remembers whether its text ended in \<open>Z\<close>: Go compares the location of
  two times with \<open>==\<close>, and any numeric offset gives a location that differs from UTC.
\<close>

record gotime =
  Instant :: time
  InUTC :: bool

section \<open>Formatting\<close>

definition trim_zeros :: "string \<Rightarrow> string" where
  "trim_zeros s = rev (dropWhile (\<lambda>c. c = CHR ''0'') (rev s))"

definition format_fraction :: "int \<Rightarrow> string" where
  "format_fraction nsec = (if nsec = 0 then [] else CHR ''.'' # trim_zeros (format_padded 9 nsec))"

text \<open>A UTC instant whose year has at most four digits; the only ones that are formatted.\<close>

definition format_RFC3339Nano :: "time \<Rightarrow> string" where
  "format_RFC3339Nano t =
     format_padded 4 (Year t) @ ''-'' @ format_padded 2 (Month t) @ ''-'' @ format_padded 2 (Day t)
     @ ''T'' @ format_padded 2 (Hour t) @ '':'' @ format_padded 2 (Minute t)
     @ '':'' @ format_padded 2 (Second t) @ format_fraction (Nanosecond t) @ ''Z''"

section \<open>Parsing\<close>

definition getnum :: "bool \<Rightarrow> string \<Rightarrow> (int \<times> string) option" where
  "getnum two s =
     (case s of
        [] \<Rightarrow> None
      | c # cs \<Rightarrow>
          if \<not> is_digit c then None
          else (case cs of
              d # ds \<Rightarrow>
                if is_digit d then Some (int (10 * digit_value c + digit_value d), ds)
                else if two then None else Some (int (digit_value c), cs)
            | [] \<Rightarrow> if two then None else Some (int (digit_value c), [])))"

definition expect :: "char \<Rightarrow> string \<Rightarrow> string option" where
  "expect c s = (case s of [] \<Rightarrow> None | d # ds \<Rightarrow> if d = c then Some ds else None)"

definition parse_year :: "string \<Rightarrow> (int \<times> string) option" where
  "parse_year s =
     (if length s < 4 \<or> \<not> list_all is_digit (take 4 s) then None
      else Some (int (digits_value (take 4 s)), drop 4 s))"

definition parse_fraction :: "string \<Rightarrow> int \<times> string" where
  "parse_fraction s =
     (if length s < 2 \<or> s ! 0 \<notin> {CHR ''.'', CHR '',''} \<or> \<not> is_digit (s ! 1) then (0, s)
      else let ds = takeWhile is_digit (tl s); used = take 9 ds
           in (int (digits_value used * 10 ^ (9 - length used)), drop (1 + length ds) s))"

text \<open>\<open>None\<close> in the result is the letter \<open>Z\<close>; the offset is in seconds.\<close>

definition parse_zone :: "string \<Rightarrow> (int option \<times> string) option" where
  "parse_zone s =
     (if s \<noteq> [] \<and> s ! 0 = CHR ''Z'' then Some (None, tl s)
      else if length s < 6 \<or> s ! 3 \<noteq> CHR '':'' then None
      else case (getnum True (take 2 (drop 1 s)), getnum True (take 2 (drop 4 s))) of
          (Some (hr, _), Some (mm, _)) \<Rightarrow>
            if hr > 24 \<or> mm > 60 then None
            else let zone = (hr * 60 + mm) * 60
                 in if s ! 0 = CHR ''+'' then Some (Some zone, drop 6 s)
                    else if s ! 0 = CHR ''-'' then Some (Some (- zone), drop 6 s)
                    else None
        | _ \<Rightarrow> None)"

definition leap_year :: "int \<Rightarrow> bool" where
  "leap_year year \<longleftrightarrow> year mod 4 = 0 \<and> (year mod 100 \<noteq> 0 \<or> year mod 400 = 0)"

definition daysIn :: "int \<Rightarrow> int \<Rightarrow> int" where
  "daysIn month year =
     (if month = 2 then (if leap_year year then 29 else 28)
      else if month \<in> {4, 6, 9, 11} then 30 else 31)"

definition time_Parse :: "string \<Rightarrow> gotime option" where
  "time_Parse value =
     Option.bind (parse_year value) (\<lambda>(year, value).
     Option.bind (expect (CHR ''-'') value) (\<lambda>value.
     Option.bind (getnum True value) (\<lambda>(month, value).
     if month \<le> 0 \<or> 12 < month then None else
     Option.bind (expect (CHR ''-'') value) (\<lambda>value.
     Option.bind (getnum True value) (\<lambda>(day, value).
     Option.bind (expect (CHR ''T'') value) (\<lambda>value.
     Option.bind (getnum False value) (\<lambda>(hour, value).
     if hour < 0 \<or> 24 \<le> hour then None else
     Option.bind (expect (CHR '':'') value) (\<lambda>value.
     Option.bind (getnum True value) (\<lambda>(minute, value).
     if minute < 0 \<or> 60 \<le> minute then None else
     Option.bind (expect (CHR '':'') value) (\<lambda>value.
     Option.bind (getnum True value) (\<lambda>(second, value).
     if second < 0 \<or> 60 \<le> second then None else
     let (nsec, value) = parse_fraction value in
     Option.bind (parse_zone value) (\<lambda>(zone, value).
     if value \<noteq> [] then None
     else if day < 1 \<or> day > daysIn month year then None
     else let t = time_Date year month day hour minute second nsec
          in Some (case zone of
               None \<Rightarrow> \<lparr>Instant = t, InUTC = True\<rparr>
             | Some offset \<Rightarrow> \<lparr>Instant = t - offset * 1000000000, InUTC = False\<rparr>)))))))))))))"

section \<open>The round trip\<close>

lemma getnum_padded:
  assumes "0 \<le> n" "n < 100"
  shows "getnum b (format_padded 2 n @ r) = Some (n, r)"
proof -
  have n: "nat n < 10 ^ 2" using assms by simp
  have len: "length (zero_pad 2 (nat n)) = 2" using n by (intro length_zero_pad) simp_all
  then obtain a b where ab: "zero_pad 2 (nat n) = [a, b]"
    by (cases "zero_pad 2 (nat n)"; cases "tl (zero_pad 2 (nat n))") auto
  have "is_digit a" "is_digit b" using zero_pad_digits [of 2 "nat n"] ab by simp_all
  moreover have "10 * digit_value a + digit_value b = nat n"
  proof -
    have "digits_value (zero_pad 2 (nat n)) = nat n" by (simp add: zero_pad_def Let_def digits_value_zeros)
    then show ?thesis by (simp add: ab digits_value_def)
  qed
  ultimately show ?thesis using assms ab by (simp add: getnum_def format_padded_def)
qed

lemma parse_year_padded:
  assumes "0 \<le> n" "n < 10000"
  shows "parse_year (format_padded 4 n @ r) = Some (n, r)"
proof -
  have n: "nat n < 10 ^ 4" using assms by simp
  have len: "length (zero_pad 4 (nat n)) = 4" using n by (intro length_zero_pad) simp_all
  have "digits_value (zero_pad 4 (nat n)) = nat n" by (simp add: zero_pad_def Let_def digits_value_zeros)
  then show ?thesis
    using assms len zero_pad_digits [of 4 "nat n"] by (simp add: parse_year_def format_padded_def)
qed

lemma trim_zeros_split: obtains k where "s = trim_zeros s @ replicate k (CHR ''0'')"
proof -
  define z where "z = takeWhile (\<lambda>c. c = CHR ''0'') (rev s)"
  have "replicate (length z) (CHR ''0'') = z"
    by (rule replicate_length_same) (auto simp: z_def dest: set_takeWhileD)
  then have "rev z = replicate (length z) (CHR ''0'')" by (metis rev_replicate)
  moreover have "rev (z @ dropWhile (\<lambda>c. c = CHR ''0'') (rev s)) = s" by (simp add: z_def)
  ultimately have "s = trim_zeros s @ replicate (length z) (CHR ''0'')" by (simp add: trim_zeros_def)
  then show ?thesis by (rule that)
qed

lemma digits_value_append_zeros: "digits_value (s @ replicate k (CHR ''0'')) = digits_value s * 10 ^ k"
proof (induction k)
  case (Suc k)
  have "replicate (Suc k) (CHR ''0'') = replicate k (CHR ''0'') @ [CHR ''0'']"
    by (simp add: replicate_append_same)
  then show ?case using Suc by (simp add: digits_value_def digit_value_def)
qed simp

lemma parse_fraction_format:
  assumes "0 \<le> n" "n < 1000000000"
  shows "parse_fraction (format_fraction n @ ''Z'') = (n, ''Z'')"
proof (cases "n = 0")
  case True
  then show ?thesis by (simp add: format_fraction_def parse_fraction_def)
next
  case False
  define s where "s = zero_pad 9 (nat n)"
  have n: "nat n < 10 ^ 9" using assms by simp
  have len: "length s = 9" unfolding s_def using n by (intro length_zero_pad) simp_all
  have dv: "digits_value s = nat n" by (simp add: s_def zero_pad_def Let_def digits_value_zeros)
  obtain k where k: "s = trim_zeros s @ replicate k (CHR ''0'')" by (rule trim_zeros_split)
  have lk: "length (trim_zeros s) = 9 - k" "length (trim_zeros s) \<le> 9" "k \<le> 9" using len arg_cong [OF k, of length] by simp_all
  have v: "digits_value (trim_zeros s) * 10 ^ k = nat n"
    using dv digits_value_append_zeros [of "trim_zeros s" k] k by simp
  have "trim_zeros s \<noteq> []" using v False assms(1) by auto
  then obtain c cs where c: "trim_zeros s = c # cs" by (cases "trim_zeros s") auto
  have "list_all is_digit s" unfolding s_def by (rule zero_pad_digits)
  then have d: "list_all is_digit (trim_zeros s)" by (subst (asm) k) simp
  have tw: "takeWhile is_digit (trim_zeros s @ ''Z'') = trim_zeros s"
  proof -
    have "\<not> is_digit (CHR ''Z'')" by (simp add: is_digit_def)
    then show ?thesis using d by (simp add: takeWhile_append2 list_all_iff)
  qed
  have "int (digits_value (trim_zeros s) * 10 ^ (9 - length (trim_zeros s))) = n"
    using v lk assms(1) by simp
  moreover have "take 9 (trim_zeros s) = trim_zeros s" using lk(2) by simp
  moreover have "is_digit c" using d c by simp
  ultimately show ?thesis
    using tw c False assms(1)
    by (simp add: format_fraction_def parse_fraction_def Let_def format_padded_def flip: s_def)
qed

lemma civil_day_in_month:
  assumes "civil_from_days days = (y, m, d)"
  shows "d \<le> daysIn m y"
proof -
  obtain era c q a doy mp where "era = (days + 719468) div 146097"
    "days + 719468 = era * 146097 + c * 36524 + q * 1461 + a * 365 + doy"
    and c: "0 \<le> c" "c \<le> 3" and q: "0 \<le> q" "q \<le> 24" and a: "0 \<le> a" "a \<le> 3" and doy: "0 \<le> doy" "doy \<le> 365"
    and leap: "doy = 365 \<longrightarrow> a = 3 \<and> (q = 24 \<longrightarrow> c = 3)"
    and mp_def: "mp = (5 * doy + 2) div 153" and mp: "0 \<le> mp" "mp \<le> 11"
    and m: "m = (if mp < 10 then mp + 3 else mp - 9)"
    and y: "y = (if m \<le> 2 then era * 400 + c * 100 + q * 4 + a + 1 else era * 400 + c * 100 + q * 4 + a)"
    and d: "d = doy - (153 * mp + 2) div 5 + 1"
    using civil_decomp [OF assms] .
  show ?thesis
  proof (cases "mp = 11")
    case True
    then have m2: "m = 2" "y = era * 400 + c * 100 + q * 4 + a + 1" "d = doy - 336" using m y d by simp_all
    have "leap_year y" if "doy = 365"
    proof -
      have y4: "y = 4 * (era * 100 + c * 25 + q + 1)" using leap that m2(2) by simp
      show ?thesis
      proof (cases "q = 24")
        case True
        then have "y = 400 * (era + 1)" using leap that m2(2) by simp
        then show ?thesis by (simp add: leap_year_def)
      next
        case False
        have "y = 4 * (q + 1) + 100 * (era * 4 + c)" using y4 by simp
        then have "y mod 100 = 4 * (q + 1) mod 100" by (metis mod_mult_self2)
        also have "\<dots> = 4 * (q + 1)" using False q by (intro mod_pos_pos_trivial) simp_all
        finally have "y mod 100 \<noteq> 0" using q by simp
        then show ?thesis using y4 by (simp add: leap_year_def)
      qed
    qed
    then have "doy \<le> 364 \<or> leap_year y" using doy by linarith
    then show ?thesis using m2 doy by (auto simp: daysIn_def)
  next
    case False
    then have "mp = 0 \<or> mp = 1 \<or> mp = 2 \<or> mp = 3 \<or> mp = 4 \<or> mp = 5 \<or> mp = 6 \<or> mp = 7 \<or> mp = 8 \<or> mp = 9 \<or> mp = 10"
      using mp by presburger
    moreover have "5 * doy + 2 < 153 * mp + 153" using mp_def by linarith
    ultimately show ?thesis using m d by (elim disjE) (simp_all add: daysIn_def)
  qed
qed

lemma Day_daysIn: "Day t \<le> daysIn (Month t) (Year t)"
  using civil_day_in_month [of "t div ns_per_day" "Year t" "Month t" "Day t"]
  by (simp add: Year_def Month_def Day_def)

lemma time_Parse_format:
  assumes "0 \<le> Year t" "Year t \<le> 9999"
  shows "time_Parse (format_RFC3339Nano t) = Some \<lparr>Instant = t, InUTC = True\<rparr>"
  using assms time_fields [of t] Day_daysIn [of t] time_Date_fields [of t]
  by (simp add: time_Parse_def format_RFC3339Nano_def parse_year_padded getnum_padded expect_def
      parse_fraction_format parse_zone_def)

end
