(* ===== verification/Utf8_Text.thy ===== *)
theory Utf8_Text
  imports Encodings
begin

text \<open>
  Go's UTF-8 rules (\<open>unicode/utf8\<close>, \<open>strings.ToValidUTF8\<close>), over the codes of the bytes of a string: a
  Go string is a sequence of bytes. Used by \<open>witness/client.go\<close>, by \<open>encoding/json\<close> and by the replay
  of the journal.
\<close>

section \<open>Encodings of runes\<close>

abbreviation code_of :: "char \<Rightarrow> nat" where "code_of c \<equiv> of_char c"

definition continuation :: "char \<Rightarrow> bool" where
  "continuation c \<longleftrightarrow> 0x80 \<le> code_of c \<and> code_of c \<le> 0xBF"

definition second_ok :: "nat \<Rightarrow> char \<Rightarrow> bool" where
  "second_ok b c \<longleftrightarrow>
     (if b = 0xE0 then 0xA0 else if b = 0xF0 then 0x90 else 0x80) \<le> code_of c
     \<and> code_of c \<le> (if b = 0xED then 0x9F else if b = 0xF4 then 0x8F else 0xBF)"

text \<open>The length of the well-formed encoding at the start of a non-empty string, 0 if there is none.\<close>

fun rune_width :: "string \<Rightarrow> nat" where
  "rune_width [] = 0"
| "rune_width (c # rest) =
     (let b = code_of c
      in if b < 0x80 then 1
         else if 0xC2 \<le> b \<and> b \<le> 0xDF
         then (case rest of c1 # _ \<Rightarrow> if continuation c1 then 2 else 0 | _ \<Rightarrow> 0)
         else if 0xE0 \<le> b \<and> b \<le> 0xEF
         then (case rest of c1 # c2 # _ \<Rightarrow> if second_ok b c1 \<and> continuation c2 then 3 else 0 | _ \<Rightarrow> 0)
         else if 0xF0 \<le> b \<and> b \<le> 0xF4
         then (case rest of c1 # c2 # c3 # _ \<Rightarrow>
                 if second_ok b c1 \<and> continuation c2 \<and> continuation c3 then 4 else 0 | _ \<Rightarrow> 0)
         else 0)"

lemma rune_width_le: "rune_width s \<le> length s"
  by (cases s rule: rune_width.cases) (auto simp: Let_def split: list.splits)

function ValidString :: "string \<Rightarrow> bool" where
  "ValidString s =
     (if s = [] then True
      else if rune_width s = 0 then False
      else ValidString (drop (rune_width s) s))"
  by pat_completeness auto

termination
  by (relation "measure length") auto

declare ValidString.simps [simp del]

definition replacement :: string where
  "replacement = [CHR 0xEF, CHR 0xBF, CHR 0xBD]"

function ToValidUTF8_loop :: "string \<Rightarrow> bool \<Rightarrow> string" where
  "ToValidUTF8_loop s invalid =
     (if s = [] then []
      else if rune_width s = 0
      then (if invalid then [] else replacement) @ ToValidUTF8_loop (drop 1 s) True
      else take (rune_width s) s @ ToValidUTF8_loop (drop (rune_width s) s) False)"
  by pat_completeness auto

termination
  by (relation "measure (\<lambda>(s, _). length s)") auto

declare ToValidUTF8_loop.simps [simp del]

definition ToValidUTF8 :: "string \<Rightarrow> string" where
  "ToValidUTF8 s = ToValidUTF8_loop s False"

section \<open>Valid strings\<close>

lemma rune_width_append: "0 < rune_width s \<Longrightarrow> rune_width (s @ r) = rune_width s"
  by (cases s rule: rune_width.cases) (auto simp: Let_def split: list.splits if_splits)

lemma rune_width_take: "rune_width (take (rune_width s) s) = rune_width s"
  by (cases s rule: rune_width.cases) (auto simp: Let_def split: list.splits if_splits)

lemma ValidString_Nil [simp]: "ValidString []"
  by (simp add: ValidString.simps)

lemma ValidString_rune:
  assumes "0 < rune_width s"
  shows "ValidString (take (rune_width s) s @ r) \<longleftrightarrow> ValidString r"
proof -
  let ?t = "take (rune_width s) s"
  have w: "rune_width ?t = rune_width s" "length ?t = rune_width s"
    using rune_width_take rune_width_le [of s] by simp_all
  have "rune_width (?t @ r) = rune_width s" using rune_width_append [of ?t r] w(1) assms by simp
  then show ?thesis using assms w(2) by (subst ValidString.simps) auto
qed

lemma ValidString_replacement [simp]: "ValidString (replacement @ r) \<longleftrightarrow> ValidString r"
proof -
  have "rune_width replacement = 3" by (simp add: replacement_def continuation_def second_ok_def)
  then show ?thesis using ValidString_rune [of replacement r] by (simp add: replacement_def)
qed

lemma ToValidUTF8_loop_valid: "ValidString (ToValidUTF8_loop s i)"
proof (induction s i rule: ToValidUTF8_loop.induct)
  case (1 s i)
  then show ?case
    by (subst ToValidUTF8_loop.simps) (auto simp: ValidString_rune)
qed

lemma ToValidUTF8_valid: "ValidString s \<Longrightarrow> ToValidUTF8_loop s i = s"
proof (induction s arbitrary: i rule: ValidString.induct)
  case (1 s)
  then show ?case
    by (subst ToValidUTF8_loop.simps) (auto simp: ValidString.simps [of s] split: if_splits)
qed

end
