(* ===== verification/Go_Json.thy ===== *)
theory Go_Json
  imports Utf8_Text
begin

text \<open>
  Go's \<open>encoding/json\<close> as the sources use it: the text of a JSON value (the scanner with its nesting
  limit, string literals with their escapes and the repair of invalid UTF-8, the encoder with HTML
  escaping) and, in the second half, the reflection-based decoder and encoder for struct types.
\<close>

section \<open>String literals\<close>

subsection \<open>Encoding\<close>

text \<open>\<open>htmlSafeSet\<close>, and the escapes of \<open>appendString\<close> for the other ASCII characters.\<close>

definition json_safe :: "char \<Rightarrow> bool" where
  "json_safe c \<longleftrightarrow> (let n = code_of c in 32 \<le> n \<and> n < 128 \<and> n \<notin> {34, 38, 60, 62, 92})"

definition json_char :: "char \<Rightarrow> string" where
  "json_char c = (let n = code_of c in
     if json_safe c then [c]
     else if n = 34 \<or> n = 92 then [CHR 0x5C, c]
     else if n = 8 then [CHR 0x5C, CHR ''b'']
     else if n = 9 then [CHR 0x5C, CHR ''t'']
     else if n = 10 then [CHR 0x5C, CHR ''n'']
     else if n = 12 then [CHR 0x5C, CHR ''f'']
     else if n = 13 then [CHR 0x5C, CHR ''r'']
     else CHR 0x5C # ''u00'' @ [hex_char (n div 16), hex_char (n mod 16)])"

function json_chars :: "string \<Rightarrow> string" where
  "json_chars s =
     (case s of
        [] \<Rightarrow> []
      | c # rest \<Rightarrow>
          if code_of c < 128 then json_char c @ json_chars rest
          else if rune_width s = 0 then CHR 0x5C # ''ufffd'' @ json_chars rest
          else if take 3 s = [CHR 0xE2, CHR 0x80, CHR 0xA8] then CHR 0x5C # ''u2028'' @ json_chars (drop 3 s)
          else if take 3 s = [CHR 0xE2, CHR 0x80, CHR 0xA9] then CHR 0x5C # ''u2029'' @ json_chars (drop 3 s)
          else take (rune_width s) s @ json_chars (drop (rune_width s) s))"
  by pat_completeness auto

termination
  by (relation "measure length") auto

declare json_chars.simps [simp del]

definition json_string :: "string \<Rightarrow> string" where
  "json_string s = CHR 0x22 # json_chars s @ [CHR 0x22]"

subsection \<open>Decoding\<close>

definition utf8_EncodeRune :: "nat \<Rightarrow> string" where
  "utf8_EncodeRune r =
     (if r < 0x80 then [char_of r]
      else if r < 0x800 then [char_of (0xC0 + r div 64), char_of (0x80 + r mod 64)]
      else if 0xD800 \<le> r \<and> r \<le> 0xDFFF \<or> r > 0x10FFFF then replacement
      else if r < 0x10000
      then [char_of (0xE0 + r div 4096), char_of (0x80 + r div 64 mod 64), char_of (0x80 + r mod 64)]
      else [char_of (0xF0 + r div 262144), char_of (0x80 + r div 4096 mod 64),
            char_of (0x80 + r div 64 mod 64), char_of (0x80 + r mod 64)])"

definition hex4 :: "string \<Rightarrow> nat option" where
  "hex4 s =
     (case s of
        a # b # c # d # _ \<Rightarrow>
          (case (hex_value a, hex_value b, hex_value c, hex_value d) of
             (Some a, Some b, Some c, Some d) \<Rightarrow> Some (((a * 16 + b) * 16 + c) * 16 + d)
           | _ \<Rightarrow> None)
      | _ \<Rightarrow> None)"

text \<open>\<open>getu4\<close>: an escape \<open>\u\<close> with four hexadecimal digits at the start of the string.\<close>

definition getu4 :: "string \<Rightarrow> nat option" where
  "getu4 s = (if take 2 s = [CHR 0x5C, CHR ''u''] then hex4 (drop 2 s) else None)"

text \<open>The text of one escape, after the backslash: what it stands for and what follows it.\<close>

definition unescape :: "string \<Rightarrow> (string \<times> string) option" where
  "unescape s =
     (case s of
        [] \<Rightarrow> None
      | c # rest \<Rightarrow>
          if c \<in> {CHR 0x22, CHR 0x5C, CHR ''/''} then Some ([c], rest)
          else if c = CHR ''b'' then Some ([CHR 0x08], rest)
          else if c = CHR ''f'' then Some ([CHR 0x0C], rest)
          else if c = CHR ''n'' then Some ([CHR 0x0A], rest)
          else if c = CHR ''r'' then Some ([CHR 0x0D], rest)
          else if c = CHR ''t'' then Some ([CHR 0x09], rest)
          else if c = CHR ''u'' then
            (case hex4 rest of
               None \<Rightarrow> None
             | Some r \<Rightarrow>
                 if 0xD800 \<le> r \<and> r \<le> 0xDFFF then
                   (case getu4 (drop 4 rest) of
                      Some r1 \<Rightarrow>
                        if r \<le> 0xDBFF \<and> 0xDC00 \<le> r1 \<and> r1 \<le> 0xDFFF
                        then Some (utf8_EncodeRune ((r - 0xD800) * 1024 + (r1 - 0xDC00) + 0x10000), drop 10 rest)
                        else Some (replacement, drop 4 rest)
                    | None \<Rightarrow> Some (replacement, drop 4 rest))
                 else Some (utf8_EncodeRune r, drop 4 rest))
          else None)"

lemma unescape_shorter: "unescape s = Some (out, rest) \<Longrightarrow> length rest < length s"
  by (auto simp: unescape_def split: list.splits if_splits option.splits)

text \<open>
  The contents of a string literal, from after the opening quote: the scanner's rules and
  \<open>unquoteBytes\<close> in one pass. \<open>None\<close> is a syntax error or the end of the input.
\<close>

function unquote :: "string \<Rightarrow> (string \<times> string) option" where
  "unquote s =
     (case s of
        [] \<Rightarrow> None
      | c # rest \<Rightarrow>
          if c = CHR 0x22 then Some ([], rest)
          else if c = CHR 0x5C then
            (case unescape rest of
               None \<Rightarrow> None
             | Some (out, rest) \<Rightarrow> map_option (\<lambda>(t, r). (out @ t, r)) (unquote rest))
          else if code_of c < 0x20 then None
          else if rune_width s = 0 then map_option (\<lambda>(t, r). (replacement @ t, r)) (unquote rest)
          else map_option (\<lambda>(t, r). (take (rune_width s) s @ t, r)) (unquote (drop (rune_width s) s)))"
  by pat_completeness auto

termination
  by (relation "measure length") (auto dest: unescape_shorter)

declare unquote.simps [simp del]

lemmas unquote_Cons = unquote.simps [of "c # rest" for c rest, simplified list.case]

lemma unquote_shorter: "unquote s = Some (t, r) \<Longrightarrow> length r < length s"
proof (induction s arbitrary: t r rule: unquote.induct)
  case (1 s)
  show ?case
  proof (cases s)
    case Nil
    then show ?thesis using 1(4) by (simp add: unquote.simps)
  next
    case (Cons c rest)
    consider "c = CHR 0x22" | "c = CHR 0x5C" | "c \<noteq> CHR 0x22" "c \<noteq> CHR 0x5C" by blast
    then show ?thesis
    proof cases
      case 1
      then show ?thesis using Cons "1.prems" by (simp add: unquote.simps)
    next
      case 2
      then obtain out b t' where b: "unescape rest = Some (out, b)" "unquote b = Some (t', r)"
        using Cons "1.prems" by (auto simp: unquote_Cons split: option.splits)
      have "length r < length b" using "1.IH"(1) [OF Cons _ 2 b(1) refl b(2)] 2 by simp
      then show ?thesis using unescape_shorter [OF b(1)] Cons by simp
    next
      case 3
      then show ?thesis using Cons "1.prems" "1.IH"(2,3) [OF Cons 3]
        by (fastforce simp: unquote_Cons simp del: rune_width.simps split: if_splits)
    qed
  qed
qed

subsection \<open>The round trip of a string\<close>

lemma json_chars_Nil [simp]: "json_chars [] = []"
  by (simp add: json_chars.simps)

lemmas json_chars_Cons = json_chars.simps [of "c # rest" for c rest, simplified list.case]

lemma unescape_u00:
  assumes "n < 128"
  shows "unescape (''u00'' @ hex_char (n div 16) # hex_char (n mod 16) # r) = Some ([char_of n], r)"
proof -
  have "hex_value (CHR ''0'') = Some 0" by (simp add: hex_value_def)
  moreover have "n div 16 < 16" "n mod 16 < 16" "n div 16 * 16 + n mod 16 = n" using assms by simp_all
  ultimately show ?thesis using assms by (simp add: unescape_def hex4_def utf8_EncodeRune_def)
qed

lemma special_codes:
  "code_of c = 34 \<longleftrightarrow> c = CHR 0x22" "code_of c = 92 \<longleftrightarrow> c = CHR 0x5C" "code_of c = 8 \<longleftrightarrow> c = CHR 0x08"
  "code_of c = 9 \<longleftrightarrow> c = CHR 0x09" "code_of c = 10 \<longleftrightarrow> c = CHR 0x0A" "code_of c = 12 \<longleftrightarrow> c = CHR 0x0C"
  "code_of c = 13 \<longleftrightarrow> c = CHR 0x0D"
  by (subst of_char_eq_iff [symmetric, where ?'a = nat], simp)+

lemma unquote_json_char:
  assumes "code_of c < 128"
  shows "unquote (json_char c @ r) = map_option (\<lambda>(t, r). (c # t, r)) (unquote r)"
proof -
  have esc: "unquote (CHR 0x5C # e @ r) = map_option (\<lambda>(t, r). (c # t, r)) (unquote r)"
    if "unescape (e @ r) = Some ([c], r)" for e
    using that by (simp add: unquote_Cons del: rune_width.simps)
  show ?thesis
  proof (cases "json_safe c")
    case True
    then have "c \<noteq> CHR 0x22" "c \<noteq> CHR 0x5C" "\<not> code_of c < 0x20" by (auto simp: json_safe_def)
    moreover have "rune_width (c # r) = 1" using assms by simp
    ultimately show ?thesis using True by (simp add: json_char_def unquote_Cons del: rune_width.simps)
  next
    case unsafe: False
    show ?thesis
    proof (cases "code_of c \<in> {34, 92, 8, 9, 10, 12, 13}")
      case True
      then obtain e where "json_char c = CHR 0x5C # e" "unescape (e @ r) = Some ([c], r)"
        using unsafe by (auto simp: json_char_def special_codes unescape_def)
      then show ?thesis using esc by simp
    next
      case False
      then have "json_char c = CHR 0x5C # ''u00'' @ [hex_char (code_of c div 16), hex_char (code_of c mod 16)]"
        using unsafe by (simp add: json_char_def Let_def)
      then show ?thesis using unescape_u00 [OF assms, of r]
          esc [of "''u00'' @ [hex_char (code_of c div 16), hex_char (code_of c mod 16)]"] by simp
    qed
  qed
qed

lemma unquote_rune:
  assumes "0 < rune_width s" "128 \<le> code_of (hd s)"
  shows "unquote (take (rune_width s) s @ r) = map_option (\<lambda>(t, r). (take (rune_width s) s @ t, r)) (unquote r)"
proof -
  obtain c cs where s: "s = c # cs" using assms(1) by (cases s) auto
  obtain k where k: "rune_width s = Suc k" using assms(1) by (cases "rune_width s") auto
  have w: "rune_width (take (rune_width s) s @ r) = rune_width s"
    using rune_width_append [of "take (rune_width s) s" r] rune_width_take [of s] assms(1) by simp
  have "take (rune_width s) s @ r = c # take k cs @ r" using s k by simp
  moreover have "drop (rune_width s) (take (rune_width s) s @ r) = r"
    "take (rune_width s) (take (rune_width s) s @ r) = take (rune_width s) s"
    using rune_width_le [of s] by simp_all
  moreover have "c \<noteq> CHR 0x22" "c \<noteq> CHR 0x5C" "\<not> code_of c < 0x20" using assms(2) s by auto
  ultimately show ?thesis using w assms(1) unquote_Cons [of c "take k cs @ r"] by simp
qed

lemma unescape_separators:
  "unescape (''u2028'' @ r) = Some ([CHR 0xE2, CHR 0x80, CHR 0xA8], r)"
  "unescape (''u2029'' @ r) = Some ([CHR 0xE2, CHR 0x80, CHR 0xA9], r)"
  by (simp_all add: unescape_def hex4_def hex_value_def utf8_EncodeRune_def char_of_eq_iff)

lemma rune_width_sep:
  "rune_width ([CHR 0xE2, CHR 0x80, CHR 0xA8] @ r) = 3" "rune_width ([CHR 0xE2, CHR 0x80, CHR 0xA9] @ r) = 3"
  by (simp_all add: second_ok_def continuation_def)

lemma unquote_json_chars:
  "ValidString s \<Longrightarrow> unquote (json_chars s @ CHR 0x22 # r) = Some (s, r)"
proof (induction s rule: json_chars.induct)
  case (1 s)
  show ?case
  proof (cases s)
    case Nil
    then show ?thesis by (simp add: unquote_Cons)
  next
    case (Cons c rest)
    have w: "0 < rune_width s" and v: "ValidString (drop (rune_width s) s)"
      using "1.prems" Cons by (auto simp: ValidString.simps [of "c # rest"] split: if_splits)
    show ?thesis
    proof (cases "code_of c < 128")
      case True
      then have "rune_width s = 1" using Cons by simp
      then have "ValidString rest" using v Cons by simp
      then show ?thesis using "1.IH"(1) [OF Cons True] unquote_json_char [OF True] Cons True
        by (simp add: json_chars_Cons)
    next
      case big: False
      show ?thesis
      proof (cases "take 3 s = [CHR 0xE2, CHR 0x80, CHR 0xA8] \<or> take 3 s = [CHR 0xE2, CHR 0x80, CHR 0xA9]")
        case True
        have s: "s = take 3 s @ drop 3 s" by simp
        then have "rune_width s = 3" using True by (metis rune_width_sep)
        then have "ValidString (drop 3 s)" using v by simp
        then have ih: "unquote (json_chars (drop 3 s) @ CHR 0x22 # r) = Some (drop 3 s, r)"
          using "1.IH"(3,4) [OF Cons big] w True by auto
        show ?thesis using True
        proof
          assume t: "take 3 s = [CHR 0xE2, CHR 0x80, CHR 0xA8]"
          then show ?thesis
            using ih s w big Cons unescape_separators(1) [of "json_chars (drop 3 s) @ CHR 0x22 # r"]
            by (simp add: json_chars_Cons unquote_Cons del: rune_width.simps)
        next
          assume t: "take 3 s = [CHR 0xE2, CHR 0x80, CHR 0xA9]"
          then show ?thesis
            using ih s w big Cons unescape_separators(2) [of "json_chars (drop 3 s) @ CHR 0x22 # r"]
            by (simp add: json_chars_Cons unquote_Cons del: rune_width.simps)
        qed
      next
        case False
        then have "json_chars s = take (rune_width s) s @ json_chars (drop (rune_width s) s)"
          using Cons big w by (simp only: json_chars_Cons) auto
        moreover have "unquote (json_chars (drop (rune_width s) s) @ CHR 0x22 # r) = Some (drop (rune_width s) s, r)"
          using "1.IH"(5) [OF Cons big] w False v by auto
        ultimately show ?thesis using unquote_rune [OF w] big Cons by simp
      qed
    qed
  qed
qed

section \<open>Values and their text\<close>

text \<open>A JSON value; a number is its literal, an object keeps its members in order, duplicates included.\<close>

datatype json =
    JNull | JBool bool | JNumber string | JString string | JArray "json list" | JObject "(string \<times> json) list"

subsection \<open>Tokens\<close>

definition is_space :: "char \<Rightarrow> bool" where
  "is_space c \<longleftrightarrow> c \<in> {CHR '' '', CHR 0x09, CHR 0x0A, CHR 0x0D}"

definition scan_int :: "string \<Rightarrow> (string \<times> string) option" where
  "scan_int s =
     (case s of
        [] \<Rightarrow> None
      | c # rest \<Rightarrow>
          if c = CHR ''0'' then Some ([c], rest)
          else if is_digit c then Some (takeWhile is_digit s, dropWhile is_digit s)
          else None)"

definition scan_fraction :: "string \<Rightarrow> (string \<times> string) option" where
  "scan_fraction s =
     (case s of
        c # rest \<Rightarrow>
          if c = CHR ''.'' then
            (if takeWhile is_digit rest = [] then None else Some (c # takeWhile is_digit rest, dropWhile is_digit rest))
          else Some ([], s)
      | [] \<Rightarrow> Some ([], []))"

definition scan_exponent :: "string \<Rightarrow> (string \<times> string) option" where
  "scan_exponent s =
     (case s of
        c # rest \<Rightarrow>
          if c \<in> {CHR ''e'', CHR ''E''} then
            (let sign = (case rest of d # _ \<Rightarrow> if d \<in> {CHR ''+'', CHR ''-''} then [d] else [] | [] \<Rightarrow> []);
                 rest = drop (length sign) rest
             in if takeWhile is_digit rest = [] then None
                else Some (c # sign @ takeWhile is_digit rest, dropWhile is_digit rest))
          else Some ([], s)
      | [] \<Rightarrow> Some ([], []))"

definition scan_number :: "string \<Rightarrow> (string \<times> string) option" where
  "scan_number s =
     (let sign = (if take 1 s = ''-'' then ''-'' else [])
      in Option.bind (scan_int (drop (length sign) s)) (\<lambda>(i, s).
         Option.bind (scan_fraction s) (\<lambda>(f, s).
         Option.bind (scan_exponent s) (\<lambda>(e, s). Some (sign @ i @ f @ e, s)))))"

datatype token =
    TScalar json | TOpenArray | TCloseArray | TOpenObject | TCloseObject | TColon | TComma

definition strip :: "string \<Rightarrow> string \<Rightarrow> string option" where
  "strip p s = (if take (length p) s = p then Some (drop (length p) s) else None)"

definition next_token :: "string \<Rightarrow> (token \<times> string) option" where
  "next_token s =
     (case dropWhile is_space s of
        [] \<Rightarrow> None
      | c # rest \<Rightarrow>
          if c = CHR ''['' then Some (TOpenArray, rest)
          else if c = CHR '']'' then Some (TCloseArray, rest)
          else if c = CHR ''{'' then Some (TOpenObject, rest)
          else if c = CHR ''}'' then Some (TCloseObject, rest)
          else if c = CHR '':'' then Some (TColon, rest)
          else if c = CHR '','' then Some (TComma, rest)
          else if c = CHR 0x22 then map_option (\<lambda>(t, r). (TScalar (JString t), r)) (unquote rest)
          else if c = CHR ''n'' then map_option (Pair (TScalar JNull)) (strip ''ull'' rest)
          else if c = CHR ''t'' then map_option (Pair (TScalar (JBool True))) (strip ''rue'' rest)
          else if c = CHR ''f'' then map_option (Pair (TScalar (JBool False))) (strip ''alse'' rest)
          else map_option (\<lambda>(t, r). (TScalar (JNumber t), r)) (scan_number (c # rest)))"

lemma scan_int_shorter: "scan_int s = Some (t, r) \<Longrightarrow> length r < length s"
  by (auto simp: scan_int_def split: list.splits if_splits intro: le_imp_less_Suc length_dropWhile_le)

lemma scan_fraction_shorter: "scan_fraction s = Some (t, r) \<Longrightarrow> length r \<le> length s"
  by (auto simp: scan_fraction_def split: list.splits if_splits intro: le_SucI length_dropWhile_le)

lemma scan_exponent_shorter: "scan_exponent s = Some (t, r) \<Longrightarrow> length r \<le> length s"
  by (auto simp: scan_exponent_def Let_def split: list.splits if_splits
      intro: le_SucI [OF length_dropWhile_le] le_SucI [OF le_SucI, OF length_dropWhile_le])

lemma scan_number_shorter:
  assumes "scan_number s = Some (t, r)"
  shows "length r < length s"
proof -
  define k where "k = length (if take 1 s = ''-'' then ''-'' else [])"
  obtain i a f b e where "scan_int (drop k s) = Some (i, a)" "scan_fraction a = Some (f, b)" "scan_exponent b = Some (e, r)"
    using assms unfolding scan_number_def Let_def k_def by (auto simp: bind_eq_Some_conv)
  from scan_int_shorter [OF this(1)] scan_fraction_shorter [OF this(2)] scan_exponent_shorter [OF this(3)]
  show ?thesis by simp
qed

lemma strip_shorter: "strip p s = Some r \<Longrightarrow> length r \<le> length s"
  by (auto simp: strip_def split: if_splits)

lemma next_token_shorter:
  assumes "next_token s = Some (tok, r)"
  shows "length r < length s"
proof -
  obtain c rest where s: "dropWhile is_space s = c # rest"
    using assms by (cases "dropWhile is_space s") (auto simp: next_token_def)
  have "length r < length (c # rest)"
    using assms s by (auto simp: next_token_def split: if_splits dest: unquote_shorter strip_shorter scan_number_shorter)
  then show ?thesis using s length_dropWhile_le [of is_space s] by simp
qed

subsection \<open>The scanner\<close>

text \<open>
  The scanner with its stack of open containers. A frame holds what has been read of a container, in
  reverse, and for an object the name of the member whose value is being read.
\<close>

datatype frame = FArray "json list" | FObject "(string \<times> json) list" string

datatype mode = ExpectValue | ExpectValueOrClose | ExpectKey | ExpectKeyOrClose | ExpectColon | ExpectCommaOrClose

datatype outcome = Fail | Continue mode "frame list" | Done json

definition maxNestingDepth :: nat where "maxNestingDepth = 10000"

fun complete :: "json \<Rightarrow> frame list \<Rightarrow> outcome" where
  "complete j [] = Done j"
| "complete j (FArray js # fs) = Continue ExpectCommaOrClose (FArray (j # js) # fs)"
| "complete j (FObject kvs k # fs) = Continue ExpectCommaOrClose (FObject ((k, j) # kvs) [] # fs)"

definition push :: "frame \<Rightarrow> mode \<Rightarrow> frame list \<Rightarrow> outcome" where
  "push f m fs = (if length fs < maxNestingDepth then Continue m (f # fs) else Fail)"

fun begin_value :: "token \<Rightarrow> frame list \<Rightarrow> outcome" where
  "begin_value (TScalar j) fs = complete j fs"
| "begin_value TOpenArray fs = push (FArray []) ExpectValueOrClose fs"
| "begin_value TOpenObject fs = push (FObject [] []) ExpectKeyOrClose fs"
| "begin_value _ fs = Fail"

fun begin_key :: "token \<Rightarrow> frame list \<Rightarrow> outcome" where
  "begin_key (TScalar (JString k)) (FObject kvs _ # fs) = Continue ExpectColon (FObject kvs k # fs)"
| "begin_key _ fs = Fail"

fun scan_step :: "mode \<Rightarrow> frame list \<Rightarrow> token \<Rightarrow> outcome" where
  "scan_step ExpectValue fs tok = begin_value tok fs"
| "scan_step ExpectValueOrClose fs tok =
     (if tok = TCloseArray then complete (JArray []) (tl fs) else begin_value tok fs)"
| "scan_step ExpectKey fs tok = begin_key tok fs"
| "scan_step ExpectKeyOrClose fs tok =
     (if tok = TCloseObject then complete (JObject []) (tl fs) else begin_key tok fs)"
| "scan_step ExpectColon fs tok = (if tok = TColon then Continue ExpectValue fs else Fail)"
| "scan_step ExpectCommaOrClose (FArray js # fs) tok =
     (if tok = TComma then Continue ExpectValue (FArray js # fs)
      else if tok = TCloseArray then complete (JArray (rev js)) fs
      else Fail)"
| "scan_step ExpectCommaOrClose (FObject kvs k # fs) tok =
     (if tok = TComma then Continue ExpectKey (FObject kvs k # fs)
      else if tok = TCloseObject then complete (JObject (rev kvs)) fs
      else Fail)"
| "scan_step ExpectCommaOrClose [] tok = Fail"

function scan :: "mode \<Rightarrow> frame list \<Rightarrow> string \<Rightarrow> (json \<times> string) option" where
  "scan m fs s =
     (case next_token s of
        None \<Rightarrow> None
      | Some (tok, r) \<Rightarrow>
          (case scan_step m fs tok of
             Fail \<Rightarrow> None
           | Continue m fs \<Rightarrow> scan m fs r
           | Done j \<Rightarrow> Some (j, r)))"
  by pat_completeness auto

termination
  by (relation "measure (\<lambda>(m, fs, s). length s)") (auto dest: next_token_shorter)

declare scan.simps [simp del]

text \<open>The first value of a stream, as \<open>Decoder.Decode\<close> reads it, and the value of a whole input, as \<open>Unmarshal\<close> does.\<close>

definition json_value :: "string \<Rightarrow> (json \<times> string) option" where
  "json_value s = scan ExpectValue [] s"

definition json_parse :: "string \<Rightarrow> json option" where
  "json_parse s = Option.bind (json_value s) (\<lambda>(j, r). if list_all is_space r then Some j else None)"

subsection \<open>The printer\<close>

fun join :: "string list \<Rightarrow> string" where
  "join [] = []"
| "join [x] = x"
| "join (x # y # rest) = x @ '','' @ join (y # rest)"

fun json_print :: "json \<Rightarrow> string" where
  "json_print JNull = ''null''"
| "json_print (JBool b) = (if b then ''true'' else ''false'')"
| "json_print (JNumber t) = t"
| "json_print (JString s) = json_string s"
| "json_print (JArray js) = ''['' @ join (map json_print js) @ '']''"
| "json_print (JObject kvs) = ''{'' @ join (map (\<lambda>(k, v). json_string k @ '':'' @ json_print v) kvs) @ ''}''"

subsection \<open>What is printed is read back\<close>

definition int_literal :: "string \<Rightarrow> bool" where
  "int_literal t \<longleftrightarrow>
     (let d = (if take 1 t = ''-'' then tl t else t)
      in d \<noteq> [] \<and> list_all is_digit d \<and> (d = ''0'' \<or> hd d \<noteq> CHR ''0''))"

fun json_ok :: "json \<Rightarrow> bool" where
  "json_ok (JNumber t) = int_literal t"
| "json_ok (JString s) = ValidString s"
| "json_ok (JArray js) = list_all json_ok js"
| "json_ok (JObject kvs) = list_all (\<lambda>(k, v). ValidString k \<and> json_ok v) kvs"
| "json_ok _ = True"

fun depth :: "json \<Rightarrow> nat" where
  "depth (JArray js) = Suc (foldr (\<lambda>j. max (depth j)) js 0)"
| "depth (JObject kvs) = Suc (foldr (\<lambda>(k, v). max (depth v)) kvs 0)"
| "depth _ = 0"

definition delimiter :: "string \<Rightarrow> bool" where
  "delimiter r \<longleftrightarrow> r = [] \<or> hd r \<in> {CHR '','', CHR '']'', CHR ''}''}"

lemma delimiter_simps [simp]:
  "delimiter []" "delimiter (CHR '','' # r)" "delimiter (CHR '']'' # r)" "delimiter (CHR ''}'' # r)"
  by (simp_all add: delimiter_def)

lemma next_token_punctuation [simp]:
  "next_token (CHR ''['' # r) = Some (TOpenArray, r)" "next_token (CHR '']'' # r) = Some (TCloseArray, r)"
  "next_token (CHR ''{'' # r) = Some (TOpenObject, r)" "next_token (CHR ''}'' # r) = Some (TCloseObject, r)"
  "next_token (CHR '':'' # r) = Some (TColon, r)" "next_token (CHR '','' # r) = Some (TComma, r)"
  by (simp_all add: next_token_def is_space_def)

lemma next_token_words [simp]:
  "next_token (''null'' @ r) = Some (TScalar JNull, r)"
  "next_token (''true'' @ r) = Some (TScalar (JBool True), r)"
  "next_token (''false'' @ r) = Some (TScalar (JBool False), r)"
  by (simp_all add: next_token_def is_space_def strip_def)

lemma next_token_string [simp]:
  "ValidString s \<Longrightarrow> next_token (json_string s @ r) = Some (TScalar (JString s), r)"
  using unquote_json_chars [of s r] by (simp add: next_token_def is_space_def json_string_def)

lemma scan_int_digits:
  assumes "d \<noteq> []" "list_all is_digit d" "d = ''0'' \<or> hd d \<noteq> CHR ''0''" "delimiter r"
  shows "scan_int (d @ r) = Some (d, r)"
proof (cases "d = ''0''")
  case False
  have "takeWhile is_digit (d @ r) = d" "dropWhile is_digit (d @ r) = r"
    using assms(2,4) by (cases r; auto simp: list_all_iff takeWhile_append dropWhile_append delimiter_def is_digit_def)+
  then show ?thesis using assms False by (cases d) (auto simp: scan_int_def)
qed (simp add: scan_int_def)

lemma scan_number_literal:
  assumes "int_literal t" "delimiter r"
  shows "scan_number (t @ r) = Some (t, r)"
proof -
  have tail: "scan_fraction r = Some ([], r)" "scan_exponent r = Some ([], r)"
    using assms(2) by (auto simp: scan_fraction_def scan_exponent_def delimiter_def split: list.splits)
  show ?thesis
  proof (cases "take 1 t = ''-''")
    case True
    then obtain d where t: "t = CHR ''-'' # d" by (cases t) auto
    then have "scan_int (d @ r) = Some (d, r)" using assms scan_int_digits [of d r] by (simp add: int_literal_def)
    then show ?thesis using tail t by (simp add: scan_number_def)
  next
    case False
    moreover have "t \<noteq> []" using assms(1) False by (auto simp: int_literal_def)
    ultimately have "take 1 (t @ r) \<noteq> ''-''" by (cases t) auto
    moreover have "scan_int (t @ r) = Some (t, r)" using assms False scan_int_digits [of t r] by (auto simp: int_literal_def)
    ultimately show ?thesis using tail by (simp add: scan_number_def)
  qed
qed

lemma next_token_number [simp]:
  assumes "int_literal t" "delimiter r"
  shows "next_token (t @ r) = Some (TScalar (JNumber t), r)"
proof -
  obtain c cs where t: "t = c # cs" using assms(1) by (cases t) (auto simp: int_literal_def)
  then have "is_digit c \<or> c = CHR ''-''"
    using assms(1) by (auto simp: int_literal_def split: if_splits)
  then have "\<not> is_space c" "c \<notin> {CHR ''['', CHR '']'', CHR ''{'', CHR ''}'', CHR '':'', CHR '','', CHR 0x22, CHR ''n'', CHR ''t'', CHR ''f''}"
    by (auto simp: is_space_def is_digit_def)
  then show ?thesis using scan_number_literal [OF assms] t by (simp add: next_token_def)
qed

definition resume :: "outcome \<Rightarrow> string \<Rightarrow> (json \<times> string) option" where
  "resume x r = (case x of Fail \<Rightarrow> None | Continue m fs \<Rightarrow> scan m fs r | Done j \<Rightarrow> Some (j, r))"

lemma resume_simps [simp]:
  "resume (Continue m fs) r = scan m fs r" "resume (Done j) r = Some (j, r)" "resume Fail r = None"
  by (simp_all add: resume_def)

lemma scan_token: "next_token s = Some (tok, r) \<Longrightarrow> scan m fs s = resume (scan_step m fs tok) r"
  by (subst scan.simps) (simp add: resume_def)

definition reads :: "json \<Rightarrow> frame list \<Rightarrow> bool" where
  "reads j fs \<longleftrightarrow> (\<forall>m r. m \<in> {ExpectValue, ExpectValueOrClose} \<longrightarrow> delimiter r
     \<longrightarrow> scan m fs (json_print j @ r) = resume (complete j fs) r)"

lemma readsD: "reads j fs \<Longrightarrow> m \<in> {ExpectValue, ExpectValueOrClose} \<Longrightarrow> delimiter r
    \<Longrightarrow> scan m fs (json_print j @ r) = resume (complete j fs) r"
  unfolding reads_def by blast

lemma reads_elements:
  assumes "js \<noteq> []" "\<And>j acc. j \<in> set js \<Longrightarrow> reads j (FArray acc # fs)" "m \<in> {ExpectValue, ExpectValueOrClose}"
  shows "scan m (FArray acc # fs) (join (map json_print js) @ CHR '']'' # r)
    = resume (complete (JArray (rev acc @ js)) fs) r"
  using assms
proof (induction js arbitrary: acc m rule: induct_list012)
  case (2 j)
  have "scan m (FArray acc # fs) (json_print j @ CHR '']'' # r) = scan ExpectCommaOrClose (FArray (j # acc) # fs) (CHR '']'' # r)"
    using readsD [OF 2(2) 2(3), of j "CHR '']'' # r" acc] by simp
  then show ?case by (simp add: scan_token)
next
  case (3 j k js)
  let ?rest = "join (map json_print (k # js)) @ CHR '']'' # r"
  have "scan m (FArray acc # fs) (json_print j @ CHR '','' # ?rest)
      = scan ExpectCommaOrClose (FArray (j # acc) # fs) (CHR '','' # ?rest)"
    using readsD [OF 3(4) 3(5), of j "CHR '','' # ?rest" acc] by simp
  also have "\<dots> = scan ExpectValue (FArray (j # acc) # fs) ?rest"
    using scan_token [OF next_token_punctuation(6)] by simp
  also have "\<dots> = resume (complete (JArray (rev (j # acc) @ k # js)) fs) r"
    by (rule 3(2)) (use 3(4) in auto)
  finally show ?case by simp
qed simp

lemma reads_member:
  assumes "ValidString k" "reads v (FObject acc k # fs)" "m \<in> {ExpectKey, ExpectKeyOrClose}" "delimiter r"
  shows "scan m (FObject acc x # fs) (json_string k @ CHR '':'' # json_print v @ r)
    = scan ExpectCommaOrClose (FObject ((k, v) # acc) [] # fs) r"
proof -
  have "scan m (FObject acc x # fs) (json_string k @ CHR '':'' # json_print v @ r)
      = scan ExpectColon (FObject acc k # fs) (CHR '':'' # json_print v @ r)"
    using scan_token [OF next_token_string [OF assms(1)]] assms(3) by auto
  also have "\<dots> = scan ExpectValue (FObject acc k # fs) (json_print v @ r)"
    using scan_token [OF next_token_punctuation(5)] by simp
  also have "\<dots> = scan ExpectCommaOrClose (FObject ((k, v) # acc) [] # fs) r"
    using readsD [OF assms(2) _ assms(4), of ExpectValue] by simp
  finally show ?thesis .
qed

lemma reads_members:
  assumes "kvs \<noteq> []" "\<And>k v acc. (k, v) \<in> set kvs \<Longrightarrow> ValidString k \<and> reads v (FObject acc k # fs)"
    "m \<in> {ExpectKey, ExpectKeyOrClose}"
  shows "scan m (FObject acc x # fs) (join (map (\<lambda>(k, v). json_string k @ CHR '':'' # json_print v) kvs) @ CHR ''}'' # r)
    = resume (complete (JObject (rev acc @ kvs)) fs) r"
  using assms
proof (induction kvs arbitrary: acc x m rule: induct_list012)
  case (2 kv)
  obtain k v where kv: "kv = (k, v)" by (cases kv)
  have "scan m (FObject acc x # fs) (json_string k @ CHR '':'' # json_print v @ CHR ''}'' # r)
      = scan ExpectCommaOrClose (FObject ((k, v) # acc) [] # fs) (CHR ''}'' # r)"
    using reads_member [of k v acc fs m "CHR ''}'' # r" x] 2(2) [of k v acc] 2(3) kv by simp
  then show ?case using kv by (simp add: scan_token)
next
  case (3 kv kw kvs)
  obtain k v where kv: "kv = (k, v)" by (cases kv)
  let ?rest = "join (map (\<lambda>(k, v). json_string k @ CHR '':'' # json_print v) (kw # kvs)) @ CHR ''}'' # r"
  have "scan m (FObject acc x # fs) (json_string k @ CHR '':'' # json_print v @ CHR '','' # ?rest)
      = scan ExpectCommaOrClose (FObject ((k, v) # acc) [] # fs) (CHR '','' # ?rest)"
    using reads_member [of k v acc fs m "CHR '','' # ?rest" x] 3(4) [of k v acc] 3(5) kv by simp
  also have "\<dots> = scan ExpectKey (FObject ((k, v) # acc) [] # fs) ?rest"
    using scan_token [OF next_token_punctuation(6)] by simp
  also have "\<dots> = resume (complete (JObject (rev ((k, v) # acc) @ kw # kvs)) fs) r"
    by (rule 3(2)) (use 3(4) in auto)
  finally show ?case using kv by simp
qed simp

lemma reads_json:
  "json_ok j \<Longrightarrow> depth j + length fs \<le> maxNestingDepth \<Longrightarrow> reads j fs"
proof (induction j arbitrary: fs)
  case (JArray js)
  have el: "reads j (FArray acc # fs)" if "j \<in> set js" for j acc
  proof (rule JArray.IH [OF that])
    have "depth j \<le> foldr (\<lambda>j. max (depth j)) js 0" using that by (induction js) auto
    then show "depth j + length (FArray acc # fs) \<le> maxNestingDepth" using JArray.prems(2) by simp
  qed (use that JArray.prems(1) in \<open>auto simp: list_all_iff\<close>)
  have "length fs < maxNestingDepth" using JArray.prems(2) by simp
  then have "scan m fs (json_print (JArray js) @ r)
      = scan ExpectValueOrClose (FArray [] # fs) (join (map json_print js) @ CHR '']'' # r)"
    if "m \<in> {ExpectValue, ExpectValueOrClose}" for m r
    using that by (auto simp: scan_token push_def)
  moreover have "scan ExpectValueOrClose (FArray [] # fs) (join (map json_print js) @ CHR '']'' # r)
      = resume (complete (JArray js) fs) r" for r
    using reads_elements [OF _ el, where m = ExpectValueOrClose and acc = "[]"]
    by (cases "js = []") (simp_all add: scan_token)
  ultimately show ?case by (simp only: reads_def) blast
next
  case (JObject kvs)
  have el: "ValidString k \<and> reads v (FObject acc k # fs)" if "(k, v) \<in> set kvs" for k v acc
  proof -
    have "depth v \<le> foldr (\<lambda>(k, v). max (depth v)) kvs 0" using that by (induction kvs) auto
    then have "depth v + length (FObject acc k # fs) \<le> maxNestingDepth" using JObject.prems(2) by simp
    moreover have "ValidString k" "json_ok v" using that JObject.prems(1) by (auto simp: list_all_iff)
    ultimately show ?thesis using JObject.IH [OF that, of v] by simp
  qed
  have "length fs < maxNestingDepth" using JObject.prems(2) by simp
  then have "scan m fs (json_print (JObject kvs) @ r)
      = scan ExpectKeyOrClose (FObject [] [] # fs)
          (join (map (\<lambda>(k, v). json_string k @ CHR '':'' # json_print v) kvs) @ CHR ''}'' # r)"
    if "m \<in> {ExpectValue, ExpectValueOrClose}" for m r
    using that by (auto simp: scan_token push_def)
  moreover have "scan ExpectKeyOrClose (FObject [] [] # fs)
          (join (map (\<lambda>(k, v). json_string k @ CHR '':'' # json_print v) kvs) @ CHR ''}'' # r)
      = resume (complete (JObject kvs) fs) r" for r
    using reads_members [OF _ el, where m = ExpectKeyOrClose and acc = "[]" and x = "[]"]
    by (cases "kvs = []") (simp_all add: scan_token)
  ultimately show ?case by (simp only: reads_def) blast
qed (auto simp: reads_def scan_token simp del: append_Cons)

lemma json_value_print:
  "json_ok j \<Longrightarrow> depth j \<le> maxNestingDepth \<Longrightarrow> delimiter r \<Longrightarrow> json_value (json_print j @ r) = Some (j, r)"
  using readsD [OF reads_json [of j "[]"], of ExpectValue r] by (simp add: json_value_def)

theorem json_parse_print:
  "json_ok j \<Longrightarrow> depth j \<le> maxNestingDepth \<Longrightarrow> json_parse (json_print j) = Some j"
  using json_value_print [of j "[]"] by (simp add: json_parse_def)

subsection \<open>The printed text\<close>

text \<open>A printed value is valid UTF-8 and has no control character, so it fits on a line.\<close>

definition plain :: "string \<Rightarrow> bool" where
  "plain s \<longleftrightarrow> (\<forall>c \<in> set s. 0x20 \<le> code_of c) \<and> (\<forall>r. ValidString (s @ r) = ValidString r)"

lemma plain_simps [simp]: "plain []" "plain s \<Longrightarrow> plain t \<Longrightarrow> plain (s @ t)"
  by (auto simp: plain_def)

lemma plain_ascii: "0x20 \<le> code_of c \<Longrightarrow> code_of c < 128 \<Longrightarrow> plain s \<Longrightarrow> plain (c # s)"
  by (auto simp: plain_def ValidString.simps [of "c # r" for r])

lemma plain_chars: "list_all (\<lambda>c. 0x20 \<le> code_of c \<and> code_of c < 128) s \<Longrightarrow> plain s"
  by (induction s) (auto intro: plain_ascii)

lemma rune_width_zero:
  assumes "128 \<le> code_of c" "rune_width (c # s) \<noteq> 0"
  shows "(\<exists>a t. s = a # t \<and> continuation a \<and> rune_width (c # s) = 2)
    \<or> (\<exists>a b t. s = a # b # t \<and> second_ok (code_of c) a \<and> continuation b \<and> rune_width (c # s) = 3)
    \<or> (\<exists>a b d t. s = a # b # d # t \<and> second_ok (code_of c) a \<and> continuation b \<and> continuation d
         \<and> rune_width (c # s) = 4)"
proof -
  consider "s = []" | a where "s = [a]" | a b where "s = [a, b]" | a b d t where "s = a # b # d # t"
    by (cases s; cases "tl s"; cases "tl (tl s)") auto
  then show ?thesis
    using assms by cases (simp_all add: Let_def split: if_splits)
qed

lemma rune_bytes:
  assumes "128 \<le> code_of c" "x \<in> set (take (rune_width (c # s)) (c # s))"
  shows "0x20 \<le> code_of x"
proof -
  have k: "continuation y \<Longrightarrow> 0x20 \<le> code_of y" "second_ok n y \<Longrightarrow> 0x20 \<le> code_of y" for n y
    by (auto simp: continuation_def second_ok_def split: if_splits)
  have "rune_width (c # s) \<noteq> 0" using assms(2) by (metis empty_iff list.set(1) take0 zero_less_iff_neq_zero)
  from rune_width_zero [OF assms(1) this] show ?thesis
    using assms k by (elim disjE exE conjE) (auto simp del: rune_width.simps)
qed

lemma plain_json_char: "code_of c < 128 \<Longrightarrow> plain (json_char c)"
proof (rule plain_chars)
  assume "code_of c < 128"
  moreover have "0x20 \<le> code_of (hex_char k) \<and> code_of (hex_char k) < 128" if "k < 16" for k
    using that by (auto simp: hex_char_def)
  moreover have "code_of c div 16 < 16" "code_of c mod 16 < 16" using calculation(1) by simp_all
  ultimately show "list_all (\<lambda>c. 0x20 \<le> code_of c \<and> code_of c < 128) (json_char c)"
    by (simp add: json_char_def json_safe_def Let_def)
qed

lemma plain_json_chars: "plain (json_chars s)"
proof (induction s rule: json_chars.induct)
  case (1 s)
  show ?case
  proof (cases s)
    case (Cons c rest)
    show ?thesis
    proof (cases "code_of c < 128")
      case True
      then show ?thesis using "1.IH"(1) [OF Cons True] plain_json_char [OF True] Cons by (simp add: json_chars_Cons)
    next
      case False
      have esc: "plain (CHR 0x5C # e @ t)" if "list_all (\<lambda>c. 0x20 \<le> code_of c \<and> code_of c < 128) e" "plain t" for e t
        using plain_simps(2) [OF plain_chars [of "CHR 0x5C # e"]] that by simp
      consider "rune_width s = 0" | "0 < rune_width s" "take 3 s \<in> {[CHR 0xE2, CHR 0x80, CHR 0xA8], [CHR 0xE2, CHR 0x80, CHR 0xA9]}"
        | "0 < rune_width s" "take 3 s \<notin> {[CHR 0xE2, CHR 0x80, CHR 0xA8], [CHR 0xE2, CHR 0x80, CHR 0xA9]}" by blast
      then show ?thesis
      proof cases
        case 1
        then have "json_chars s = CHR 0x5C # ''ufffd'' @ json_chars rest" using Cons False by (simp only: json_chars_Cons) simp
        then show ?thesis using esc [of "''ufffd''"] "1.IH"(2) [OF Cons False 1] by simp
      next
        case 2
        then have "json_chars s \<in> {CHR 0x5C # ''u2028'' @ json_chars (drop 3 s), CHR 0x5C # ''u2029'' @ json_chars (drop 3 s)}"
          using Cons False by (auto simp only: json_chars_Cons) auto
        moreover have "plain (json_chars (drop 3 s))" using "1.IH"(3,4) [OF Cons False] 2 by auto
        ultimately show ?thesis using esc [of "''u2028''"] esc [of "''u2029''"] by auto
      next
        case 3
        then have "json_chars s = take (rune_width s) s @ json_chars (drop (rune_width s) s)"
          using Cons False by (simp only: json_chars_Cons) auto
        moreover have "plain (json_chars (drop (rune_width s) s))" using "1.IH"(5) [OF Cons False] 3 by auto
        moreover have "plain (take (rune_width s) s)"
          using rune_bytes [of c _ rest] False Cons ValidString_rune [OF 3(1)] by (auto simp: plain_def)
        ultimately show ?thesis by simp
      qed
    qed
  qed simp
qed

lemma plain_json_string [simp]: "plain (json_string s)"
  using plain_simps(2) [OF plain_json_chars plain_chars [of "[CHR 0x22]"]]
  by (auto simp: json_string_def intro!: plain_ascii)

lemma plain_join: "(\<And>x. x \<in> set xs \<Longrightarrow> plain x) \<Longrightarrow> plain (join xs)"
  by (induction xs rule: join.induct) (auto intro!: plain_ascii plain_simps(2))

lemma plain_json_print: "json_ok j \<Longrightarrow> plain (json_print j)"
proof (induction j)
  case (JNumber t)
  then show ?case
    by (intro plain_chars, cases t) (auto simp: int_literal_def is_digit_def list_all_iff Let_def split: if_splits)
next
  case (JArray js)
  then show ?case by (auto simp: list_all_iff intro!: plain_ascii plain_join plain_simps(2))
next
  case (JObject kvs)
  then have "plain (json_string k @ CHR '':'' # json_print v)" if "(k, v) \<in> set kvs" for k v
    using that by (intro plain_simps(2) plain_ascii plain_json_string) (auto simp: list_all_iff)
  then have "plain (join (map (\<lambda>(k, v). json_string k @ CHR '':'' # json_print v) kvs))"
    by (intro plain_join) auto
  then show ?case by (auto intro!: plain_ascii plain_simps(2))
qed (auto intro!: plain_chars)

lemma plain_line: "plain s \<Longrightarrow> CHR 0x0A \<notin> set s \<and> ValidString s"
proof -
  assume p: "plain s"
  then have "ValidString (s @ []) = ValidString []" unfolding plain_def by blast
  moreover have "CHR 0x0A \<notin> set s" using p by (auto simp: plain_def dest!: bspec)
  ultimately show ?thesis by simp
qed

section \<open>Text that needs no escapes\<close>

lemma safe_chars: "list_all json_safe s \<Longrightarrow> json_chars s = s \<and> ValidString s"
proof (induction s)
  case (Cons c s)
  then have "code_of c < 128" "json_char c = [c]" by (auto simp: json_safe_def json_char_def Let_def)
  then show ?case using Cons by (simp add: json_chars_Cons ValidString.simps [of "c # s"])
qed simp

lemma length_json_string: "list_all json_safe s \<Longrightarrow> length (json_string s) = length s + 2"
  using safe_chars by (simp add: json_string_def)

end
