(* ===== verification/Go_Reflect.thy ===== *)
theory Go_Reflect
  imports Go_Json
begin

text \<open>
  The reflection-based half of \<open>encoding/json\<close>: \<open>Marshal\<close>, \<open>Unmarshal\<close> and \<open>Decoder.Decode\<close> for the Go
  types the sources encode. A type is a \<open>shape\<close>, a value of it a \<open>gval\<close>. The decoder stores into an
  existing value, as Go does: a member that occurs twice is merged into what the first occurrence
  left, a slice keeps the elements of its backing array beyond its length, \<open>null\<close> resets pointers and
  slices and leaves everything else alone, names match exactly or by case folding. Decoding errors
  are not told apart: every caller discards the value on any of them.
\<close>

section \<open>Types and values\<close>

text \<open>A struct type lists its fields: JSON name, \<open>omitempty\<close>, type. \<open>ShInt\<close> and \<open>ShUint\<close> carry their width.\<close>

datatype shape =
    ShString | ShBool | ShInt nat | ShUint nat | ShPtr shape | ShSlice shape
  | ShStruct "(string \<times> bool \<times> shape) list"

text \<open>
  A slice is nil, or its elements and the elements its backing array holds beyond them.
\<close>

datatype gval =
    GString string | GBool bool | GInt int | GPtr "gval option" | GNil | GSlice "gval list" "gval list"
  | GStruct "gval list"

fun zero_value :: "shape \<Rightarrow> gval" where
  "zero_value ShString = GString []"
| "zero_value ShBool = GBool False"
| "zero_value (ShInt w) = GInt 0"
| "zero_value (ShUint w) = GInt 0"
| "zero_value (ShPtr t) = GPtr None"
| "zero_value (ShSlice t) = GNil"
| "zero_value (ShStruct fs) = GStruct (map (\<lambda>(_, _, t). zero_value t) fs)"

section \<open>Reading values\<close>

text \<open>The selectors with which a Go struct is read off its value.\<close>

fun as_string :: "gval \<Rightarrow> string" where
  "as_string (GString s) = s" | "as_string _ = []"

fun as_bool :: "gval \<Rightarrow> bool" where
  "as_bool (GBool b) = b" | "as_bool _ = False"

fun as_int :: "gval \<Rightarrow> int" where
  "as_int (GInt n) = n" | "as_int _ = 0"

fun as_ptr :: "gval \<Rightarrow> gval option" where
  "as_ptr (GPtr p) = p" | "as_ptr _ = None"

fun as_slice :: "gval \<Rightarrow> gval list" where
  "as_slice (GSlice xs _) = xs" | "as_slice _ = []"

fun as_field :: "nat \<Rightarrow> gval \<Rightarrow> gval" where
  "as_field i (GStruct xs) = (if i < length xs then xs ! i else GNil)" | "as_field i _ = GNil"

section \<open>Encoding\<close>

definition format_int :: "int \<Rightarrow> string" where
  "format_int n = (if n < 0 then ''-'' @ dec_of_nat (nat (- n)) else dec_of_nat (nat n))"

fun is_empty_value :: "gval \<Rightarrow> bool" where
  "is_empty_value (GString s) = (s = [])"
| "is_empty_value (GBool b) = (\<not> b)"
| "is_empty_value (GInt n) = (n = 0)"
| "is_empty_value (GPtr p) = (p = None)"
| "is_empty_value GNil = True"
| "is_empty_value (GSlice xs _) = (xs = [])"
| "is_empty_value (GStruct _) = False"

fun e_value :: "shape \<Rightarrow> gval \<Rightarrow> json"
  and e_fields :: "(string \<times> bool \<times> shape) list \<Rightarrow> gval list \<Rightarrow> (string \<times> json) list" where
  "e_value (ShPtr t) (GPtr (Some x)) = e_value t x"
| "e_value (ShSlice t) (GSlice xs _) = JArray (map (e_value t) xs)"
| "e_value (ShStruct fs) (GStruct xs) = JObject (e_fields fs xs)"
| "e_value _ (GString s) = JString s"
| "e_value _ (GBool b) = JBool b"
| "e_value _ (GInt n) = JNumber (format_int n)"
| "e_value _ _ = JNull"
| "e_fields ((name, omitempty, t) # fs) (x # xs) =
     (if omitempty \<and> is_empty_value x then [] else [(name, e_value t x)]) @ e_fields fs xs"
| "e_fields _ _ = []"

definition json_Marshal :: "shape \<Rightarrow> gval \<Rightarrow> string" where
  "json_Marshal sh x = json_print (e_value sh x)"

section \<open>Decoding\<close>

text \<open>
  \<open>foldName\<close>: ASCII letters in upper case; U+017F and U+212A are the only other runes whose fold is
  ASCII, and every field name is ASCII.
\<close>

fun fold_name :: "string \<Rightarrow> string" where
  "fold_name [] = []"
| "fold_name (c # cs) =
     (if c = CHR 0xC5 \<and> take 1 cs = [CHR 0xBF] then CHR ''S'' # fold_name (drop 1 cs)
      else if c = CHR 0xE2 \<and> take 2 cs = [CHR 0x84, CHR 0xAA] then CHR ''K'' # fold_name (drop 2 cs)
      else (let n = code_of c in if 97 \<le> n \<and> n \<le> 122 then char_of (n - 32) else c) # fold_name cs)"

fun find_index :: "('a \<Rightarrow> bool) \<Rightarrow> 'a list \<Rightarrow> nat option" where
  "find_index P [] = None"
| "find_index P (x # xs) = (if P x then Some 0 else map_option Suc (find_index P xs))"

definition field_index :: "(string \<times> bool \<times> shape) list \<Rightarrow> string \<Rightarrow> nat option" where
  "field_index fs name =
     (case find_index (\<lambda>f. fst f = name) fs of
        Some i \<Rightarrow> Some i
      | None \<Rightarrow> find_index (\<lambda>f. fold_name (fst f) = fold_name name) fs)"

text \<open>\<open>strconv.ParseInt\<close> and \<open>ParseUint\<close> on a number literal, then the range of the field's type.\<close>

definition decode_int :: "bool \<Rightarrow> nat \<Rightarrow> string \<Rightarrow> int option" where
  "decode_int withSign w t =
     (let negative = (take 1 t = ''-''); ds = (if negative then tl t else t); n = int (digits_value ds)
      in if ds = [] \<or> \<not> list_all is_digit ds then None
         else if withSign then
           (let n = (if negative then - n else n) in if - (2 ^ (w - 1)) \<le> n \<and> n < 2 ^ (w - 1) then Some n else None)
         else if negative \<or> n \<ge> 2 ^ w then None else Some n)"

fun d_value :: "bool \<Rightarrow> shape \<Rightarrow> json \<Rightarrow> gval \<Rightarrow> gval option"
  and d_elements :: "bool \<Rightarrow> shape \<Rightarrow> json list \<Rightarrow> gval list \<Rightarrow> gval list option"
  and d_members :: "bool \<Rightarrow> (string \<times> bool \<times> shape) list \<Rightarrow> (string \<times> json) list \<Rightarrow> gval list \<Rightarrow> gval list option" where
  "d_value du (ShPtr t) j x =
     (if j = JNull then Some (GPtr None)
      else map_option (\<lambda>y. GPtr (Some y)) (d_value du t j (case x of GPtr (Some y) \<Rightarrow> y | _ \<Rightarrow> zero_value t)))"
| "d_value du (ShSlice t) (JArray js) x =
     (if js = [] then Some (GSlice [] [])
      else let backing = (case x of GSlice ys stale \<Rightarrow> ys @ stale | _ \<Rightarrow> [])
           in map_option (\<lambda>ys. GSlice ys (drop (length js) backing)) (d_elements du t js backing))"
| "d_value du (ShSlice t) JNull x = Some GNil"
| "d_value du (ShStruct fs) (JObject members) x =
     map_option GStruct (d_members du fs members (case x of GStruct ys \<Rightarrow> ys | _ \<Rightarrow> []))"
| "d_value du ShString (JString s) x = Some (GString s)"
| "d_value du ShBool (JBool b) x = Some (GBool b)"
| "d_value du (ShInt w) (JNumber t) x = map_option GInt (decode_int True w t)"
| "d_value du (ShUint w) (JNumber t) x = map_option GInt (decode_int False w t)"
| "d_value du _ JNull x = Some x"
| "d_value du _ _ x = None"
| "d_elements du t [] backing = Some []"
| "d_elements du t (j # js) backing =
     Option.bind (d_value du t j (case backing of y # _ \<Rightarrow> y | [] \<Rightarrow> zero_value t)) (\<lambda>y.
     Option.bind (d_elements du t js (tl backing)) (\<lambda>ys. Some (y # ys)))"
| "d_members du fs [] xs = Some xs"
| "d_members du fs ((name, j) # rest) xs =
     (case field_index fs name of
        None \<Rightarrow> if du then None else d_members du fs rest xs
      | Some i \<Rightarrow>
          Option.bind (d_value du (snd (snd (fs ! i))) j (xs ! i)) (\<lambda>y. d_members du fs rest (xs[i := y])))"

text \<open>
  \<open>Unmarshal\<close> into a fresh value, and \<open>Decoder.Decode\<close>, which reads the first value of the input only;
  its flag is \<open>DisallowUnknownFields\<close>.
\<close>

definition json_Unmarshal :: "shape \<Rightarrow> string \<Rightarrow> gval option" where
  "json_Unmarshal sh s = Option.bind (json_parse s) (\<lambda>j. d_value False sh j (zero_value sh))"

definition json_Decode :: "bool \<Rightarrow> shape \<Rightarrow> string \<Rightarrow> gval option" where
  "json_Decode disallowUnknown sh s =
     Option.bind (json_value s) (\<lambda>(j, _). d_value disallowUnknown sh j (zero_value sh))"

section \<open>What is encoded is decoded again\<close>

text \<open>
  Types whose field names are distinct and plain, with a bound on the nesting of their encodings; and
  the values that survive: valid UTF-8, integers in range, no stale elements, and nothing that
  \<open>omitempty\<close> or a \<open>null\<close> would turn into something else.
\<close>

fun shape_ok :: "shape \<Rightarrow> bool" where
  "shape_ok (ShPtr t) = shape_ok t"
| "shape_ok (ShSlice t) = shape_ok t"
| "shape_ok (ShStruct fs) = (distinct (map fst fs) \<and> list_all (\<lambda>(name, _, t). ValidString name \<and> shape_ok t) fs)"
| "shape_ok (ShInt w) = (0 < w)"
| "shape_ok _ = True"

fun shape_depth :: "shape \<Rightarrow> nat" where
  "shape_depth (ShPtr t) = shape_depth t"
| "shape_depth (ShSlice t) = Suc (shape_depth t)"
| "shape_depth (ShStruct fs) = Suc (foldr (\<lambda>(_, _, t). max (shape_depth t)) fs 0)"
| "shape_depth _ = 0"

fun fits :: "shape \<Rightarrow> gval \<Rightarrow> bool"
  and fits_fields :: "(string \<times> bool \<times> shape) list \<Rightarrow> gval list \<Rightarrow> bool" where
  "fits ShString (GString s) = ValidString s"
| "fits ShBool (GBool b) = True"
| "fits (ShInt w) (GInt n) = (- (2 ^ (w - 1)) \<le> n \<and> n < 2 ^ (w - 1))"
| "fits (ShUint w) (GInt n) = (0 \<le> n \<and> n < 2 ^ w)"
| "fits (ShPtr t) (GPtr None) = True"
| "fits (ShPtr t) (GPtr (Some x)) = (fits t x \<and> e_value t x \<noteq> JNull)"
| "fits (ShSlice t) GNil = True"
| "fits (ShSlice t) (GSlice xs stale) = (stale = [] \<and> list_all (fits t) xs)"
| "fits (ShStruct fs) (GStruct xs) = fits_fields fs xs"
| "fits _ _ = False"
| "fits_fields [] [] = True"
| "fits_fields ((name, omitempty, t) # fs) (x # xs) =
     (fits t x \<and> (omitempty \<and> is_empty_value x \<longrightarrow> x = zero_value t) \<and> fits_fields fs xs)"
| "fits_fields _ _ = False"

lemma take_dec_of_nat: "take 1 (dec_of_nat k) \<noteq> ''-''"
  using dec_of_nat_digits [of k] by (cases "dec_of_nat k") (auto simp: is_digit_def)

lemma int_literal_format_int: "int_literal (format_int n)"
proof -
  have "dec_of_nat k = ''0'' \<or> hd (dec_of_nat k) \<noteq> CHR ''0''" for k
    using dec_of_nat_leading [of k] dec_of_nat_not_Nil [of k]
    by (cases "dec_of_nat k"; cases "tl (dec_of_nat k)") auto
  then show ?thesis using take_dec_of_nat by (auto simp: int_literal_def format_int_def Let_def)
qed

lemma decode_int_format_int:
  "- (2 ^ (w - 1)) \<le> n \<Longrightarrow> n < 2 ^ (w - 1) \<Longrightarrow> decode_int True w (format_int n) = Some n"
  "0 \<le> n \<Longrightarrow> n < 2 ^ w \<Longrightarrow> decode_int False w (format_int n) = Some n"
  using take_dec_of_nat [of "nat n"] by (auto simp: decode_int_def format_int_def Let_def)

lemma decode_uint [simp]:
  "decode_int False 64 (format_int (uint (w :: uint64))) = Some (uint w)"
  "decode_int False 32 (format_int (uint (v :: 32 word))) = Some (uint v)"
  using uint_bounded [of w] uint_bounded [of v] by (simp_all add: decode_int_format_int(2))

lemma e_value_ok:
  "shape_ok t \<Longrightarrow> fits t x \<Longrightarrow> json_ok (e_value t x) \<and> depth (e_value t x) \<le> shape_depth t"
  "list_all (\<lambda>(name, _, t). ValidString name \<and> shape_ok t) fs \<Longrightarrow> fits_fields fs xs
    \<Longrightarrow> list_all (\<lambda>(k, v). ValidString k \<and> json_ok v) (e_fields fs xs)
      \<and> foldr (\<lambda>(k, v). max (depth v)) (e_fields fs xs) 0 \<le> foldr (\<lambda>(_, _, t). max (shape_depth t)) fs 0"
proof (induction t x and fs xs rule: fits_fits_fields.induct)
  case (8 t xs stale)
  have "foldr (\<lambda>j. max (depth j)) (map (e_value t) xs) 0 \<le> shape_depth t"
    if "list_all (\<lambda>x. depth (e_value t x) \<le> shape_depth t) xs" for xs
    using that by (induction xs) auto
  with 8 show ?case by (auto simp: list_all_iff)
qed (auto simp: int_literal_format_int)

lemma find_index_nth:
  "distinct (map f xs) \<Longrightarrow> i < length xs \<Longrightarrow> find_index (\<lambda>x. f x = f (xs ! i)) xs = Some i"
proof (induction xs arbitrary: i)
  case (Cons x xs)
  then show ?case by (cases i) auto
qed simp

lemma field_index_nth:
  assumes "distinct (map fst fs)" "i < length fs"
  shows "field_index fs (fst (fs ! i)) = Some i"
  using find_index_nth [of fst fs i] assms by (simp add: field_index_def)

lemma fits_fields_iff:
  "fits_fields fs xs \<longleftrightarrow> length fs = length xs \<and>
     (\<forall>i < length fs. fits (snd (snd (fs ! i))) (xs ! i)
        \<and> (fst (snd (fs ! i)) \<and> is_empty_value (xs ! i) \<longrightarrow> xs ! i = zero_value (snd (snd (fs ! i)))))"
  by (induction fs xs rule: fits_fits_fields.induct(2) [where P = "\<lambda>_ _. True"])
    (auto simp: nth_Cons split: nat.splits simp: All_less_Suc2)

text \<open>The members are stored one field after the other; a field that was omitted keeps its zero value.\<close>

lemma d_members_fields:
  assumes "distinct (map fst fs)" "fits_fields fs xs"
    "\<And>i. i < length fs \<Longrightarrow> d_value du (snd (snd (fs ! i))) (e_value (snd (snd (fs ! i))) (xs ! i)) (zero_value (snd (snd (fs ! i)))) = Some (xs ! i)"
    "i \<le> length fs"
  shows "d_members du fs (e_fields (drop i fs) (drop i xs)) (take i xs @ map (\<lambda>(_, _, t). zero_value t) (drop i fs)) = Some xs"
  using assms(4)
proof (induction "length fs - i" arbitrary: i)
  case 0
  then show ?case using assms(2) by (simp add: fits_fields_iff)
next
  case (Suc n)
  have len: "length fs = length xs" using assms(2) by (simp add: fits_fields_iff)
  have i: "i < length fs" "i < length xs" using Suc(2) len by auto
  obtain name om t where f: "fs ! i = (name, om, t)" by (cases "fs ! i")
  have fs: "drop i fs = (name, om, t) # drop (Suc i) fs" using Cons_nth_drop_Suc [OF i(1)] f by simp
  have xs: "drop i xs = xs ! i # drop (Suc i) xs" "take i xs @ [xs ! i] = take (Suc i) xs"
    using Cons_nth_drop_Suc [OF i(2)] take_Suc_conv_app_nth [OF i(2)] by simp_all
  let ?z = "map (\<lambda>(_, _, t). zero_value t) (drop (Suc i) fs)"
  have ih: "d_members du fs (e_fields (drop (Suc i) fs) (drop (Suc i) xs)) (take (Suc i) xs @ ?z) = Some xs"
    using Suc i by simp
  have upd: "(take i xs @ zero_value t # ?z)[i := xs ! i] = take (Suc i) xs @ ?z"
    "(take i xs @ zero_value t # ?z) ! i = zero_value t"
    using i(2) xs(2) by (simp_all add: list_update_append nth_append flip: append_assoc)
  show ?case
  proof (cases "om \<and> is_empty_value (xs ! i)")
    case True
    then have "xs ! i = zero_value t" using assms(2) i f by (auto simp: fits_fields_iff)
    then have eq: "take i xs @ zero_value t # ?z = take (Suc i) xs @ ?z"
      using xs(2) by (metis append_Cons append_Nil append_assoc)
    have "e_fields (drop i fs) (drop i xs) = e_fields (drop (Suc i) fs) (drop (Suc i) xs)" using fs xs(1) True by simp
    moreover have "take i xs @ map (\<lambda>(_, _, t). zero_value t) (drop i fs) = take i xs @ zero_value t # ?z" using fs by simp
    ultimately show ?thesis using ih by (simp only: eq)
  next
    case False
    have "field_index fs name = Some i" using field_index_nth [OF assms(1) i(1)] f by simp
    then show ?thesis using False ih upd assms(3) [OF i(1)] fs xs f by auto
  qed
qed

lemma d_elements_fresh:
  "(\<And>x. x \<in> set xs \<Longrightarrow> d_value du t (e_value t x) (zero_value t) = Some x)
    \<Longrightarrow> d_elements du t (map (e_value t) xs) [] = Some xs"
  by (induction xs) auto

theorem d_value_e_value:
  "shape_ok t \<Longrightarrow> fits t x \<Longrightarrow> d_value du t (e_value t x) (zero_value t) = Some x"
proof (induction t arbitrary: x)
  case (ShInt w)
  then show ?case using decode_int_format_int(1) by (cases x) auto
next
  case (ShUint w)
  then show ?case using decode_int_format_int(2) by (cases x) auto
next
  case (ShPtr t)
  then show ?case by (cases "(ShPtr t, x)" rule: fits.cases) auto
next
  case (ShSlice t)
  then show ?case
    by (cases x) (auto simp: list_all_iff d_elements_fresh)
next
  case (ShStruct fs)
  then obtain xs where x: "x = GStruct xs" by (cases x) auto
  have "d_value du (snd (snd (fs ! i))) (e_value (snd (snd (fs ! i))) (xs ! i)) (zero_value (snd (snd (fs ! i)))) = Some (xs ! i)"
    if "i < length fs" for i
  proof -
    obtain name om t where f: "fs ! i = (name, om, t)" by (cases "fs ! i")
    then have "(name, om, t) \<in> set fs" using that by (metis nth_mem)
    moreover have "fits t (xs ! i)" using ShStruct.prems(2) x that f by (auto simp: fits_fields_iff)
    ultimately show ?thesis using ShStruct.IH [of "(name, om, t)" "(om, t)" t] ShStruct.prems(1) f
      by (auto simp: list_all_iff)
  qed
  then show ?case using d_members_fields [of fs xs du 0] ShStruct.prems x by simp
qed (auto elim: fits.elims)

lemma json_Unmarshal_Marshal:
  assumes "shape_ok t" "fits t x" "shape_depth t \<le> maxNestingDepth"
  shows "json_Unmarshal t (json_Marshal t x) = Some x"
  using e_value_ok(1) [OF assms(1,2)] assms json_parse_print [of "e_value t x"] d_value_e_value [OF assms(1,2)]
  by (simp add: json_Unmarshal_def json_Marshal_def)

lemma json_Decode_Marshal:
  assumes "shape_ok t" "fits t x" "shape_depth t \<le> maxNestingDepth" "delimiter r"
  shows "json_Decode du t (json_Marshal t x @ r) = Some x"
  using e_value_ok(1) [OF assms(1,2)] assms json_value_print [of "e_value t x" r] d_value_e_value [OF assms(1,2)]
  by (simp add: json_Decode_def json_Marshal_def)

end
