(* ===== verification/Checkpoint_Payload.thy ===== *)
theory Checkpoint_Payload
  imports Rfc3339 Go_Reflect
begin

text \<open>
  The signing body of a checkpoint and the cadence rules: \<open>Payload\<close>, \<open>canonicalFields\<close>,
  \<open>CanonicalJSON\<close>, \<open>ParsePayload\<close>, \<open>Digest\<close> and \<open>Config\<close> of \<open>checkpoint/checkpoint.go\<close>.

  Its JSON texts are those of \<open>Go_Reflect\<close>: the struct types \<open>recordWire\<close> and \<open>canonicalProjection\<close> are
  shapes, with the conversions between their values and the records below.
\<close>

section \<open>Text and bytes\<close>

definition bytes_of :: "string \<Rightarrow> bytes" where
  "bytes_of s = map (\<lambda>c. of_nat (of_char c)) s"

definition string_of :: "bytes \<Rightarrow> string" where
  "string_of b = map (\<lambda>x. char_of (unat x)) b"

lemma string_of_bytes_of [simp]: "string_of (bytes_of s) = s"
proof -
  have "char_of (unat (of_nat (of_char c) :: byte)) = (c :: char)" for c
  proof -
    have "of_char c < (256 :: nat)" by (rule nat_of_char_less_256)
    then show ?thesis by (simp add: unat_of_nat take_bit_nat_eq_self)
  qed
  then show ?thesis by (simp add: string_of_def bytes_of_def o_def)
qed

lemma bytes_of_string_of [simp]: "bytes_of (string_of b) = b"
proof -
  have "of_nat (of_char (char_of (unat x) :: char)) = (x :: byte)" for x
  proof -
    have "unat x < 256" using unsigned_less [of x] by simp
    then show ?thesis by simp
  qed
  then show ?thesis by (simp add: string_of_def bytes_of_def o_def)
qed

lemma length_bytes_of [simp]: "length (bytes_of s) = length s" "length (string_of b) = length b"
  by (simp_all add: bytes_of_def string_of_def)

lemma bytes_of_eq_iff: "bytes_of s = b \<longleftrightarrow> s = string_of b"
  by auto

lemma bytes_of_Nil [simp]: "bytes_of s = [] \<longleftrightarrow> s = []"
  by (simp add: bytes_of_def)

lemma bytes_of_inj [simp]: "bytes_of s = bytes_of t \<longleftrightarrow> s = t"
  by (simp add: bytes_of_eq_iff)

definition to_lower :: "string \<Rightarrow> string" where
  "to_lower s = map (\<lambda>c. let n = (of_char c :: nat) in if 65 \<le> n \<and> n \<le> 90 then char_of (n + 32) else c) s"

lemma lower_hex_digit:
  assumes "hex_value c = Some v"
    and "(if 65 \<le> (of_char c :: nat) \<and> (of_char c :: nat) \<le> 90 then char_of (of_char c + 32 :: nat) else c) = c"
  shows "v < 16" "hex_char v = c"
proof -
  define n where "n = (of_char c :: nat)"
  have c: "c = char_of n" "n < 256" by (simp_all add: n_def)
  have nl: "\<not> (65 \<le> n \<and> n \<le> 90)"
  proof
    assume u: "65 \<le> n \<and> n \<le> 90"
    then have "char_of (n + 32) = (char_of n :: char)" using assms(2) by (simp add: n_def)
    then show False using u by simp
  qed
  show "v < 16" "hex_char v = c"
    using assms(1) nl c by (auto simp: hex_value_def hex_char_def Let_def split: if_splits)
qed

lemma hex_lower_canonical:
  assumes "hex_DecodeString s = Some b" "to_lower s = s"
  shows "s = hex_EncodeToString b"
  using assms
proof (induction s arbitrary: b rule: hex_DecodeString.induct)
  case (3 c d cs)
  then obtain h l bs where hl: "hex_value c = Some h" "hex_value d = Some l" "hex_DecodeString cs = Some bs"
      "b = of_nat (16 * h + l) # bs"
    by (auto split: option.splits)
  have cd: "h < 16" "hex_char h = c" "l < 16" "hex_char l = d"
    using 3(3) lower_hex_digit [OF hl(1)] lower_hex_digit [OF hl(2)] by (simp_all add: to_lower_def Let_def)
  have "unat (of_nat (16 * h + l) :: byte) = 16 * h + l"
    using cd by (simp add: unat_of_nat take_bit_nat_eq_self del: of_nat_add of_nat_mult)
  moreover have "cs = hex_EncodeToString bs" using 3 hl by (auto simp: to_lower_def)
  ultimately show ?case using cd hl(4) by simp
qed simp_all

lemma to_lower_hex [simp]: "to_lower (hex_EncodeToString b) = hex_EncodeToString b"
proof (induction b)
  case (Cons x b)
  have "(let n = (of_char (hex_char k) :: nat) in if 65 \<le> n \<and> n \<le> 90 then char_of (n + 32) else hex_char k) = hex_char k"
    if "k < 16" for k
    using that by (auto simp: hex_char_def Let_def)
  moreover have "unat x div 16 < 16" "unat x mod 16 < 16" using unat_byte_less [of x] by simp_all
  ultimately show ?case using Cons by (simp add: to_lower_def)
qed (simp add: to_lower_def)

section \<open>JSON\<close>

record canonicalProjection =
  PjKeyID :: string
  PjKind :: string
  PjLogID :: string
  PjMMRSize :: uint64
  PjPrevRoot :: string
  PjPrevSize :: uint64
  PjRoot :: string
  PjTimestamp :: string
  PjVersion :: uint64

definition canonicalProjection_type :: shape where
  "canonicalProjection_type = ShStruct
     [(''key_id'', False, ShString), (''kind'', False, ShString), (''log_id'', False, ShString),
      (''mmr_size'', False, ShUint 64), (''prev_root'', False, ShString), (''prev_size'', False, ShUint 64),
      (''root'', False, ShString), (''timestamp'', False, ShString), (''v'', False, ShUint 64)]"

definition canonicalProjection_value :: "canonicalProjection \<Rightarrow> gval" where
  "canonicalProjection_value f = GStruct
     [GString (PjKeyID f), GString (PjKind f), GString (PjLogID f), GInt (uint (PjMMRSize f)),
      GString (PjPrevRoot f), GInt (uint (PjPrevSize f)), GString (PjRoot f), GString (PjTimestamp f),
      GInt (uint (PjVersion f))]"

definition marshalProjection :: "canonicalProjection \<Rightarrow> string" where
  "marshalProjection f = json_Marshal canonicalProjection_type (canonicalProjection_value f)"

record recordWire =
  RwVersion :: uint64
  RwKind :: string
  RwLogID :: string
  RwMMRSize :: uint64
  RwRoot :: string
  RwPrevSize :: uint64
  RwPrevRoot :: string
  RwKeyID :: string
  RwTimestamp :: string

definition recordWire_type :: shape where
  "recordWire_type = ShStruct
     [(''v'', False, ShUint 64), (''kind'', False, ShString), (''log_id'', False, ShString),
      (''mmr_size'', False, ShUint 64), (''root'', False, ShString), (''prev_size'', False, ShUint 64),
      (''prev_root'', False, ShString), (''key_id'', False, ShString), (''timestamp'', False, ShString)]"

definition recordWire_of :: "gval \<Rightarrow> recordWire" where
  "recordWire_of x = \<lparr>RwVersion = of_int (as_int (as_field 0 x)), RwKind = as_string (as_field 1 x),
     RwLogID = as_string (as_field 2 x), RwMMRSize = of_int (as_int (as_field 3 x)),
     RwRoot = as_string (as_field 4 x), RwPrevSize = of_int (as_int (as_field 5 x)),
     RwPrevRoot = as_string (as_field 6 x), RwKeyID = as_string (as_field 7 x),
     RwTimestamp = as_string (as_field 8 x)\<rparr>"

definition decodeRecordWire :: "string \<Rightarrow> recordWire option" where
  "decodeRecordWire s = map_option recordWire_of (json_Decode True recordWire_type s)"

section \<open>The payload\<close>

definition MaxEncodedBytes :: nat where "MaxEncodedBytes = 64 * 2 ^ 10"

definition PublicKeySize :: nat where "PublicKeySize = 32"

record Payload =
  LogID :: string
  KeyID :: string
  MMRSize :: uint64
  Root :: string
  PrevSize :: uint64
  PrevRoot :: string
  Timestamp :: gotime

definition formatTimestamp :: "gotime \<Rightarrow> string result" where
  "formatTimestamp value =
     (let t = Instant value
      in if Year t < 0 \<or> Year t > 9999 then Inl (ErrMsg ''invalid checkpoint timestamp'')
         else Inr (format_RFC3339Nano t))"

definition canonicalFields :: "Payload \<Rightarrow> canonicalProjection result" where
  "canonicalFields p =
     (if isl (ValidateIdentifier (LogID p))
        \<or> (case hex_DecodeString (KeyID p) of
             None \<Rightarrow> True
           | Some key \<Rightarrow> length key \<noteq> PublicKeySize \<or> hex_EncodeToString key \<noteq> KeyID p)
        \<or> MMRSize p = 0 \<or> MMRSize p > MaxPortableInteger \<or> PrevSize p > MaxPortableInteger
        \<or> length (Root p) \<noteq> 64
      then Inl (ErrMsg ''invalid checkpoint payload'')
      else if PrevSize p \<ge> MMRSize p \<or> (PrevSize p = 0) \<noteq> (PrevRoot p = [])
      then Inl (ErrMsg ''invalid checkpoint predecessor'')
      else if hex_DecodeString (Root p) = None \<or> Root p \<noteq> to_lower (Root p)
      then Inl (ErrMsg ''invalid checkpoint root'')
      else if PrevRoot p \<noteq> [] \<and>
        (case hex_DecodeString (PrevRoot p) of
           None \<Rightarrow> True
         | Some decoded \<Rightarrow> length decoded \<noteq> 32 \<or> PrevRoot p \<noteq> to_lower (PrevRoot p))
      then Inl (ErrMsg ''invalid previous checkpoint root'')
      else rbind (formatTimestamp (Timestamp p)) (\<lambda>timestamp.
        Inr \<lparr>PjKeyID = KeyID p, PjKind = ''mmr_checkpoint'', PjLogID = LogID p, PjMMRSize = MMRSize p,
             PjPrevRoot = PrevRoot p, PjPrevSize = PrevSize p, PjRoot = Root p,
             PjTimestamp = timestamp, PjVersion = 1\<rparr>))"

definition CanonicalJSON :: "Payload \<Rightarrow> bytes result" where
  "CanonicalJSON p = rbind (canonicalFields p) (\<lambda>fields. Inr (bytes_of (marshalProjection fields)))"

definition ParsePayload :: "bytes \<Rightarrow> Payload result" where
  "ParsePayload data =
     (if length data = 0 \<or> length data > MaxEncodedBytes
      then Inl (ErrMsg ''checkpoint payload size is invalid'')
      else case decodeRecordWire (string_of data) of
        None \<Rightarrow> Inl (ErrMsg ''decode checkpoint payload'')
      | Some wire \<Rightarrow>
          if RwKind wire \<noteq> ''mmr_checkpoint'' \<or> RwVersion wire \<noteq> 1
          then Inl (ErrMsg ''checkpoint profile fields are invalid'')
          else case time_Parse (RwTimestamp wire) of
            None \<Rightarrow> Inl (ErrMsg ''checkpoint timestamp is invalid'')
          | Some timestamp \<Rightarrow>
              let payload = \<lparr>LogID = RwLogID wire, KeyID = RwKeyID wire, MMRSize = RwMMRSize wire,
                             Root = RwRoot wire, PrevSize = RwPrevSize wire,
                             PrevRoot = RwPrevRoot wire, Timestamp = timestamp\<rparr>
              in (case CanonicalJSON payload of
                    Inl _ \<Rightarrow> Inl (ErrMsg ''checkpoint payload is not canonical'')
                  | Inr canonical \<Rightarrow>
                      if canonical \<noteq> data then Inl (ErrMsg ''checkpoint payload is not canonical'')
                      else Inr payload))"

definition Digest :: "Payload \<Rightarrow> bytes result" where
  "Digest p = rbind (CanonicalJSON p) (\<lambda>body. Inr (sha256 body))"

definition DigestHex :: "Payload \<Rightarrow> string result" where
  "DigestHex p = rbind (Digest p) (\<lambda>digest. Inr (hex_EncodeToString digest))"

section \<open>Cadence\<close>

type_synonym duration = int

record Config =
  CadenceEntries :: uint64
  CadenceAge :: duration

definition Minute_ns :: duration where "Minute_ns = 60000000000"

definition DefaultConfig :: Config where
  "DefaultConfig = \<lparr>CadenceEntries = 100, CadenceAge = 15 * Minute_ns\<rparr>"

definition Config_Validate :: "Config \<Rightarrow> unit result" where
  "Config_Validate c =
     (if CadenceEntries c = 0 \<or> CadenceAge c \<le> 0 then Inl (ErrMsg ''invalid checkpoint cadence'') else Inr ())"

text \<open>Go's zero \<open>time.Time\<close> is the first instant of year 1; \<open>Sub\<close> saturates at the \<open>int64\<close> bounds.\<close>

definition zero_time :: time where "zero_time = -62135596800000000000"

definition time_Sub :: "time \<Rightarrow> time \<Rightarrow> duration" where
  "time_Sub t u = max (- (2 ^ 63)) (min (2 ^ 63 - 1) (t - u))"

definition Due :: "Config \<Rightarrow> uint64 \<Rightarrow> time \<Rightarrow> time \<Rightarrow> bool" where
  "Due c ents firstUncheckpointed now =
     (if ents = 0 then False
      else ents \<ge> CadenceEntries c
        \<or> firstUncheckpointed \<noteq> zero_time \<and> time_Sub now firstUncheckpointed \<ge> CadenceAge c)"

section \<open>Canonical bodies\<close>

text \<open>What \<open>canonicalFields\<close> demands, as a predicate.\<close>

definition canonical_payload :: "Payload \<Rightarrow> bool" where
  "canonical_payload p \<longleftrightarrow>
     ValidateIdentifier (LogID p) = Inr ()
     \<and> (\<exists>key. KeyID p = hex_EncodeToString key \<and> length key = 32)
     \<and> MMRSize p \<noteq> 0 \<and> MMRSize p \<le> MaxPortableInteger \<and> PrevSize p < MMRSize p
     \<and> (\<exists>root. Root p = hex_EncodeToString root \<and> length root = 32)
     \<and> (if PrevSize p = 0 then PrevRoot p = []
        else \<exists>root. PrevRoot p = hex_EncodeToString root \<and> length root = 32)
     \<and> 0 \<le> Year (Instant (Timestamp p)) \<and> Year (Instant (Timestamp p)) \<le> 9999"

definition projection :: "Payload \<Rightarrow> canonicalProjection" where
  "projection p = \<lparr>PjKeyID = KeyID p, PjKind = ''mmr_checkpoint'', PjLogID = LogID p, PjMMRSize = MMRSize p,
     PjPrevRoot = PrevRoot p, PjPrevSize = PrevSize p, PjRoot = Root p,
     PjTimestamp = format_RFC3339Nano (Instant (Timestamp p)), PjVersion = 1\<rparr>"

lemma projection_sel [simp]:
  "PjKeyID (projection p) = KeyID p" "PjKind (projection p) = ''mmr_checkpoint''" "PjLogID (projection p) = LogID p"
  "PjMMRSize (projection p) = MMRSize p" "PjPrevRoot (projection p) = PrevRoot p"
  "PjPrevSize (projection p) = PrevSize p" "PjRoot (projection p) = Root p"
  "PjTimestamp (projection p) = format_RFC3339Nano (Instant (Timestamp p))" "PjVersion (projection p) = 1"
  by (simp_all add: projection_def)

lemma hex_root_iff:
  "length s = 64 \<and> hex_DecodeString s \<noteq> None \<and> s = to_lower s \<longleftrightarrow>
     (\<exists>root. s = hex_EncodeToString root \<and> length root = 32)"
proof
  assume a: "length s = 64 \<and> hex_DecodeString s \<noteq> None \<and> s = to_lower s"
  then obtain root where r: "hex_DecodeString s = Some root" by auto
  have "s = hex_EncodeToString root" using hex_lower_canonical [OF r] a by metis
  moreover have "length root = 32" using length_hex_DecodeString [OF r] a by simp
  ultimately show "\<exists>root. s = hex_EncodeToString root \<and> length root = 32" by blast
qed auto

lemma key_iff:
  "\<not> (case hex_DecodeString k of None \<Rightarrow> True | Some key \<Rightarrow> length key \<noteq> n \<or> hex_EncodeToString key \<noteq> k) \<longleftrightarrow>
     (\<exists>key. k = hex_EncodeToString key \<and> length key = n)"
  by (auto split: option.splits)

lemma prev_root_iff:
  assumes "s \<noteq> []"
  shows "\<not> (case hex_DecodeString s of None \<Rightarrow> True | Some decoded \<Rightarrow> length decoded \<noteq> 32 \<or> s \<noteq> to_lower s) \<longleftrightarrow>
     (\<exists>root. s = hex_EncodeToString root \<and> length root = 32)"
proof (cases "hex_DecodeString s")
  case None
  then show ?thesis by auto
next
  case (Some b)
  then have "length s = 64 \<longleftrightarrow> length b = 32" using length_hex_DecodeString by fastforce
  then show ?thesis using Some hex_root_iff [of s] by auto
qed

lemma prev_condition:
  "(PrevSize p = 0) = (PrevRoot p = []) \<and>
     \<not> (PrevRoot p \<noteq> [] \<and> (case hex_DecodeString (PrevRoot p) of None \<Rightarrow> True
        | Some decoded \<Rightarrow> length decoded \<noteq> 32 \<or> PrevRoot p \<noteq> to_lower (PrevRoot p)))
   \<longleftrightarrow> (if PrevSize p = 0 then PrevRoot p = []
        else \<exists>root. PrevRoot p = hex_EncodeToString root \<and> length root = 32)"
proof (cases "PrevRoot p = []")
  case True
  have "\<not> (\<exists>root. [] = hex_EncodeToString root \<and> length root = 32)"
    by (metis length_hex_EncodeToString list.size(3) mult_eq_0_iff zero_neq_numeral)
  then show ?thesis using True by auto
next
  case False
  then show ?thesis using prev_root_iff [OF False] by auto
qed

lemma canonicalFields_iff: "canonicalFields p = Inr f \<longleftrightarrow> canonical_payload p \<and> f = projection p"
proof -
  have ge: "\<not> PrevSize p \<ge> MMRSize p \<longleftrightarrow> PrevSize p < MMRSize p" by auto
  have max: "PrevSize p < MMRSize p \<Longrightarrow> MMRSize p \<le> MaxPortableInteger \<Longrightarrow> \<not> PrevSize p > MaxPortableInteger" by auto
  have ts: "formatTimestamp (Timestamp p) = Inr t \<longleftrightarrow> 0 \<le> Year (Instant (Timestamp p))
      \<and> Year (Instant (Timestamp p)) \<le> 9999 \<and> t = format_RFC3339Nano (Instant (Timestamp p))" for t
    by (auto simp: formatTimestamp_def Let_def)
  have id: "\<not> isl (ValidateIdentifier (LogID p)) \<longleftrightarrow> ValidateIdentifier (LogID p) = Inr ()"
    by (cases "ValidateIdentifier (LogID p)") auto
  have root: "\<not> length (Root p) \<noteq> 64 \<and> \<not> (hex_DecodeString (Root p) = None \<or> Root p \<noteq> to_lower (Root p))
      \<longleftrightarrow> (\<exists>root. Root p = hex_EncodeToString root \<and> length root = 32)"
    using hex_root_iff [of "Root p"] by blast
  show ?thesis
    unfolding canonicalFields_def if_Inl_Inr_iff de_Morgan_disj rbind_Inr_iff ts id key_iff PublicKeySize_def
      canonical_payload_def prev_condition [symmetric] root [symmetric] projection_def ge
    using max by auto
qed

lemma CanonicalJSON_iff:
  "CanonicalJSON p = Inr b \<longleftrightarrow> canonical_payload p \<and> b = bytes_of (marshalProjection (projection p))"
  by (auto simp: CanonicalJSON_def rbind_Inr_iff canonicalFields_iff)

lemma hex_safe: "list_all json_safe (hex_EncodeToString b)"
proof (induction b)
  case (Cons x b)
  have "json_safe (hex_char k)" if "k < 16" for k
    using that by (auto simp: hex_char_def json_safe_def Let_def)
  moreover have "unat x div 16 < 16" "unat x mod 16 < 16" using unat_byte_less [of x] by simp_all
  ultimately show ?case using Cons by simp
qed simp

lemma identifier_safe: "ValidateIdentifier s = Inr () \<Longrightarrow> list_all json_safe s"
  by (auto simp: ValidateIdentifier_def identifierPattern_def identifier_char_def json_safe_def list_all_iff
      Let_def split: if_splits)

lemma digits_safe: "list_all is_digit s \<Longrightarrow> list_all json_safe s"
  by (auto simp: list_all_iff is_digit_def json_safe_def Let_def)

lemma padded_digits: "0 \<le> n \<Longrightarrow> list_all is_digit (format_padded w n)"
  by (simp add: format_padded_def zero_pad_digits)

lemma trim_zeros_subset: "set (trim_zeros s) \<subseteq> set s"
  unfolding trim_zeros_def using set_dropWhileD by fastforce

lemma timestamp_safe:
  assumes "0 \<le> Year t"
  shows "list_all json_safe (format_RFC3339Nano t)"
proof -
  have "list_all json_safe (trim_zeros (format_padded 9 (Nanosecond t)))"
    using digits_safe [OF padded_digits [of "Nanosecond t" 9]] time_fields(11) [of t]
      trim_zeros_subset [of "format_padded 9 (Nanosecond t)"] by (auto simp: list_all_iff)
  moreover have "json_safe (CHR ''-'')" "json_safe (CHR ''T'')" "json_safe (CHR '':'')" "json_safe (CHR ''Z'')"
    "json_safe (CHR ''.'')" by (simp_all add: json_safe_def)
  moreover have "list_all json_safe (format_padded w n)" if "0 \<le> n" for w n
    using digits_safe [OF padded_digits [OF that]] .
  ultimately show ?thesis
    using assms time_fields [of t] by (simp add: format_RFC3339Nano_def format_fraction_def)
qed

lemma projection_safe:
  assumes "canonical_payload p"
  shows "list_all json_safe (KeyID p)" "list_all json_safe (LogID p)" "list_all json_safe (Root p)"
    "list_all json_safe (PrevRoot p)" "list_all json_safe (format_RFC3339Nano (Instant (Timestamp p)))"
    "list_all json_safe ''mmr_checkpoint''"
  using assms hex_safe identifier_safe timestamp_safe
  by (auto simp: canonical_payload_def json_safe_def split: if_splits)

definition wire_of :: "Payload \<Rightarrow> recordWire" where
  "wire_of p = \<lparr>RwVersion = 1, RwKind = ''mmr_checkpoint'', RwLogID = LogID p, RwMMRSize = MMRSize p, RwRoot = Root p,
     RwPrevSize = PrevSize p, RwPrevRoot = PrevRoot p, RwKeyID = KeyID p,
     RwTimestamp = format_RFC3339Nano (Instant (Timestamp p))\<rparr>"

lemma wire_of_sel [simp]:
  "RwVersion (wire_of p) = 1" "RwKind (wire_of p) = ''mmr_checkpoint''" "RwLogID (wire_of p) = LogID p"
  "RwMMRSize (wire_of p) = MMRSize p" "RwRoot (wire_of p) = Root p" "RwPrevSize (wire_of p) = PrevSize p"
  "RwPrevRoot (wire_of p) = PrevRoot p" "RwKeyID (wire_of p) = KeyID p"
  "RwTimestamp (wire_of p) = format_RFC3339Nano (Instant (Timestamp p))"
  by (simp_all add: wire_of_def)

lemma uint64_range: "0 \<le> uint (w :: uint64)" "uint (w :: uint64) < 2 ^ 64"
  using uint_bounded [of w] by simp_all

lemma decode_one: "decode_int False 64 (format_int 1) = Some 1"
  using decode_uint(1) [of 1] by simp

lemma projection_decodes:
  assumes "canonical_payload p"
  shows "decodeRecordWire (marshalProjection (projection p)) = Some (wire_of p)"
proof -
  let ?v = "e_value canonicalProjection_type (canonicalProjection_value (projection p))"
  have "fits canonicalProjection_type (canonicalProjection_value (projection p))"
    using projection_safe [OF assms] safe_chars uint64_range
    by (simp add: canonicalProjection_type_def canonicalProjection_value_def)
  moreover have "shape_ok canonicalProjection_type" "shape_depth canonicalProjection_type \<le> maxNestingDepth"
    using safe_chars by (simp_all add: canonicalProjection_type_def maxNestingDepth_def json_safe_def)
  ultimately have "json_value (marshalProjection (projection p)) = Some (?v, [])"
    using e_value_ok(1) json_value_print [of ?v "[]"] by (force simp: marshalProjection_def json_Marshal_def)
  moreover have "d_value True recordWire_type ?v (zero_value recordWire_type) =
      Some (GStruct [GInt 1, GString ''mmr_checkpoint'', GString (LogID p), GInt (uint (MMRSize p)), GString (Root p),
        GInt (uint (PrevSize p)), GString (PrevRoot p), GString (KeyID p),
        GString (format_RFC3339Nano (Instant (Timestamp p)))])"
    by (simp add: canonicalProjection_type_def canonicalProjection_value_def recordWire_type_def field_index_def
        decode_one)
  ultimately show ?thesis by (simp add: decodeRecordWire_def json_Decode_def wire_of_def recordWire_of_def)
qed

lemma length_padded: "0 \<le> n \<Longrightarrow> n < 10 ^ w \<Longrightarrow> 0 < w \<Longrightarrow> length (format_padded w n) = w"
  by (simp add: format_padded_def length_zero_pad nat_less_iff)

lemma length_timestamp:
  assumes "0 \<le> Year t" "Year t \<le> 9999"
  shows "length (format_RFC3339Nano t) \<le> 30"
proof -
  have "length (trim_zeros (format_padded 9 (Nanosecond t))) \<le> length (format_padded 9 (Nanosecond t))"
    unfolding trim_zeros_def by (metis length_dropWhile_le length_rev)
  then have "length (format_fraction (Nanosecond t)) \<le> 10"
    using length_padded [of "Nanosecond t" 9] time_fields(11,12) [of t] by (simp add: format_fraction_def)
  then show ?thesis
    using assms time_fields [of t] by (simp add: format_RFC3339Nano_def length_padded)
qed

lemma length_FormatUint: "length (FormatUint n) \<le> 20"
proof -
  have "unat n < 10 ^ 20" using unat64_less [of n] by simp
  then show ?thesis unfolding FormatUint_def by (intro length_dec_of_nat) simp_all
qed

lemma format_int_uint: "format_int (uint n) = FormatUint n"
  by (simp add: format_int_def FormatUint_def nat_uint_eq)

lemma length_projection:
  assumes "canonical_payload p"
  shows "0 < length (marshalProjection (projection p))" "length (marshalProjection (projection p)) \<le> MaxEncodedBytes"
proof -
  have s: "length (KeyID p) = 64" "length (Root p) = 64" "length (PrevRoot p) \<le> 64" "length (LogID p) \<le> 191"
    "length (format_RFC3339Nano (Instant (Timestamp p))) \<le> 30"
    using assms length_timestamp
    by (auto simp: canonical_payload_def ValidateIdentifier_def MaxIdentifierBytes_def split: if_splits)
  note simps = marshalProjection_def json_Marshal_def canonicalProjection_type_def canonicalProjection_value_def
    format_int_uint
  have name: "length (json_string n) = length n + 2"
    if "n \<in> {''key_id'', ''kind'', ''log_id'', ''mmr_size'', ''prev_root'', ''prev_size'', ''root'', ''timestamp'', ''v''}" for n
    using that by (intro length_json_string) (auto simp: json_safe_def)
  have k: "length (json_string ''mmr_checkpoint'') = 16" "length (format_int 1) \<le> 20"
    using length_json_string [OF projection_safe(6) [OF assms]] format_int_uint [of 1] length_FormatUint [of 1] by simp_all
  show "length (marshalProjection (projection p)) \<le> MaxEncodedBytes"
    using s k length_FormatUint [of "MMRSize p"] length_FormatUint [of "PrevSize p"]
    by (simp add: simps name length_json_string projection_safe(1-5) [OF assms] MaxEncodedBytes_def)
  show "0 < length (marshalProjection (projection p))" by (simp add: simps)
qed

lemma ParsePayload_iff: "ParsePayload b = Inr p \<longleftrightarrow> CanonicalJSON p = Inr b \<and> InUTC (Timestamp p)"
proof
  assume a: "ParsePayload b = Inr p"
  then obtain wire t where w: "decodeRecordWire (string_of b) = Some wire" "time_Parse (RwTimestamp wire) = Some t"
      "Timestamp p = t" "CanonicalJSON p = Inr b"
    by (auto simp: ParsePayload_def Let_def split: if_splits option.splits sum.splits)
  then have c: "canonical_payload p" "string_of b = marshalProjection (projection p)"
    by (auto simp: CanonicalJSON_iff)
  then have "RwTimestamp wire = format_RFC3339Nano (Instant t)"
    using projection_decodes [OF c(1)] w(1,3) by auto
  then have "Some t = Some \<lparr>Instant = Instant t, InUTC = True\<rparr>"
    using time_Parse_format [of "Instant t"] c(1) w(2,3) by (simp add: canonical_payload_def)
  then have "InUTC t" by (metis gotime.select_convs(2) option.inject)
  with w show "CanonicalJSON p = Inr b \<and> InUTC (Timestamp p)" by simp
next
  assume a: "CanonicalJSON p = Inr b \<and> InUTC (Timestamp p)"
  then have c: "canonical_payload p" "b = bytes_of (marshalProjection (projection p))"
    by (auto simp: CanonicalJSON_iff)
  have "time_Parse (format_RFC3339Nano (Instant (Timestamp p))) = Some (Timestamp p)"
    using time_Parse_format [of "Instant (Timestamp p)"] c(1) a by (auto simp: canonical_payload_def)
  moreover have eta: "\<lparr>LogID = LogID p, KeyID = KeyID p, MMRSize = MMRSize p, Root = Root p, PrevSize = PrevSize p,
      PrevRoot = PrevRoot p, Timestamp = Timestamp p\<rparr> = p" by simp
  ultimately show "ParsePayload b = Inr p"
    using a c projection_decodes [OF c(1)] length_projection [OF c(1)]
    by (simp add: ParsePayload_def Let_def not_less eta)
qed

text \<open>The signing body determines the payload, so its digest does too, up to a hash clash.\<close>

lemma CanonicalJSON_inj:
  assumes "CanonicalJSON p = Inr b" "CanonicalJSON q = Inr b"
  shows "p\<lparr>Timestamp := Timestamp q\<rparr> = q" "Instant (Timestamp p) = Instant (Timestamp q)"
proof -
  have c: "canonical_payload p" "canonical_payload q" "marshalProjection (projection p) = marshalProjection (projection q)"
    using assms by (auto simp: CanonicalJSON_iff)
  then have eq: "wire_of p = wire_of q" using projection_decodes by (metis option.inject)
  have "LogID p = LogID q" "KeyID p = KeyID q" "MMRSize p = MMRSize q" "Root p = Root q"
    "PrevSize p = PrevSize q" "PrevRoot p = PrevRoot q"
    using arg_cong [OF eq, of RwLogID] arg_cong [OF eq, of RwKeyID] arg_cong [OF eq, of RwMMRSize]
      arg_cong [OF eq, of RwRoot] arg_cong [OF eq, of RwPrevSize] arg_cong [OF eq, of RwPrevRoot]
    by simp_all
  then show "p\<lparr>Timestamp := Timestamp q\<rparr> = q" by simp
  have f: "format_RFC3339Nano (Instant (Timestamp p)) = format_RFC3339Nano (Instant (Timestamp q))"
    using arg_cong [OF eq, of RwTimestamp] by simp
  have "time_Parse (format_RFC3339Nano (Instant (Timestamp r))) = Some \<lparr>Instant = Instant (Timestamp r), InUTC = True\<rparr>"
    if "canonical_payload r" for r
    using that by (intro time_Parse_format) (simp_all add: canonical_payload_def)
  from this [OF c(1)] this [OF c(2)] show "Instant (Timestamp p) = Instant (Timestamp q)"
    unfolding f by simp
qed

end
