(* ===== verification/Checkpoint_Record.thy ===== *)
theory Checkpoint_Record
  imports Checkpoint_Payload Mmr_Tree "HOL-Library.AList"
begin

text \<open>
  Signed checkpoint statements: \<open>Record\<close>, \<open>ParseRecord\<close>, \<open>EntryHash\<close>, \<open>VerifySignature\<close>, the
  Ed25519 signer and the CBOR claims of \<open>checkpoint/checkpoint.go\<close>.

  \<open>veraison/go-cose\<close> and \<open>fxamacker/cbor\<close> are the parameter \<open>cs\<close>, a record of the calls the package
  makes. A decoded message exposes its header maps as association lists in the order Go would
  iterate them, keyed by the dynamic values that the type switches of the code can tell apart.
\<close>

section \<open>The COSE and CBOR libraries\<close>

datatype any =
    AnyInt64 int | AnyUint64 uint64 | AnyInt int | AnyString string | AnyBytes bytes
  | AnySlice "any list" | AnyMap "(any \<times> any) list" | AnyCWTClaims "(any \<times> any) list" | AnyOther

type_synonym header = "(any \<times> any) list"

record Sign1Message =
  Protected :: header
  Unprotected :: header
  RawProtected :: bytes
  MsgPayload :: bytes
  Signature :: bytes

record wireConsistencyProof =
  SizeA :: uint64
  SizeB :: uint64
  WpOldPeaks :: "bytes list"
  WpWitness :: "bytes list list"
  WpNewPeaks :: "bytes list"

record wireClaims =
  WcKind :: string
  WcLogSize :: uint64
  WcCommitment :: bytes
  WcPrevSize :: uint64
  WcPrevCommitment :: bytes
  WcIssuedAt :: string
  WcCadence :: "uint64 option"
  WcConsistencyProof :: "wireConsistencyProof option"

record cose =
  cose_UnmarshalCBOR :: "bytes \<Rightarrow> Sign1Message result"
  cose_MarshalCBOR :: "Sign1Message \<Rightarrow> bytes result"
  cose_Algorithm :: "header \<Rightarrow> int result"
  cose_SetAlgorithm :: "int \<Rightarrow> header \<Rightarrow> header"
  cose_SetCWTClaims :: "header \<Rightarrow> header \<Rightarrow> header result"
  cose_AlgorithmEdDSA :: int
  cose_HeaderLabelContentType :: any
  cose_HeaderLabelKeyID :: any
  cose_HeaderLabelCWTClaims :: any
  cose_CWTClaimIssuer :: any
  cose_CWTClaimSubject :: any
  cose_NewVerifier :: "bytes \<Rightarrow> unit result"
  cose_Verify :: "bytes \<Rightarrow> Sign1Message \<Rightarrow> unit result"
  cose_NewSigner :: "bytes \<Rightarrow> unit result"
  cose_Sign :: "bytes \<Rightarrow> Sign1Message \<Rightarrow> Sign1Message result"
  cbor_claims_Unmarshal :: "bytes \<Rightarrow> wireClaims result"
  cbor_claims_Marshal :: "wireClaims \<Rightarrow> bytes result"
  cbor_peaks_Unmarshal :: "bytes \<Rightarrow> bytes list result"
  cbor_peaks_Marshal :: "bytes list \<Rightarrow> bytes result"

section \<open>Claims\<close>

definition ContentType :: string where "ContentType = ''application/cll-checkpoint+cbor''"

definition wireKind :: string where "wireKind = ''cll-checkpoint''"

definition rootFromPeaks :: "dtmmr \<Rightarrow> bytes list \<Rightarrow> bytes" where
  "rootFromPeaks dt peaks = RootFromPeaks dt peaks"

definition validatePeakCommitments ::
    "dtmmr \<Rightarrow> Payload \<Rightarrow> bytes list \<Rightarrow> bytes list \<Rightarrow> unit result" where
  "validatePeakCommitments dt payload newPeaks prevPeaks =
     (if newPeaks = [] \<or> hex_EncodeToString (rootFromPeaks dt newPeaks) \<noteq> Root payload
      then Inl (ErrMsg ''checkpoint peaks do not match root'')
      else if PrevSize payload = 0
      then (if prevPeaks \<noteq> [] then Inl (ErrMsg ''first checkpoint cannot carry previous peaks'') else Inr ())
      else if prevPeaks = [] \<or> hex_EncodeToString (rootFromPeaks dt prevPeaks) \<noteq> PrevRoot payload
      then Inl (ErrMsg ''checkpoint previous peaks do not match root'')
      else Inr ())"

definition bad_cadence :: "uint64 option \<Rightarrow> bool" where
  "bad_cadence cadence =
     (case cadence of None \<Rightarrow> False | Some c \<Rightarrow> c = 0 \<or> c > MaxPortableInteger)"

definition encodeWireClaims :: "cose \<Rightarrow> dtmmr \<Rightarrow> Payload \<Rightarrow> bytes list \<Rightarrow> bytes list
    \<Rightarrow> ConsistencyProof option \<Rightarrow> uint64 option \<Rightarrow> bytes result" where
  "encodeWireClaims cs dt payload newPeaks prevPeaks pf cadence =
     rbind (validatePeakCommitments dt payload newPeaks prevPeaks) (\<lambda>_.
     if bad_cadence cadence
     then Inl (ErrMsg ''checkpoint cadence must be a positive portable integer'')
     else if PrevSize payload = 0 \<and> pf \<noteq> None
     then Inl (ErrMsg ''first checkpoint cannot carry a consistency proof'')
     else if PrevSize payload > 0 \<and>
       (case pf of
          None \<Rightarrow> True
        | Some proof_obj \<Rightarrow> CpOldSize proof_obj \<noteq> PrevSize payload \<or> CpNewSize proof_obj \<noteq> MMRSize payload
            \<or> \<not> VerifyConsistency dt (rootFromPeaks dt prevPeaks) (rootFromPeaks dt newPeaks) proof_obj)
     then Inl (ErrMsg ''checkpoint consistency proof is required and must bridge the declared checkpoints'')
     else
     rbind (CommitmentObject (cbor_peaks_Marshal cs) newPeaks) (\<lambda>newCommitment.
     rbind (if PrevSize payload > 0 then CommitmentObject (cbor_peaks_Marshal cs) prevPeaks else Inr [])
       (\<lambda>previousCommitment.
     rbind (formatTimestamp (Timestamp payload)) (\<lambda>timestamp.
       cbor_claims_Marshal cs
         \<lparr>WcKind = wireKind, WcLogSize = MMRSize payload, WcCommitment = newCommitment,
          WcPrevSize = PrevSize payload, WcPrevCommitment = previousCommitment,
          WcIssuedAt = timestamp, WcCadence = cadence,
          WcConsistencyProof = map_option (\<lambda>p. \<lparr>SizeA = CpOldSize p, SizeB = CpNewSize p,
            WpOldPeaks = CpOldPeaks p, WpWitness = CpWitness p, WpNewPeaks = CpNewPeaks p\<rparr>) pf\<rparr>))))"

definition decodeWireClaims :: "cose \<Rightarrow> bytes \<Rightarrow> wireClaims result" where
  "decodeWireClaims cs data =
     (case cbor_claims_Unmarshal cs data of
        Inl _ \<Rightarrow> Inl (ErrMsg ''decode checkpoint claims'')
      | Inr claims \<Rightarrow>
          if cbor_claims_Marshal cs claims \<noteq> Inr data
          then Inl (ErrMsg ''checkpoint claims are not canonical'')
          else if WcKind claims \<noteq> wireKind \<or> WcLogSize claims = 0 \<or> length (WcCommitment claims) = 0
            \<or> WcIssuedAt claims = []
          then Inl (ErrMsg ''checkpoint claims are invalid'')
          else if bad_cadence (WcCadence claims)
          then Inl (ErrMsg ''checkpoint cadence must be a positive portable integer'')
          else Inr claims)"

definition decodeCommitment :: "cose \<Rightarrow> bytes \<Rightarrow> bytes list result" where
  "decodeCommitment cs data =
     (case cbor_peaks_Unmarshal cs data of
        Inl _ \<Rightarrow> Inl (ErrMsg ''decode checkpoint commitment'')
      | Inr peaks \<Rightarrow>
          if CommitmentObject (cbor_peaks_Marshal cs) peaks \<noteq> Inr data
          then Inl (ErrMsg ''checkpoint commitment is not canonical'')
          else Inr peaks)"

definition protectedCWTClaims :: "any option \<Rightarrow> header result" where
  "protectedCWTClaims value =
     (case value of
        Some (AnyCWTClaims claims) \<Rightarrow> Inr claims
      | Some (AnyMap claims) \<Rightarrow> Inr claims
      | _ \<Rightarrow> Inl (ErrMsg ''invalid CWT claims''))"

section \<open>Records\<close>

record Record =
  RVersion :: uint64
  RKind :: string
  RLogID :: string
  RMMRSize :: uint64
  RRoot :: string
  RPrevSize :: uint64
  RPrevRoot :: string
  RKeyID :: string
  RTimestamp :: gotime
  RCadence :: "uint64 option"
  RNewPeaks :: "bytes list"
  RPrevPeaks :: "bytes list"
  RConsistencyProof :: "ConsistencyProof option"
  Rstatement :: bytes

definition record_Payload :: "Record \<Rightarrow> Payload" where
  "record_Payload r = \<lparr>LogID = RLogID r, KeyID = RKeyID r, MMRSize = RMMRSize r, Root = RRoot r,
     PrevSize = RPrevSize r, PrevRoot = RPrevRoot r, Timestamp = RTimestamp r\<rparr>"

text \<open>The header checks of \<open>ParseRecord\<close>: the key id, the issuer and the subject of the statement.\<close>

definition checkHeaders :: "cose \<Rightarrow> Sign1Message \<Rightarrow> (bytes \<times> string \<times> string) result" where
  "checkHeaders cs message =
     (if length (Unprotected message) \<noteq> 0 \<or> length (Protected message) \<noteq> 4
      then Inl (ErrMsg ''checkpoint COSE headers are invalid'')
      else if cose_Algorithm cs (Protected message) \<noteq> Inr (cose_AlgorithmEdDSA cs)
      then Inl (ErrMsg ''checkpoint COSE algorithm is invalid'')
      else if map_of (Protected message) (cose_HeaderLabelContentType cs) \<noteq> Some (AnyString ContentType)
      then Inl (ErrMsg ''checkpoint COSE content type is invalid'')
      else case map_of (Protected message) (cose_HeaderLabelKeyID cs) of
        Some (AnyBytes kid) \<Rightarrow>
          if length kid \<noteq> PublicKeySize then Inl (ErrMsg ''checkpoint COSE key id is invalid'')
          else (case protectedCWTClaims (map_of (Protected message) (cose_HeaderLabelCWTClaims cs)) of
              Inl _ \<Rightarrow> Inl (ErrMsg ''checkpoint CWT claims are invalid'')
            | Inr claims \<Rightarrow>
                if length claims \<noteq> 2 then Inl (ErrMsg ''checkpoint CWT claims are invalid'')
                else (case (map_of claims (cose_CWTClaimIssuer cs), map_of claims (cose_CWTClaimSubject cs)) of
                    (Some (AnyString issuer), Some (AnyString subject)) \<Rightarrow> Inr (kid, issuer, subject)
                  | _ \<Rightarrow> Inl (ErrMsg ''checkpoint CWT identity is invalid'')))
      | _ \<Rightarrow> Inl (ErrMsg ''checkpoint COSE key id is invalid''))"

definition wire_proof :: "wireConsistencyProof \<Rightarrow> ConsistencyProof" where
  "wire_proof w = \<lparr>CpV = 1, CpKind = ''consistency'', CpOldSize = SizeA w, CpNewSize = SizeB w,
     CpOldPeaks = WpOldPeaks w, CpWitness = WpWitness w, CpNewPeaks = WpNewPeaks w\<rparr>"

text \<open>The predecessor checks of \<open>ParseRecord\<close>.\<close>

definition checkPredecessor :: "dtmmr \<Rightarrow> Record \<Rightarrow> Record result" where
  "checkPredecessor dt r =
     (if RPrevSize r = 0 \<and> RPrevPeaks r \<noteq> [] then Inl (ErrMsg ''first checkpoint has a previous commitment'')
      else if RPrevSize r \<noteq> 0 \<and> RPrevPeaks r = []
      then Inl (ErrMsg ''checkpoint previous commitment is required'')
      else
        let r = (if RPrevSize r = 0 then r\<lparr>RPrevRoot := []\<rparr> else r)
        in if RPrevSize r = 0
           then (if RConsistencyProof r \<noteq> None
                 then Inl (ErrMsg ''first checkpoint cannot carry a consistency proof'') else Inr r)
           else (case RConsistencyProof r of
               None \<Rightarrow> Inl (ErrMsg ''checkpoint consistency proof is invalid'')
             | Some proof_obj \<Rightarrow>
                 if VerifyConsistency dt (rootFromPeaks dt (RPrevPeaks r)) (rootFromPeaks dt (RNewPeaks r)) proof_obj
                 then Inr r else Inl (ErrMsg ''checkpoint consistency proof is invalid'')))"

definition ParseRecord :: "cose \<Rightarrow> dtmmr \<Rightarrow> bytes \<Rightarrow> Record result" where
  "ParseRecord cs dt data =
     (if length data = 0 \<or> length data > MaxEncodedBytes
      then Inl (ErrMsg ''signed checkpoint size is invalid'')
      else case cose_UnmarshalCBOR cs data of
        Inl _ \<Rightarrow> Inl (ErrMsg ''decode signed checkpoint COSE'')
      | Inr message \<Rightarrow>
     if cose_MarshalCBOR cs message \<noteq> Inr data
     then Inl (ErrMsg ''signed checkpoint COSE is not canonical'')
     else
     rbind (checkHeaders cs message) (\<lambda>(kid, issuer, subject).
     rbind (decodeWireClaims cs (MsgPayload message)) (\<lambda>wire.
     if subject \<noteq> issuer @ ''#'' @ FormatUint (WcLogSize wire)
     then Inl (ErrMsg ''checkpoint CWT subject is invalid'')
     else
     rbind (decodeCommitment cs (WcCommitment wire)) (\<lambda>newPeaks.
     rbind (if length (WcPrevCommitment wire) > 0 then decodeCommitment cs (WcPrevCommitment wire) else Inr [])
       (\<lambda>prevPeaks.
     case time_Parse (WcIssuedAt wire) of
       None \<Rightarrow> Inl (ErrMsg ''checkpoint timestamp is invalid'')
     | Some timestamp \<Rightarrow>
         rbind (checkPredecessor dt
           \<lparr>RVersion = 1, RKind = ''mmr_checkpoint'', RLogID = issuer, RMMRSize = WcLogSize wire,
            RRoot = hex_EncodeToString (rootFromPeaks dt newPeaks), RPrevSize = WcPrevSize wire,
            RPrevRoot = hex_EncodeToString (rootFromPeaks dt prevPeaks),
            RKeyID = hex_EncodeToString kid, RTimestamp = timestamp, RCadence = WcCadence wire,
            RNewPeaks = newPeaks, RPrevPeaks = prevPeaks,
            RConsistencyProof = map_option wire_proof (WcConsistencyProof wire), Rstatement = data\<rparr>)
         (\<lambda>record.
         rbind (canonicalFields (record_Payload record)) (\<lambda>_. Inr record)))))))"

definition record_EntryHash :: "Record \<Rightarrow> bytes result" where
  "record_EntryHash r = rbind (Digest (record_Payload r)) (\<lambda>digest. Inr (sha256 digest))"

definition VerifySignature :: "cose \<Rightarrow> Record \<Rightarrow> unit result" where
  "VerifySignature cs r =
     (case hex_DecodeString (RKeyID r) of
        None \<Rightarrow> Inl (ErrMsg ''invalid checkpoint public key'')
      | Some public \<Rightarrow>
          if length public \<noteq> PublicKeySize then Inl (ErrMsg ''invalid checkpoint public key'')
          else (case cose_UnmarshalCBOR cs (Rstatement r) of
              Inl _ \<Rightarrow> Inl (ErrMsg ''decode checkpoint signature'')
            | Inr message \<Rightarrow>
                rbind (cose_NewVerifier cs public) (\<lambda>_.
                case cose_Verify cs public message of
                  Inl _ \<Rightarrow> Inl (ErrMsg ''verify checkpoint signature'')
                | Inr _ \<Rightarrow> Inr ())))"

section \<open>The signer\<close>

definition PrivateKeySize :: nat where "PrivateKeySize = 64"

record Ed25519Signer =
  SgPrivate :: bytes
  SgPublic :: bytes

text \<open>The public half of an \<open>ed25519.PrivateKey\<close> is its last 32 bytes.\<close>

definition NewEd25519Signer :: "bytes \<Rightarrow> Ed25519Signer result" where
  "NewEd25519Signer priv =
     (if length priv \<noteq> PrivateKeySize then Inl (ErrMsg ''Ed25519 private key is required'')
      else Inr \<lparr>SgPrivate = priv, SgPublic = drop 32 priv\<rparr>)"

definition signer_KeyID :: "Ed25519Signer \<Rightarrow> string" where
  "signer_KeyID s = hex_EncodeToString (SgPublic s)"

definition VerifyCheckpoint :: "cose \<Rightarrow> dtmmr \<Rightarrow> Ed25519Signer \<Rightarrow> bytes \<Rightarrow> bytes \<Rightarrow> unit result" where
  "VerifyCheckpoint cs dt s payload statement =
     rbind (ParsePayload payload) (\<lambda>parsedPayload.
     rbind (ParseRecord cs dt statement) (\<lambda>record.
     if record_Payload record \<noteq> parsedPayload \<or> RKeyID record \<noteq> signer_KeyID s
     then Inl (ErrMsg ''checkpoint payload mismatch'')
     else VerifySignature cs record))"

definition signCheckpoint :: "cose \<Rightarrow> dtmmr \<Rightarrow> error option \<Rightarrow> Ed25519Signer \<Rightarrow> bytes \<Rightarrow> bytes list \<Rightarrow> bytes list
    \<Rightarrow> ConsistencyProof option \<Rightarrow> uint64 option \<Rightarrow> bytes result" where
  "signCheckpoint cs dt ctxErr s payload newPeaks prevPeaks pf cadence =
     (case ctxErr of Some err \<Rightarrow> Inl err | None \<Rightarrow>
      case ParsePayload payload of
        Inl _ \<Rightarrow> Inl (ErrMsg ''checkpoint payload key does not match signer'')
      | Inr parsed \<Rightarrow>
     if KeyID parsed \<noteq> signer_KeyID s
     then Inl (ErrMsg ''checkpoint payload key does not match signer'')
     else
     rbind (encodeWireClaims cs dt parsed newPeaks prevPeaks pf cadence) (\<lambda>claims.
     let headers = cose_SetAlgorithm cs (cose_AlgorithmEdDSA cs) [];
         headers = AList.update (cose_HeaderLabelContentType cs) (AnyString ContentType) headers;
         headers = AList.update (cose_HeaderLabelKeyID cs) (AnyBytes (SgPublic s)) headers
     in
     rbind (cose_SetCWTClaims cs
         [(cose_CWTClaimIssuer cs, AnyString (LogID parsed)),
          (cose_CWTClaimSubject cs, AnyString (LogID parsed @ ''#'' @ FormatUint (MMRSize parsed)))] headers)
       (\<lambda>headers.
     rbind (cose_NewSigner cs (SgPrivate s)) (\<lambda>_.
     rbind (cose_Sign cs (SgPrivate s)
         \<lparr>Protected = headers, Unprotected = [], RawProtected = [], MsgPayload = claims, Signature = []\<rparr>)
       (\<lambda>message.
     rbind (cose_MarshalCBOR cs message) (\<lambda>encoded.
     rbind (VerifyCheckpoint cs dt s payload encoded) (\<lambda>_. Inr encoded)))))))"

definition SignCheckpoint :: "cose \<Rightarrow> dtmmr \<Rightarrow> error option \<Rightarrow> Ed25519Signer \<Rightarrow> bytes \<Rightarrow> bytes list \<Rightarrow> bytes list
    \<Rightarrow> ConsistencyProof option \<Rightarrow> bytes result" where
  "SignCheckpoint cs dt ctxErr s payload newPeaks prevPeaks pf =
     signCheckpoint cs dt ctxErr s payload newPeaks prevPeaks pf None"

definition SignCheckpointWithCadence :: "cose \<Rightarrow> dtmmr \<Rightarrow> error option \<Rightarrow> Ed25519Signer \<Rightarrow> bytes \<Rightarrow> bytes list \<Rightarrow> bytes list
    \<Rightarrow> ConsistencyProof option \<Rightarrow> uint64 \<Rightarrow> bytes result" where
  "SignCheckpointWithCadence cs dt ctxErr s payload newPeaks prevPeaks pf cadence =
     signCheckpoint cs dt ctxErr s payload newPeaks prevPeaks pf (Some cadence)"

end
