(* ===== verification/Checkpoint_Laws.thy ===== *)
theory Checkpoint_Laws
  imports Checkpoint_Record Mmr_Properties
begin

text \<open>
  What \<open>ParseRecord\<close> guarantees about a statement it accepts, whatever the COSE and CBOR libraries
  do, and what a library that keeps its documented laws adds: a statement that the signer
  assembles is accepted and carries the payload that was signed.
\<close>

section \<open>Accepted records\<close>

lemma checkPredecessor_Inr:
  assumes "checkPredecessor dt r = Inr r'"
  shows "r' = (if RPrevSize r = 0 then r\<lparr>RPrevRoot := []\<rparr> else r)"
    and "RPrevSize r = 0 \<Longrightarrow> RPrevPeaks r = [] \<and> RConsistencyProof r = None"
    and "RPrevSize r \<noteq> 0 \<Longrightarrow> RPrevPeaks r \<noteq> [] \<and> (\<exists>pf. RConsistencyProof r = Some pf \<and>
      VerifyConsistency dt (RootFromPeaks dt (RPrevPeaks r)) (RootFromPeaks dt (RNewPeaks r)) pf)"
  using assms by (auto simp: checkPredecessor_def rootFromPeaks_def Let_def split: if_splits option.splits)

lemma ParseRecord_Inr:
  assumes "ParseRecord cs dt data = Inr r"
  obtains message kid issuer wire where
    "0 < length data" "length data \<le> MaxEncodedBytes"
    "cose_UnmarshalCBOR cs data = Inr message" "cose_MarshalCBOR cs message = Inr data"
    "checkHeaders cs message = Inr (kid, issuer, issuer @ ''#'' @ FormatUint (WcLogSize wire))"
    "decodeWireClaims cs (MsgPayload message) = Inr wire"
    "decodeCommitment cs (WcCommitment wire) = Inr (RNewPeaks r)"
    "if WcPrevCommitment wire = [] then RPrevPeaks r = []
     else decodeCommitment cs (WcPrevCommitment wire) = Inr (RPrevPeaks r)"
    "time_Parse (WcIssuedAt wire) = Some (RTimestamp r)"
    "RLogID r = issuer" "RKeyID r = hex_EncodeToString kid" "RMMRSize r = WcLogSize wire"
    "RPrevSize r = WcPrevSize wire" "RCadence r = WcCadence wire"
    "RConsistencyProof r = map_option wire_proof (WcConsistencyProof wire)"
    "Rstatement r = data" "RVersion r = 1" "RKind r = ''mmr_checkpoint''"
    "RRoot r = hex_EncodeToString (RootFromPeaks dt (RNewPeaks r))"
    "RPrevRoot r = (if RPrevSize r = 0 then [] else hex_EncodeToString (RootFromPeaks dt (RPrevPeaks r)))"
    "RPrevSize r = 0 \<longrightarrow> RPrevPeaks r = [] \<and> RConsistencyProof r = None"
    "RPrevSize r \<noteq> 0 \<longrightarrow> RPrevPeaks r \<noteq> [] \<and> (\<exists>pf. RConsistencyProof r = Some pf \<and>
      VerifyConsistency dt (RootFromPeaks dt (RPrevPeaks r)) (RootFromPeaks dt (RNewPeaks r)) pf)"
    "canonical_payload (record_Payload r)"
proof -
  obtain message where m: "0 < length data" "length data \<le> MaxEncodedBytes" "cose_UnmarshalCBOR cs data = Inr message"
    "cose_MarshalCBOR cs message = Inr data"
    using assms by (auto simp: ParseRecord_def not_less split: if_splits sum.splits)
  have rest: "rbind (checkHeaders cs message) (\<lambda>(kid, issuer, subject).
     rbind (decodeWireClaims cs (MsgPayload message)) (\<lambda>wire.
     if subject \<noteq> issuer @ ''#'' @ FormatUint (WcLogSize wire)
     then Inl (ErrMsg ''checkpoint CWT subject is invalid'')
     else
     rbind (decodeCommitment cs (WcCommitment wire)) (\<lambda>newPeaks.
     rbind (if length (WcPrevCommitment wire) > 0 then decodeCommitment cs (WcPrevCommitment wire) else Inr [])
       (\<lambda>prevPeaks.
     case time_Parse (WcIssuedAt wire) of
       None \<Rightarrow> Inl (ErrMsg ''checkpoint timestamp is invalid'')
     | Some timestamp \<Rightarrow>
         rbind (checkPredecessor dt
           \<lparr>RVersion = 1, RKind = ''mmr_checkpoint'', RLogID = issuer, RMMRSize = WcLogSize wire,
            RRoot = hex_EncodeToString (rootFromPeaks dt newPeaks), RPrevSize = WcPrevSize wire,
            RPrevRoot = hex_EncodeToString (rootFromPeaks dt prevPeaks),
            RKeyID = hex_EncodeToString kid, RTimestamp = timestamp, RCadence = WcCadence wire,
            RNewPeaks = newPeaks, RPrevPeaks = prevPeaks,
            RConsistencyProof = map_option wire_proof (WcConsistencyProof wire), Rstatement = data\<rparr>)
         (\<lambda>record.
         rbind (canonicalFields (record_Payload record)) (\<lambda>_. Inr record)))))) = Inr r"
    using assms m by (simp add: ParseRecord_def)
  obtain kid issuer subject where h: "checkHeaders cs message = Inr (kid, issuer, subject)"
    using rest by (cases "checkHeaders cs message") auto
  obtain wire where w: "decodeWireClaims cs (MsgPayload message) = Inr wire"
    using rest h by (cases "decodeWireClaims cs (MsgPayload message)") auto
  obtain newPeaks where n: "decodeCommitment cs (WcCommitment wire) = Inr newPeaks"
    using rest h w by (cases "decodeCommitment cs (WcCommitment wire)") (auto split: if_splits)
  have s: "subject = issuer @ ''#'' @ FormatUint (WcLogSize wire)"
    using rest h w by (auto split: if_splits)
  obtain prevPeaks where p: "(if length (WcPrevCommitment wire) > 0
      then decodeCommitment cs (WcPrevCommitment wire) else Inr []) = Inr prevPeaks"
    using rest h w n s
    by (cases "if length (WcPrevCommitment wire) > 0 then decodeCommitment cs (WcPrevCommitment wire) else Inr []") auto
  obtain t where t: "time_Parse (WcIssuedAt wire) = Some t"
    using rest h w n s p by (cases "time_Parse (WcIssuedAt wire)") auto
  let ?r = "\<lparr>RVersion = 1, RKind = ''mmr_checkpoint'', RLogID = issuer, RMMRSize = WcLogSize wire,
            RRoot = hex_EncodeToString (rootFromPeaks dt newPeaks), RPrevSize = WcPrevSize wire,
            RPrevRoot = hex_EncodeToString (rootFromPeaks dt prevPeaks),
            RKeyID = hex_EncodeToString kid, RTimestamp = t, RCadence = WcCadence wire,
            RNewPeaks = newPeaks, RPrevPeaks = prevPeaks,
            RConsistencyProof = map_option wire_proof (WcConsistencyProof wire), Rstatement = data\<rparr>"
  have c: "checkPredecessor dt ?r = Inr r" "canonical_payload (record_Payload r)"
    using rest h w n s p t by (auto simp: rbind_Inr_iff canonicalFields_iff)
  note q = checkPredecessor_Inr [OF c(1)]
  show ?thesis
  proof (rule that [OF m h [unfolded s] w])
    show "if WcPrevCommitment wire = [] then RPrevPeaks r = []
      else decodeCommitment cs (WcPrevCommitment wire) = Inr (RPrevPeaks r)"
      using p q(1) by (auto split: if_splits)
    show "RRoot r = hex_EncodeToString (RootFromPeaks dt (RNewPeaks r))"
      "RPrevRoot r = (if RPrevSize r = 0 then [] else hex_EncodeToString (RootFromPeaks dt (RPrevPeaks r)))"
      using q(1) by (simp_all add: rootFromPeaks_def)
    show "RPrevSize r = 0 \<longrightarrow> RPrevPeaks r = [] \<and> RConsistencyProof r = None" using q(1,2) by auto
    show "RPrevSize r \<noteq> 0 \<longrightarrow> RPrevPeaks r \<noteq> [] \<and> (\<exists>pf. RConsistencyProof r = Some pf \<and>
      VerifyConsistency dt (RootFromPeaks dt (RPrevPeaks r)) (RootFromPeaks dt (RNewPeaks r)) pf)"
      using q(1,3) by auto
  qed (use q(1) n t c in simp_all)
qed

lemma ParseRecord_intro:
  assumes "0 < length data" "length data \<le> MaxEncodedBytes"
    "cose_UnmarshalCBOR cs data = Inr message" "cose_MarshalCBOR cs message = Inr data"
    "checkHeaders cs message = Inr (kid, issuer, issuer @ ''#'' @ FormatUint (WcLogSize wire))"
    "decodeWireClaims cs (MsgPayload message) = Inr wire"
    "decodeCommitment cs (WcCommitment wire) = Inr newPeaks"
    "if WcPrevCommitment wire = [] then prevPeaks = [] else decodeCommitment cs (WcPrevCommitment wire) = Inr prevPeaks"
    "time_Parse (WcIssuedAt wire) = Some t"
    and "checkPredecessor dt
           \<lparr>RVersion = 1, RKind = ''mmr_checkpoint'', RLogID = issuer, RMMRSize = WcLogSize wire,
            RRoot = hex_EncodeToString (rootFromPeaks dt newPeaks), RPrevSize = WcPrevSize wire,
            RPrevRoot = hex_EncodeToString (rootFromPeaks dt prevPeaks),
            RKeyID = hex_EncodeToString kid, RTimestamp = t, RCadence = WcCadence wire,
            RNewPeaks = newPeaks, RPrevPeaks = prevPeaks,
            RConsistencyProof = map_option wire_proof (WcConsistencyProof wire), Rstatement = data\<rparr> = Inr r"
    and "canonical_payload (record_Payload r)"
  shows "ParseRecord cs dt data = Inr r"
proof -
  have "canonicalFields (record_Payload r) = Inr (projection (record_Payload r))"
    using assms(11) by (simp add: canonicalFields_iff)
  moreover have "(if length (WcPrevCommitment wire) > 0 then decodeCommitment cs (WcPrevCommitment wire) else Inr []) = Inr prevPeaks"
    using assms(8) by (auto split: if_splits)
  ultimately show ?thesis using assms by (simp add: ParseRecord_def not_less)
qed

section \<open>The laws of the COSE and CBOR libraries\<close>

text \<open>
  What the package relies on: header accessors read what was set; an encoded message decodes to
  one with the same readable headers and payload, which encodes to the same bytes and verifies
  alike; Ed25519 signatures made with a private key verify under its public half; CBOR decoding
  inverts encoding.
\<close>

locale cose_lib =
  fixes cs :: cose and algLabel algValue :: any
  assumes labels: "distinct [algLabel, cose_HeaderLabelContentType cs, cose_HeaderLabelKeyID cs, cose_HeaderLabelCWTClaims cs]"
    and claim_labels: "cose_CWTClaimIssuer cs \<noteq> cose_CWTClaimSubject cs"
    and set_algorithm: "cose_SetAlgorithm cs (cose_AlgorithmEdDSA cs) [] = [(algLabel, algValue)]"
    and get_algorithm: "map_of h algLabel = Some algValue \<Longrightarrow> cose_Algorithm cs h = Inr (cose_AlgorithmEdDSA cs)"
    and set_claims: "cose_SetCWTClaims cs claims h = Inr h' \<Longrightarrow>
      h' = AList.update (cose_HeaderLabelCWTClaims cs) (AnyCWTClaims claims) h"
    and new_verifier: "length key = 32 \<Longrightarrow> cose_NewVerifier cs key = Inr ()"
    and sign: "length key = 64 \<Longrightarrow> cose_Sign cs key m = Inr m' \<Longrightarrow> Protected m' = Protected m
      \<and> Unprotected m' = Unprotected m \<and> MsgPayload m' = MsgPayload m \<and> cose_Verify cs (drop 32 key) m' = Inr ()"
    and message_codec: "cose_MarshalCBOR cs m = Inr b \<Longrightarrow> \<exists>m'. cose_UnmarshalCBOR cs b = Inr m'
      \<and> cose_MarshalCBOR cs m' = Inr b \<and> MsgPayload m' = MsgPayload m
      \<and> length (Unprotected m') = length (Unprotected m) \<and> length (Protected m') = length (Protected m)
      \<and> cose_Algorithm cs (Protected m') = cose_Algorithm cs (Protected m)
      \<and> map_of (Protected m') (cose_HeaderLabelContentType cs) = map_of (Protected m) (cose_HeaderLabelContentType cs)
      \<and> map_of (Protected m') (cose_HeaderLabelKeyID cs) = map_of (Protected m) (cose_HeaderLabelKeyID cs)
      \<and> protectedCWTClaims (map_of (Protected m') (cose_HeaderLabelCWTClaims cs))
        = protectedCWTClaims (map_of (Protected m) (cose_HeaderLabelCWTClaims cs))
      \<and> (\<forall>key. cose_Verify cs key m' = cose_Verify cs key m)"
    and claims_codec: "cbor_claims_Marshal cs w = Inr b \<Longrightarrow> cbor_claims_Unmarshal cs b = Inr w"
    and peaks_codec: "cbor_peaks_Marshal cs ps = Inr b \<Longrightarrow> cbor_peaks_Unmarshal cs b = Inr ps \<and> b \<noteq> []"
begin

lemma decodeCommitment_encode:
  "CommitmentObject (cbor_peaks_Marshal cs) ps = Inr b \<Longrightarrow> decodeCommitment cs b = Inr ps \<and> b \<noteq> []"
  using peaks_codec by (auto simp: decodeCommitment_def CommitmentObject_def split: if_splits)

text \<open>The claims of a payload decode to what was encoded, and carry a valid predecessor.\<close>

lemma encodeWireClaims_decode:
  assumes e: "encodeWireClaims cs dt p newPeaks prevPeaks pf cadence = Inr claims"
    and p: "canonical_payload p" "InUTC (Timestamp p)"
  obtains wire where "decodeWireClaims cs claims = Inr wire" "WcLogSize wire = MMRSize p" "WcPrevSize wire = PrevSize p"
    "decodeCommitment cs (WcCommitment wire) = Inr newPeaks"
    "if WcPrevCommitment wire = [] then prevPeaks = [] else decodeCommitment cs (WcPrevCommitment wire) = Inr prevPeaks"
    "time_Parse (WcIssuedAt wire) = Some (Timestamp p)" "WcCadence wire = cadence"
    "map_option wire_proof (WcConsistencyProof wire) = pf"
    "hex_EncodeToString (RootFromPeaks dt newPeaks) = Root p"
    "PrevSize p = 0 \<longrightarrow> prevPeaks = [] \<and> pf = None"
    "PrevSize p \<noteq> 0 \<longrightarrow> prevPeaks \<noteq> [] \<and> hex_EncodeToString (RootFromPeaks dt prevPeaks) = PrevRoot p \<and>
      (\<exists>pf'. pf = Some pf' \<and> VerifyConsistency dt (RootFromPeaks dt prevPeaks) (RootFromPeaks dt newPeaks) pf')"
proof -
  let ?wp = "\<lambda>p. \<lparr>SizeA = CpOldSize p, SizeB = CpNewSize p, WpOldPeaks = CpOldPeaks p, WpWitness = CpWitness p, WpNewPeaks = CpNewPeaks p\<rparr>"
  have v: "validatePeakCommitments dt p newPeaks prevPeaks = Inr ()" and cad: "\<not> bad_cadence cadence"
    and first: "PrevSize p = 0 \<longrightarrow> pf = None"
    and pfv: "PrevSize p \<noteq> 0 \<longrightarrow> (\<exists>pf'. pf = Some pf' \<and> VerifyConsistency dt (RootFromPeaks dt prevPeaks) (RootFromPeaks dt newPeaks) pf')"
    using e by (auto simp: encodeWireClaims_def rbind_Inr_iff rootFromPeaks_def word_gt_0 split: if_splits option.splits)
  obtain nc pc ts where nc: "CommitmentObject (cbor_peaks_Marshal cs) newPeaks = Inr nc"
    and pc: "(if PrevSize p > 0 then CommitmentObject (cbor_peaks_Marshal cs) prevPeaks else Inr []) = Inr pc"
    and ts: "formatTimestamp (Timestamp p) = Inr ts"
    and m: "cbor_claims_Marshal cs \<lparr>WcKind = wireKind, WcLogSize = MMRSize p, WcCommitment = nc,
          WcPrevSize = PrevSize p, WcPrevCommitment = pc, WcIssuedAt = ts, WcCadence = cadence,
          WcConsistencyProof = map_option ?wp pf\<rparr> = Inr claims"
    using e by (auto simp: encodeWireClaims_def rbind_Inr_iff split: if_splits)
  let ?w = "\<lparr>WcKind = wireKind, WcLogSize = MMRSize p, WcCommitment = nc, WcPrevSize = PrevSize p,
          WcPrevCommitment = pc, WcIssuedAt = ts, WcCadence = cadence, WcConsistencyProof = map_option ?wp pf\<rparr>"
  have tp: "time_Parse ts = Some (Timestamp p)" "ts \<noteq> []"
    using ts p time_Parse_format [of "Instant (Timestamp p)"]
    by (auto simp: formatTimestamp_def canonical_payload_def Let_def format_RFC3339Nano_def)
  have "decodeWireClaims cs claims = Inr ?w"
    using claims_codec [OF m] m cad p(1) decodeCommitment_encode [OF nc] tp(2)
    by (simp add: decodeWireClaims_def canonical_payload_def)
  moreover have "map_option wire_proof (map_option ?wp pf) = pf"
    using first pfv by (cases pf) (auto simp: wire_proof_def VerifyConsistency_def split: if_splits)
  moreover have "if pc = [] then prevPeaks = [] else decodeCommitment cs pc = Inr prevPeaks"
    using pc v decodeCommitment_encode [of prevPeaks pc]
    by (auto simp: validatePeakCommitments_def word_gt_0 split: if_splits)
  ultimately show ?thesis
    using tp(1) v first pfv decodeCommitment_encode [OF nc]
    by (intro that [of ?w]) (auto simp: validatePeakCommitments_def rootFromPeaks_def split: if_splits)
qed

lemma signed_headers:
  assumes h: "cose_SetCWTClaims cs claims
      (AList.update (cose_HeaderLabelKeyID cs) (AnyBytes key)
        (AList.update (cose_HeaderLabelContentType cs) (AnyString ContentType)
          (cose_SetAlgorithm cs (cose_AlgorithmEdDSA cs) []))) = Inr headers"
    and claims: "claims = [(cose_CWTClaimIssuer cs, AnyString issuer), (cose_CWTClaimSubject cs, AnyString subject)]"
    and key: "length key = 32"
    and m: "Protected m = headers" "Unprotected m = []"
    and m': "length (Unprotected m') = length (Unprotected m)" "length (Protected m') = length (Protected m)"
      "cose_Algorithm cs (Protected m') = cose_Algorithm cs (Protected m)"
      "map_of (Protected m') (cose_HeaderLabelContentType cs) = map_of (Protected m) (cose_HeaderLabelContentType cs)"
      "map_of (Protected m') (cose_HeaderLabelKeyID cs) = map_of (Protected m) (cose_HeaderLabelKeyID cs)"
      "protectedCWTClaims (map_of (Protected m') (cose_HeaderLabelCWTClaims cs))
        = protectedCWTClaims (map_of (Protected m) (cose_HeaderLabelCWTClaims cs))"
  shows "checkHeaders cs m' = Inr (key, issuer, subject)"
proof -
  have hd: "headers = [(algLabel, algValue), (cose_HeaderLabelContentType cs, AnyString ContentType),
      (cose_HeaderLabelKeyID cs, AnyBytes key), (cose_HeaderLabelCWTClaims cs, AnyCWTClaims claims)]"
    using set_claims [OF h] labels by (simp add: set_algorithm)
  have "cose_Algorithm cs headers = Inr (cose_AlgorithmEdDSA cs)" by (rule get_algorithm) (simp add: hd)
  moreover have "map_of headers (cose_HeaderLabelContentType cs) = Some (AnyString ContentType)"
    "map_of headers (cose_HeaderLabelKeyID cs) = Some (AnyBytes key)"
    "map_of headers (cose_HeaderLabelCWTClaims cs) = Some (AnyCWTClaims claims)"
    using labels by (auto simp: hd)
  moreover have "map_of claims (cose_CWTClaimSubject cs) = Some (AnyString subject)"
    "map_of claims (cose_CWTClaimIssuer cs) = Some (AnyString issuer)" "length claims = 2"
    using claim_labels by (simp_all add: claims)
  ultimately show ?thesis
    using m m' key hd by (simp add: checkHeaders_def protectedCWTClaims_def PublicKeySize_def)
qed

lemma sign_complete:
  assumes p: "ParsePayload payload = Inr p" "KeyID p = signer_KeyID s"
    and s: "NewEd25519Signer key = Inr s" "cose_NewSigner cs key = Inr ()"
    and e: "encodeWireClaims cs dt p newPeaks prevPeaks pf cadence = Inr claims"
    and h: "cose_SetCWTClaims cs
         [(cose_CWTClaimIssuer cs, AnyString (LogID p)),
          (cose_CWTClaimSubject cs, AnyString (LogID p @ ''#'' @ FormatUint (MMRSize p)))]
      (AList.update (cose_HeaderLabelKeyID cs) (AnyBytes (SgPublic s))
        (AList.update (cose_HeaderLabelContentType cs) (AnyString ContentType)
          (cose_SetAlgorithm cs (cose_AlgorithmEdDSA cs) []))) = Inr headers"
    and sg: "cose_Sign cs key \<lparr>Protected = headers, Unprotected = [], RawProtected = [], MsgPayload = claims, Signature = []\<rparr> = Inr m"
    and enc: "cose_MarshalCBOR cs m = Inr encoded" "0 < length encoded" "length encoded \<le> MaxEncodedBytes"
  shows "signCheckpoint cs dt None s payload newPeaks prevPeaks pf cadence = Inr encoded"
    and "\<exists>r. ParseRecord cs dt encoded = Inr r \<and> record_Payload r = p \<and> VerifySignature cs r = Inr ()
      \<and> RNewPeaks r = newPeaks \<and> RPrevPeaks r = prevPeaks \<and> RConsistencyProof r = pf \<and> RCadence r = cadence"
proof -
  have key: "length key = 64" "SgPrivate s = key" "SgPublic s = drop 32 key" "length (SgPublic s) = 32"
    using s(1) by (auto simp: NewEd25519Signer_def PrivateKeySize_def split: if_splits)
  have c: "canonical_payload p" "InUTC (Timestamp p)"
    using p(1) by (auto simp: ParsePayload_iff CanonicalJSON_iff)
  have mf: "Protected m = headers" "Unprotected m = []" "MsgPayload m = claims" "cose_Verify cs (SgPublic s) m = Inr ()"
    using sign [OF key(1) sg] key(3) by simp_all
  obtain m' where m': "cose_UnmarshalCBOR cs encoded = Inr m'" "cose_MarshalCBOR cs m' = Inr encoded"
      "MsgPayload m' = claims" "\<And>k. cose_Verify cs k m' = cose_Verify cs k m"
    and hd: "checkHeaders cs m' = Inr (SgPublic s, LogID p, LogID p @ ''#'' @ FormatUint (MMRSize p))"
    using message_codec [OF enc(1)] signed_headers [OF h refl key(4) mf(1,2)] mf(3) by blast
  obtain wire where w: "decodeWireClaims cs claims = Inr wire" "WcLogSize wire = MMRSize p" "WcPrevSize wire = PrevSize p"
    "decodeCommitment cs (WcCommitment wire) = Inr newPeaks"
    "if WcPrevCommitment wire = [] then prevPeaks = [] else decodeCommitment cs (WcPrevCommitment wire) = Inr prevPeaks"
    "time_Parse (WcIssuedAt wire) = Some (Timestamp p)" "WcCadence wire = cadence"
    "map_option wire_proof (WcConsistencyProof wire) = pf"
    "hex_EncodeToString (RootFromPeaks dt newPeaks) = Root p"
    "PrevSize p = 0 \<longrightarrow> prevPeaks = [] \<and> pf = None"
    "PrevSize p \<noteq> 0 \<longrightarrow> prevPeaks \<noteq> [] \<and> hex_EncodeToString (RootFromPeaks dt prevPeaks) = PrevRoot p \<and>
      (\<exists>pf'. pf = Some pf' \<and> VerifyConsistency dt (RootFromPeaks dt prevPeaks) (RootFromPeaks dt newPeaks) pf')"
    using encodeWireClaims_decode [OF e c] .
  define r where "r = \<lparr>RVersion = 1, RKind = ''mmr_checkpoint'', RLogID = LogID p, RMMRSize = MMRSize p,
    RRoot = Root p, RPrevSize = PrevSize p, RPrevRoot = PrevRoot p, RKeyID = KeyID p, RTimestamp = Timestamp p,
    RCadence = cadence, RNewPeaks = newPeaks, RPrevPeaks = prevPeaks, RConsistencyProof = pf, Rstatement = encoded\<rparr>"
  have pr: "PrevSize p = 0 \<Longrightarrow> PrevRoot p = []" using c(1) by (simp add: canonical_payload_def)
  have rp: "record_Payload r = p" by (simp add: record_Payload_def r_def)
  have parse: "ParseRecord cs dt encoded = Inr r"
  proof (rule ParseRecord_intro [OF enc(2,3) m'(1,2) _ _ w(4,5,6)])
    show "checkHeaders cs m' = Inr (SgPublic s, LogID p, LogID p @ ''#'' @ FormatUint (WcLogSize wire))"
      using hd w(2) by simp
    show "decodeWireClaims cs (MsgPayload m') = Inr wire" using w(1) m'(3) by simp
    show "canonical_payload (record_Payload r)" using c(1) rp by simp
    show "checkPredecessor dt \<lparr>RVersion = 1, RKind = ''mmr_checkpoint'', RLogID = LogID p, RMMRSize = WcLogSize wire,
            RRoot = hex_EncodeToString (rootFromPeaks dt newPeaks), RPrevSize = WcPrevSize wire,
            RPrevRoot = hex_EncodeToString (rootFromPeaks dt prevPeaks),
            RKeyID = hex_EncodeToString (SgPublic s), RTimestamp = Timestamp p, RCadence = WcCadence wire,
            RNewPeaks = newPeaks, RPrevPeaks = prevPeaks,
            RConsistencyProof = map_option wire_proof (WcConsistencyProof wire), Rstatement = encoded\<rparr> = Inr r"
      using w p(2) pr
      by (cases "PrevSize p = 0") (auto simp: checkPredecessor_def r_def rootFromPeaks_def signer_KeyID_def)
  qed
  have vs: "VerifySignature cs r = Inr ()"
    using p(2) key(4) m'(1,4) mf(4) new_verifier [of "SgPublic s"]
    by (simp add: VerifySignature_def r_def signer_KeyID_def PublicKeySize_def)
  show "\<exists>r. ParseRecord cs dt encoded = Inr r \<and> record_Payload r = p \<and> VerifySignature cs r = Inr ()
      \<and> RNewPeaks r = newPeaks \<and> RPrevPeaks r = prevPeaks \<and> RConsistencyProof r = pf \<and> RCadence r = cadence"
    using parse rp vs by (intro exI [of _ r]) (simp add: r_def)
  have "VerifyCheckpoint cs dt s payload encoded = Inr ()"
    using p parse rp vs by (simp add: VerifyCheckpoint_def r_def)
  then show "signCheckpoint cs dt None s payload newPeaks prevPeaks pf cadence = Inr encoded"
    using p e h sg enc(1) s(2) key(2) by (simp add: signCheckpoint_def Let_def)
qed

text \<open>A statement that the signer returns parses to the payload, the peaks and the proof that it was given.\<close>

lemma signCheckpoint_parses:
  assumes s: "NewEd25519Signer key = Inr s"
    and sg: "signCheckpoint cs dt None s body newPeaks prevPeaks pf cadence = Inr stmt"
  obtains p r where "ParsePayload body = Inr p" "ParseRecord cs dt stmt = Inr r" "record_Payload r = p"
    "VerifySignature cs r = Inr ()" "RNewPeaks r = newPeaks" "RPrevPeaks r = prevPeaks" "RConsistencyProof r = pf"
    "RCadence r = cadence" "VerifyCheckpoint cs dt s body stmt = Inr ()"
proof -
  obtain p where p: "ParsePayload body = Inr p" "KeyID p = signer_KeyID s"
    using sg by (auto simp: signCheckpoint_def split: sum.splits if_splits)
  have key: "SgPrivate s = key" using s by (auto simp: NewEd25519Signer_def split: if_splits)
  obtain claims headers m where e: "encodeWireClaims cs dt p newPeaks prevPeaks pf cadence = Inr claims"
    and h: "cose_SetCWTClaims cs
         [(cose_CWTClaimIssuer cs, AnyString (LogID p)),
          (cose_CWTClaimSubject cs, AnyString (LogID p @ ''#'' @ FormatUint (MMRSize p)))]
      (AList.update (cose_HeaderLabelKeyID cs) (AnyBytes (SgPublic s))
        (AList.update (cose_HeaderLabelContentType cs) (AnyString ContentType)
          (cose_SetAlgorithm cs (cose_AlgorithmEdDSA cs) []))) = Inr headers"
    and ns: "cose_NewSigner cs key = Inr ()"
    and sn: "cose_Sign cs key \<lparr>Protected = headers, Unprotected = [], RawProtected = [], MsgPayload = claims, Signature = []\<rparr> = Inr m"
    and mc: "cose_MarshalCBOR cs m = Inr stmt"
    and vc: "VerifyCheckpoint cs dt s body stmt = Inr ()"
    using sg p key by (auto simp: signCheckpoint_def Let_def rbind_Inr_iff)
  obtain r0 where "ParseRecord cs dt stmt = Inr r0"
    using vc by (auto simp: VerifyCheckpoint_def rbind_Inr_iff split: if_splits)
  then have len: "0 < length stmt" "length stmt \<le> MaxEncodedBytes" by (auto elim: ParseRecord_Inr)
  show ?thesis using sign_complete(2) [OF p s ns e h sn mc len] that [OF p(1)] vc by blast
qed

end

end
