(* ===== verification/Checkpoint_Runner.thy ===== *)
theory Checkpoint_Runner
  imports Checkpoint_Laws Backend_Contract
begin

text \<open>
  \<open>checkpoint/runner.go\<close>: the runner that turns appended entries into MMR nodes, signed checkpoints
  and pending witness rows. The interfaces \<open>cll.CheckpointStore\<close> and \<open>Signer\<close> are records of
  operations; the store's operations work on an explicit store state, so that an engine, the
  memory store or the journal can stand behind them. Between the calls of one pass other writers
  may act on the store: \<open>env\<close> is what they do to it, applied before every store call.

  \<open>dt\<close> and \<open>ahl\<close> are the MMR library, \<open>cs\<close> the COSE library. \<open>runnerState\<close> holds a pointer to the
  tree, so entries appended by a pass that fails stay in it: the tree is part of every result.
\<close>

section \<open>Interfaces and configuration\<close>

record 's CheckpointStore =
  store_LoadCLL :: "'s \<Rightarrow> State result"
  store_ScanEntries :: "'s \<Rightarrow> uint64 \<Rightarrow> int \<Rightarrow> Entry list result"
  store_CommitCLL :: "'s \<Rightarrow> uint64 \<Rightarrow> bytes option \<Rightarrow> State \<Rightarrow> unit result \<times> 's"

record Signer =
  Signer_KeyID :: string
  Signer_SignCheckpoint :: "bytes \<Rightarrow> bytes list \<Rightarrow> bytes list \<Rightarrow> ConsistencyProof option \<Rightarrow> bytes result"
  Signer_VerifyCheckpoint :: "bytes \<Rightarrow> bytes \<Rightarrow> unit result"

record RunnerConfig =
  RcLogID :: string
  RcCadence :: Config
  RcScanLimit :: int
  RcPollInterval :: duration
  RcWitnessIDs :: "string list"

definition DefaultRunnerConfig :: "string \<Rightarrow> RunnerConfig" where
  "DefaultRunnerConfig logID = \<lparr>RcLogID = logID, RcCadence = DefaultConfig, RcScanLimit = DefaultScanLimit,
     RcPollInterval = Minute_ns, RcWitnessIDs = []\<rparr>"

fun checkWitnessIDs :: "string list \<Rightarrow> string set \<Rightarrow> unit result" where
  "checkWitnessIDs [] seen = Inr ()"
| "checkWitnessIDs (wid # rest) seen =
     (if isl (ValidateIdentifier wid) then Inl ErrInvalid
      else if wid \<in> seen then Inl ErrInvalid
      else checkWitnessIDs rest (insert wid seen))"

text \<open>The validation of \<open>NewRunner\<close>; a nil store or signer has no counterpart here.\<close>

definition NewRunner :: "RunnerConfig \<Rightarrow> RunnerConfig result" where
  "NewRunner config =
     (if isl (ValidateIdentifier (RcLogID config)) \<or> RcScanLimit config < 1
        \<or> RcScanLimit config > MaxScanLimit \<or> RcPollInterval config \<le> 0
      then Inl ErrInvalid
      else case Config_Validate (RcCadence config) of
        Inl _ \<Rightarrow> Inl ErrInvalid
      | Inr _ \<Rightarrow>
          if int (length (RcWitnessIDs config)) > MaxWitnesses then Inl ErrInvalid
          else rbind (checkWitnessIDs (RcWitnessIDs config) {}) (\<lambda>_. Inr config))"

section \<open>Loading\<close>

record runnerState =
  rsState :: State
  rsTree :: Tree
  rsPrevious :: "Record option"

definition normalizeRunnerTime :: "time \<Rightarrow> time result" where
  "normalizeRunnerTime now =
     (let now = NormalizeTime now in if isl (ValidateTime now) then Inl ErrInvalid else Inr now)"

definition treeRootAt :: "dtmmr \<Rightarrow> Tree \<Rightarrow> uint64 \<Rightarrow> bytes result" where
  "treeRootAt dt t sz = rbind (PeakHashesAt dt t sz) (\<lambda>peaks. Inr (RootFromPeaks dt peaks))"

definition samePeaks :: "bytes list \<Rightarrow> bytes list \<Rightarrow> bool" where
  "samePeaks left right =
     (if length left \<noteq> length right then False
      else list_all (\<lambda>index. left ! index = right ! index) [0..<length left])"

text \<open>\<open>None\<close> is the empty \<open>Record{}\<close> of a log without a checkpoint, whose fields are never read.\<close>

definition runner_verifyCheckpoint ::
    "cose \<Rightarrow> dtmmr \<Rightarrow> RunnerConfig \<Rightarrow> Signer \<Rightarrow> State \<Rightarrow> Tree \<Rightarrow> Record option result" where
  "runner_verifyCheckpoint cs dt config signer st tree =
     (case Checkpoint st of
        None \<Rightarrow> Inr None
      | Some checkpoint \<Rightarrow>
     let (leaves, complete) = mmr_LeafCount dt (CkSize checkpoint)
     in if \<not> complete \<or> CkSize checkpoint > Size st \<or> leaves \<noteq> CkIndexedSeq checkpoint
          \<or> CkIndexedSeq checkpoint > IndexedSeq st
        then Inl ErrCorrupt
        else case PeakHashesAt dt tree (CkSize checkpoint) of
          Inl _ \<Rightarrow> Inl ErrCorrupt
        | Inr expectedPeaks \<Rightarrow>
     if \<not> samePeaks expectedPeaks (Peaks checkpoint) then Inl ErrCorrupt
     else case ParseRecord cs dt (CheckpointBytes checkpoint) of
          Inl _ \<Rightarrow> Inl ErrCorrupt
        | Inr record \<Rightarrow>
     if RLogID record \<noteq> RcLogID config \<or> RKeyID record \<noteq> Signer_KeyID signer
       \<or> RMMRSize record \<noteq> CkSize checkpoint \<or> \<not> samePeaks (RNewPeaks record) (Peaks checkpoint)
     then Inl ErrCorrupt
     else case treeRootAt dt tree (CkSize checkpoint) of
          Inl _ \<Rightarrow> Inl ErrCorrupt
        | Inr root \<Rightarrow>
     if root \<noteq> RootFromPeaks dt (Peaks checkpoint) \<or> RRoot record \<noteq> hex_EncodeToString root
     then Inl ErrCorrupt
     else case CanonicalJSON (record_Payload record) of
          Inl _ \<Rightarrow> Inl ErrCorrupt
        | Inr payload \<Rightarrow>
     if isl (Signer_VerifyCheckpoint signer payload (CheckpointBytes checkpoint)) then Inl ErrCorrupt
     else Inr (Some record))"

definition loadRunnerState ::
    "cose \<Rightarrow> dtmmr \<Rightarrow> RunnerConfig \<Rightarrow> 's CheckpointStore \<Rightarrow> Signer \<Rightarrow> 's \<Rightarrow> runnerState result" where
  "loadRunnerState cs dt config store signer s =
     rbind (store_LoadCLL store s) (\<lambda>st.
     case New dt (Nodes st) of
       Inl _ \<Rightarrow> Inl ErrCorrupt
     | Inr tree \<Rightarrow>
         let (leaves, complete) = mmr_LeafCount dt (Tree_Size tree)
         in if \<not> complete \<or> leaves \<noteq> IndexedSeq st \<or> Size st \<noteq> Tree_Size tree then Inl ErrCorrupt
            else rbind (runner_verifyCheckpoint cs dt config signer st tree) (\<lambda>previous.
              Inr \<lparr>rsState = st, rsTree = tree, rsPrevious = previous\<rparr>))"

section \<open>Advancing\<close>

text \<open>The loop over the scanned entries: the tree, the last index and the first pending time.\<close>

fun indexEntries_loop :: "Tree add_hashed_leaf \<Rightarrow> Entry list \<Rightarrow> Tree \<Rightarrow> uint64 \<Rightarrow> time option
    \<Rightarrow> (uint64 \<times> time option) result \<times> Tree" where
  "indexEntries_loop ahl [] tree indexed firstPending = (Inr (indexed, firstPending), tree)"
| "indexEntries_loop ahl (entry # rest) tree indexed firstPending =
     (if Seq entry \<noteq> indexed + 1 \<or> isl (ValidateTime (AppendedAt entry)) then (Inl ErrCorrupt, tree)
      else case Tree_Append ahl tree (Value entry) of
        (Inl _, tree) \<Rightarrow> (Inl ErrCorrupt, tree)
      | (Inr _, tree) \<Rightarrow>
          indexEntries_loop ahl rest tree (Seq entry)
            (case firstPending of None \<Rightarrow> Some (NormalizeTime (AppendedAt entry)) | Some t \<Rightarrow> Some t))"

definition lastCheckpointed :: "State \<Rightarrow> uint64" where
  "lastCheckpointed st = (case Checkpoint st of None \<Rightarrow> 0 | Some c \<Rightarrow> CkIndexedSeq c)"

text \<open>The branch \<open>if due\<close>: the signed checkpoint, its pending witness rows and the record that replaces \<open>previous\<close>.\<close>

definition pendingRow :: "uint64 \<Rightarrow> bytes \<Rightarrow> time \<Rightarrow> string \<Rightarrow> WitnessState" where
  "pendingRow sz statement now wid =
     \<lparr>WitnessID = wid, CheckpointSize = sz, WitnessCheckpoint = statement, Attempts = 0,
      NextAttemptAt = now, Receipt = None, Permanent = False, LastError = []\<rparr>"

definition emitCheckpoint :: "dtmmr \<Rightarrow> RunnerConfig \<Rightarrow> Signer \<Rightarrow> State \<Rightarrow> Tree \<Rightarrow> Record option \<Rightarrow> uint64 \<Rightarrow> time
    \<Rightarrow> (CheckpointState \<times> WitnessState list \<times> string) result" where
  "emitCheckpoint dt config signer st tree previous indexed now =
     rbind (Tree_Root dt tree) (\<lambda>root.
     let payload = \<lparr>LogID = RcLogID config, KeyID = Signer_KeyID signer, MMRSize = Tree_Size tree,
           Root = hex_EncodeToString root, PrevSize = 0, PrevRoot = [],
           Timestamp = \<lparr>Instant = now, InUTC = True\<rparr>\<rparr>
     in
     rbind (case Checkpoint st of
              None \<Rightarrow> Inr (payload, [], None)
            | Some c \<Rightarrow>
                rbind (ConsistencyProofAt dt tree (CkSize c) (Tree_Size tree)) (\<lambda>consistency.
                  Inr (payload\<lparr>PrevSize := CkSize c,
                         PrevRoot := (case previous of None \<Rightarrow> [] | Some r \<Rightarrow> RRoot r)\<rparr>,
                       Peaks c, Some consistency)))
       (\<lambda>(payload, previousPeaks, pf).
     rbind (CanonicalJSON payload) (\<lambda>body.
     rbind (PeakHashesAt dt tree (Tree_Size tree)) (\<lambda>peaks.
     rbind (Signer_SignCheckpoint signer body peaks previousPeaks pf) (\<lambda>statement.
       Inr (\<lparr>CheckpointBytes = statement, CkSize = Tree_Size tree, CkIndexedSeq = indexed, Peaks = peaks\<rparr>,
            map (pendingRow (Tree_Size tree) statement now) (RcWitnessIDs config),
            Root payload))))))"

definition root_record :: "string \<Rightarrow> Record" where
  "root_record root = \<lparr>RVersion = 0, RKind = [], RLogID = [], RMMRSize = 0, RRoot = root, RPrevSize = 0,
     RPrevRoot = [], RKeyID = [], RTimestamp = \<lparr>Instant = zero_time, InUTC = True\<rparr>, RCadence = None,
     RNewPeaks = [], RPrevPeaks = [], RConsistencyProof = None, Rstatement = []\<rparr>"

definition advanceOnce :: "dtmmr \<Rightarrow> Tree add_hashed_leaf \<Rightarrow> RunnerConfig \<Rightarrow> 's CheckpointStore \<Rightarrow> Signer
    \<Rightarrow> ('s \<Rightarrow> 's) \<Rightarrow> time \<Rightarrow> runnerState \<Rightarrow> 's \<Rightarrow> bool result \<times> runnerState \<times> 's" where
  "advanceOnce dt ahl config store signer env now current s =
     (let st = rsState current; s = env s
      in case store_ScanEntries store s (IndexedSeq st) (RcScanLimit config) of
           Inl err \<Rightarrow> (Inl err, current, s)
         | Inr ents \<Rightarrow>
     case indexEntries_loop ahl ents (rsTree current) (IndexedSeq st) (FirstPendingAt st) of
       (Inl err, tree) \<Rightarrow> (Inl err, current\<lparr>rsTree := tree\<rparr>, s)
     | (Inr (indexed, firstPending), tree) \<Rightarrow>
     let current = current\<lparr>rsTree := tree\<rparr>;
         uncheckpointed = indexed - lastCheckpointed st;
         due = (case firstPending of None \<Rightarrow> False | Some t \<Rightarrow> Due (RcCadence config) uncheckpointed t now);
         next_st = \<lparr>Size = Tree_Size tree, Nodes = Tree_Nodes tree, IndexedSeq = indexed,
                    FirstPendingAt = firstPending, Checkpoint = Checkpoint st, Witnesses = Witnesses st\<rparr>
     in case (if due
              then rbind (emitCheckpoint dt config signer st tree (rsPrevious current) indexed now)
                (\<lambda>(cp, rows, root).
                  Inr (next_st\<lparr>Checkpoint := Some cp, FirstPendingAt := None, Witnesses := Witnesses st @ rows\<rparr>,
                       Some (root_record root)))
              else Inr (next_st, rsPrevious current)) of
          Inl err \<Rightarrow> (Inl err, current, s)
        | Inr (next_st, previous) \<Rightarrow>
     if ents = [] \<and> \<not> due then (Inr False, current, s)
     else
       let s = env s
       in case store_CommitCLL store s (Size st) (map_option CheckpointBytes (Checkpoint st)) next_st of
            (Inl err, s) \<Rightarrow> (Inl err, current, s)
          | (Inr _, s) \<Rightarrow> (Inr True, current\<lparr>rsState := next_st, rsPrevious := previous\<rparr>, s))"

definition runner_RunOnce :: "cose \<Rightarrow> dtmmr \<Rightarrow> Tree add_hashed_leaf \<Rightarrow> RunnerConfig \<Rightarrow> 's CheckpointStore \<Rightarrow> Signer
    \<Rightarrow> ('s \<Rightarrow> 's) \<Rightarrow> time \<Rightarrow> 's \<Rightarrow> bool result \<times> 's" where
  "runner_RunOnce cs dt ahl config store signer env now s =
     (case normalizeRunnerTime now of
        Inl err \<Rightarrow> (Inl err, s)
      | Inr now \<Rightarrow>
          let s = env s
          in (case loadRunnerState cs dt config store signer s of
            Inl err \<Rightarrow> (Inl err, s)
          | Inr current \<Rightarrow>
              (case advanceOnce dt ahl config store signer env now current s of (r, _, s) \<Rightarrow> (r, s))))"

text \<open>
  The loop of \<open>catchUp\<close>. It may go on as long as other writers keep appending, so it has fuel;
  \<open>None\<close> is running out of it.
\<close>

fun catchUp_loop :: "nat \<Rightarrow> cose \<Rightarrow> dtmmr \<Rightarrow> Tree add_hashed_leaf \<Rightarrow> RunnerConfig \<Rightarrow> 's CheckpointStore \<Rightarrow> Signer
    \<Rightarrow> ('s \<Rightarrow> 's) \<Rightarrow> time \<Rightarrow> runnerState \<Rightarrow> bool \<Rightarrow> 's \<Rightarrow> (unit result \<times> 's) option" where
  "catchUp_loop 0 cs dt ahl config store signer env now current reloaded s = None"
| "catchUp_loop (Suc fuel) cs dt ahl config store signer env now current reloaded s =
     (case advanceOnce dt ahl config store signer env now current s of
        (Inl err, current, s) \<Rightarrow>
          if err = ErrContention \<and> \<not> reloaded
          then let s = env s
               in (case loadRunnerState cs dt config store signer s of
                     Inl err \<Rightarrow> Some (Inl err, s)
                   | Inr current \<Rightarrow> catchUp_loop fuel cs dt ahl config store signer env now current True s)
          else Some (Inl err, s)
      | (Inr changed, current, s) \<Rightarrow>
          if \<not> changed then Some (Inr (), s)
          else catchUp_loop fuel cs dt ahl config store signer env now current False s)"

definition catchUp :: "nat \<Rightarrow> cose \<Rightarrow> dtmmr \<Rightarrow> Tree add_hashed_leaf \<Rightarrow> RunnerConfig \<Rightarrow> 's CheckpointStore \<Rightarrow> Signer
    \<Rightarrow> ('s \<Rightarrow> 's) \<Rightarrow> time \<Rightarrow> 's \<Rightarrow> (unit result \<times> 's) option" where
  "catchUp fuel cs dt ahl config store signer env now s =
     (case normalizeRunnerTime now of
        Inl err \<Rightarrow> Some (Inl err, s)
      | Inr now \<Rightarrow>
          let s = env s
          in (case loadRunnerState cs dt config store signer s of
            Inl err \<Rightarrow> Some (Inl err, s)
          | Inr current \<Rightarrow> catchUp_loop fuel cs dt ahl config store signer env now current False s))"

end
