(* ===== verification/Runner_Laws.thy ===== *)
theory Runner_Laws
  imports Checkpoint_Runner
begin

text \<open>
  Why the runner is right: the interfaces it relies on as locales, the invariant that ties the
  log, the MMR nodes, the last checkpoint and the pending witness rows together, and the lemmas
  that one pass keeps it, whatever other writers do in between.
\<close>

section \<open>Interfaces\<close>

text \<open>A store whose commits are the engine's transition rule; a commit may fail for other reasons.\<close>

locale checkpoint_store =
  fixes dt :: dtmmr and ok :: "'s \<Rightarrow> bool" and log_of :: "'s \<Rightarrow> Entry list" and cll_of :: "'s \<Rightarrow> State"
    and store :: "'s CheckpointStore"
  assumes log_valid: "ok s \<Longrightarrow> valid_entries (log_of s)"
    and cll_valid: "ok s \<Longrightarrow> valid_state dt (cll_of s)"
    and load: "ok s \<Longrightarrow> store_LoadCLL store s = Inr (cll_of s)"
    and scan: "ok s \<Longrightarrow> a \<le> MaxPortableInteger \<Longrightarrow> 1 \<le> l \<Longrightarrow> l \<le> MaxScanLimit \<Longrightarrow>
      store_ScanEntries store s a l = Inr (take (nat l) (drop (unat a) (log_of s)))"
    and commit_done: "ok s \<Longrightarrow> store_CommitCLL store s sz ck n = (Inr (), s') \<Longrightarrow>
      ok s' \<and> log_of s' = log_of s \<and> ApplyCLL dt (cll_of s) sz ck n = Inr (cll_of s')"
    and commit_err: "ok s \<Longrightarrow> store_CommitCLL store s sz ck n = (Inl e, s') \<Longrightarrow>
      ok s' \<and> log_of s' = log_of s \<and> cll_of s' = cll_of s"

text \<open>A store that fails only when the transition rule does.\<close>

locale reliable_store = checkpoint_store +
  assumes commit_total: "ok s \<Longrightarrow> ApplyCLL dt (cll_of s) sz ck n = Inr st \<Longrightarrow>
    \<exists>s'. store_CommitCLL store s sz ck n = (Inr (), s')"

text \<open>A signer whose statements parse back to the body and peaks it was given.\<close>

locale checkpoint_signer =
  fixes cs :: cose and dt :: dtmmr and signer :: Signer
  assumes signed: "Signer_SignCheckpoint signer body peaks prev pf = Inr stmt \<Longrightarrow>
    \<exists>r. ParseRecord cs dt stmt = Inr r \<and> CanonicalJSON (record_Payload r) = Inr body \<and> RNewPeaks r = peaks
      \<and> Signer_VerifyCheckpoint signer body stmt = Inr ()"

lemma ParseRecord_length: "ParseRecord cs dt data = Inr r \<Longrightarrow> 0 < length data \<and> length data \<le> MaxEncodedBytes"
  by (auto simp: ParseRecord_def split: if_splits)

section \<open>Implementations\<close>

definition engine_store :: "dtmmr \<Rightarrow> Engine CheckpointStore" where
  "engine_store dt = \<lparr>store_LoadCLL = (\<lambda>e. Inr (Engine_State e)), store_ScanEntries = ScanEntries,
     store_CommitCLL = CommitCLL dt\<rparr>"

interpretation engine_checkpoints: reliable_store dt "engine_inv dt" entries state "engine_store dt" for dt
proof
  fix e :: Engine and sz ck n e' err st
  assume e: "engine_inv dt e"
  show "valid_entries (entries e)" "valid_state dt (state e)" using e by (simp_all add: engine_inv_def)
  show "store_LoadCLL (engine_store dt) e = Inr (state e)" by (simp add: engine_store_def Engine_State_def)
  show "a \<le> MaxPortableInteger \<Longrightarrow> 1 \<le> l \<Longrightarrow> l \<le> MaxScanLimit \<Longrightarrow>
      store_ScanEntries (engine_store dt) e a l = Inr (take (nat l) (drop (unat a) (entries e)))" for a l
    using ScanEntries_eq [OF e] by (simp add: engine_store_def)
  show "store_CommitCLL (engine_store dt) e sz ck n = (Inr (), e') \<Longrightarrow>
      engine_inv dt e' \<and> entries e' = entries e \<and> ApplyCLL dt (state e) sz ck n = Inr (state e')"
    using CommitCLL_inv [OF e, of sz ck n]
    by (cases rule: CommitCLL_cases [of dt e sz ck n]) (auto simp: engine_store_def)
  show "store_CommitCLL (engine_store dt) e sz ck n = (Inl err, e') \<Longrightarrow>
      engine_inv dt e' \<and> entries e' = entries e \<and> state e' = state e"
    using e by (cases rule: CommitCLL_cases [of dt e sz ck n]) (auto simp: engine_store_def)
  show "ApplyCLL dt (state e) sz ck n = Inr st \<Longrightarrow> \<exists>e'. store_CommitCLL (engine_store dt) e sz ck n = (Inr (), e')"
    by (simp add: engine_store_def CommitCLL_def)
qed

definition ed25519_Signer :: "cose \<Rightarrow> dtmmr \<Rightarrow> Ed25519Signer \<Rightarrow> Signer" where
  "ed25519_Signer cs dt s = \<lparr>Signer_KeyID = signer_KeyID s,
     Signer_SignCheckpoint = SignCheckpoint cs dt None s, Signer_VerifyCheckpoint = VerifyCheckpoint cs dt s\<rparr>"

locale ed25519_key = cose_lib +
  fixes key :: bytes
  assumes key_length: "length key = 64"

sublocale ed25519_key \<subseteq> ed: checkpoint_signer cs dt "ed25519_Signer cs dt \<lparr>SgPrivate = key, SgPublic = drop 32 key\<rparr>" for dt
proof
  let ?s = "\<lparr>SgPrivate = key, SgPublic = drop 32 key\<rparr>"
  fix body peaks prev pf stmt
  assume "Signer_SignCheckpoint (ed25519_Signer cs dt ?s) body peaks prev pf = Inr stmt"
  then have sg: "signCheckpoint cs dt None ?s body peaks prev pf None = Inr stmt"
    by (simp add: ed25519_Signer_def SignCheckpoint_def)
  have nk: "NewEd25519Signer key = Inr ?s" by (simp add: NewEd25519Signer_def key_length PrivateKeySize_def)
  obtain p r where p: "ParsePayload body = Inr p" "ParseRecord cs dt stmt = Inr r" "record_Payload r = p"
      "RNewPeaks r = peaks" "VerifyCheckpoint cs dt ?s body stmt = Inr ()"
    by (rule signCheckpoint_parses [OF nk sg])
  moreover have "CanonicalJSON p = Inr body" using p(1) by (simp add: ParsePayload_iff)
  ultimately show "\<exists>r. ParseRecord cs dt stmt = Inr r \<and> CanonicalJSON (record_Payload r) = Inr body \<and> RNewPeaks r = peaks
      \<and> Signer_VerifyCheckpoint (ed25519_Signer cs dt ?s) body stmt = Inr ()"
    by (intro exI [of _ r]) (simp add: ed25519_Signer_def)
qed

section \<open>Indexing entries\<close>

lemma MaxPortable_lt: "unat MaxPortableInteger < 2 ^ 62"
  by (simp add: unat_MaxPortable)

definition first_pending :: "time option \<Rightarrow> Entry list \<Rightarrow> time option" where
  "first_pending fp es = (case fp of Some t \<Rightarrow> Some t
     | None \<Rightarrow> (case es of [] \<Rightarrow> None | en # _ \<Rightarrow> Some (NormalizeTime (AppendedAt en))))"

lemma first_pending_None: "first_pending fp es = None \<longleftrightarrow> fp = None \<and> es = []"
  by (cases fp; cases es) (simp_all add: first_pending_def)

lemma first_pending_Cons:
  "first_pending (case fp of None \<Rightarrow> Some (NormalizeTime (AppendedAt en)) | Some t \<Rightarrow> Some t) es = first_pending fp (en # es)"
  by (simp add: first_pending_def split: option.splits)

lemma indexEntries_loop_commits:
  assumes lib: "dtmmr_append dt ahl" and c: "commits t vs"
    and es: "\<forall>i < length es. valid_entry (length vs + i) (es ! i)"
    and b: "length vs + length es \<le> unat MaxPortableInteger"
  shows "\<exists>t'. indexEntries_loop ahl es t (of_nat (length vs)) fp
      = (Inr (of_nat (length vs + length es), first_pending fp es), t')
    \<and> commits t' (vs @ map Value es) \<and> take (length (nodes t)) (nodes t') = nodes t"
  using c es b
proof (induction es arbitrary: t vs fp)
  case Nil
  then show ?case by (auto simp: first_pending_def split: option.splits)
next
  case (Cons en es)
  have en: "Seq en = of_nat (Suc (length vs))" "length (Value en) = 32" "ValidateTime (AppendedAt en) = Inr ()"
    using Cons.prems(2) by (auto simp: valid_entry_def EntryBytes_def dest: spec [of _ 0])
  have n: "length vs < 2 ^ 62" using Cons.prems(3) MaxPortable_lt by simp
  obtain t1 where t1: "Tree_Append ahl t (Value en) = (Inr (Tree_Size t1), t1)" "commits t1 (vs @ [Value en])"
      "take (length (nodes t)) (nodes t1) = nodes t"
    using commits_Append [OF lib Cons.prems(1) en(2) n] by blast
  have "\<forall>i < length es. valid_entry (length (vs @ [Value en]) + i) (es ! i)"
    using Cons.prems(2) by auto
  moreover have "length (vs @ [Value en]) + length es \<le> unat MaxPortableInteger" using Cons.prems(3) by simp
  ultimately obtain t' where t': "indexEntries_loop ahl es t1 (of_nat (Suc (length vs)))
        (case fp of None \<Rightarrow> Some (NormalizeTime (AppendedAt en)) | Some t \<Rightarrow> Some t)
      = (Inr (of_nat (length vs + length (en # es)), first_pending fp (en # es)), t')"
    "commits t' (vs @ map Value (en # es))" "take (length (nodes t1)) (nodes t') = nodes t1"
    using Cons.IH [OF t1(2), of "case fp of None \<Rightarrow> Some (NormalizeTime (AppendedAt en)) | Some t \<Rightarrow> Some t"]
    unfolding first_pending_Cons by (auto simp del: of_nat_Suc of_nat_add)
  have len: "length (nodes t) \<le> length (nodes t1)" using t1(3) by (metis length_take min.cobounded1 min.commute)
  have "take (length (nodes t)) (nodes t') = take (length (nodes t)) (take (length (nodes t1)) (nodes t'))"
    using len by (simp add: min_def)
  also have "\<dots> = nodes t" using t'(3) t1(3) by simp
  finally have pre: "take (length (nodes t)) (nodes t') = nodes t" .
  have "Seq en = of_nat (length vs) + 1" using en(1) by (simp add: add.commute)
  then show ?case using t1(1) t'(1,2) pre en by (auto simp del: of_nat_Suc)
qed

section \<open>The invariant of the indexed log\<close>

text \<open>
  The stored checkpoint parses, verifies under the runner's signer and names this log, this
  size and these peaks: what \<open>verifyCheckpoint\<close> checks at the start of every pass.
\<close>

definition ckpt_ok :: "cose \<Rightarrow> dtmmr \<Rightarrow> RunnerConfig \<Rightarrow> Signer \<Rightarrow> CheckpointState \<Rightarrow> bool" where
  "ckpt_ok cs dt config signer c \<longleftrightarrow> (\<exists>r body. ParseRecord cs dt (CheckpointBytes c) = Inr r
     \<and> RLogID r = RcLogID config \<and> RKeyID r = Signer_KeyID signer \<and> RMMRSize r = CkSize c \<and> RNewPeaks r = Peaks c
     \<and> CanonicalJSON (record_Payload r) = Inr body \<and> Signer_VerifyCheckpoint signer body (CheckpointBytes c) = Inr ())"

definition ckpt_at :: "Tree \<Rightarrow> nat \<Rightarrow> CheckpointState \<Rightarrow> bool" where
  "ckpt_at t m c \<longleftrightarrow> 0 < m \<and> CkSize c = of_nat (mmr_size m) \<and> CkIndexedSeq c = of_nat m \<and> Peaks c = peaks_at t m"

text \<open>
  The nodes commit to the first \<open>n\<close> entries of the log, the checkpoint to the first \<open>m\<close> of them,
  an entry is pending exactly when \<open>m < n\<close>, and no witness row is ahead of the checkpoint.
\<close>

definition ckpt_inv :: "cose \<Rightarrow> dtmmr \<Rightarrow> RunnerConfig \<Rightarrow> Signer \<Rightarrow> nat \<Rightarrow> State \<Rightarrow> bool" where
  "ckpt_inv cs dt config signer n st \<longleftrightarrow>
     (case Checkpoint st of None \<Rightarrow> Witnesses st = []
      | Some c \<Rightarrow> (\<exists>m \<le> n. ckpt_at \<lparr>nodes = Nodes st\<rparr> m c) \<and> ckpt_ok cs dt config signer c
          \<and> list_all (\<lambda>w. CheckpointSize w \<le> CkSize c) (Witnesses st))"

definition runner_inv :: "cose \<Rightarrow> dtmmr \<Rightarrow> RunnerConfig \<Rightarrow> Signer \<Rightarrow> Entry list \<Rightarrow> State \<Rightarrow> bool" where
  "runner_inv cs dt config signer es st \<longleftrightarrow> (\<exists>n. n \<le> length es \<and> IndexedSeq st = of_nat n
     \<and> commits \<lparr>nodes = Nodes st\<rparr> (map Value (take n es))
     \<and> (FirstPendingAt st = None \<longleftrightarrow> lastCheckpointed st = of_nat n)
     \<and> ckpt_inv cs dt config signer n st)"

text \<open>What \<open>runnerState\<close> holds after loading or committing \<open>st\<close>.\<close>

definition rs_ok :: "dtmmr \<Rightarrow> State \<Rightarrow> runnerState \<Rightarrow> bool" where
  "rs_ok dt st current \<longleftrightarrow> rsState current = st \<and> rsTree current = \<lparr>nodes = Nodes st\<rparr>
     \<and> (\<forall>c. Checkpoint st = Some c \<longrightarrow>
          (\<exists>r. rsPrevious current = Some r \<and> RRoot r = hex_EncodeToString (RootFromPeaks dt (Peaks c))))"

lemma runner_inv_empty: "runner_inv cs dt config signer es empty_State"
  using commits_empty
  by (auto simp: runner_inv_def ckpt_inv_def empty_State_def lastCheckpointed_def intro!: exI [of _ 0])

lemma runner_invE:
  assumes "runner_inv cs dt config signer es st"
  obtains n where "n \<le> length es" "IndexedSeq st = of_nat n"
    "commits \<lparr>nodes = Nodes st\<rparr> (map Value (take n es))" "mmr_tree \<lparr>nodes = Nodes st\<rparr> n"
    "(FirstPendingAt st = None) = (lastCheckpointed st = of_nat n)" "ckpt_inv cs dt config signer n st"
proof -
  from assms obtain n where n: "n \<le> length es" "IndexedSeq st = of_nat n"
    "commits \<lparr>nodes = Nodes st\<rparr> (map Value (take n es))"
    "(FirstPendingAt st = None) = (lastCheckpointed st = of_nat n)" "ckpt_inv cs dt config signer n st"
    unfolding runner_inv_def by (elim exE conjE)
  moreover have "mmr_tree \<lparr>nodes = Nodes st\<rparr> n" using commitsD(1) [OF n(3)] n(1) by simp
  ultimately show ?thesis by (intro that)
qed

lemma runner_inv_log:
  assumes "runner_inv cs dt config signer es st" "es = take (length es) es'"
  shows "runner_inv cs dt config signer es' st"
proof -
  obtain n where n: "n \<le> length es" "IndexedSeq st = of_nat n"
    "commits \<lparr>nodes = Nodes st\<rparr> (map Value (take n es))" "mmr_tree \<lparr>nodes = Nodes st\<rparr> n"
    "(FirstPendingAt st = None) = (lastCheckpointed st = of_nat n)" "ckpt_inv cs dt config signer n st"
    by (rule runner_invE [OF assms(1)])
  have "take n es = take n (take (length es) es')" using assms(2) by (rule arg_cong)
  then have "take n es = take n es'" using n(1) by (simp add: min_def)
  moreover have "n \<le> length es'" using n(1) prefix_length [OF assms(2)] by simp
  ultimately show ?thesis using n unfolding runner_inv_def by (intro exI [of _ n]) simp
qed

lemma samePeaks_iff [simp]: "samePeaks xs ys \<longleftrightarrow> xs = ys"
  by (auto simp: samePeaks_def list_all_iff intro: nth_equalityI)

lemma peaks_at_prefix:
  assumes "mmr_tree t n" "m \<le> n" "take (length (nodes t)) (nodes t') = nodes t"
  shows "peaks_at t' m = peaks_at t m"
proof -
  have "nodes t' ! p = nodes t ! p" if "p \<in> set (peak_positions m)" for p
    using assms(3) peak_positions_less_mono [OF that assms(2)] mmr_treeD(1) [OF assms(1)] by (metis nth_take)
  then show ?thesis by (simp add: peaks_at_def)
qed

lemma checkWitnessIDs_iff:
  "checkWitnessIDs ids seen = Inr () \<longleftrightarrow>
     list_all (\<lambda>i. ValidateIdentifier i = Inr ()) ids \<and> distinct ids \<and> seen \<inter> set ids = {}"
  using not_isl_unit by (induction ids arbitrary: seen) auto

lemma NewRunner_valid:
  assumes "NewRunner config = Inr config"
  shows "1 \<le> RcScanLimit config" "RcScanLimit config \<le> MaxScanLimit"
    "list_all (\<lambda>i. ValidateIdentifier i = Inr ()) (RcWitnessIDs config)" "distinct (RcWitnessIDs config)"
    "0 < CadenceEntries (RcCadence config)" "0 < CadenceAge (RcCadence config)"
    "ValidateIdentifier (RcLogID config) = Inr ()"
  using assms not_isl_unit
  by (auto simp: NewRunner_def Config_Validate_def checkWitnessIDs_iff rbind_Inr_iff word_gt_0 not_less
      split: if_splits sum.splits)

locale runner_context = checkpoint_signer cs dt signer for cs dt signer +
  fixes ahl :: "Tree add_hashed_leaf" and config :: RunnerConfig
  assumes lib: "dtmmr_append dt ahl" and config: "NewRunner config = Inr config"
begin

lemma dlib: "dtmmr_lib dt"
  using lib by (simp add: dtmmr_append_def)

abbreviation inv :: "Entry list \<Rightarrow> State \<Rightarrow> bool" where
  "inv \<equiv> runner_inv cs dt config signer"

text \<open>Loading succeeds on every state that satisfies the invariant, the stored signature included.\<close>

lemma verifyCheckpoint_ok:
  assumes i: "inv es st" and v: "Size st = of_nat (length (Nodes st))"
  shows "\<exists>prev. runner_verifyCheckpoint cs dt config signer st \<lparr>nodes = Nodes st\<rparr> = Inr prev
    \<and> (\<forall>c. Checkpoint st = Some c \<longrightarrow> (\<exists>r. prev = Some r \<and> RRoot r = hex_EncodeToString (RootFromPeaks dt (Peaks c))))"
proof (cases "Checkpoint st")
  case None
  then show ?thesis by (simp add: runner_verifyCheckpoint_def)
next
  case (Some c)
  let ?t = "\<lparr>nodes = Nodes st\<rparr>"
  obtain n where n: "IndexedSeq st = of_nat n" "mmr_tree ?t n" and ci: "ckpt_inv cs dt config signer n st"
    using i by (rule runner_invE)
  have cp: "(\<exists>m \<le> n. ckpt_at ?t m c) \<and> ckpt_ok cs dt config signer c"
    using ci Some by (simp add: ckpt_inv_def)
  obtain m where m: "m \<le> n" "CkSize c = of_nat (mmr_size m)" "CkIndexedSeq c = of_nat m" "Peaks c = peaks_at ?t m"
    using cp by (auto simp: ckpt_at_def)
  note b = mmr_treeD(2) [OF n(2)]
  have bm: "mmr_size m \<le> mmr_size n" "mmr_size m < 2 ^ 63" "m \<le> mmr_size m" "n \<le> mmr_size n"
    using m(1) order_le_less_trans [OF _ b, of "mmr_size m"] by (simp_all add: le_mmr_size)
  have lc: "mmr_LeafCount dt (CkSize c) = (CkIndexedSeq c, True)"
    using dtmmr_lib.LeafCount_valid [OF dlib bm(2)] m by simp
  have le: "CkSize c \<le> Size st" "CkIndexedSeq c \<le> IndexedSeq st"
    using bm b m v n(1) mmr_treeD(1) [OF n(2)] by (auto simp: of_nat64_le_iff)
  have pk: "PeakHashesAt dt ?t (CkSize c) = Inr (Peaks c)"
    using dtmmr_lib.PeakHashesAt_eq [OF dlib n(2) m(1)] m by (simp add: PeakHashesAt_def)
  obtain r body where r: "ParseRecord cs dt (CheckpointBytes c) = Inr r"
     "RLogID r = RcLogID config" "RKeyID r = Signer_KeyID signer" "RMMRSize r = CkSize c" "RNewPeaks r = Peaks c"
     "CanonicalJSON (record_Payload r) = Inr body" "Signer_VerifyCheckpoint signer body (CheckpointBytes c) = Inr ()"
    using cp unfolding ckpt_ok_def by blast
  have root: "RRoot r = hex_EncodeToString (RootFromPeaks dt (Peaks c))"
    using ParseRecord_Inr [OF r(1)] r(5) by metis
  have "runner_verifyCheckpoint cs dt config signer st ?t = Inr (Some r)"
    using Some lc le pk r root by (simp add: runner_verifyCheckpoint_def treeRootAt_def not_less)
  then show ?thesis using root Some by auto
qed

lemma load_ok:
  assumes i: "inv es st" and v: "valid_state dt st"
    and l: "store_LoadCLL store s = Inr st"
  shows "\<exists>current. loadRunnerState cs dt config store signer s = Inr current \<and> rs_ok dt st current"
proof -
  let ?t = "\<lparr>nodes = Nodes st\<rparr>"
  obtain n where n: "IndexedSeq st = of_nat n" "mmr_tree ?t n" using i by (rule runner_invE)
  have sz: "Size st = of_nat (length (Nodes st))" using v by (simp add: valid_state_def)
  have ln: "length (Nodes st) = mmr_size n" "mmr_size n < 2 ^ 63" using mmr_treeD [OF n(2)] by simp_all
  have new: "New dt (Nodes st) = Inr ?t"
    using dtmmr_lib.New_iff [OF dlib, of "Nodes st" ?t] n(2) ln by auto
  have lc: "mmr_LeafCount dt (Tree_Size ?t) = (IndexedSeq st, True)"
    using dtmmr_lib.LeafCount_valid [OF dlib ln(2)] ln(1) n(1) by (simp add: Tree_Size_def)
  obtain prev where "runner_verifyCheckpoint cs dt config signer st ?t = Inr prev"
    "\<forall>c. Checkpoint st = Some c \<longrightarrow> (\<exists>r. prev = Some r \<and> RRoot r = hex_EncodeToString (RootFromPeaks dt (Peaks c)))"
    using verifyCheckpoint_ok [OF i sz] by (elim exE conjE)
  then show ?thesis
    using l new lc sz by (simp add: loadRunnerState_def rs_ok_def Tree_Size_def)
qed

text \<open>
  A pass over the entries \<open>ents\<close> that follow the indexed ones: what the next state holds before
  a checkpoint is due.
\<close>

lemma unat_small: "n \<le> unat MaxPortableInteger \<Longrightarrow> unat (of_nat n :: uint64) = n \<and> n < 2 ^ 64"
  using MaxPortable_lt by (auto intro!: unat_of_nat64)

lemma lastCheckpointed_eq:
  assumes "ckpt_inv cs dt config signer n st"
  obtains m where "m \<le> n" "lastCheckpointed st = of_nat m" "Checkpoint st = None \<longleftrightarrow> m = 0"
    "\<forall>c. Checkpoint st = Some c \<longrightarrow> ckpt_at \<lparr>nodes = Nodes st\<rparr> m c"
proof (cases "Checkpoint st")
  case None
  then show ?thesis using that [of 0] by (simp add: lastCheckpointed_def)
next
  case (Some c)
  then obtain m where "m \<le> n" "ckpt_at \<lparr>nodes = Nodes st\<rparr> m c" using assms by (auto simp: ckpt_inv_def)
  then show ?thesis using that [of m] Some by (simp add: lastCheckpointed_def ckpt_at_def)
qed

lemma indexed_inv:
  assumes i: "inv es st" and n: "IndexedSeq st = of_nat n" "n + k \<le> length es"
    and le: "length es \<le> unat MaxPortableInteger"
    and t': "commits t' (map Value (take (n + k) es))" "take (length (Nodes st)) (nodes t') = Nodes st"
    and nx: "IndexedSeq nx = of_nat (n + k)" "Nodes nx = nodes t'" "Checkpoint nx = Checkpoint st"
      "Witnesses nx = Witnesses st" "FirstPendingAt nx = first_pending (FirstPendingAt st) (take k (drop n es))"
  shows "inv es nx"
proof -
  obtain n' where n': "n' \<le> length es" "IndexedSeq st = of_nat n'"
    "commits \<lparr>nodes = Nodes st\<rparr> (map Value (take n' es))" "mmr_tree \<lparr>nodes = Nodes st\<rparr> n'"
    "(FirstPendingAt st = None) = (lastCheckpointed st = of_nat n')" "ckpt_inv cs dt config signer n' st"
    using i by (rule runner_invE)
  have "unat (of_nat n :: uint64) = unat (of_nat n' :: uint64)" using n(1) n'(2) by simp
  then have nn: "n' = n" using unat_small n(2) n'(1) le by auto
  have t: "\<lparr>nodes = nodes t'\<rparr> = t'" by simp
  have pk: "peaks_at t' m = peaks_at \<lparr>nodes = Nodes st\<rparr> m" if "m \<le> n" for m
    using peaks_at_prefix [OF n'(4), of m t'] that t'(2) nn by simp
  obtain m where m: "m \<le> n" "lastCheckpointed st = of_nat m" "Checkpoint st = None \<longleftrightarrow> m = 0"
    "\<forall>c. Checkpoint st = Some c \<longrightarrow> ckpt_at \<lparr>nodes = Nodes st\<rparr> m c"
    using lastCheckpointed_eq [OF n'(6) [unfolded nn]] .
  have inj: "(of_nat m :: uint64) = of_nat j \<longleftrightarrow> m = j" if "j \<le> length es" for j
    using that le m(1) n(2) unat_small by (intro of_nat64_eq_iff) auto
  have fp: "(FirstPendingAt nx = None) = (lastCheckpointed nx = of_nat (n + k))"
  proof -
    have lc: "lastCheckpointed nx = of_nat m" using m(2) nx(3) by (simp add: lastCheckpointed_def)
    have st: "(FirstPendingAt st = None) = (m = n)" using n'(5) m(2) nn inj [of n] n(2) by simp
    have ents: "(take k (drop n es) = []) = (k = 0)" using n(2) by auto
    have "(FirstPendingAt nx = None) = (m = n + k)"
      unfolding nx(5) first_pending_None st ents using m(1) by auto
    then show ?thesis unfolding lc inj [OF n(2)] .
  qed
  have "ckpt_inv cs dt config signer (n + k) nx"
  proof (cases "Checkpoint st")
    case None
    then show ?thesis using n'(6) nx by (simp add: ckpt_inv_def)
  next
    case (Some c)
    have "ckpt_at t' m c" using m(4) Some pk [OF m(1)] by (simp add: ckpt_at_def)
    moreover have "m \<le> n + k" using m(1) by simp
    ultimately have "\<exists>m \<le> n + k. ckpt_at \<lparr>nodes = Nodes nx\<rparr> m c" unfolding nx(2) t by (intro exI [of _ m] conjI)
    then show ?thesis using n'(6) nx(3,4) Some by (simp add: ckpt_inv_def)
  qed
  then show ?thesis using n(2) nx(1) t'(1) fp unfolding runner_inv_def nx(2) t by (intro exI [of _ "n + k"]) simp
qed

text \<open>What a successful \<open>emitCheckpoint\<close> returns.\<close>

lemma emitted:
  assumes e: "emitCheckpoint dt config signer st t' prev indexed now = Inr (cp, rows, root)"
    and t': "mmr_tree t' j" "0 < j"
  shows "CkSize cp = of_nat (mmr_size j)" "CkIndexedSeq cp = indexed" "Peaks cp = peaks_at t' j"
    "ckpt_ok cs dt config signer cp" "0 < length (CheckpointBytes cp)" "length (CheckpointBytes cp) \<le> MaxCheckpointBytes"
    "rows = map (pendingRow (of_nat (mmr_size j)) (CheckpointBytes cp) now) (RcWitnessIDs config)"
    "root = hex_EncodeToString (RootFromPeaks dt (peaks_at t' j))"
proof -
  have sz: "Tree_Size t' = of_nat (mmr_size j)" using mmr_treeD(1) [OF t'(1)] by (simp add: Tree_Size_def)
  have pk: "PeakHashesAt dt t' (Tree_Size t') = Inr (peaks_at t' j)"
    using dtmmr_lib.PeakHashesAt_eq [OF dlib t'(1) order_refl] sz by (simp add: PeakHashesAt_def)
  have rt: "Tree_Root dt t' = Inr (RootFromPeaks dt (peaks_at t' j))" by (rule dtmmr_lib.Root_eq [OF dlib t'(1)])
  let ?p = "\<lparr>LogID = RcLogID config, KeyID = Signer_KeyID signer, MMRSize = Tree_Size t',
           Root = hex_EncodeToString (RootFromPeaks dt (peaks_at t' j)), PrevSize = 0, PrevRoot = [],
           Timestamp = \<lparr>Instant = now, InUTC = True\<rparr>\<rparr>"
  obtain ps pr pp pf body stmt where
    b: "CanonicalJSON (?p\<lparr>PrevSize := ps, PrevRoot := pr\<rparr>) = Inr body"
    and s: "Signer_SignCheckpoint signer body (peaks_at t' j) pp pf = Inr stmt"
    and cp: "cp = \<lparr>CheckpointBytes = stmt, CkSize = Tree_Size t', CkIndexedSeq = indexed, Peaks = peaks_at t' j\<rparr>"
    and rows: "rows = map (pendingRow (Tree_Size t') stmt now) (RcWitnessIDs config)"
    and root: "root = hex_EncodeToString (RootFromPeaks dt (peaks_at t' j))"
  proof (cases "Checkpoint st")
    case None
    then show ?thesis using e pk rt that [where ps = 0 and pr = "[]"]
      by (auto simp: emitCheckpoint_def rbind_Inr_iff Let_def)
  next
    case (Some c)
    then show ?thesis using e pk rt that [where ps = "CkSize c" and pr = "case prev of None \<Rightarrow> [] | Some r \<Rightarrow> RRoot r"]
      by (auto simp: emitCheckpoint_def rbind_Inr_iff Let_def)
  qed
  obtain r where r: "ParseRecord cs dt stmt = Inr r" "CanonicalJSON (record_Payload r) = Inr body"
      "RNewPeaks r = peaks_at t' j" "Signer_VerifyCheckpoint signer body stmt = Inr ()"
    using signed [OF s] by (elim exE conjE)
  note inj = CanonicalJSON_inj(1) [OF r(2) b]
  have "LogID (record_Payload r) = RcLogID config" "KeyID (record_Payload r) = Signer_KeyID signer"
    "MMRSize (record_Payload r) = Tree_Size t'"
    using arg_cong [OF inj, of LogID] arg_cong [OF inj, of KeyID] arg_cong [OF inj, of MMRSize] by simp_all
  then show "ckpt_ok cs dt config signer cp"
    using r unfolding ckpt_ok_def cp by (intro exI [of _ r] exI [of _ body]) (simp add: record_Payload_def)
  show "0 < length (CheckpointBytes cp)" "length (CheckpointBytes cp) \<le> MaxCheckpointBytes"
    using ParseRecord_length [OF r(1)] cp by (simp_all add: MaxEncodedBytes_def MaxCheckpointBytes_def)
  show "CkSize cp = of_nat (mmr_size j)" "CkIndexedSeq cp = indexed" "Peaks cp = peaks_at t' j"
    "rows = map (pendingRow (of_nat (mmr_size j)) (CheckpointBytes cp) now) (RcWitnessIDs config)"
    "root = hex_EncodeToString (RootFromPeaks dt (peaks_at t' j))"
    using cp rows root sz by simp_all
qed

text \<open>The next state with a checkpoint keeps the invariant, and it is ahead of every row.\<close>

lemma emitted_inv:
  assumes i: "inv es nx" and n: "IndexedSeq nx = of_nat n" "n \<le> length es" "0 < n"
    and le: "length es \<le> unat MaxPortableInteger"
    and cp: "CkSize cp = of_nat (mmr_size n)" "CkIndexedSeq cp = of_nat n" "Peaks cp = peaks_at \<lparr>nodes = Nodes nx\<rparr> n"
      "ckpt_ok cs dt config signer cp"
    and rows: "\<forall>w \<in> set rows. CheckpointSize w = of_nat (mmr_size n)"
  shows "inv es (nx\<lparr>Checkpoint := Some cp, FirstPendingAt := None, Witnesses := Witnesses nx @ rows\<rparr>)"
proof -
  obtain n' where n': "n' \<le> length es" "IndexedSeq nx = of_nat n'"
    "commits \<lparr>nodes = Nodes nx\<rparr> (map Value (take n' es))" "mmr_tree \<lparr>nodes = Nodes nx\<rparr> n'"
    "ckpt_inv cs dt config signer n' nx"
    using i by (rule runner_invE)
  have "unat (of_nat n :: uint64) = unat (of_nat n' :: uint64)" using n(1) n'(2) by simp
  then have nn: "n' = n" using unat_small n(2) n'(1) le by auto
  have b: "mmr_size n < 2 ^ 63" using mmr_treeD(2) [OF n'(4)] nn by simp
  have old: "list_all (\<lambda>w. CheckpointSize w \<le> CkSize cp) (Witnesses nx)"
  proof (cases "Checkpoint nx")
    case None
    then show ?thesis using n'(5) by (simp add: ckpt_inv_def)
  next
    case (Some c)
    then obtain m where m: "m \<le> n" "CkSize c = of_nat (mmr_size m)" "list_all (\<lambda>w. CheckpointSize w \<le> CkSize c) (Witnesses nx)"
      using n'(5) nn by (auto simp: ckpt_inv_def ckpt_at_def)
    have "mmr_size m < 2 ^ 63" using b m(1) by (meson mmr_size_le_iff order_le_less_trans)
    then have "CkSize c \<le> CkSize cp" using m b cp(1) by (simp add: of_nat64_le_iff)
    then show ?thesis using m(3) by (auto simp: list_all_iff intro: order_trans)
  qed
  have "ckpt_inv cs dt config signer n (nx\<lparr>Checkpoint := Some cp, FirstPendingAt := None, Witnesses := Witnesses nx @ rows\<rparr>)"
    using old rows cp n(3) by (auto simp: ckpt_inv_def ckpt_at_def list_all_iff)
  then show ?thesis
    using n n'(3) nn cp(2) unfolding runner_inv_def by (intro exI [of _ n]) (simp add: lastCheckpointed_def)
qed

text \<open>
  A commit that the transition rule accepts gives a state that satisfies the invariant, even if
  the committed-over state has changed since it was read.
\<close>

lemma applied_inv:
  assumes nx: "inv es nx" and cur: "inv es' cur" and es: "es = take (length es) es'"
    and ap: "ApplyCLL dt cur sz ck nx = Inr st'"
  shows "inv es' st'"
proof -
  have st': "st' = nx\<lparr>Witnesses := Witnesses cur @ new_witnesses (Witnesses cur) (Witnesses nx)\<rparr>"
    and tr: "checkpointTransition (Checkpoint cur) (Checkpoint nx) = Inr ()"
    using ap by (simp_all add: ApplyCLL_iff)
  obtain n where n: "n \<le> length es'" "IndexedSeq nx = of_nat n"
    "commits \<lparr>nodes = Nodes nx\<rparr> (map Value (take n es'))" "mmr_tree \<lparr>nodes = Nodes nx\<rparr> n"
    "(FirstPendingAt nx = None) = (lastCheckpointed nx = of_nat n)" "ckpt_inv cs dt config signer n nx"
    using runner_inv_log [OF nx es] by (rule runner_invE)
  obtain k where k: "ckpt_inv cs dt config signer k cur" using cur by (rule runner_invE)
  have "ckpt_inv cs dt config signer n st'"
  proof (cases "Checkpoint nx")
    case None
    then have "Checkpoint cur = None" using tr by (auto simp: checkpointTransition_def split: option.splits)
    then show ?thesis using None n(6) k st' by (simp add: ckpt_inv_def new_witnesses_def)
  next
    case (Some c)
    have "list_all (\<lambda>w. CheckpointSize w \<le> CkSize c) (Witnesses cur)"
    proof (cases "Checkpoint cur")
      case None
      then show ?thesis using k by (simp add: ckpt_inv_def)
    next
      case (Some d)
      then have "CkSize d \<le> CkSize c" "list_all (\<lambda>w. CheckpointSize w \<le> CkSize d) (Witnesses cur)"
        using tr k \<open>Checkpoint nx = Some c\<close> by (auto simp: checkpointTransition_def ckpt_inv_def not_less split: if_splits)
      then show ?thesis by (auto simp: list_all_iff intro: order_trans)
    qed
    then show ?thesis using Some n(6) st' by (auto simp: ckpt_inv_def new_witnesses_def list_all_iff)
  qed
  then show ?thesis using n st' unfolding runner_inv_def by (intro exI [of _ n]) (simp add: lastCheckpointed_def)
qed

end

end
