(* ===== verification/Runner_Steps.thy ===== *)
theory Runner_Steps
  imports Runner_Laws
begin

text \<open>
  One pass of the checkpoint runner: what \<open>advanceOnce\<close> commits, why the store accepts it, that
  the invariant survives whatever other writers do between the calls, and that \<open>catchUp\<close> ends.
\<close>

text \<open>Whether the cadence asks for a checkpoint of the entries indexed so far.\<close>

definition due_at :: "RunnerConfig \<Rightarrow> time \<Rightarrow> State \<Rightarrow> bool" where
  "due_at config now st \<longleftrightarrow> (case FirstPendingAt st of None \<Rightarrow> False
     | Some t \<Rightarrow> Due (RcCadence config) (IndexedSeq st - lastCheckpointed st) t now)"

locale runner_store = runner_context cs dt signer ahl config + checkpoint_store dt ok log_of cll_of store
  for cs dt signer ahl config and ok :: "'s \<Rightarrow> bool" and log_of cll_of store
begin

lemma log_length: "ok s \<Longrightarrow> length (log_of s) \<le> unat MaxPortableInteger"
  using log_valid [of s] by (simp add: valid_entries_def)

text \<open>Scanning and indexing: the tree commits to the first \<open>n + k\<close> entries.\<close>

lemma scanned:
  assumes o: "ok s" and i: "inv (log_of s) st"
  obtains n k t' where "IndexedSeq st = of_nat n" "n + k \<le> length (log_of s)"
    "store_ScanEntries store s (IndexedSeq st) (RcScanLimit config) = Inr (take k (drop n (log_of s)))"
    "k = 0 \<longleftrightarrow> n = length (log_of s)" "mmr_tree \<lparr>nodes = Nodes st\<rparr> n"
    "indexEntries_loop ahl (take k (drop n (log_of s))) \<lparr>nodes = Nodes st\<rparr> (IndexedSeq st) (FirstPendingAt st)
      = (Inr (of_nat (n + k), first_pending (FirstPendingAt st) (take k (drop n (log_of s)))), t')"
    "commits t' (map Value (take (n + k) (log_of s)))" "take (length (Nodes st)) (nodes t') = Nodes st"
proof -
  let ?es = "log_of s"
  obtain n where n: "n \<le> length ?es" "IndexedSeq st = of_nat n"
    "commits \<lparr>nodes = Nodes st\<rparr> (map Value (take n ?es))" "mmr_tree \<lparr>nodes = Nodes st\<rparr> n"
    using i by (rule runner_invE)
  note le = log_length [OF o]
  note l = NewRunner_valid(1,2) [OF config]
  define k where "k = min (nat (RcScanLimit config)) (length ?es - n)"
  have un: "unat (IndexedSeq st) = n" using unat_small [of n] n(1,2) le by simp
  then have "IndexedSeq st \<le> MaxPortableInteger" using n(1) le by (simp add: word_le_nat_alt)
  then have sc: "store_ScanEntries store s (IndexedSeq st) (RcScanLimit config) = Inr (take k (drop n ?es))"
    using scan [OF o _ l] un by (simp add: k_def min_def)
  have nk: "n + k \<le> length ?es" "k = 0 \<longleftrightarrow> n = length ?es" using n(1) l(1) by (auto simp: k_def)
  let ?vs = "map Value (take n ?es)"
  have len: "length ?vs = n" "length (take k (drop n ?es)) = k" using n(1) nk(1) by simp_all
  have "valid_entry (length ?vs + j) (take k (drop n ?es) ! j)" if "j < length (take k (drop n ?es))" for j
    using that len log_valid [OF o] nk(1) by (simp add: valid_entries_def)
  then obtain t' where t': "indexEntries_loop ahl (take k (drop n ?es)) \<lparr>nodes = Nodes st\<rparr> (of_nat (length ?vs)) (FirstPendingAt st)
      = (Inr (of_nat (length ?vs + length (take k (drop n ?es))), first_pending (FirstPendingAt st) (take k (drop n ?es))), t')"
    "commits t' (?vs @ map Value (take k (drop n ?es)))" "take (length (Nodes st)) (nodes t') = Nodes st"
    using indexEntries_loop_commits [OF lib n(3), of "take k (drop n ?es)" "FirstPendingAt st"] len nk(1) le
    by (auto simp del: of_nat_add)
  have "?vs @ map Value (take k (drop n ?es)) = map Value (take (n + k) ?es)" by (simp add: take_add)
  then show ?thesis using that [OF n(2) nk(1) sc nk(2) n(4), of t'] t' n(2) unfolding len by simp
qed

text \<open>The store accepts a state that extends the one it holds by nodes, a later checkpoint and its new rows.\<close>

lemma accepted:
  assumes v: "valid_state dt nx" and w: "Witnesses nx = Witnesses st @ rows"
    and g: "Size st \<le> Size nx" "IndexedSeq st \<le> IndexedSeq nx" "Nodes st = take (length (Nodes st)) (Nodes nx)"
      "checkpointTransition (Checkpoint st) (Checkpoint nx) = Inr ()"
  shows "ApplyCLL dt st (Size st) (map_option CheckpointBytes (Checkpoint st)) nx = Inr nx"
proof -
  let ?ws = "Witnesses st"
  have d: "distinct_keys (?ws @ rows)" using v w by (simp add: valid_state_def valid_metadata_def)
  then have "\<forall>v \<in> set rows. witness_key v \<notin> set (map witness_key ?ws)"
    by (auto simp: distinct_keys_def)
  then have nw: "new_witnesses ?ws (?ws @ rows) = rows" by (simp add: new_witnesses_def filter_True filter_empty_conv)
  have "WitnessCheckpoint u = WitnessCheckpoint v" if "v \<in> set (?ws @ rows)" "witnessMap ?ws (witness_key v) = Some u" for u v
  proof -
    have "u \<in> set (?ws @ rows)" "witness_key u = witness_key v" using witnessMap_Some [OF that(2)] by simp_all
    then have "u = v" using d that(1) unfolding distinct_keys_def distinct_map by (meson inj_onD)
    then show ?thesis by simp
  qed
  then have "mergeable ?ws (?ws @ rows)" using d by (simp add: mergeable_def)
  moreover have "sameOptional (Checkpoint st) (map_option CheckpointBytes (Checkpoint st))"
    by (simp add: sameOptional_def split: option.split)
  ultimately show ?thesis using v w g nw unfolding ApplyCLL_iff by simp
qed

lemma indexed_valid:
  assumes v: "valid_state dt st" and n: "IndexedSeq st = of_nat n" "mmr_tree \<lparr>nodes = Nodes st\<rparr> n"
    and t': "mmr_tree t' (n + k)" "take (length (Nodes st)) (nodes t') = Nodes st"
    and nx: "nx = \<lparr>Size = Tree_Size t', Nodes = Tree_Nodes t', IndexedSeq = of_nat (n + k), FirstPendingAt = fp,
      Checkpoint = Checkpoint st, Witnesses = Witnesses st\<rparr>"
    and fp: "pred_option (\<lambda>t. ValidateTime t = Inr ()) fp"
  shows "valid_state dt nx" "Size st \<le> Size nx" "IndexedSeq st \<le> IndexedSeq nx"
    "Nodes st = take (length (Nodes st)) (Nodes nx)"
proof -
  note T' = mmr_treeD [OF t'(1)]
  have b: "mmr_size n \<le> mmr_size (n + k)" "n + k \<le> mmr_size (n + k)" by (simp_all add: le_mmr_size)
  have sz: "Size st = of_nat (mmr_size n)" "Size nx = of_nat (mmr_size (n + k))" "Nodes nx = nodes t'"
    using v mmr_treeD(1) [OF n(2)] T'(1) by (simp_all add: valid_state_def nx Tree_Size_def Tree_Nodes_def)
  have small: "mmr_size n < 2 ^ 64" "mmr_size (n + k) < 2 ^ 64" "n < 2 ^ 64" "n + k < 2 ^ 64"
    using T'(2) b(2) order_le_less_trans [OF b(1) T'(2)] by simp_all
  show le: "Size st \<le> Size nx" "IndexedSeq st \<le> IndexedSeq nx"
    using sz small b n(1) of_nat64_le_iff [OF small(1,2)] of_nat64_le_iff [OF small(3,4)]
    by (simp_all add: nx del: of_nat_add)
  show "Nodes st = take (length (Nodes st)) (Nodes nx)" using t'(2) sz(3) by simp
  have lc: "mmr_LeafCount dt (Size nx) = (IndexedSeq nx, True)"
    using dtmmr_lib.LeafCount_valid [OF dlib T'(2)] sz(2) by (simp add: nx del: of_nat_add)
  have "pred_option (valid_checkpoint (Size nx) (IndexedSeq nx)) (Checkpoint nx)"
    using v le by (cases "Checkpoint st")
      (auto simp: nx valid_state_def valid_metadata_def valid_checkpoint_def)
  moreover have "list_all (\<lambda>n. length n = EntryBytes) (Nodes nx)"
    using node_width [OF T'(3)] sz(3) by (auto simp: list_all_iff EntryBytes_def in_set_conv_nth)
  ultimately show "valid_state dt nx"
    using v lc fp sz T'(1) by (auto simp: valid_state_def valid_metadata_def nx Tree_Size_def)
qed

text \<open>A due checkpoint is ahead of every earlier one, so its rows are new and the state stays valid.\<close>

lemma pending_ahead:
  assumes i: "inv es st" and n: "IndexedSeq st = of_nat n" "n \<le> unat MaxPortableInteger" "length es \<le> unat MaxPortableInteger"
    and fp: "FirstPendingAt st \<noteq> None"
  shows "0 < n" "\<forall>c. Checkpoint st = Some c \<longrightarrow> CkSize c < of_nat (mmr_size n) \<and> CkIndexedSeq c \<le> of_nat n
      \<and> (\<exists>m < n. ckpt_at \<lparr>nodes = Nodes st\<rparr> m c)"
    "list_all (\<lambda>w. CheckpointSize w < of_nat (mmr_size n)) (Witnesses st)"
proof -
  obtain n' where n': "n' \<le> length es" "IndexedSeq st = of_nat n'" "mmr_tree \<lparr>nodes = Nodes st\<rparr> n'"
    "(FirstPendingAt st = None) = (lastCheckpointed st = of_nat n')" and ci: "ckpt_inv cs dt config signer n' st"
    using i by (rule runner_invE)
  have u: "unat (of_nat n :: uint64) = n \<and> n < 2 ^ 64" "unat (of_nat n' :: uint64) = n' \<and> n' < 2 ^ 64"
    using unat_small n(2,3) n'(1) by auto
  have nn: "n' = n" using n(1) n'(2) u by metis
  obtain m where m: "m \<le> n" "lastCheckpointed st = of_nat m" "Checkpoint st = None \<longleftrightarrow> m = 0"
    "\<forall>c. Checkpoint st = Some c \<longrightarrow> ckpt_at \<lparr>nodes = Nodes st\<rparr> m c"
    using lastCheckpointed_eq [OF ci [unfolded nn]] .
  have lt: "m < n" using fp n'(4) nn m(1,2) by (cases "m = n") auto
  then show "0 < n" by simp
  have b: "mmr_size n < 2 ^ 63" "mmr_size m < mmr_size n" using mmr_treeD(2) [OF n'(3)] nn lt by simp_all
  have sm: "(of_nat (mmr_size m) :: uint64) < of_nat (mmr_size n)" "(of_nat m :: uint64) \<le> of_nat n"
    using b(2) of_nat64_less_iff [of "mmr_size m" "mmr_size n"] order_less_trans [OF b(2,1)] b(1) lt u(1)
    by (simp_all add: of_nat64_le_iff)
  then show ck: "\<forall>c. Checkpoint st = Some c \<longrightarrow> CkSize c < of_nat (mmr_size n) \<and> CkIndexedSeq c \<le> of_nat n
      \<and> (\<exists>m < n. ckpt_at \<lparr>nodes = Nodes st\<rparr> m c)"
    using m(4) lt by (auto simp: ckpt_at_def)
  show "list_all (\<lambda>w. CheckpointSize w < of_nat (mmr_size n)) (Witnesses st)"
    using ci ck by (cases "Checkpoint st") (auto simp: ckpt_inv_def list_all_iff)
qed

lemma emitted_valid:
  assumes v: "valid_state dt st" and i: "inv es st" and fp: "FirstPendingAt st \<noteq> None"
    and n: "IndexedSeq st = of_nat n" "mmr_tree \<lparr>nodes = Nodes st\<rparr> n" "n \<le> unat MaxPortableInteger" "length es \<le> unat MaxPortableInteger"
    and cp: "CkSize cp = of_nat (mmr_size n)" "CkIndexedSeq cp = of_nat n" "Peaks cp = peaks_at \<lparr>nodes = Nodes st\<rparr> n"
      "0 < length (CheckpointBytes cp)" "length (CheckpointBytes cp) \<le> MaxCheckpointBytes"
    and now: "ValidateTime now = Inr ()"
    and nx: "nx = st\<lparr>Checkpoint := Some cp, FirstPendingAt := None,
      Witnesses := Witnesses st @ map (pendingRow (of_nat (mmr_size n)) (CheckpointBytes cp) now) (RcWitnessIDs config)\<rparr>"
  shows "valid_state dt nx" "checkpointTransition (Checkpoint st) (Checkpoint nx) = Inr ()"
proof -
  let ?row = "pendingRow (of_nat (mmr_size n)) (CheckpointBytes cp) now"
  note ahead = pending_ahead [OF i n(1,3,4) fp]
  have sz: "Size st = of_nat (mmr_size n)" using v mmr_treeD(1) [OF n(2)] by (simp add: valid_state_def)
  have b: "mmr_size n < 2 ^ 63" "0 < mmr_size n" using mmr_treeD(2) [OF n(2)] ahead(1) le_mmr_size [of n] by simp_all
  then have "(of_nat (mmr_size n) :: uint64) \<noteq> of_nat 0" by (subst of_nat64_eq_iff) simp_all
  then have nz: "(of_nat (mmr_size n) :: uint64) \<noteq> 0" by simp
  have "valid_witness (?row i)" if "i \<in> set (RcWitnessIDs config)" for i
    using NewRunner_valid(3) [OF config] that nz cp(4,5) now
    by (auto simp: valid_witness_def validateWitness_def pendingRow_def list_all_iff)
  then have rows: "list_all valid_witness (map ?row (RcWitnessIDs config))" by (auto simp: list_all_iff)
  have "distinct_keys (map ?row (RcWitnessIDs config))"
    using NewRunner_valid(4) [OF config]
    by (auto simp: distinct_keys_def distinct_map inj_on_def witness_key_eq pendingRow_def)
  moreover have "witness_key w \<noteq> witness_key (?row i)" if "w \<in> set (Witnesses st)" for w i
    using ahead(3) that by (auto simp: list_all_iff witness_key_eq pendingRow_def)
  ultimately have dk: "distinct_keys (Witnesses st @ map ?row (RcWitnessIDs config))"
    using v by (force simp: valid_state_def valid_metadata_def distinct_keys_def)
  have "list_all (\<lambda>p. length p = EntryBytes) (Peaks cp)"
    using peaks_at_width [OF n(2) order_refl] cp(3) by (auto simp: list_all_iff EntryBytes_def)
  then have "valid_checkpoint (Size st) (IndexedSeq st) cp"
    using cp nz sz n(1) by (simp add: valid_checkpoint_def Suc_le_eq)
  then show "valid_state dt nx"
    using v rows dk by (auto simp: valid_state_def valid_metadata_def nx)
  show "checkpointTransition (Checkpoint st) (Checkpoint nx) = Inr ()"
    using ahead(2) cp(1,2) by (auto simp: checkpointTransition_def nx not_less split: option.split)
qed

lemma first_pending_valid:
  assumes "pred_option (\<lambda>t. ValidateTime t = Inr ()) fp" "\<forall>en \<in> set es. ValidateTime (AppendedAt en) = Inr ()"
  shows "pred_option (\<lambda>t. ValidateTime t = Inr ()) (first_pending fp es)"
  using assms by (auto simp: first_pending_def split: option.splits list.splits)

lemma log_times: "ok s \<Longrightarrow> en \<in> set (log_of s) \<Longrightarrow> ValidateTime (AppendedAt en) = Inr ()"
  using log_valid [of s] by (auto simp: valid_entries_def valid_entry_def in_set_conv_nth)

text \<open>
  What a pass does after scanning and indexing, over the next state \<open>st0\<close> without a checkpoint.
\<close>

lemma indexed:
  assumes o: "ok (env s)" and i: "inv (log_of (env s)) st" and r: "rs_ok dt st current"
  obtains n k t' st0 where "IndexedSeq st = of_nat n" "n + k \<le> length (log_of (env s))" "k = 0 \<longleftrightarrow> n = length (log_of (env s))"
    "mmr_tree t' (n + k)" "IndexedSeq st0 = of_nat (n + k)" "\<lparr>nodes = Nodes st0\<rparr> = t'" "Checkpoint st0 = Checkpoint st"
    "Witnesses st0 = Witnesses st" "FirstPendingAt st0 = first_pending (FirstPendingAt st) (take k (drop n (log_of (env s))))"
    "inv (log_of (env s)) st0"
    "valid_state dt st \<longrightarrow> valid_state dt st0 \<and> Size st \<le> Size st0 \<and> IndexedSeq st \<le> IndexedSeq st0
      \<and> Nodes st = take (length (Nodes st)) (Nodes st0)"
    "advanceOnce dt ahl config store signer env now current s
     = (case (if due_at config now st0
              then rbind (emitCheckpoint dt config signer st t' (rsPrevious current) (of_nat (n + k)) now)
                (\<lambda>(cp, rows, root).
                  Inr (st0\<lparr>Checkpoint := Some cp, FirstPendingAt := None, Witnesses := Witnesses st @ rows\<rparr>,
                       Some (root_record root)))
              else Inr (st0, rsPrevious current)) of
          Inl err \<Rightarrow> (Inl err, current\<lparr>rsTree := t'\<rparr>, env s)
        | Inr (next_st, previous) \<Rightarrow>
            if k = 0 \<and> \<not> due_at config now st0 then (Inr False, current\<lparr>rsTree := t'\<rparr>, env s)
            else (case store_CommitCLL store (env (env s)) (Size st) (map_option CheckpointBytes (Checkpoint st)) next_st of
                (Inl err, s) \<Rightarrow> (Inl err, current\<lparr>rsTree := t'\<rparr>, s)
              | (Inr _, s) \<Rightarrow> (Inr True, current\<lparr>rsTree := t', rsState := next_st, rsPrevious := previous\<rparr>, s)))"
proof -
  let ?es = "log_of (env s)"
  obtain n k t' where n: "IndexedSeq st = of_nat n" "n + k \<le> length ?es"
    and sc: "store_ScanEntries store (env s) (IndexedSeq st) (RcScanLimit config) = Inr (take k (drop n ?es))"
    and k: "k = 0 \<longleftrightarrow> n = length ?es" and tn: "mmr_tree \<lparr>nodes = Nodes st\<rparr> n"
    and ix: "indexEntries_loop ahl (take k (drop n ?es)) \<lparr>nodes = Nodes st\<rparr> (IndexedSeq st) (FirstPendingAt st)
      = (Inr (of_nat (n + k), first_pending (FirstPendingAt st) (take k (drop n ?es))), t')"
    and t': "commits t' (map Value (take (n + k) ?es))" "take (length (Nodes st)) (nodes t') = Nodes st"
    using scanned [OF o i] .
  let ?fp = "first_pending (FirstPendingAt st) (take k (drop n ?es))" and ?cur = "current\<lparr>rsTree := t'\<rparr>"
  define st0 where "st0 = \<lparr>Size = Tree_Size t', Nodes = Tree_Nodes t', IndexedSeq = of_nat (n + k), FirstPendingAt = ?fp,
      Checkpoint = Checkpoint st, Witnesses = Witnesses st\<rparr>"
  have f: "IndexedSeq st0 = of_nat (n + k)" "Nodes st0 = nodes t'" "\<lparr>nodes = Nodes st0\<rparr> = t'" "Checkpoint st0 = Checkpoint st"
    "Witnesses st0 = Witnesses st" "FirstPendingAt st0 = ?fp" by (simp_all add: st0_def Tree_Nodes_def)
  have tj: "mmr_tree t' (n + k)" using commitsD(1) [OF t'(1)] n(2) by (simp add: min_absorb2)
  have i0: "inv ?es st0" by (rule indexed_inv [OF i n log_length [OF o] t' f(1,2,4,5,6)])
  have due: "due_at config now st0 \<longleftrightarrow> (case ?fp of None \<Rightarrow> False
     | Some t \<Rightarrow> Due (RcCadence config) (of_nat (n + k) - lastCheckpointed st) t now)"
    by (cases ?fp) (simp_all add: due_at_def lastCheckpointed_def st0_def)
  have rs: "rsState current = st" "rsTree current = \<lparr>nodes = Nodes st\<rparr>" using r by (simp_all add: rs_ok_def)
  have en: "take k (drop n ?es) = [] \<longleftrightarrow> k = 0" and pv: "rsPrevious ?cur = rsPrevious current" using n(2) by auto
  have run: "advanceOnce dt ahl config store signer env now current s
     = (case (if due_at config now st0
              then rbind (emitCheckpoint dt config signer st t' (rsPrevious current) (of_nat (n + k)) now)
                (\<lambda>(cp, rows, root).
                  Inr (st0\<lparr>Checkpoint := Some cp, FirstPendingAt := None, Witnesses := Witnesses st @ rows\<rparr>,
                       Some (root_record root)))
              else Inr (st0, rsPrevious current)) of
          Inl err \<Rightarrow> (Inl err, current\<lparr>rsTree := t'\<rparr>, env s)
        | Inr (next_st, previous) \<Rightarrow>
            if k = 0 \<and> \<not> due_at config now st0 then (Inr False, current\<lparr>rsTree := t'\<rparr>, env s)
            else (case store_CommitCLL store (env (env s)) (Size st) (map_option CheckpointBytes (Checkpoint st)) next_st of
                (Inl err, s) \<Rightarrow> (Inl err, current\<lparr>rsTree := t'\<rparr>, s)
              | (Inr _, s) \<Rightarrow> (Inr True, current\<lparr>rsTree := t', rsState := next_st, rsPrevious := previous\<rparr>, s)))"
    unfolding due en [symmetric] advanceOnce_def Let_def rs sc ix sum.case prod.case unfolding st0_def
    by (simp only: State.simps pv)
  have "valid_state dt st0 \<and> Size st \<le> Size st0 \<and> IndexedSeq st \<le> IndexedSeq st0
      \<and> Nodes st = take (length (Nodes st)) (Nodes st0)" if v: "valid_state dt st"
  proof -
    have "pred_option (\<lambda>t. ValidateTime t = Inr ()) ?fp"
      using v log_times [OF o] by (intro first_pending_valid)
        (auto simp: valid_state_def valid_metadata_def dest: in_set_takeD in_set_dropD)
    from indexed_valid [OF v n(1) tn tj t'(2) st0_def this] show ?thesis by simp
  qed
  then show ?thesis
    by (intro that [OF n k tj f(1,3,4,5,6) i0 _ run] impI)
qed

text \<open>The next state with a checkpoint.\<close>

lemma checkpointed:
  assumes i: "inv es st0" and n: "IndexedSeq st0 = of_nat j" "j \<le> length es" and le: "length es \<le> unat MaxPortableInteger"
    and t': "\<lparr>nodes = Nodes st0\<rparr> = t'" "mmr_tree t' j" and d: "due_at config now st0"
    and cw: "Checkpoint st0 = Checkpoint st" "Witnesses st0 = Witnesses st"
  shows "0 < j" "\<forall>c. Checkpoint st = Some c \<longrightarrow> (\<exists>m < j. ckpt_at t' m c)" "FirstPendingAt st0 \<noteq> None"
    and "emitCheckpoint dt config signer st t' prev (of_nat j) now = Inr (cp, rows, root) \<Longrightarrow>
      nx = st0\<lparr>Checkpoint := Some cp, FirstPendingAt := None, Witnesses := Witnesses st @ rows\<rparr> \<Longrightarrow>
      inv es nx \<and> RootFromPeaks dt (Peaks cp) = RootFromPeaks dt (peaks_at t' j)
      \<and> root = hex_EncodeToString (RootFromPeaks dt (Peaks cp))
      \<and> (valid_state dt st0 \<longrightarrow> ValidateTime now = Inr () \<longrightarrow>
           valid_state dt nx \<and> checkpointTransition (Checkpoint st) (Checkpoint nx) = Inr ())"
proof -
  show fp: "FirstPendingAt st0 \<noteq> None" using d by (cases "FirstPendingAt st0") (simp_all add: due_at_def)
  have j: "j \<le> unat MaxPortableInteger" using n(2) le by simp
  note ahead = pending_ahead [OF i n(1) j le fp, unfolded t'(1) cw]
  then show "0 < j" "\<forall>c. Checkpoint st = Some c \<longrightarrow> (\<exists>m < j. ckpt_at t' m c)" by simp_all
  assume e: "emitCheckpoint dt config signer st t' prev (of_nat j) now = Inr (cp, rows, root)"
    and nx: "nx = st0\<lparr>Checkpoint := Some cp, FirstPendingAt := None, Witnesses := Witnesses st @ rows\<rparr>"
  note e = emitted [OF e t'(2) ahead(1)]
  have p: "Peaks cp = peaks_at \<lparr>nodes = Nodes st0\<rparr> j" "mmr_tree \<lparr>nodes = Nodes st0\<rparr> j" using e(3) t' by simp_all
  have "\<forall>w \<in> set rows. CheckpointSize w = of_nat (mmr_size j)" using e(7) by (auto simp: pendingRow_def)
  then have "inv es nx" using emitted_inv [OF i n ahead(1) le e(1,2) p(1) e(4)] cw nx by simp
  moreover have nx': "nx = st0\<lparr>Checkpoint := Some cp, FirstPendingAt := None, Witnesses := Witnesses st0
        @ map (pendingRow (of_nat (mmr_size j)) (CheckpointBytes cp) now) (RcWitnessIDs config)\<rparr>"
    using e(7) cw nx by simp
  ultimately show "inv es nx \<and> RootFromPeaks dt (Peaks cp) = RootFromPeaks dt (peaks_at t' j)
      \<and> root = hex_EncodeToString (RootFromPeaks dt (Peaks cp))
      \<and> (valid_state dt st0 \<longrightarrow> ValidateTime now = Inr () \<longrightarrow>
           valid_state dt nx \<and> checkpointTransition (Checkpoint st) (Checkpoint nx) = Inr ())"
    using e(3,8) emitted_valid [OF _ i fp n(1) p(2) j le e(1,2) p(1) e(5,6) _ nx'] cw(1) by simp
qed

text \<open>
  A pass as its three outcomes: the checkpoint could not be made, there was nothing to do, or a
  next state went to the store. The next state satisfies the invariant, the store must accept it
  over the state it was computed from, and it has either more entries or a checkpoint for all of them.
\<close>

lemma advance_cases:
  assumes o: "ok (env s)" and i: "inv (log_of (env s)) st" and r: "rs_ok dt st current"
  obtains (fail) err current' t' j where
      "advanceOnce dt ahl config store signer env now current s = (Inl err, current', env s)"
      "emitCheckpoint dt config signer st t' (rsPrevious current) (of_nat j) now = Inl err"
      "mmr_tree t' j" "0 < j" "j \<le> length (log_of (env s))"
      "\<forall>c. Checkpoint st = Some c \<longrightarrow> (\<exists>m < j. ckpt_at t' m c)"
  | (idle) current' where
      "advanceOnce dt ahl config store signer env now current s = (Inr False, current', env s)"
      "IndexedSeq st = of_nat (length (log_of (env s)))" "\<not> due_at config now st"
  | (commit) nx prev current' where
      "advanceOnce dt ahl config store signer env now current s
         = (case store_CommitCLL store (env (env s)) (Size st) (map_option CheckpointBytes (Checkpoint st)) nx of
              (Inl err, s) \<Rightarrow> (Inl err, current', s)
            | (Inr _, s) \<Rightarrow> (Inr True, current'\<lparr>rsState := nx, rsPrevious := prev\<rparr>, s))"
      "inv (log_of (env s)) nx" "rs_ok dt nx (current'\<lparr>rsState := nx, rsPrevious := prev\<rparr>)"
      "valid_state dt st \<longrightarrow> ValidateTime now = Inr () \<longrightarrow>
         ApplyCLL dt st (Size st) (map_option CheckpointBytes (Checkpoint st)) nx = Inr nx"
      "unat (IndexedSeq st) < unat (IndexedSeq nx)
         \<or> IndexedSeq st = IndexedSeq nx \<and> FirstPendingAt st \<noteq> None \<and> FirstPendingAt nx = None"
proof -
  let ?es = "log_of (env s)" and ?op = "map_option CheckpointBytes (Checkpoint st)"
  obtain n k t' st0 where n: "IndexedSeq st = of_nat n" "n + k \<le> length ?es" "k = 0 \<longleftrightarrow> n = length ?es"
    and tj: "mmr_tree t' (n + k)" and j: "IndexedSeq st0 = of_nat (n + k)" and t0: "\<lparr>nodes = Nodes st0\<rparr> = t'"
    and cw: "Checkpoint st0 = Checkpoint st" "Witnesses st0 = Witnesses st"
    and fp: "FirstPendingAt st0 = first_pending (FirstPendingAt st) (take k (drop n ?es))" and i0: "inv ?es st0"
    and v0: "valid_state dt st \<longrightarrow> valid_state dt st0 \<and> Size st \<le> Size st0 \<and> IndexedSeq st \<le> IndexedSeq st0
      \<and> Nodes st = take (length (Nodes st)) (Nodes st0)"
    and run: "advanceOnce dt ahl config store signer env now current s
     = (case (if due_at config now st0
              then rbind (emitCheckpoint dt config signer st t' (rsPrevious current) (of_nat (n + k)) now)
                (\<lambda>(cp, rows, root).
                  Inr (st0\<lparr>Checkpoint := Some cp, FirstPendingAt := None, Witnesses := Witnesses st @ rows\<rparr>,
                       Some (root_record root)))
              else Inr (st0, rsPrevious current)) of
          Inl err \<Rightarrow> (Inl err, current\<lparr>rsTree := t'\<rparr>, env s)
        | Inr (next_st, previous) \<Rightarrow>
            if k = 0 \<and> \<not> due_at config now st0 then (Inr False, current\<lparr>rsTree := t'\<rparr>, env s)
            else (case store_CommitCLL store (env (env s)) (Size st) ?op next_st of
                (Inl err, s) \<Rightarrow> (Inl err, current\<lparr>rsTree := t'\<rparr>, s)
              | (Inr _, s) \<Rightarrow> (Inr True, current\<lparr>rsTree := t', rsState := next_st, rsPrevious := previous\<rparr>, s)))"
    by (rule indexed [where env = env and s = s, OF o i r])
  note le = log_length [OF o]
  have u: "unat (of_nat n :: uint64) = n" "unat (of_nat (n + k) :: uint64) = n + k"
    using unat_small [of n] unat_small [of "n + k"] n(2) le by simp_all
  have grow: "unat (IndexedSeq st) < unat (IndexedSeq nx) \<or>
      IndexedSeq st = IndexedSeq nx \<and> FirstPendingAt st \<noteq> None \<and> FirstPendingAt nx = None"
    if "IndexedSeq nx = of_nat (n + k)" "k = 0 \<Longrightarrow> FirstPendingAt st \<noteq> None \<and> FirstPendingAt nx = None" for nx
    using that n(1) u by (cases "k = 0") simp_all
  consider (quiet) "\<not> due_at config now st0" "k = 0" | (index) "\<not> due_at config now st0" "k \<noteq> 0"
    | (error) err where "due_at config now st0" "emitCheckpoint dt config signer st t' (rsPrevious current) (of_nat (n + k)) now = Inl err"
    | (signed) cp rows root where "due_at config now st0"
        "emitCheckpoint dt config signer st t' (rsPrevious current) (of_nat (n + k)) now = Inr (cp, rows, root)"
    by (metis prod_cases3 sumE)
  then show ?thesis
  proof cases
    case quiet
    then have "FirstPendingAt st0 = FirstPendingAt st" using fp by (simp add: first_pending_def split: option.split)
    then have "\<not> due_at config now st"
      using quiet j n(1) cw by (cases "FirstPendingAt st") (simp_all add: due_at_def lastCheckpointed_def)
    then show ?thesis using idle run quiet n(1,3) by simp
  next
    case index
    show ?thesis
    proof (rule commit [OF _ i0])
      show "advanceOnce dt ahl config store signer env now current s
         = (case store_CommitCLL store (env (env s)) (Size st) ?op st0 of
              (Inl err, s) \<Rightarrow> (Inl err, current\<lparr>rsTree := t'\<rparr>, s)
            | (Inr _, s) \<Rightarrow> (Inr True, (current\<lparr>rsTree := t'\<rparr>)\<lparr>rsState := st0, rsPrevious := rsPrevious current\<rparr>, s))"
        using index by (simp add: run split: prod.split sum.split)
      show "rs_ok dt st0 ((current\<lparr>rsTree := t'\<rparr>)\<lparr>rsState := st0, rsPrevious := rsPrevious current\<rparr>)"
        using r cw t0 by (simp add: rs_ok_def)
      show "valid_state dt st \<longrightarrow> ValidateTime now = Inr () \<longrightarrow> ApplyCLL dt st (Size st) ?op st0 = Inr st0"
        using v0 cw by (intro impI accepted [where rows = "[]"]) (simp_all add: checkpointTransition_def split: option.split)
      show "unat (IndexedSeq st) < unat (IndexedSeq st0) \<or>
          IndexedSeq st = IndexedSeq st0 \<and> FirstPendingAt st \<noteq> None \<and> FirstPendingAt st0 = None"
        using index j by (intro grow) simp_all
    qed
  next
    case error
    then show ?thesis
      using run tj n(2) checkpointed(1,2) [OF i0 j n(2) le t0 tj error(1) cw] by (intro fail) simp_all
  next
    case signed
    let ?nx = "st0\<lparr>Checkpoint := Some cp, FirstPendingAt := None, Witnesses := Witnesses st @ rows\<rparr>"
    note c = checkpointed(4) [OF i0 j n(2) le t0 tj signed(1) cw signed(2) refl]
    have f0: "FirstPendingAt st0 \<noteq> None" by (rule checkpointed(3) [OF i0 j n(2) le t0 tj signed(1) cw])
    show ?thesis
    proof (rule commit)
      show "advanceOnce dt ahl config store signer env now current s
         = (case store_CommitCLL store (env (env s)) (Size st) ?op ?nx of
              (Inl err, s) \<Rightarrow> (Inl err, current\<lparr>rsTree := t'\<rparr>, s)
            | (Inr _, s) \<Rightarrow> (Inr True, (current\<lparr>rsTree := t'\<rparr>)\<lparr>rsState := ?nx, rsPrevious := Some (root_record root)\<rparr>, s))"
        using signed by (simp add: run)
      show "inv ?es ?nx" "rs_ok dt ?nx ((current\<lparr>rsTree := t'\<rparr>)\<lparr>rsState := ?nx, rsPrevious := Some (root_record root)\<rparr>)"
        using c t0 by (auto simp: rs_ok_def root_record_def)
      show "valid_state dt st \<longrightarrow> ValidateTime now = Inr () \<longrightarrow> ApplyCLL dt st (Size st) ?op ?nx = Inr ?nx"
        using c v0 by (intro impI accepted [where rows = rows]) simp_all
      show "unat (IndexedSeq st) < unat (IndexedSeq ?nx) \<or>
          IndexedSeq st = IndexedSeq ?nx \<and> FirstPendingAt st \<noteq> None \<and> FirstPendingAt ?nx = None"
        using f0 fp j by (intro grow) (simp_all add: first_pending_None)
    qed
  qed
qed

section \<open>Passes under interference\<close>

text \<open>A store that holds an indexed log, and writers that keep it one and only append to the log.\<close>

abbreviation safe :: "'s \<Rightarrow> bool" where
  "safe s \<equiv> ok s \<and> inv (log_of s) (cll_of s)"

definition grows_to :: "'s \<Rightarrow> 's \<Rightarrow> bool" where
  "grows_to s s' \<longleftrightarrow> safe s' \<and> log_of s = take (length (log_of s)) (log_of s')"

lemma grows_to_refl: "safe s \<Longrightarrow> grows_to s s"
  by (simp add: grows_to_def)

lemma grows_to_trans: "grows_to s s' \<Longrightarrow> grows_to s' s'' \<Longrightarrow> grows_to s s''"
  unfolding grows_to_def by (metis prefix_length take_take min.absorb1)

lemma committed:
  assumes s: "safe s" and nx: "inv es nx" "es = take (length es) (log_of s)"
    and c: "store_CommitCLL store s sz ck nx = (r, s')"
  shows "grows_to s s'"
proof (cases r)
  case (Inl err)
  then show ?thesis using commit_err c s by (auto simp: grows_to_def)
next
  case (Inr u)
  then have *: "ok s' \<and> log_of s' = log_of s \<and> ApplyCLL dt (cll_of s) sz ck nx = Inr (cll_of s')"
    using commit_done c s by auto
  then have "inv (log_of s') (cll_of s')" using applied_inv [OF nx(1), of "log_of s" "cll_of s"] nx(2) s by auto
  then show ?thesis using * by (simp add: grows_to_def)
qed

lemma advance_safe:
  assumes env: "\<forall>s. safe s \<longrightarrow> grows_to s (env s)" and s: "safe s"
    and st: "inv (log_of s) st" "rs_ok dt st current"
    and a: "advanceOnce dt ahl config store signer env now current s = (r, current', s')"
  shows "grows_to s s'" "r = Inr True \<Longrightarrow> \<exists>st'. inv (log_of s') st' \<and> rs_ok dt st' current'"
proof -
  have e: "grows_to s (env s)" "grows_to (env s) (env (env s))" using env s by (auto simp: grows_to_def)
  then have ok: "ok (env s)" "safe (env (env s))" by (simp_all add: grows_to_def)
  have i: "inv (log_of (env s)) st" using runner_inv_log [OF st(1)] e(1) by (simp add: grows_to_def)
  have "grows_to s s' \<and> (r = Inr True \<longrightarrow> (\<exists>st'. inv (log_of s') st' \<and> rs_ok dt st' current'))"
  proof (cases rule: advance_cases [where env = env and s = s and now = now, OF ok(1) i st(2)])
    case (1 err c t j)
    then show ?thesis using a e(1) by simp
  next
    case (2 c)
    then show ?thesis using a e(1) by simp
  next
    case commit: (3 nx prev c)
    obtain q s'' where q: "store_CommitCLL store (env (env s)) (Size st) (map_option CheckpointBytes (Checkpoint st)) nx = (q, s'')"
      by fastforce
    have p: "log_of (env s) = take (length (log_of (env s))) (log_of (env (env s)))" using e(2) by (simp add: grows_to_def)
    have g: "grows_to (env (env s)) s''" by (rule committed [OF ok(2) commit(2) p q])
    have s': "s'' = s'" using a commit(1) q by (cases q) auto
    have "inv (log_of s') nx" using runner_inv_log [OF commit(2)] grows_to_trans [OF e(2) g] s' by (simp add: grows_to_def)
    then show ?thesis
      using a commit(1,3) q s' g grows_to_trans [OF grows_to_trans [OF e] g] by (cases q) auto
  qed
  then show "grows_to s s'" "r = Inr True \<Longrightarrow> \<exists>st'. inv (log_of s') st' \<and> rs_ok dt st' current'" by simp_all
qed

lemma loaded:
  assumes "safe s"
  shows "\<exists>current. loadRunnerState cs dt config store signer s = Inr current \<and> rs_ok dt (cll_of s) current"
  using assms load_ok cll_valid load by metis

lemma RunOnce_safe:
  assumes env: "\<forall>s. safe s \<longrightarrow> grows_to s (env s)" and s: "safe s"
  shows "grows_to s (snd (runner_RunOnce cs dt ahl config store signer env now s))"
proof (cases "normalizeRunnerTime now")
  case (Inr now')
  have e: "grows_to s (env s)" "safe (env s)" using env s by (auto simp: grows_to_def)
  obtain current where c: "loadRunnerState cs dt config store signer (env s) = Inr current" "rs_ok dt (cll_of (env s)) current"
    using loaded [OF e(2)] by blast
  obtain r cur s' where a: "advanceOnce dt ahl config store signer env now' current (env s) = (r, cur, s')" by (rule prod_cases3)
  have "grows_to (env s) s'" using advance_safe(1) [OF env e(2) _ c(2) a] e(2) by simp
  then show ?thesis using Inr c(1) a grows_to_trans [OF e(1)] by (simp add: runner_RunOnce_def Let_def)
qed (use s in \<open>simp add: runner_RunOnce_def grows_to_refl\<close>)

lemma catchUp_loop_safe:
  assumes env: "\<forall>s. safe s \<longrightarrow> grows_to s (env s)"
    and "safe s" "inv (log_of s) st" "rs_ok dt st current"
    and "catchUp_loop fuel cs dt ahl config store signer env now current reloaded s = Some (r, s')"
  shows "grows_to s s'"
  using assms(2-)
proof (induction fuel arbitrary: s st current reloaded)
  case (Suc fuel)
  obtain q cur s1 where a: "advanceOnce dt ahl config store signer env now current s = (q, cur, s1)" by (rule prod_cases3)
  note g = advance_safe [OF env Suc.prems(1-3) a]
  then have s1: "safe s1" by (simp add: grows_to_def)
  then have e: "grows_to s1 (env s1)" "safe (env s1)" using env by (auto simp: grows_to_def)
  obtain c where c: "loadRunnerState cs dt config store signer (env s1) = Inr c" "rs_ok dt (cll_of (env s1)) c"
    using loaded [OF e(2)] by blast
  show ?case
  proof (cases q)
    case (Inl err)
    show ?thesis
    proof (cases "err = ErrContention \<and> \<not> reloaded")
      case True
      then have "catchUp_loop fuel cs dt ahl config store signer env now c True (env s1) = Some (r, s')"
        using Suc.prems(4) a Inl c(1) by (simp add: Let_def)
      then have "grows_to (env s1) s'" using Suc.IH [OF e(2) _ c(2)] e(2) by simp
      then show ?thesis using g(1) e(1) grows_to_trans by blast
    qed (use Suc.prems(4) a Inl g(1) in auto)
  next
    case (Inr changed)
    show ?thesis
    proof (cases changed)
      case True
      then obtain st' where "inv (log_of s1) st'" "rs_ok dt st' cur" using g(2) Inr by auto
      then have "grows_to s1 s'" using Suc.IH [OF s1] Suc.prems(4) a Inr True by simp
      then show ?thesis by (rule grows_to_trans [OF g(1)])
    qed (use Suc.prems(4) a Inr g(1) in auto)
  qed
qed simp

lemma catchUp_safe:
  assumes env: "\<forall>s. safe s \<longrightarrow> grows_to s (env s)" and s: "safe s"
    and c: "catchUp fuel cs dt ahl config store signer env now s = Some (r, s')"
  shows "grows_to s s'"
proof (cases "normalizeRunnerTime now")
  case (Inr now')
  have e: "grows_to s (env s)" "safe (env s)" using env s by (auto simp: grows_to_def)
  obtain current where l: "loadRunnerState cs dt config store signer (env s) = Inr current" "rs_ok dt (cll_of (env s)) current"
    using loaded [OF e(2)] by blast
  then have "grows_to (env s) s'"
    using catchUp_loop_safe [OF env e(2) _ l(2)] e(2) c Inr by (simp add: catchUp_def Let_def)
  then show ?thesis by (rule grows_to_trans [OF e(1)])
qed (use s c in \<open>simp add: catchUp_def grows_to_refl\<close>)

end

section \<open>Progress\<close>

text \<open>What is left to do: entries to index, and a checkpoint for those that are.\<close>

definition todo :: "Entry list \<Rightarrow> State \<Rightarrow> nat" where
  "todo es st = 2 * (length es - unat (IndexedSeq st)) + (if FirstPendingAt st = None then 0 else 1)"

text \<open>A configuration under which every payload of the runner is canonical.\<close>

definition signable :: "Signer \<Rightarrow> time \<Rightarrow> nat \<Rightarrow> bool" where
  "signable signer now n \<longleftrightarrow> (\<exists>key. Signer_KeyID signer = hex_EncodeToString key \<and> length key = 32)
     \<and> 0 \<le> Year now \<and> Year now \<le> 9999 \<and> mmr_size n \<le> unat MaxPortableInteger"

locale reliable_runner = runner_store cs dt signer ahl config ok log_of cll_of store
    + reliable_store dt ok log_of cll_of store
  for cs dt signer ahl config and ok :: "'s \<Rightarrow> bool" and log_of cll_of store
begin

text \<open>Nothing but the signer can make a checkpoint fail.\<close>

lemma emit_fail:
  assumes t: "mmr_tree t j" "0 < j" "\<forall>c. Checkpoint st = Some c \<longrightarrow> (\<exists>m < j. ckpt_at t m c)"
    and r: "rs_ok dt st current" and g: "signable signer now j"
    and e: "emitCheckpoint dt config signer st t (rsPrevious current) ix now = Inl err"
  shows "\<exists>body peaks prev pf. Signer_SignCheckpoint signer body peaks prev pf = Inl err"
proof -
  have sz: "Tree_Size t = of_nat (mmr_size j)" using mmr_treeD(1) [OF t(1)] by (simp add: Tree_Size_def)
  have b: "mmr_size j \<le> unat MaxPortableInteger" "0 < mmr_size j"
    using g t(2) le_mmr_size [of j] by (simp_all add: signable_def)
  have ms: "Tree_Size t \<le> MaxPortableInteger" "Tree_Size t \<noteq> 0"
    using unat_small [OF b(1)] b sz by (auto simp: word_le_nat_alt simp flip: unat_eq_zero)
  have pk: "PeakHashesAt dt t (Tree_Size t) = Inr (peaks_at t j)"
    using dtmmr_lib.PeakHashesAt_eq [OF dlib t(1) order_refl] sz by (simp add: PeakHashesAt_def)
  have rt: "Tree_Root dt t = Inr (RootFromPeaks dt (peaks_at t j))" by (rule dtmmr_lib.Root_eq [OF dlib t(1)])
  have w: "length (RootFromPeaks dt (peaks_at t m)) = 32" if "m \<le> j" for m
    by (rule dtmmr_lib.length_RootFromPeaks [OF dlib peaks_at_width [OF t(1) that]])
  have lid: "ValidateIdentifier (RcLogID config) = Inr ()" by (rule NewRunner_valid(7) [OF config])
  let ?p = "\<lparr>LogID = RcLogID config, KeyID = Signer_KeyID signer, MMRSize = Tree_Size t,
           Root = hex_EncodeToString (RootFromPeaks dt (peaks_at t j)), PrevSize = 0, PrevRoot = [],
           Timestamp = \<lparr>Instant = now, InUTC = True\<rparr>\<rparr>"
  have base: "\<exists>body. CanonicalJSON (?p\<lparr>PrevSize := ps, PrevRoot := pr\<rparr>) = Inr body"
    if "ps < Tree_Size t" "if ps = 0 then pr = [] else \<exists>root. pr = hex_EncodeToString root \<and> length root = 32" for ps pr
    using g ms w [OF order_refl] lid that by (auto simp: CanonicalJSON_iff canonical_payload_def signable_def)
  show ?thesis
  proof (cases "Checkpoint st")
    case None
    obtain body where "CanonicalJSON ?p = Inr body" using base [of 0 "[]"] ms(2) by (auto simp: word_gt_0)
    then show ?thesis using e rt pk None unfolding emitCheckpoint_def
      by (auto simp: Let_def rbind_def split: sum.splits)
  next
    case (Some c)
    obtain m where m: "m < j" "ckpt_at t m c" using t(3) Some by blast
    obtain rec where rec: "rsPrevious current = Some rec" "RRoot rec = hex_EncodeToString (RootFromPeaks dt (peaks_at t m))"
      using r Some m(2) by (auto simp: rs_ok_def ckpt_at_def)
    have c: "CkSize c = of_nat (mmr_size m)" using m(2) by (simp add: ckpt_at_def)
    have mj: "mmr_size m < mmr_size j" using m(1) by simp
    have um: "unat (CkSize c) = mmr_size m"
      using c unat_small [OF order_trans [OF less_imp_le [OF mj] b(1)]] by simp
    have lt: "CkSize c < Tree_Size t" using mj um sz unat_small [OF b(1)] by (simp only: word_less_nat_alt)
    have "0 < m" using m(2) by (simp add: ckpt_at_def)
    then have "0 < mmr_size m" using le_mmr_size [of m] by simp
    then have nz: "CkSize c \<noteq> 0" using um by auto
    obtain pf where pf: "ConsistencyProofAt dt t (CkSize c) (Tree_Size t) = Inr pf"
      using dtmmr_lib.consistency_complete [OF dlib t(1) order_refl, of m] m(1) c sz by auto
    obtain body where "CanonicalJSON (?p\<lparr>PrevSize := CkSize c, PrevRoot := RRoot rec\<rparr>) = Inr body"
      using base [OF lt, of "RRoot rec"] nz rec(2) w [of m] m(1) by auto
    then show ?thesis using e rt pk pf rec(1) Some unfolding emitCheckpoint_def
      by (auto simp: Let_def rbind_def split: sum.splits)
  qed
qed

lemma signable_mono: "signable signer now n \<Longrightarrow> m \<le> n \<Longrightarrow> signable signer now m"
  unfolding signable_def by (meson mmr_size_le_iff order_trans)

text \<open>One pass alone with the store: the signer refused, all is done, or there is less left to do.\<close>

lemma advance_live:
  assumes s: "safe s" and c: "rs_ok dt (cll_of s) current" and now: "ValidateTime now = Inr ()"
    and g: "signable signer now (length (log_of s))"
    and a: "advanceOnce dt ahl config store signer (\<lambda>s. s) now current s = (r, current', s')"
  shows "(\<exists>err body peaks prev pf. r = Inl err \<and> Signer_SignCheckpoint signer body peaks prev pf = Inl err \<and> s' = s)
    \<or> r = Inr False \<and> s' = s \<and> IndexedSeq (cll_of s) = of_nat (length (log_of s)) \<and> \<not> due_at config now (cll_of s)
    \<or> r = Inr True \<and> safe s' \<and> log_of s' = log_of s \<and> rs_ok dt (cll_of s') current'
      \<and> todo (log_of s') (cll_of s') < todo (log_of s) (cll_of s)"
proof -
  let ?st = "cll_of s"
  have o: "ok s" "inv (log_of s) ?st" using s by simp_all
  show ?thesis
  proof (cases rule: advance_cases [where env = "\<lambda>s. s" and s = s and now = now, OF o c])
    case f: (1 err c' t j)
    have "signable signer now j" using signable_mono [OF g] f(5) by simp
    from emit_fail [OF f(3,4,6) c this f(2)] show ?thesis using a f(1) by auto
  next
    case (2 c')
    then show ?thesis using a by simp
  next
    case n: (3 nx prev c')
    have ap: "ApplyCLL dt ?st (Size ?st) (map_option CheckpointBytes (Checkpoint ?st)) nx = Inr nx"
      using n(4) cll_valid s now by simp
    then obtain s1 where s1: "store_CommitCLL store s (Size ?st) (map_option CheckpointBytes (Checkpoint ?st)) nx = (Inr (), s1)"
      using commit_total s by blast
    then have d: "ok s1" "log_of s1 = log_of s" "cll_of s1 = nx" using commit_done [of s] s ap by auto
    have e: "r = Inr True" "s' = s1" "current' = c'\<lparr>rsState := nx, rsPrevious := prev\<rparr>"
      using a n(1) s1 by simp_all
    obtain j where j: "j \<le> length (log_of s)" "IndexedSeq nx = of_nat j" using n(2) by (auto elim: runner_invE)
    then have "unat (IndexedSeq nx) \<le> length (log_of s)" using unat_small [of j] log_length [of s] s by simp
    then have "todo (log_of s) nx < todo (log_of s) ?st" using n(5) by (auto simp: todo_def)
    then show ?thesis using e d n(2,3) by simp
  qed
qed

lemma catchUp_loop_live:
  assumes "safe s" "rs_ok dt (cll_of s) current" "ValidateTime now = Inr ()"
    and "signable signer now (length (log_of s))"
    and nc: "\<forall>body peaks prev pf. Signer_SignCheckpoint signer body peaks prev pf \<noteq> Inl ErrContention"
    and "todo (log_of s) (cll_of s) < fuel"
  shows "\<exists>r s'. catchUp_loop fuel cs dt ahl config store signer (\<lambda>s. s) now current reloaded s = Some (r, s') \<and> safe s'
    \<and> log_of s' = log_of s
    \<and> ((\<exists>err body peaks prev pf. r = Inl err \<and> Signer_SignCheckpoint signer body peaks prev pf = Inl err)
      \<or> r = Inr () \<and> IndexedSeq (cll_of s') = of_nat (length (log_of s')) \<and> \<not> due_at config now (cll_of s'))"
  using assms(1,2,4,6)
proof (induction fuel arbitrary: s current reloaded)
  case (Suc fuel)
  obtain q cur s1 where a: "advanceOnce dt ahl config store signer (\<lambda>s. s) now current s = (q, cur, s1)" by (rule prod_cases3)
  show ?case
    using advance_live [OF Suc.prems(1,2) assms(3) Suc.prems(3) a]
  proof (elim disjE exE conjE)
    assume t: "q = Inr True" "ok s1" "inv (log_of s1) (cll_of s1)" "log_of s1 = log_of s" "rs_ok dt (cll_of s1) cur"
      "todo (log_of s1) (cll_of s1) < todo (log_of s) (cll_of s)"
    then have "\<exists>r s'. catchUp_loop fuel cs dt ahl config store signer (\<lambda>s. s) now cur False s1 = Some (r, s') \<and> safe s'
      \<and> log_of s' = log_of s1
      \<and> ((\<exists>err body peaks prev pf. r = Inl err \<and> Signer_SignCheckpoint signer body peaks prev pf = Inl err)
        \<or> r = Inr () \<and> IndexedSeq (cll_of s') = of_nat (length (log_of s')) \<and> \<not> due_at config now (cll_of s'))"
      using Suc.prems(3,4) by (intro Suc.IH) simp_all
    then show ?thesis using a t(1,4) by simp
  next
    fix err body peaks prev pf
    assume e: "q = Inl err" "Signer_SignCheckpoint signer body peaks prev pf = Inl err" "s1 = s"
    then have "err \<noteq> ErrContention" using nc by metis
    then show ?thesis using a e Suc.prems(1) by auto
  qed (use a Suc.prems(1) in simp)
qed simp

lemma todo_bound: "todo es st \<le> 2 * length es + 1"
  by (auto simp: todo_def intro: le_SucI mult_le_mono2)

lemma catchUp_live:
  assumes s: "safe s" and now: "ValidateTime now = Inr ()"
    and g: "signable signer (NormalizeTime now) (length (log_of s))"
    and nc: "\<forall>body peaks prev pf. Signer_SignCheckpoint signer body peaks prev pf \<noteq> Inl ErrContention"
    and f: "2 * length (log_of s) + 1 < fuel"
  shows "\<exists>r s'. catchUp fuel cs dt ahl config store signer (\<lambda>s. s) now s = Some (r, s') \<and> safe s'
    \<and> log_of s' = log_of s
    \<and> ((\<exists>err body peaks prev pf. r = Inl err \<and> Signer_SignCheckpoint signer body peaks prev pf = Inl err)
      \<or> r = Inr () \<and> IndexedSeq (cll_of s') = of_nat (length (log_of s')) \<and> \<not> due_at config (NormalizeTime now) (cll_of s'))"
proof -
  obtain current where l: "loadRunnerState cs dt config store signer s = Inr current" "rs_ok dt (cll_of s) current"
    using loaded [OF s] by blast
  have n: "normalizeRunnerTime now = Inr (NormalizeTime now)" using now by (simp add: normalizeRunnerTime_def Let_def)
  have "todo (log_of s) (cll_of s) < fuel" using todo_bound f by (rule order_le_less_trans)
  then show ?thesis
    using catchUp_loop_live [OF s l(2) _ g nc, of fuel False] now n l(1) by (simp add: catchUp_def Let_def)
qed

end

end
