(* ===== verification/Cose_Reference.thy ===== *)
theory Cose_Reference
  imports Runner_Steps
begin

text \<open>
  An executable instance of the COSE and CBOR parameters, which shows that the laws of \<open>cose_lib\<close>
  are consistent: self-delimiting codes for the values the checkpoint package encodes, messages in
  the four-header profile it signs, and a signature scheme without secrets.
\<close>

section \<open>Self-delimiting codes\<close>

type_synonym 'a decoder = "bytes \<Rightarrow> ('a \<times> bytes) option"

locale code =
  fixes enc :: "'a \<Rightarrow> bytes" and dec :: "'a decoder"
  assumes dec_enc: "dec (enc x @ r) = Some (x, r)"
begin

definition decode_all :: "bytes \<Rightarrow> 'a option" where
  "decode_all b = (case dec b of Some (x, []) \<Rightarrow> Some x | _ \<Rightarrow> None)"

lemma decode_all_enc: "decode_all (enc x) = Some x"
  using dec_enc [of x "[]"] by (simp add: decode_all_def)

end

definition enc_byte :: "byte \<Rightarrow> bytes" where "enc_byte b = [b]"

fun dec_byte :: "byte decoder" where
  "dec_byte [] = None"
| "dec_byte (b # r) = Some (b, r)"

definition enc_list :: "('a \<Rightarrow> bytes) \<Rightarrow> 'a list \<Rightarrow> bytes" where
  "enc_list enc xs = concat (map (\<lambda>x. 1 # enc x) xs) @ [0]"

fun dec_items :: "nat \<Rightarrow> 'a decoder \<Rightarrow> 'a list decoder" where
  "dec_items 0 dec b = None"
| "dec_items (Suc n) dec [] = None"
| "dec_items (Suc n) dec (t # b) =
     (if t = 0 then Some ([], b)
      else Option.bind (dec b) (\<lambda>(x, b). Option.bind (dec_items n dec b) (\<lambda>(xs, r). Some (x # xs, r))))"

definition dec_list :: "'a decoder \<Rightarrow> 'a list decoder" where
  "dec_list dec b = dec_items (length b) dec b"

definition enc_map :: "('b \<Rightarrow> 'a) \<Rightarrow> ('a \<Rightarrow> bytes) \<Rightarrow> 'b \<Rightarrow> bytes" where
  "enc_map f enc x = enc (f x)"

definition dec_map :: "('a \<Rightarrow> 'b) \<Rightarrow> 'a decoder \<Rightarrow> 'b decoder" where
  "dec_map g dec b = map_option (\<lambda>(x, r). (g x, r)) (dec b)"

definition enc_pair :: "('a \<Rightarrow> bytes) \<Rightarrow> ('b \<Rightarrow> bytes) \<Rightarrow> 'a \<times> 'b \<Rightarrow> bytes" where
  "enc_pair ea eb x = ea (fst x) @ eb (snd x)"

definition dec_pair :: "'a decoder \<Rightarrow> 'b decoder \<Rightarrow> ('a \<times> 'b) decoder" where
  "dec_pair da db b = Option.bind (da b) (\<lambda>(x, b). Option.bind (db b) (\<lambda>(y, r). Some ((x, y), r)))"

lemma dec_items_enc:
  assumes "code enc dec" "length xs < n"
  shows "dec_items n dec (enc_list enc xs @ r) = Some (xs, r)"
  using assms(2)
proof (induction xs arbitrary: n)
  case Nil
  then show ?case by (cases n) (simp_all add: enc_list_def)
next
  case (Cons x xs)
  then obtain m where "n = Suc m" "length xs < m" by (cases n) auto
  then show ?case using Cons.IH [of m] code.dec_enc [OF assms(1)] by (simp add: enc_list_def)
qed

lemma length_enc_list: "length xs < length (enc_list enc xs)"
  by (induction xs) (auto simp: enc_list_def)

lemma enc_list_not_Nil: "enc_list enc xs \<noteq> []"
  by (simp add: enc_list_def)

lemma code_list: "code enc dec \<Longrightarrow> code (enc_list enc) (dec_list dec)"
  using length_enc_list [of _ enc]
  by (auto simp: code_def dec_list_def intro!: dec_items_enc intro: trans_less_add1)

lemma code_map: "code enc dec \<Longrightarrow> (\<And>x. g (f x) = x) \<Longrightarrow> code (enc_map f enc) (dec_map g dec)"
  by (simp add: code_def enc_map_def dec_map_def)

lemma code_pair: "code ea da \<Longrightarrow> code eb db \<Longrightarrow> code (enc_pair ea eb) (dec_pair da db)"
  by (simp add: code_def enc_pair_def dec_pair_def)

interpretation byte_code: code enc_byte dec_byte
  by unfold_locales (simp add: enc_byte_def)

abbreviation "enc_bytes \<equiv> enc_list enc_byte"
abbreviation "dec_bytes \<equiv> dec_list dec_byte"
abbreviation "enc_string \<equiv> enc_map bytes_of enc_bytes"
abbreviation "dec_string \<equiv> dec_map string_of dec_bytes"
abbreviation "enc_uint \<equiv> enc_map FormatUint enc_string"
abbreviation "dec_uint \<equiv> dec_map (\<lambda>s. the (ParseUint64 s)) dec_string"
abbreviation "enc_blobs \<equiv> enc_list enc_bytes"
abbreviation "dec_blobs \<equiv> dec_list dec_bytes"

text \<open>Optional values are lists of at most one.\<close>

abbreviation enc_option :: "('a \<Rightarrow> bytes) \<Rightarrow> 'a option \<Rightarrow> bytes" where
  "enc_option enc \<equiv> enc_map (\<lambda>x. case x of None \<Rightarrow> [] | Some a \<Rightarrow> [a]) (enc_list enc)"

abbreviation dec_option :: "'a decoder \<Rightarrow> 'a option decoder" where
  "dec_option dec \<equiv> dec_map (\<lambda>xs. case xs of [] \<Rightarrow> None | a # _ \<Rightarrow> Some a) (dec_list dec)"

interpretation bytes_code: code enc_bytes dec_bytes
  by (rule code_list [OF byte_code.code_axioms])

interpretation string_code: code enc_string dec_string
  by (rule code_map [OF bytes_code.code_axioms]) simp

interpretation uint_code: code enc_uint dec_uint
  by (rule code_map [OF string_code.code_axioms]) simp

interpretation blobs_code: code enc_blobs dec_blobs
  by (rule code_list [OF bytes_code.code_axioms])

lemma code_option: "code enc dec \<Longrightarrow> code (enc_option enc) (dec_option dec)"
  by (intro code_map code_list) (auto split: option.split)

section \<open>Claims and messages\<close>

definition enc_proof :: "wireConsistencyProof \<Rightarrow> bytes" where
  "enc_proof = enc_map (\<lambda>p. (SizeA p, SizeB p, WpOldPeaks p, WpWitness p, WpNewPeaks p))
     (enc_pair enc_uint (enc_pair enc_uint (enc_pair enc_blobs (enc_pair (enc_list enc_blobs) enc_blobs))))"

definition dec_proof :: "wireConsistencyProof decoder" where
  "dec_proof = dec_map (\<lambda>(a, b, os, ws, ns). \<lparr>SizeA = a, SizeB = b, WpOldPeaks = os, WpWitness = ws, WpNewPeaks = ns\<rparr>)
     (dec_pair dec_uint (dec_pair dec_uint (dec_pair dec_blobs (dec_pair (dec_list dec_blobs) dec_blobs))))"

definition enc_claims :: "wireClaims \<Rightarrow> bytes" where
  "enc_claims = enc_map (\<lambda>w. (WcKind w, WcLogSize w, WcCommitment w, WcPrevSize w, WcPrevCommitment w, WcIssuedAt w,
       WcCadence w, WcConsistencyProof w))
     (enc_pair enc_string (enc_pair enc_uint (enc_pair enc_bytes (enc_pair enc_uint (enc_pair enc_bytes
       (enc_pair enc_string (enc_pair (enc_option enc_uint) (enc_option enc_proof))))))))"

definition dec_claims :: "wireClaims decoder" where
  "dec_claims = dec_map (\<lambda>(k, s, c, ps, pc, t, cd, pf). \<lparr>WcKind = k, WcLogSize = s, WcCommitment = c, WcPrevSize = ps,
       WcPrevCommitment = pc, WcIssuedAt = t, WcCadence = cd, WcConsistencyProof = pf\<rparr>)
     (dec_pair dec_string (dec_pair dec_uint (dec_pair dec_bytes (dec_pair dec_uint (dec_pair dec_bytes
       (dec_pair dec_string (dec_pair (dec_option dec_uint) (dec_option dec_proof))))))))"

interpretation proof_code: code enc_proof dec_proof
  unfolding enc_proof_def dec_proof_def
  by (rule code_map) (auto intro!: code_pair code_list uint_code.code_axioms bytes_code.code_axioms)

interpretation claims_code: code enc_claims dec_claims
  unfolding enc_claims_def dec_claims_def
  by (rule code_map) (auto intro!: code_pair code_option uint_code.code_axioms bytes_code.code_axioms
      string_code.code_axioms proof_code.code_axioms)

definition header_of :: "bytes \<Rightarrow> string \<Rightarrow> string \<Rightarrow> header" where
  "header_of kid issuer subject =
     [(AnyInt64 1, AnyInt64 (-8)), (AnyInt64 3, AnyString ContentType), (AnyInt64 4, AnyBytes kid),
      (AnyInt64 15, AnyCWTClaims [(AnyInt64 1, AnyString issuer), (AnyInt64 2, AnyString subject)])]"

definition profile_of :: "header \<Rightarrow> (bytes \<times> string \<times> string) option" where
  "profile_of h =
     (case (map_of h (AnyInt64 4), map_of h (AnyInt64 15)) of
        (Some (AnyBytes kid), Some (AnyCWTClaims c)) \<Rightarrow>
          (case (map_of c (AnyInt64 1), map_of c (AnyInt64 2)) of
             (Some (AnyString issuer), Some (AnyString subject)) \<Rightarrow>
               if h = header_of kid issuer subject then Some (kid, issuer, subject) else None
           | _ \<Rightarrow> None)
      | _ \<Rightarrow> None)"

lemma profile_of_header_of [simp]: "profile_of (header_of kid issuer subject) = Some (kid, issuer, subject)"
  by (simp add: profile_of_def header_of_def)

lemma profile_of_Some: "profile_of h = Some (kid, issuer, subject) \<Longrightarrow> h = header_of kid issuer subject"
  by (auto simp: profile_of_def split: option.splits any.splits if_splits)

abbreviation "enc_message \<equiv> enc_pair enc_bytes (enc_pair enc_string (enc_pair enc_string (enc_pair enc_bytes enc_bytes)))"
abbreviation "dec_message \<equiv> dec_pair dec_bytes (dec_pair dec_string (dec_pair dec_string (dec_pair dec_bytes dec_bytes)))"

interpretation message_code: code enc_message dec_message
  by (intro code_pair bytes_code.code_axioms string_code.code_axioms)

definition ref_Marshal :: "Sign1Message \<Rightarrow> bytes result" where
  "ref_Marshal m =
     (case profile_of (Protected m) of
        None \<Rightarrow> Inl (ErrMsg ''cbor'')
      | Some (kid, issuer, subject) \<Rightarrow>
          if Unprotected m \<noteq> [] then Inl (ErrMsg ''cbor'')
          else Inr (enc_message (kid, issuer, subject, MsgPayload m, Signature m)))"

definition ref_Unmarshal :: "bytes \<Rightarrow> Sign1Message result" where
  "ref_Unmarshal b =
     (case message_code.decode_all b of
        None \<Rightarrow> Inl (ErrMsg ''cbor'')
      | Some (kid, issuer, subject, payload, signature) \<Rightarrow>
          Inr \<lparr>Protected = header_of kid issuer subject, Unprotected = [], RawProtected = [],
               MsgPayload = payload, Signature = signature\<rparr>)"

definition or_error :: "'a option \<Rightarrow> 'a result" where
  "or_error x = (case x of None \<Rightarrow> Inl (ErrMsg ''cbor'') | Some a \<Rightarrow> Inr a)"

lemma or_error_Some [simp]: "or_error (Some a) = Inr a"
  by (simp add: or_error_def)

definition cose_ref :: cose where
  "cose_ref = \<lparr>
     cose_UnmarshalCBOR = ref_Unmarshal,
     cose_MarshalCBOR = ref_Marshal,
     cose_Algorithm = (\<lambda>h. case map_of h (AnyInt64 1) of Some (AnyInt64 a) \<Rightarrow> Inr a | _ \<Rightarrow> Inl (ErrMsg ''cose'')),
     cose_SetAlgorithm = (\<lambda>a h. AList.update (AnyInt64 1) (AnyInt64 a) h),
     cose_SetCWTClaims = (\<lambda>c h. Inr (AList.update (AnyInt64 15) (AnyCWTClaims c) h)),
     cose_AlgorithmEdDSA = -8,
     cose_HeaderLabelContentType = AnyInt64 3,
     cose_HeaderLabelKeyID = AnyInt64 4,
     cose_HeaderLabelCWTClaims = AnyInt64 15,
     cose_CWTClaimIssuer = AnyInt64 1,
     cose_CWTClaimSubject = AnyInt64 2,
     cose_NewVerifier = (\<lambda>key. Inr ()),
     cose_Verify = (\<lambda>key m. if Signature m = key @ MsgPayload m then Inr () else Inl (ErrMsg ''verification error'')),
     cose_NewSigner = (\<lambda>key. Inr ()),
     cose_Sign = (\<lambda>key m. Inr (m\<lparr>Signature := drop 32 key @ MsgPayload m\<rparr>)),
     cbor_claims_Unmarshal = (\<lambda>b. or_error (claims_code.decode_all b)),
     cbor_claims_Marshal = (\<lambda>w. Inr (enc_claims w)),
     cbor_peaks_Unmarshal = (\<lambda>b. or_error (blobs_code.decode_all b)),
     cbor_peaks_Marshal = (\<lambda>ps. Inr (enc_blobs ps))\<rparr>"

lemma ref_message_codec:
  assumes "ref_Marshal m = Inr b"
  shows "\<exists>m'. ref_Unmarshal b = Inr m' \<and> ref_Marshal m' = Inr b \<and> Protected m' = Protected m
    \<and> Unprotected m' = Unprotected m \<and> MsgPayload m' = MsgPayload m \<and> Signature m' = Signature m"
proof -
  obtain kid issuer subject where p: "profile_of (Protected m) = Some (kid, issuer, subject)" "Unprotected m = []"
    "b = enc_message (kid, issuer, subject, MsgPayload m, Signature m)"
    using assms by (auto simp: ref_Marshal_def split: option.splits if_splits)
  then show ?thesis
    using profile_of_Some [OF p(1)] by (simp add: ref_Unmarshal_def message_code.decode_all_enc ref_Marshal_def)
qed

interpretation cose_ref_lib: cose_lib cose_ref "AnyInt64 1" "AnyInt64 (-8)"
proof
  fix m b
  assume "cose_MarshalCBOR cose_ref m = Inr b"
  then obtain m' where "ref_Unmarshal b = Inr m'" "ref_Marshal m' = Inr b" "Protected m' = Protected m"
    "Unprotected m' = Unprotected m" "MsgPayload m' = MsgPayload m" "Signature m' = Signature m"
    using ref_message_codec [of m b] by (auto simp: cose_ref_def)
  then show "\<exists>m'. cose_UnmarshalCBOR cose_ref b = Inr m'
      \<and> cose_MarshalCBOR cose_ref m' = Inr b \<and> MsgPayload m' = MsgPayload m
      \<and> length (Unprotected m') = length (Unprotected m) \<and> length (Protected m') = length (Protected m)
      \<and> cose_Algorithm cose_ref (Protected m') = cose_Algorithm cose_ref (Protected m)
      \<and> map_of (Protected m') (cose_HeaderLabelContentType cose_ref) = map_of (Protected m) (cose_HeaderLabelContentType cose_ref)
      \<and> map_of (Protected m') (cose_HeaderLabelKeyID cose_ref) = map_of (Protected m) (cose_HeaderLabelKeyID cose_ref)
      \<and> protectedCWTClaims (map_of (Protected m') (cose_HeaderLabelCWTClaims cose_ref))
        = protectedCWTClaims (map_of (Protected m) (cose_HeaderLabelCWTClaims cose_ref))
      \<and> (\<forall>key. cose_Verify cose_ref key m' = cose_Verify cose_ref key m)"
    by (intro exI [of _ m']) (simp add: cose_ref_def)
qed (auto simp: cose_ref_def claims_code.decode_all_enc blobs_code.decode_all_enc enc_list_not_Nil)

definition ex_key :: bytes where "ex_key = replicate 64 7"

interpretation ed_ref: ed25519_key cose_ref "AnyInt64 1" "AnyInt64 (-8)" ex_key
  by unfold_locales (simp add: ex_key_def)

end
