(* ===== verification/Checkpoint_Properties.thy ===== *)
theory Checkpoint_Properties
  imports Cose_Reference
begin

text \<open>
  The properties of signed checkpoints: the canonical body, what an accepted statement guarantees,
  what the signer produces, and the append-only evidence a chain of statements gives.
\<close>

section \<open>Example checkpoint\<close>

definition ex_signer :: Ed25519Signer where
  "ex_signer = \<lparr>SgPrivate = ex_key, SgPublic = drop 32 ex_key\<rparr>"

definition ex_payload :: Payload where
  "ex_payload = \<lparr>LogID = ''log'', KeyID = signer_KeyID ex_signer, MMRSize = 1,
     Root = hex_EncodeToString (RootFromPeaks dt_ref [leafHash (replicate 32 7)]), PrevSize = 0, PrevRoot = [],
     Timestamp = \<lparr>Instant = 0, InUTC = True\<rparr>\<rparr>"

lemma length_ex_key: "length ex_key = 64"
  by (simp add: ex_key_def)

lemma ex_year: "Year 0 = 1970"
  by code_simp

lemma length_ex_root: "length (RootFromPeaks dt_ref [leafHash (replicate 32 7)]) = 32"
  by (rule ref_lib.length_RootFromPeaks) simp

lemma ex_canonical: "canonical_payload ex_payload"
proof -
  have "KeyID ex_payload = hex_EncodeToString (drop 32 ex_key)" "length (drop 32 ex_key) = 32"
    by (simp_all add: ex_payload_def signer_KeyID_def ex_signer_def length_ex_key)
  then show ?thesis
    using ex_year length_ex_root unfolding canonical_payload_def
    by (auto simp: ex_payload_def ValidateIdentifier_def identifierPattern_def identifier_char_def
        MaxIdentifierBytes_def MaxPortableInteger_def)
qed

text \<open>The statement that the signer makes for it with the reference codec.\<close>

definition ex_claims :: bytes where
  "ex_claims = enc_claims \<lparr>WcKind = wireKind, WcLogSize = 1, WcCommitment = enc_blobs [leafHash (replicate 32 7)],
     WcPrevSize = 0, WcPrevCommitment = [], WcIssuedAt = format_RFC3339Nano 0, WcCadence = None, WcConsistencyProof = None\<rparr>"

definition ex_statement :: bytes where
  "ex_statement = enc_message (drop 32 ex_key, ''log'', ''log#1'', ex_claims, drop 32 ex_key @ ex_claims)"

lemma length_enc_bytes: "length (enc_bytes b) = 2 * length b + 1"
  by (induction b) (simp_all add: enc_list_def enc_byte_def)

lemma length_enc_string: "length (enc_string s) = 2 * length s + 1"
  by (simp add: enc_map_def length_enc_bytes)

lemma length_enc_uint: "length (enc_uint n) \<le> 41"
  using length_FormatUint [of n] by (simp add: enc_map_def length_enc_bytes)

lemma length_enc_pair: "length (enc_pair ea eb p) = length (ea (fst p)) + length (eb (snd p))"
  by (simp add: enc_pair_def)

lemma length_ex_claims: "length ex_claims \<le> 400"
proof -
  have "length (format_RFC3339Nano 0) \<le> 30" using length_timestamp [of 0] ex_year by simp
  then show ?thesis
    using length_enc_uint [of 1] length_enc_uint [of 0]
    by (simp add: ex_claims_def enc_claims_def enc_map_def [of "\<lambda>w. (WcKind w, _ w)"] length_enc_pair length_enc_string length_enc_bytes
        enc_list_def [of _ "[_]"] wireKind_def enc_map_def [of "\<lambda>x. case x of None \<Rightarrow> [] | Some a \<Rightarrow> [a]"] enc_list_def [of _ "[]"])
qed

definition ex_body :: bytes where
  "ex_body = bytes_of (marshalProjection (projection ex_payload))"

lemma ex_parse: "ParsePayload ex_body = Inr ex_payload" "CanonicalJSON ex_payload = Inr ex_body"
  using ex_canonical by (simp_all add: ParsePayload_iff CanonicalJSON_iff ex_body_def ex_payload_def)

lemma ex_encoded:
  "encodeWireClaims cose_ref dt_ref ex_payload [leafHash (replicate 32 7)] [] None None = Inr ex_claims"
proof -
  have "validatePeakCommitments dt_ref ex_payload [leafHash (replicate 32 7)] [] = Inr ()"
    by (simp add: validatePeakCommitments_def ex_payload_def rootFromPeaks_def)
  moreover have "formatTimestamp (Timestamp ex_payload) = Inr (format_RFC3339Nano 0)"
    using ex_year by (simp add: formatTimestamp_def ex_payload_def Let_def)
  moreover have "MMRSize ex_payload = 1" "PrevSize ex_payload = 0" by (simp_all add: ex_payload_def)
  ultimately show ?thesis
    by (simp add: encodeWireClaims_def bad_cadence_def CommitmentObject_def hashSize_def cose_ref_def ex_claims_def)
qed

lemma FormatUint_1: "FormatUint 1 = ''1''"
  by code_simp

lemma ex_signed:
  "signCheckpoint cose_ref dt_ref None ex_signer ex_body [leafHash (replicate 32 7)] [] None None = Inr ex_statement"
  "\<exists>r. ParseRecord cose_ref dt_ref ex_statement = Inr r \<and> record_Payload r = ex_payload \<and> VerifySignature cose_ref r = Inr ()
      \<and> RNewPeaks r = [leafHash (replicate 32 7)] \<and> RPrevPeaks r = [] \<and> RConsistencyProof r = None \<and> RCadence r = None"
proof -
  let ?h = "header_of (drop 32 ex_key) ''log'' ''log#1''"
  let ?m = "\<lparr>Protected = ?h, Unprotected = [], RawProtected = [], MsgPayload = ex_claims, Signature = []\<rparr>"
  have f: "LogID ex_payload = ''log''" "FormatUint (MMRSize ex_payload) = ''1''" "KeyID ex_payload = signer_KeyID ex_signer"
    by (simp_all add: ex_payload_def FormatUint_1)
  have s: "NewEd25519Signer ex_key = Inr ex_signer" "cose_NewSigner cose_ref ex_key = Inr ()"
    by (simp_all add: NewEd25519Signer_def PrivateKeySize_def length_ex_key ex_signer_def cose_ref_def)
  have h: "cose_SetCWTClaims cose_ref
         [(cose_CWTClaimIssuer cose_ref, AnyString (LogID ex_payload)),
          (cose_CWTClaimSubject cose_ref, AnyString (LogID ex_payload @ ''#'' @ FormatUint (MMRSize ex_payload)))]
      (AList.update (cose_HeaderLabelKeyID cose_ref) (AnyBytes (SgPublic ex_signer))
        (AList.update (cose_HeaderLabelContentType cose_ref) (AnyString ContentType)
          (cose_SetAlgorithm cose_ref (cose_AlgorithmEdDSA cose_ref) []))) = Inr ?h"
    by (simp add: cose_ref_def header_of_def f ex_signer_def)
  have sg: "cose_Sign cose_ref ex_key ?m = Inr (?m\<lparr>Signature := drop 32 ex_key @ ex_claims\<rparr>)"
    by (simp add: cose_ref_def)
  have mc: "cose_MarshalCBOR cose_ref (?m\<lparr>Signature := drop 32 ex_key @ ex_claims\<rparr>) = Inr ex_statement"
    by (simp add: cose_ref_def ref_Marshal_def ex_statement_def)
  have "length ex_statement \<le> MaxEncodedBytes"
    using length_ex_claims length_ex_key
    by (simp add: ex_statement_def length_enc_pair length_enc_bytes length_enc_string MaxEncodedBytes_def)
  moreover have "0 < length ex_statement"
    by (simp add: ex_statement_def length_enc_pair length_enc_bytes)
  ultimately show "signCheckpoint cose_ref dt_ref None ex_signer ex_body [leafHash (replicate 32 7)] [] None None = Inr ex_statement"
    "\<exists>r. ParseRecord cose_ref dt_ref ex_statement = Inr r \<and> record_Payload r = ex_payload \<and> VerifySignature cose_ref r = Inr ()
      \<and> RNewPeaks r = [leafHash (replicate 32 7)] \<and> RPrevPeaks r = [] \<and> RConsistencyProof r = None \<and> RCadence r = None"
    using cose_ref_lib.sign_complete [OF ex_parse(1) f(3) s ex_encoded h sg mc] by blast+
qed

section \<open>Bodies\<close>

text \<open>
  C20 (\<open>ParsePayload\<close>, \<open>Payload.CanonicalJSON\<close>): the accepted bodies are exactly the canonical
  encodings of payloads with a UTC timestamp: parsing inverts encoding, a payload has one body, and
  no other spelling (field order, white space, case, escapes, unknown fields) is accepted.
\<close>

theorem ParsePayload_exact:
  "ParsePayload b = Inr p \<longleftrightarrow> CanonicalJSON p = Inr b \<and> InUTC (Timestamp p)"
  by (rule ParsePayload_iff)

text \<open>
  \<open>Config.Due\<close>: with a valid cadence, a checkpoint is due exactly when there are entries to
  cover and either enough of them or the first has waited long enough. The first instant of year 1,
  which the code takes for an unset time, never ages.
\<close>

lemma Due_iff:
  assumes "Config_Validate c = Inr ()" "CadenceAge c < 2 ^ 63"
  shows "Due c ents t now \<longleftrightarrow> ents \<noteq> 0 \<and> (CadenceEntries c \<le> ents \<or> t \<noteq> zero_time \<and> CadenceAge c \<le> now - t)"
  using assms by (auto simp: Due_def time_Sub_def Config_Validate_def split: if_splits)

section \<open>Statements\<close>



text \<open>
  C10 (\<open>Ed25519Signer.SignCheckpoint\<close>, \<open>SignCheckpointWithCadence\<close>): a statement that the signer
  returns parses, under every COSE library that keeps its documented laws, to the signed payload
  with the given peaks, predecessor, proof and cadence, and its signature verifies.
\<close>

theorem signCheckpoint_sound:
  assumes "cose_lib cs algLabel algValue" "NewEd25519Signer key = Inr s"
    "signCheckpoint cs dt None s body newPeaks prevPeaks pf cadence = Inr stmt"
  shows "\<exists>p r. ParsePayload body = Inr p \<and> ParseRecord cs dt stmt = Inr r \<and> record_Payload r = p
    \<and> VerifySignature cs r = Inr () \<and> VerifyCheckpoint cs dt s body stmt = Inr ()
    \<and> RNewPeaks r = newPeaks \<and> RPrevPeaks r = prevPeaks \<and> RConsistencyProof r = pf \<and> RCadence r = cadence"
  by (rule cose_lib.signCheckpoint_parses [OF assms]) blast

theorem signCheckpoint_sound_witness:
  "\<exists>r. ParseRecord cose_ref dt_ref ex_statement = Inr r \<and> record_Payload r = ex_payload
     \<and> VerifySignature cose_ref r = Inr () \<and> RNewPeaks r = [leafHash (replicate 32 7)]"
proof -
  have "NewEd25519Signer ex_key = Inr ex_signer"
    by (simp add: NewEd25519Signer_def PrivateKeySize_def length_ex_key ex_signer_def)
  from signCheckpoint_sound [OF cose_ref_lib.cose_lib_axioms this ex_signed(1)] ex_parse(1)
  show ?thesis by auto
qed


text \<open>
  A second statement, with the roots of the example tree at three and at four nodes, that claims
  the sizes \<open>prev\<close> and \<open>sz\<close> for them, under a library that decodes just it.
\<close>

definition ex_wire :: "uint64 \<Rightarrow> uint64 \<Rightarrow> ConsistencyProof \<Rightarrow> wireClaims" where
  "ex_wire prev sz pf = \<lparr>WcKind = wireKind, WcLogSize = sz, WcCommitment = enc_blobs (peaks_at ex_tree 3), WcPrevSize = prev,
     WcPrevCommitment = enc_blobs (peaks_at ex_tree 2), WcIssuedAt = format_RFC3339Nano 0, WcCadence = None,
     WcConsistencyProof = Some \<lparr>SizeA = CpOldSize pf, SizeB = CpNewSize pf, WpOldPeaks = CpOldPeaks pf,
       WpWitness = CpWitness pf, WpNewPeaks = CpNewPeaks pf\<rparr>\<rparr>"

definition ex_cose :: "uint64 \<Rightarrow> uint64 \<Rightarrow> ConsistencyProof \<Rightarrow> cose" where
  "ex_cose prev sz pf = cose_ref\<lparr>cose_UnmarshalCBOR := (\<lambda>b. Inr \<lparr>Protected = header_of (drop 32 ex_key) ''log'' (''log#'' @ FormatUint sz),
       Unprotected = [], RawProtected = [], MsgPayload = enc_claims (ex_wire prev sz pf), Signature = []\<rparr>),
     cose_MarshalCBOR := (\<lambda>m. Inr [1])\<rparr>"

lemma ex_chain:
  assumes v: "VerifyConsistency dt_ref (RootFromPeaks dt_ref (peaks_at ex_tree 2)) (RootFromPeaks dt_ref (peaks_at ex_tree 3)) pf"
    and sz: "0 < prev" "prev < sz" "sz \<le> MaxPortableInteger"
  shows "\<exists>r. ParseRecord (ex_cose prev sz pf) dt_ref [1] = Inr r \<and> RConsistencyProof r = Some pf \<and> RNewPeaks r = peaks_at ex_tree 3
    \<and> RMMRSize r = sz \<and> RPrevSize r = prev"
proof -
  let ?m = "\<lparr>Protected = header_of (drop 32 ex_key) ''log'' (''log#'' @ FormatUint sz), Unprotected = [], RawProtected = [],
    MsgPayload = enc_claims (ex_wire prev sz pf), Signature = []\<rparr>"
  have pw: "list_all (\<lambda>p. length p = 32) (peaks_at ex_tree 3)" "list_all (\<lambda>p. length p = 32) (peaks_at ex_tree 2)"
    using peaks_at_width [OF commitsD(1) [OF ex_commits], of 3] peaks_at_width [OF commitsD(1) [OF ex_commits], of 2] by simp_all
  have cb: "decodeCommitment (ex_cose prev sz pf) (enc_blobs ps) = Inr ps" if "list_all (\<lambda>p. length p = 32) ps" for ps
    using that by (simp add: decodeCommitment_def ex_cose_def cose_ref_def blobs_code.decode_all_enc CommitmentObject_def hashSize_def)
  have w: "decodeWireClaims (ex_cose prev sz pf) (MsgPayload ?m) = Inr (ex_wire prev sz pf)"
    using sz enc_list_not_Nil [of enc_bytes] by (auto simp: decodeWireClaims_def ex_cose_def cose_ref_def
        claims_code.decode_all_enc ex_wire_def bad_cadence_def format_RFC3339Nano_def)
  have wp: "map_option wire_proof (WcConsistencyProof (ex_wire prev sz pf)) = Some pf"
    using v by (auto simp: ex_wire_def wire_proof_def VerifyConsistency_def split: if_splits)
  have ne: "peaks_at ex_tree 2 \<noteq> []" by (simp add: peaks_at_def peak_positions_not_Nil)
  let ?r = "\<lparr>RVersion = 1, RKind = ''mmr_checkpoint'', RLogID = ''log'', RMMRSize = sz,
    RRoot = hex_EncodeToString (RootFromPeaks dt_ref (peaks_at ex_tree 3)), RPrevSize = prev,
    RPrevRoot = hex_EncodeToString (RootFromPeaks dt_ref (peaks_at ex_tree 2)),
    RKeyID = hex_EncodeToString (drop 32 ex_key), RTimestamp = \<lparr>Instant = 0, InUTC = True\<rparr>, RCadence = None,
    RNewPeaks = peaks_at ex_tree 3, RPrevPeaks = peaks_at ex_tree 2, RConsistencyProof = Some pf, Rstatement = [1]\<rparr>"
  have "ParseRecord (ex_cose prev sz pf) dt_ref [1] = Inr ?r"
  proof (rule ParseRecord_intro [where message = ?m and wire = "ex_wire prev sz pf" and kid = "drop 32 ex_key" and issuer = "''log''"
      and newPeaks = "peaks_at ex_tree 3" and prevPeaks = "peaks_at ex_tree 2" and t = "\<lparr>Instant = 0, InUTC = True\<rparr>"])
    show "checkHeaders (ex_cose prev sz pf) ?m = Inr (drop 32 ex_key, ''log'', ''log'' @ ''#'' @ FormatUint (WcLogSize (ex_wire prev sz pf)))"
      by (simp add: checkHeaders_def ex_cose_def cose_ref_def header_of_def protectedCWTClaims_def PublicKeySize_def
          length_ex_key ex_wire_def)
    show "time_Parse (WcIssuedAt (ex_wire prev sz pf)) = Some \<lparr>Instant = 0, InUTC = True\<rparr>"
      using time_Parse_format [of 0] ex_year by (simp add: ex_wire_def)
    show "if WcPrevCommitment (ex_wire prev sz pf) = [] then peaks_at ex_tree 2 = []
      else decodeCommitment (ex_cose prev sz pf) (WcPrevCommitment (ex_wire prev sz pf)) = Inr (peaks_at ex_tree 2)"
      using cb [OF pw(2)] enc_list_not_Nil [of enc_bytes] by (simp add: ex_wire_def)
    show "canonical_payload (record_Payload ?r)"
      using ex_year ref_lib.length_RootFromPeaks [OF pw(1)] ref_lib.length_RootFromPeaks [OF pw(2)] length_ex_key sz
      by (auto simp: canonical_payload_def record_Payload_def ValidateIdentifier_def identifierPattern_def
          identifier_char_def MaxIdentifierBytes_def MaxPortableInteger_def)
  qed (use w cb [OF pw(1)] wp ne v sz in \<open>auto simp: ex_wire_def MaxEncodedBytes_def ex_cose_def
      checkPredecessor_def rootFromPeaks_def\<close>)
  then show ?thesis by (intro exI [of _ ?r]) simp
qed


text \<open>
  \<open>ParseRecord\<close> checks the consistency proof against the two roots only: a statement whose proof is
  for other sizes than the ones it declares is accepted, although the signer refuses to make one.
\<close>

lemma ParseRecord_sizes_unchecked:
  "\<exists>cs data r pf. ParseRecord cs dt_ref data = Inr r \<and> RConsistencyProof r = Some pf
    \<and> CpOldSize pf \<noteq> RPrevSize r \<and> CpNewSize pf \<noteq> RMMRSize r"
proof -
  obtain pf where pf: "CpOldSize pf = of_nat (mmr_size 2)" "CpNewSize pf = of_nat (mmr_size 3)"
    "VerifyConsistency dt_ref (RootFromPeaks dt_ref (peaks_at ex_tree 2)) (RootFromPeaks dt_ref (peaks_at ex_tree 3)) pf"
    using ref_lib.consistency_complete [OF commitsD(1) [OF ex_commits], of 3 2] by auto
  obtain r where "ParseRecord (ex_cose 7 8 pf) dt_ref [1] = Inr r" "RConsistencyProof r = Some pf" "RMMRSize r = 8" "RPrevSize r = 7"
    using ex_chain [OF pf(3), of 7 8] by (auto simp: MaxPortableInteger_def)
  then show ?thesis using pf(1,2) by (intro exI [of _ "ex_cose 7 8 pf"] exI [of _ "[1]"] exI [of _ r] exI [of _ pf]) simp
qed

end
