(* ===== verification/Witness_Merkle.thy ===== *)
theory Witness_Merkle
  imports Cll_Types
begin

text \<open>
  The Merkle part of \<open>witness/verify.go\<close>: recomputing the root of an RFC 9162 tree from an
  inclusion proof. Go's \<open>int64\<close> values are integers here: the guard of \<open>rootFromProof\<close> keeps sizes
  within \<open>2 ^ 62\<close> before any arithmetic, and every value computed afterwards lies between 0 and the
  size, so nothing can wrap. The closure \<open>fold\<close> consumes the captured slice \<open>siblings\<close> from its
  end; here it takes the slice and returns what is left of it.
\<close>

section \<open>Definitions\<close>

definition maxTreeSize :: int where "maxTreeSize = 2 ^ 62"

definition nodeHash :: "bytes \<Rightarrow> bytes \<Rightarrow> bytes" where
  "nodeHash left right = sha256 (1 # left @ right)"

function powerBelow_loop :: "int \<Rightarrow> int \<Rightarrow> int" where
  "powerBelow_loop n k = (if 0 < k \<and> k \<le> (n - 1) div 2 then powerBelow_loop n (k * 2) else k)"
  by pat_completeness auto
termination by (relation "measure (\<lambda>(n, k). nat (n - k))") auto

declare powerBelow_loop.simps [simp del]

definition largestPowerBelow :: "int \<Rightarrow> int" where
  "largestPowerBelow n = (if n \<le> 1 then 1 else powerBelow_loop n 1)"

lemma powerBelow_loop_power:
  assumes "k = 2 ^ i" "int (2 ^ i) \<le> n - 1"
  shows "powerBelow_loop n (int k) = 2 ^ ilog2 (nat (n - 1))"
  using assms
proof (induction n "int k" arbitrary: k i rule: powerBelow_loop.induct)
  case (1 n)
  show ?case
  proof (cases "int k \<le> (n - 1) div 2")
    case True
    then have "int k * 2 = int (2 * k)" "2 * k = 2 ^ Suc i" "int (2 ^ Suc i) \<le> n - 1"
      using 1(2) by simp_all
    then have "powerBelow_loop n (int (2 * k)) = 2 ^ ilog2 (nat (n - 1))"
      using 1(1) [of "2 * k" "Suc i"] True 1(2) by simp
    moreover have "powerBelow_loop n (int k) = powerBelow_loop n (int (2 * k))"
      using True 1(2) by (subst powerBelow_loop.simps) (simp add: mult.commute)
    ultimately show ?thesis by simp
  next
    case False
    then have "n - 1 < 2 * 2 ^ i" using 1(2) by simp
    then have "ilog2 (nat (n - 1)) = i" using 1(3) by (intro ilog2_unique) (simp_all add: nat_less_iff le_nat_iff)
    moreover have "powerBelow_loop n (int k) = int k"
      using False by (subst powerBelow_loop.simps) simp
    ultimately show ?thesis using 1(2) by simp
  qed
qed

lemma largestPowerBelow_eq: "1 < n \<Longrightarrow> largestPowerBelow n = 2 ^ ilog2 (nat (n - 1))"
  using powerBelow_loop_power [of 1 0 n] by (simp add: largestPowerBelow_def)

lemma largestPowerBelow_bounds:
  assumes "1 < n"
  shows "1 \<le> largestPowerBelow n" "largestPowerBelow n < n" "n \<le> 2 * largestPowerBelow n"
proof -
  have "2 ^ ilog2 (nat (n - 1)) \<le> nat (n - 1)" "nat (n - 1) < 2 * 2 ^ ilog2 (nat (n - 1))"
    using ilog2_bounds [of "nat (n - 1)"] assms by simp_all
  then have "int (2 ^ ilog2 (nat (n - 1))) \<le> n - 1" "n - 1 < int (2 * 2 ^ ilog2 (nat (n - 1)))"
    using assms by linarith+
  then show "largestPowerBelow n < n" "n \<le> 2 * largestPowerBelow n"
    using largestPowerBelow_eq [OF assms] by simp_all
  show "1 \<le> largestPowerBelow n" using largestPowerBelow_eq [OF assms] by simp
qed

lemma largestPowerBelow_pos: "0 < largestPowerBelow n"
  using largestPowerBelow_bounds(1) [of n] by (cases "1 < n") (simp_all add: largestPowerBelow_def)

function expectedPath_loop :: "int \<Rightarrow> int \<Rightarrow> int \<Rightarrow> int" where
  "expectedPath_loop sz index count =
     (if sz > 1 then
        let k = largestPowerBelow sz
        in if index < k then expectedPath_loop k index (count + 1)
           else expectedPath_loop (sz - k) (index - k) (count + 1)
      else count)"
  by pat_completeness auto
termination
  by (relation "measure (\<lambda>(s, i, c). nat s)") (auto intro: largestPowerBelow_bounds largestPowerBelow_pos)

declare expectedPath_loop.simps [simp del]

definition expectedPath :: "int \<Rightarrow> int \<Rightarrow> int" where
  "expectedPath sz index = expectedPath_loop sz index 0"

function fold_path :: "bytes \<Rightarrow> int \<Rightarrow> int \<Rightarrow> bytes list \<Rightarrow> (bytes \<times> bytes list) option" where
  "fold_path leaf n m siblings =
     (if n = 1 then Some (leaf, siblings)
      else if siblings = [] then None
      else
        let k = largestPowerBelow n; sibling = last siblings; rest = butlast siblings
        in if m < k
           then (case fold_path leaf k m rest of
                   None \<Rightarrow> None
                 | Some (child, rest') \<Rightarrow> Some (nodeHash child sibling, rest'))
           else (case fold_path leaf (n - k) (m - k) rest of
                   None \<Rightarrow> None
                 | Some (child, rest') \<Rightarrow> Some (nodeHash sibling child, rest')))"
  by pat_completeness auto
termination by (relation "measure (\<lambda>(l, n, m, s). length s)") auto

declare fold_path.simps [simp del]

definition rootFromProof :: "bytes \<Rightarrow> int \<Rightarrow> int \<Rightarrow> bytes list \<Rightarrow> bytes option" where
  "rootFromProof entry index sz path =
     (if index < 0 \<or> index \<ge> sz \<or> sz > maxTreeSize \<or> int (length path) \<noteq> expectedPath sz index
      then None
      else case fold_path (sha256 (0 # entry)) sz index path of
        None \<Rightarrow> None
      | Some (root, siblings) \<Rightarrow> if siblings = [] then Some root else None)"

section \<open>The RFC 9162 tree\<close>

text \<open>
  The reference definitions of RFC 9162, section 2.1: the Merkle tree hash \<open>MTH\<close> of a list of
  entries and the audit path \<open>PATH(m, D)\<close>, both splitting at the largest power of two below the
  length.
\<close>

definition split_point :: "nat \<Rightarrow> nat" where
  "split_point n = 2 ^ ilog2 (n - 1)"

lemma split_point_bounds: "1 < n \<Longrightarrow> 0 < split_point n \<and> split_point n < n"
  using ilog2_le [of "n - 1"] by (auto simp: split_point_def)

lemma split_lengths:
  assumes "1 < length entries"
  shows "length (take (split_point (length entries)) entries) < length entries"
    "length (drop (split_point (length entries)) entries) < length entries"
  using split_point_bounds [of "length entries"] assms by auto

lemma largestPowerBelow_split: "1 < n \<Longrightarrow> largestPowerBelow (int n) = int (split_point n)"
  by (simp add: largestPowerBelow_eq split_point_def nat_diff_distrib)

function mth :: "bytes list \<Rightarrow> bytes" where
  "mth entries =
     (if length entries = 0 then sha256 []
      else if length entries = 1 then sha256 (0 # hd entries)
      else let k = split_point (length entries)
           in nodeHash (mth (take k entries)) (mth (drop k entries)))"
  by pat_completeness auto
termination by (relation "measure length") (auto intro!: split_lengths simp: Suc_lessI simp del: length_take length_drop)

function audit_path :: "nat \<Rightarrow> bytes list \<Rightarrow> bytes list" where
  "audit_path m entries =
     (if length entries \<le> 1 then []
      else let k = split_point (length entries)
           in if m < k then audit_path m (take k entries) @ [mth (drop k entries)]
              else audit_path (m - k) (drop k entries) @ [mth (take k entries)])"
  by pat_completeness auto
termination by (relation "measure (\<lambda>(m, e). length e)") (auto intro!: split_lengths simp: Suc_lessI simp del: length_take length_drop)

declare mth.simps [simp del] audit_path.simps [simp del]

lemma mth_step:
  "1 < length es \<Longrightarrow> mth es = nodeHash (mth (take (split_point (length es)) es)) (mth (drop (split_point (length es)) es))"
  by (subst mth.simps) (auto simp: Let_def)

lemma length_nodeHash [simp]: "length (nodeHash l r) = 32"
  by (simp add: nodeHash_def)

lemma length_mth [simp]: "length (mth es) = 32"
  by (subst mth.simps) (simp add: Let_def)

lemma mth_single: "mth [e] = sha256 (0 # e)"
  by (simp add: mth.simps)

lemma length_audit_path_loop:
  assumes "m < length es"
  shows "expectedPath_loop (int (length es)) (int m) c = c + int (length (audit_path m es))"
  using assms
proof (induction m es arbitrary: c rule: audit_path.induct)
  case (1 m es)
  show ?case
  proof (cases "length es \<le> 1")
    case True
    then show ?thesis by (simp add: expectedPath_loop.simps [of "int (length es)"] audit_path.simps [of m es])
  next
    case False
    define k where "k = split_point (length es)"
    have k: "0 < k" "k < length es" "largestPowerBelow (int (length es)) = int k"
      using split_point_bounds [of "length es"] largestPowerBelow_split [of "length es"] False
      by (simp_all add: k_def)
    show ?thesis
    proof (cases "m < k")
      case True
      have "expectedPath_loop (int (length (take k es))) (int m) (c + 1) =
          c + 1 + int (length (audit_path m (take k es)))"
        using 1(1) [OF False k_def True, of "c + 1"] True k by simp
      then show ?thesis
        using True k False
        by (simp add: expectedPath_loop.simps [of "int (length es)" "int m" c] audit_path.simps [of m es]
            Let_def min_def flip: k_def)
    next
      case m: False
      have "expectedPath_loop (int (length (drop k es))) (int (m - k)) (c + 1) =
          c + 1 + int (length (audit_path (m - k) (drop k es)))"
        using 1(2) [OF False k_def m, of "c + 1"] m k 1(3) by simp
      then show ?thesis
        using m k False
        by (simp add: expectedPath_loop.simps [of "int (length es)" "int m" c] audit_path.simps [of m es]
            Let_def of_nat_diff flip: k_def)
    qed
  qed
qed

lemma expectedPath_audit: "m < length es \<Longrightarrow> expectedPath (int (length es)) (int m) = int (length (audit_path m es))"
  by (simp add: expectedPath_def length_audit_path_loop)

text \<open>Folding an audit path recomputes the tree hash and leaves the rest of the slice alone.\<close>

lemma fold_audit_path:
  assumes "m < length es"
  shows "fold_path (sha256 (0 # es ! m)) (int (length es)) (int m) (rest @ audit_path m es) = Some (mth es, rest)"
  using assms
proof (induction m es arbitrary: rest rule: audit_path.induct)
  case (1 m es)
  show ?case
  proof (cases "length es \<le> 1")
    case True
    then have "es = [es ! m]" "int (length es) = 1" using 1(3) by (cases es; simp)+
    then show ?thesis
      using True mth_single [of "es ! m"] by (simp add: fold_path.simps [of _ 1] audit_path.simps [of m es])
  next
    case False
    define k where "k = split_point (length es)"
    have k: "0 < k" "k < length es" "largestPowerBelow (int (length es)) = int k"
      using split_point_bounds [of "length es"] largestPowerBelow_split [of "length es"] False
      by (simp_all add: k_def)
    have mth: "mth es = nodeHash (mth (take k es)) (mth (drop k es))"
      using mth_step [of es] False by (simp add: k_def)
    show ?thesis
    proof (cases "m < k")
      case True
      have "fold_path (sha256 (0 # es ! m)) (int k) (int m) (rest @ audit_path m (take k es)) = Some (mth (take k es), rest)"
        using 1(1) [OF False k_def True, of rest] True k by simp
      then show ?thesis
        using True k False mth
        by (simp add: fold_path.simps [of _ "int (length es)"] audit_path.simps [of m es] Let_def
            butlast_append flip: k_def)
    next
      case m: False
      have "fold_path (sha256 (0 # es ! m)) (int (length es - k)) (int (m - k))
          (rest @ audit_path (m - k) (drop k es)) = Some (mth (drop k es), rest)"
        using 1(2) [OF False k_def m, of rest] m k 1(3) by simp
      then show ?thesis
        using m k False mth
        by (simp add: fold_path.simps [of _ "int (length es)"] audit_path.simps [of m es] Let_def
            butlast_append of_nat_diff flip: k_def)
    qed
  qed
qed

lemma rootFromProof_complete:
  assumes "m < length es" "length es \<le> 2 ^ 62"
  shows "rootFromProof (es ! m) (int m) (int (length es)) (audit_path m es) = Some (mth es)"
proof -
  have "int (length es) \<le> maxTreeSize"
    using assms(2) unfolding maxTreeSize_def by (metis of_nat_le_iff of_nat_numeral of_nat_power)
  then show ?thesis
    using fold_audit_path [OF assms(1), of "[]"] expectedPath_audit [OF assms(1)] assms(1)
    by (simp add: rootFromProof_def not_less)
qed

section \<open>Binding\<close>

text \<open>The strings hashed by a fold above the leaf, and by the tree hash of a list.\<close>

function fold_inputs :: "bytes \<Rightarrow> int \<Rightarrow> int \<Rightarrow> bytes list \<Rightarrow> bytes list" where
  "fold_inputs leaf n m siblings =
     (if n = 1 \<or> siblings = [] then []
      else
        let k = largestPowerBelow n; sibling = last siblings; rest = butlast siblings;
            (n', m') = (if m < k then (k, m) else (n - k, m - k))
        in (case fold_path leaf n' m' rest of
              None \<Rightarrow> []
            | Some (child, _) \<Rightarrow>
                [1 # (if m < k then child @ sibling else sibling @ child)]) @ fold_inputs leaf n' m' rest)"
  by pat_completeness auto
termination by (relation "measure (\<lambda>(l, n, m, s). length s)") auto

function mth_inputs :: "bytes list \<Rightarrow> bytes list" where
  "mth_inputs entries =
     (if length entries = 0 then []
      else if length entries = 1 then [0 # hd entries]
      else let k = split_point (length entries)
           in (1 # mth (take k entries) @ mth (drop k entries))
              # mth_inputs (take k entries) @ mth_inputs (drop k entries))"
  by pat_completeness auto
termination by (relation "measure length")
  (auto intro!: split_lengths simp: Suc_lessI simp del: length_take length_drop)

declare fold_inputs.simps [simp del] mth_inputs.simps [simp del]

definition proof_inputs :: "bytes \<Rightarrow> int \<Rightarrow> int \<Rightarrow> bytes list \<Rightarrow> bytes list" where
  "proof_inputs entry index sz path = (0 # entry) # fold_inputs (sha256 (0 # entry)) sz index path"

lemma fold_path_width: "fold_path leaf n m s = Some (r, rest) \<Longrightarrow> length leaf = 32 \<Longrightarrow> length r = 32"
  by (subst (asm) fold_path.simps) (auto simp: Let_def split: if_splits option.splits)

lemma fold_path_step:
  assumes "n \<noteq> 1" "fold_path leaf n m s = Some (r, rest)"
  obtains n' m' child where
    "(n', m') = (if m < largestPowerBelow n then (largestPowerBelow n, m)
       else (n - largestPowerBelow n, m - largestPowerBelow n))"
    "fold_path leaf n' m' (butlast s) = Some (child, rest)"
    "r = sha256 (1 # (if m < largestPowerBelow n then child @ last s else last s @ child))"
    "set (fold_inputs leaf n m s) =
      insert (1 # (if m < largestPowerBelow n then child @ last s else last s @ child))
        (set (fold_inputs leaf n' m' (butlast s)))"
    "s \<noteq> []"
proof -
  let ?k = "largestPowerBelow n"
  note unf = assms(2) [unfolded fold_path.simps [of leaf n m s] Let_def]
  have s: "s \<noteq> []" using unf assms(1) by (auto split: if_splits)
  show ?thesis
  proof (cases "m < ?k")
    case True
    then obtain child where c: "fold_path leaf ?k m (butlast s) = Some (child, rest)" "r = nodeHash child (last s)"
      using unf assms(1) s by (auto split: option.splits)
    moreover have "fold_inputs leaf n m s = (1 # child @ last s) # fold_inputs leaf ?k m (butlast s)"
      using True c(1) s assms(1) by (subst fold_inputs.simps) (simp add: Let_def)
    ultimately show ?thesis using that [of ?k m child] True s by (simp add: nodeHash_def)
  next
    case False
    then obtain child where c: "fold_path leaf (n - ?k) (m - ?k) (butlast s) = Some (child, rest)"
        "r = nodeHash (last s) child"
      using unf assms(1) s by (auto split: option.splits)
    moreover have "fold_inputs leaf n m s = (1 # last s @ child) # fold_inputs leaf (n - ?k) (m - ?k) (butlast s)"
      using False c(1) s assms(1) by (subst fold_inputs.simps) (simp add: Let_def)
    ultimately show ?thesis using that [of "n - ?k" "m - ?k" child] False s by (simp add: nodeHash_def)
  qed
qed

lemma mth_inputs_step:
  assumes "1 < length es" "k = split_point (length es)"
  shows "set (mth_inputs es) = insert (1 # mth (take k es) @ mth (drop k es))
    (set (mth_inputs (take k es)) \<union> set (mth_inputs (drop k es)))"
  using assms by (subst mth_inputs.simps) (auto simp: Let_def)

lemma fold_binding:
  assumes "m < length es" "fold_path leaf (int (length es)) (int m) s = Some (mth es, rest)"
    and "list_all (\<lambda>x. length x = 32) s" "length leaf = 32"
  shows "leaf = sha256 (0 # es ! m) \<or> hash_clash (fold_inputs leaf (int (length es)) (int m) s) (mth_inputs es)"
  using assms
proof (induction m es arbitrary: s rule: audit_path.induct)
  case (1 m es)
  show ?case
  proof (cases "length es \<le> 1")
    case True
    then have "es = [es ! m]" "int (length es) = 1" using 1(3) by (cases es; simp)+
    then show ?thesis using 1(4) mth_single [of "es ! m"] by (simp add: fold_path.simps [of _ 1])
  next
    case False
    define k where "k = split_point (length es)"
    have k: "0 < k" "k < length es" "largestPowerBelow (int (length es)) = int k"
      using split_point_bounds [of "length es"] largestPowerBelow_split [of "length es"] False
      by (simp_all add: k_def)
    have n1: "int (length es) \<noteq> 1" using False by simp
    let ?L = "mth (take k es)" and ?R = "mth (drop k es)"
    have top: "mth es = sha256 (1 # ?L @ ?R)" using mth_step [of es] False by (simp add: k_def nodeHash_def)
    have inp: "set (mth_inputs es) = insert (1 # ?L @ ?R) (set (mth_inputs (take k es)) \<union> set (mth_inputs (drop k es)))"
      using mth_inputs_step [OF _ k_def] False by simp
    obtain n' m' child where st:
      "(n', m') = (if int m < int k then (int k, int m) else (int (length es) - int k, int m - int k))"
      "fold_path leaf n' m' (butlast s) = Some (child, rest)"
      "mth es = sha256 (1 # (if int m < int k then child @ last s else last s @ child))"
      "set (fold_inputs leaf (int (length es)) (int m) s) =
        insert (1 # (if int m < int k then child @ last s else last s @ child)) (set (fold_inputs leaf n' m' (butlast s)))"
      "s \<noteq> []"
      using fold_path_step [OF n1 1(4)] unfolding k(3) by metis
    let ?I = "fold_inputs leaf (int (length es)) (int m) s"
    let ?x = "1 # (if int m < int k then child @ last s else last s @ child)"
    have w: "length child = 32" "length (last s) = 32" "list_all (\<lambda>x. length x = 32) (butlast s)"
      using fold_path_width [OF st(2) 1(6)] 1(5) st(5) by (auto simp: list_all_iff dest: in_set_butlastD)
    have eq: "?x = 1 # ?L @ ?R \<or> hash_clash ?I (mth_inputs es)"
      using st(3,4) top inp by (intro sha256_inj_or_clash) simp_all
    show ?thesis
    proof (cases "m < k")
      case True
      then have nm: "n' = int (length (take k es))" "m' = int m" using st(1) k by simp_all
      have "leaf = sha256 (0 # take k es ! m) \<or>
          hash_clash (fold_inputs leaf (int (length (take k es))) (int m) (butlast s)) (mth_inputs (take k es))"
        if "child = ?L"
        using 1(1) [OF False k_def True, of "butlast s"] True k that st(2) w(3) 1(6) unfolding nm by simp
      moreover have "hash_clash ?I (mth_inputs es)"
        if "hash_clash (fold_inputs leaf (int (length (take k es))) (int m) (butlast s)) (mth_inputs (take k es))"
        using that by (rule hash_clash_mono) (auto simp: st(4) inp nm)
      ultimately show ?thesis using eq True w by auto
    next
      case m: False
      then have nm: "n' = int (length (drop k es))" "m' = int (m - k)" using st(1) k by (simp_all add: of_nat_diff)
      have "leaf = sha256 (0 # drop k es ! (m - k)) \<or>
          hash_clash (fold_inputs leaf (int (length (drop k es))) (int (m - k)) (butlast s)) (mth_inputs (drop k es))"
        if "child = ?R"
        using 1(2) [OF False k_def m, of "butlast s"] m k that st(2) w(3) 1(3,6) unfolding nm by simp
      moreover have "hash_clash ?I (mth_inputs es)"
        if "hash_clash (fold_inputs leaf (int (length (drop k es))) (int (m - k)) (butlast s)) (mth_inputs (drop k es))"
        using that by (rule hash_clash_mono) (auto simp: st(4) inp nm)
      ultimately show ?thesis using eq m w k by auto
    qed
  qed
qed

lemma mth_inputs_leaf: "m < length es \<Longrightarrow> 0 # es ! m \<in> set (mth_inputs es)"
proof (induction m es rule: audit_path.induct)
  case (1 m es)
  show ?case
  proof (cases "length es \<le> 1")
    case True
    then have "es = [es ! m]" using 1(3) by (cases es; simp)
    moreover have "mth_inputs [e] = [0 # e]" for e by (simp add: mth_inputs.simps)
    ultimately show ?thesis by (metis list.set_intros(1))
  next
    case False
    define k where "k = split_point (length es)"
    have k: "0 < k" "k < length es" using split_point_bounds [of "length es"] False by (simp_all add: k_def)
    have sub: "set (mth_inputs (take k es)) \<union> set (mth_inputs (drop k es)) \<subseteq> set (mth_inputs es)"
      using mth_inputs_step [OF _ k_def] False by auto
    show ?thesis
    proof (cases "m < k")
      case True
      then have "0 # take k es ! m \<in> set (mth_inputs (take k es))"
        using 1(1) [OF False k_def True] k by simp
      then show ?thesis using sub True by auto
    next
      case m: False
      then have "0 # drop k es ! (m - k) \<in> set (mth_inputs (drop k es))"
        using 1(2) [OF False k_def m] 1(3) k by simp
      then show ?thesis using sub m k by auto
    qed
  qed
qed

lemma rootFromProof_sound:
  assumes "rootFromProof e index (int (length es)) path = Some (mth es)"
    and "list_all (\<lambda>x. length x = 32) path"
  shows "e = es ! nat index \<or> hash_clash (proof_inputs e index (int (length es)) path) (mth_inputs es)"
proof -
  obtain m where m: "index = int m" "m < length es"
    using assms(1) by (cases index) (auto simp: rootFromProof_def split: if_splits)
  have "fold_path (sha256 (0 # e)) (int (length es)) (int m) path = Some (mth es, [])"
    using assms(1) m by (auto simp: rootFromProof_def split: if_splits option.splits)
  then have "sha256 (0 # e) = sha256 (0 # es ! m)
      \<or> hash_clash (fold_inputs (sha256 (0 # e)) (int (length es)) (int m) path) (mth_inputs es)"
    using fold_binding [OF m(2) _ assms(2)] by simp
  then show ?thesis
  proof
    assume "sha256 (0 # e) = sha256 (0 # es ! m)"
    then have "0 # e = 0 # es ! m \<or> hash_clash (proof_inputs e index (int (length es)) path) (mth_inputs es)"
      by (rule sha256_inj_or_clash) (simp_all add: proof_inputs_def mth_inputs_leaf [OF m(2)])
    then show ?thesis by (simp add: m(1))
  next
    assume "hash_clash (fold_inputs (sha256 (0 # e)) (int (length es)) (int m) path) (mth_inputs es)"
    then have "hash_clash (proof_inputs e index (int (length es)) path) (mth_inputs es)"
      by (rule hash_clash_mono) (auto simp: proof_inputs_def m(1))
    then show ?thesis ..
  qed
qed

end
