(* ===== verification/Witness_Verify.thy ===== *)
theory Witness_Verify
  imports Checkpoint_Laws Witness_Merkle
begin

text \<open>
  \<open>witness/verify.go\<close>: offline verification of a witness receipt under a pinned authority key.
  The RFC 9162 part (\<open>rootFromProof\<close> and below) is in \<open>Witness_Merkle\<close>; here are the header
  lookups, the decoding of the inclusion proof and \<open>ReceiptVerifier.Verify\<close> as a whole.

  \<open>cs\<close> is the COSE library; \<open>pc\<close> the three \<open>cbor.Unmarshal\<close> calls of \<open>decodeProof\<close>, by their target
  types \<open>[]cbor.RawMessage\<close>, \<open>int64\<close> and \<open>[][]byte\<close>.
\<close>

section \<open>Receipts and headers\<close>

record proof_cbor =
  cbor_RawMessages :: "bytes \<Rightarrow> bytes list result"
  cbor_Int64 :: "bytes \<Rightarrow> int result"
  cbor_ByteStrings :: "bytes \<Rightarrow> bytes list result"

record WReceipt =
  WrBytes :: bytes
  WrEntryHash :: string
  WrEntryHashScheme :: string
  WrLeafIndex :: int
  WrTreeSize :: int

definition EntryHashSchemeCheckpointDigest :: string where
  "EntryHashSchemeCheckpointDigest = ''legacy''"

definition headerVDS :: int where "headerVDS = 395"
definition headerVDP :: int where "headerVDP = 396"
definition vdsRFC9162 :: int where "vdsRFC9162 = 1"
definition vdpInclusion :: int where "vdpInclusion = -1"

text \<open>The loop of \<open>lookup\<close> takes the first key that equals \<open>key\<close> as a number, of whatever integer type.\<close>

definition key_matches :: "int \<Rightarrow> any \<Rightarrow> bool" where
  "key_matches key candidate =
     (case candidate of
        AnyInt64 typed \<Rightarrow> typed = key
      | AnyUint64 typed \<Rightarrow> key \<ge> 0 \<and> typed = of_int key
      | AnyInt typed \<Rightarrow> typed = key
      | _ \<Rightarrow> False)"

fun lookup :: "header \<Rightarrow> int \<Rightarrow> any option" where
  "lookup [] key = None"
| "lookup ((candidate, value) # rest) key =
     (if key_matches key candidate then Some value else lookup rest key)"

definition integerHeader :: "header \<Rightarrow> int \<Rightarrow> int option" where
  "integerHeader values key =
     (case lookup values key of
        None \<Rightarrow> None
      | Some value \<Rightarrow>
          (case value of
             AnyInt64 typed \<Rightarrow> Some typed
           | AnyUint64 typed \<Rightarrow> if typed \<le> 0x7FFFFFFFFFFFFFFF then Some (uint typed) else None
           | AnyInt typed \<Rightarrow> Some typed
           | _ \<Rightarrow> None))"

section \<open>The inclusion proof\<close>

definition decodeProof :: "proof_cbor \<Rightarrow> bytes \<Rightarrow> (int \<times> int \<times> bytes list) result" where
  "decodeProof pc blob =
     (case cbor_RawMessages pc blob of
        Inr [rawSize, rawIndex, rawPath] \<Rightarrow>
          rbind (cbor_Int64 pc rawSize) (\<lambda>size'.
          rbind (cbor_Int64 pc rawIndex) (\<lambda>index.
          rbind (cbor_ByteStrings pc rawPath) (\<lambda>path.
          if list_ex (\<lambda>node. length node \<noteq> 32) path then Inl (ErrMsg ''invalid proof hash length'')
          else Inr (size', index, path))))
      | _ \<Rightarrow> Inl (ErrMsg ''invalid inclusion proof''))"

section \<open>Verification\<close>

definition NewReceiptVerifier :: "bytes \<Rightarrow> bytes result" where
  "NewReceiptVerifier public =
     (if length public \<noteq> PublicKeySize then Inl (ErrMsg ''pinned Ed25519 authority key is required'')
      else Inr public)"

text \<open>The checks of the receipt's headers, down to the bytes of the inclusion proof.\<close>

definition receiptProof :: "cose \<Rightarrow> Sign1Message \<Rightarrow> bytes result" where
  "receiptProof cs message =
     (if integerHeader (Protected message) headerVDS \<noteq> Some vdsRFC9162
      then Inl (ErrMsg ''receipt protected header requires RFC9162 VDS'')
      else if cose_Algorithm cs (Protected message) \<noteq> Inr (cose_AlgorithmEdDSA cs)
      then Inl (ErrMsg ''receipt must use EdDSA'')
      else case lookup (Unprotected message) headerVDP of
        None \<Rightarrow> Inl (ErrMsg ''receipt missing VDP'')
      | Some (AnyMap vdp) \<Rightarrow>
          (case lookup vdp vdpInclusion of
             None \<Rightarrow> Inl (ErrMsg ''receipt missing inclusion proof'')
           | Some (AnySlice [AnyBytes blob]) \<Rightarrow> Inr blob
           | Some (AnySlice [_]) \<Rightarrow> Inl (ErrMsg ''receipt proof is not bytes'')
           | Some _ \<Rightarrow> Inl (ErrMsg ''receipt requires one inclusion proof''))
      | Some _ \<Rightarrow> Inl (ErrMsg ''receipt VDP is not a map''))"

definition receipt_Verify :: "cose \<Rightarrow> dtmmr \<Rightarrow> proof_cbor \<Rightarrow> bytes \<Rightarrow> bytes \<Rightarrow> WReceipt \<Rightarrow> unit result" where
  "receipt_Verify cs dt pc public statement receipt =
     (if length (WrBytes receipt) = 0 \<or> length (WrBytes receipt) > MaxWitnessResponseBytes
      then Inl (ErrMsg ''receipt size is invalid'')
      else if WrEntryHashScheme receipt \<noteq> EntryHashSchemeCheckpointDigest
      then Inl (ErrMsg ''unsupported receipt entry hash scheme'')
      else
     rbind (ParseRecord cs dt statement) (\<lambda>record.
     rbind (VerifySignature cs record) (\<lambda>_.
     rbind (record_EntryHash record) (\<lambda>entry.
     if hex_EncodeToString entry \<noteq> WrEntryHash receipt
     then Inl (ErrMsg ''entry hash does not bind signed checkpoint'')
     else case cose_UnmarshalCBOR cs (WrBytes receipt) of
       Inl _ \<Rightarrow> Inl (ErrMsg ''decode COSE receipt'')
     | Inr message \<Rightarrow>
     rbind (receiptProof cs message) (\<lambda>blob.
     rbind (decodeProof pc blob) (\<lambda>(treeSize, leafIndex, path).
     if treeSize \<noteq> WrTreeSize receipt \<or> leafIndex \<noteq> WrLeafIndex receipt
     then Inl (ErrMsg ''receipt position mismatch'')
     else case rootFromProof entry leafIndex treeSize path of
       None \<Rightarrow> Inl (ErrMsg ''receipt inclusion proof is invalid'')
     | Some root \<Rightarrow>
     rbind (cose_NewVerifier cs public) (\<lambda>_.
     case cose_Verify cs public (message\<lparr>MsgPayload := root\<rparr>) of
       Inl _ \<Rightarrow> Inl (ErrMsg ''verify receipt authority signature'')
     | Inr _ \<Rightarrow> Inr ())))))))"

section \<open>What an accepted receipt shows\<close>

lemma decodeProof_width: "decodeProof pc blob = Inr (n, i, path) \<Longrightarrow> list_all (\<lambda>x. length x = 32) path"
  by (auto simp: decodeProof_def rbind_Inr_iff list_ex_iff list_all_iff split: sum.splits list.splits if_splits)

text \<open>
  The statement is a signed checkpoint with the receipt's entry hash, and the authority signed
  the root that the proof leads to from this entry at the receipt's position.
\<close>

lemma receipt_Verify_Inr:
  assumes "receipt_Verify cs dt pc public statement receipt = Inr ()"
  obtains rec entry message path root where
    "ParseRecord cs dt statement = Inr rec" "VerifySignature cs rec = Inr ()"
    "record_EntryHash rec = Inr entry" "WrEntryHash receipt = hex_EncodeToString entry"
    "cose_UnmarshalCBOR cs (WrBytes receipt) = Inr message" "list_all (\<lambda>x. length x = 32) path"
    "rootFromProof entry (WrLeafIndex receipt) (WrTreeSize receipt) path = Some root"
    "cose_Verify cs public (message\<lparr>MsgPayload := root\<rparr>) = Inr ()"
    "length (WrBytes receipt) \<le> MaxWitnessResponseBytes" "WrBytes receipt \<noteq> []"
    "WrEntryHashScheme receipt = EntryHashSchemeCheckpointDigest"
    "0 \<le> WrLeafIndex receipt" "WrLeafIndex receipt < WrTreeSize receipt" "WrTreeSize receipt \<le> maxTreeSize"
proof -
  have h: "0 < length (WrBytes receipt)" "length (WrBytes receipt) \<le> MaxWitnessResponseBytes"
    "WrEntryHashScheme receipt = EntryHashSchemeCheckpointDigest"
    using assms by (auto simp: receipt_Verify_def not_less split: if_splits)
  obtain rec entry where r: "ParseRecord cs dt statement = Inr rec" "VerifySignature cs rec = Inr ()"
    "record_EntryHash rec = Inr entry"
    using assms h by (auto simp: receipt_Verify_def rbind_Inr_iff)
  obtain message blob where m: "WrEntryHash receipt = hex_EncodeToString entry"
    "cose_UnmarshalCBOR cs (WrBytes receipt) = Inr message" "receiptProof cs message = Inr blob"
    using assms h r by (auto simp: receipt_Verify_def rbind_Inr_iff split: if_splits sum.splits)
  obtain n i path where d: "decodeProof pc blob = Inr (n, i, path)"
    using assms h r m by (auto simp: receipt_Verify_def rbind_Inr_iff)
  obtain root where p: "rootFromProof entry i n path = Some root" "n = WrTreeSize receipt" "i = WrLeafIndex receipt"
    "cose_Verify cs public (message\<lparr>MsgPayload := root\<rparr>) = Inr ()"
    using assms h r m d
    by (auto simp: receipt_Verify_def rbind_Inr_iff split: if_splits option.splits sum.splits)
  moreover have "0 \<le> i" "i < n" "n \<le> maxTreeSize" using p(1) by (auto simp: rootFromProof_def split: if_splits)
  ultimately show ?thesis using that [OF r m(1,2) decodeProof_width [OF d]] h by auto
qed

end
