(* ===== verification/Witness_Client.thy ===== *)
theory Witness_Client
  imports Cll_Types Go_Reflect "HOL-Library.Sublist"
begin

text \<open>
  The parts of \<open>witness/client.go\<close> that decide what a failed submission means: the errors of
  \<open>Submit\<close>, which of them are retried, and \<open>boundedText\<close>, which makes the text of a remote error
  safe to store.
\<close>

section \<open>\<open>boundedText\<close>\<close>

function trimInvalid :: "string \<Rightarrow> string" where
  "trimInvalid value =
     (if length value > 0 \<and> \<not> ValidString value then trimInvalid (take (length value - 1) value) else value)"
  by pat_completeness auto

termination
  by (relation "measure length") auto

declare trimInvalid.simps [simp del]

definition boundedText :: "string \<Rightarrow> string" where
  "boundedText value =
     (let value = ToValidUTF8 value
      in if length value \<le> MaxReasonBytes then value else trimInvalid (take MaxReasonBytes value))"

section \<open>Errors of a submission\<close>

text \<open>
  \<open>HTTPError\<close> and \<open>transportError\<close> are the types of this package; \<open>NetError\<close> stands for any error
  that wraps a \<open>net.Error\<close>, \<open>OtherError\<close> for the rest, with their text.
\<close>

datatype submitError =
    HTTPError int string | TransportError string | NetError string | OtherError string

fun Error :: "submitError \<Rightarrow> string" where
  "Error (HTTPError code body) = ''witness returned HTTP '' @ format_int code @ '': '' @ body"
| "Error (TransportError cause) = cause"
| "Error (NetError msg) = msg"
| "Error (OtherError msg) = msg"

definition Retryable :: "int \<Rightarrow> bool" where
  "Retryable code \<longleftrightarrow> code = 408 \<or> code = 429 \<or> code \<ge> 500"

fun IsRetryable :: "submitError \<Rightarrow> bool" where
  "IsRetryable (HTTPError code body) = Retryable code"
| "IsRetryable (TransportError cause) = True"
| "IsRetryable (NetError msg) = True"
| "IsRetryable (OtherError msg) = False"

section \<open>Stored text is valid and bounded\<close>

lemma trimInvalid_valid: "ValidString (trimInvalid s) \<and> prefix (trimInvalid s) s"
proof (induction s rule: trimInvalid.induct)
  case (1 s)
  show ?case
  proof (cases "length s > 0 \<and> \<not> ValidString s")
    case True
    then show ?thesis using 1 take_is_prefix prefix_order.order_trans by (subst (1 2) trimInvalid.simps) fastforce
  next
    case False
    then show ?thesis by (subst (1 2) trimInvalid.simps) auto
  qed
qed

lemma boundedText_valid: "ValidString (boundedText s)" "length (boundedText s) \<le> MaxReasonBytes"
  using ToValidUTF8_loop_valid trimInvalid_valid [of "take MaxReasonBytes (ToValidUTF8 s)"]
  by (auto simp: boundedText_def Let_def ToValidUTF8_def dest: prefix_length_le)

lemma boundedText_id: "ValidString s \<Longrightarrow> length s \<le> MaxReasonBytes \<Longrightarrow> boundedText s = s"
  using ToValidUTF8_valid by (simp add: boundedText_def ToValidUTF8_def)

lemma boundedText_idem: "boundedText (boundedText s) = boundedText s"
  by (rule boundedText_id [OF boundedText_valid])

end
