(* ===== verification/Witness_Delivery.thy ===== *)
theory Witness_Delivery
  imports Witness_Verify Witness_Client Backend_Contract "HOL-Library.Multiset"
begin

text \<open>
  \<open>witness/runner.go\<close>: the delivery runner, which submits pending checkpoints to their witnesses and
  records verified receipts or failures. Rows of different witnesses are delivered concurrently:
  \<open>delivery_step\<close> lets any unfinished group take its next step, so its runs are the interleavings of
  the goroutines of \<open>RunOnce\<close>.

  Submitters and verifiers are the interfaces \<open>Submitter\<close> and \<open>Verifier\<close>, as functions; \<open>ctx\<close> is the
  value of \<open>ctx.Err()\<close> after the submission of a row, and \<open>rnd\<close> what \<open>rand.Int64N\<close> returns for it.
\<close>

section \<open>Configuration\<close>

record DeliveryConfig =
  DcPollInterval :: duration
  DcBaseBackoff :: duration
  DcMaxBackoff :: duration
  DcJitter :: bool

definition DefaultDeliveryConfig :: DeliveryConfig where
  "DefaultDeliveryConfig = \<lparr>DcPollInterval = Minute_ns, DcBaseBackoff = 1000000000,
     DcMaxBackoff = 60 * Minute_ns, DcJitter = True\<rparr>"

type_synonym Submitter = "bytes \<Rightarrow> submitError + WReceipt"

text \<open>Go maps with their entries in some order, keys distinct; a nil store, client or verifier has no counterpart.\<close>

record DeliveryRunner =
  DrConfig :: DeliveryConfig
  DrClients :: "(string \<times> Submitter) list"
  DrVerifiers :: "(string \<times> (bytes \<Rightarrow> WReceipt \<Rightarrow> submitError option)) list"

definition NewDeliveryRunner :: "DeliveryConfig \<Rightarrow> (string \<times> Submitter) list
    \<Rightarrow> (string \<times> (bytes \<Rightarrow> WReceipt \<Rightarrow> submitError option)) list \<Rightarrow> DeliveryRunner result" where
  "NewDeliveryRunner config clients verifiers =
     (if DcPollInterval config \<le> 0 \<or> DcBaseBackoff config \<le> 0 \<or> DcMaxBackoff config < DcBaseBackoff config
        \<or> length clients = 0 \<or> int (length clients) > MaxWitnesses \<or> length verifiers \<noteq> length clients
      then Inl ErrInvalid
      else if list_ex (\<lambda>(wid, client). isl (ValidateIdentifier wid) \<or> map_of verifiers wid = None) clients
      then Inl ErrInvalid
      else Inr \<lparr>DrConfig = config, DrClients = clients, DrVerifiers = verifiers\<rparr>)"

record 's WitnessStateStore =
  ws_PendingWitnesses :: "'s \<Rightarrow> time \<Rightarrow> int \<Rightarrow> WitnessState list result"
  ws_CommitWitness :: "'s \<Rightarrow> uint32 \<Rightarrow> WitnessState \<Rightarrow> unit result \<times> 's"

section \<open>Backoff\<close>

text \<open>\<open>time.Duration\<close> is an \<open>int64\<close>: its arithmetic wraps.\<close>

definition int64 :: "int \<Rightarrow> int" where
  "int64 x = (x + 2 ^ 63) mod 2 ^ 64 - 2 ^ 63"

fun backoff_loop :: "nat \<Rightarrow> duration \<Rightarrow> duration \<Rightarrow> duration" where
  "backoff_loop 0 maxBackoff delay = delay"
| "backoff_loop (Suc remaining) maxBackoff delay =
     (if delay < maxBackoff
      then backoff_loop remaining maxBackoff
             (if delay > int64 (maxBackoff - delay) then maxBackoff else int64 (delay * 2))
      else delay)"

definition backoff :: "DeliveryConfig \<Rightarrow> (duration \<Rightarrow> duration) \<Rightarrow> uint32 \<Rightarrow> duration" where
  "backoff config rnd attempts =
     (let delay = backoff_loop (unat attempts) (DcMaxBackoff config) (DcBaseBackoff config)
      in if DcJitter config \<and> delay > 0 then rnd delay else delay)"

section \<open>Delivering one row\<close>

definition failedWitness :: "WitnessState \<Rightarrow> time \<Rightarrow> bool \<Rightarrow> string \<Rightarrow> duration \<Rightarrow> WitnessState" where
  "failedWitness item now permanent reason delay =
     item\<lparr>Attempts := Attempts item + 1, Permanent := permanent, LastError := boundedText reason,
          NextAttemptAt := now + delay\<rparr>"

definition deliveredWitness :: "WitnessState \<Rightarrow> time \<Rightarrow> WReceipt \<Rightarrow> WitnessState" where
  "deliveredWitness item now receipt =
     item\<lparr>Attempts := Attempts item + 1, NextAttemptAt := now,
          Receipt := Some \<lparr>ReceiptBytes = WrBytes receipt, EntryHash = WrEntryHash receipt,
            EntryHashScheme = WrEntryHashScheme receipt, LeafIndex = Some (WrLeafIndex receipt),
            TreeSize = Some (WrTreeSize receipt)\<rparr>,
          Permanent := False, LastError := []\<rparr>"

text \<open>
  What \<open>deliver\<close> decides before it touches the store: an error that leaves the row alone, or the
  next row with the flags \<open>success\<close> and \<open>retryable\<close>.
\<close>

definition nextWitness :: "cose \<Rightarrow> dtmmr \<Rightarrow> DeliveryRunner \<Rightarrow> (WitnessState \<Rightarrow> error option)
    \<Rightarrow> (WitnessState \<Rightarrow> duration \<Rightarrow> duration) \<Rightarrow> time \<Rightarrow> string \<Rightarrow> WitnessState
    \<Rightarrow> (WitnessState \<times> bool \<times> bool) result" where
  "nextWitness cs dt r ctx rnd now wid item =
     (case (map_of (DrClients r) wid, map_of (DrVerifiers r) wid) of
        (Some submit, Some verify) \<Rightarrow>
          let delay = backoff (DrConfig r) (rnd item) (Attempts item)
          in if (case ParseRecord cs dt (WitnessCheckpoint item) of
                   Inl _ \<Rightarrow> True | Inr record \<Rightarrow> isl (VerifySignature cs record))
             then Inr (failedWitness item now True ''stored checkpoint failed verification'' delay, False, False)
             else let result = submit (WitnessCheckpoint item)
             in (case ctx item of
                   Some ctxErr \<Rightarrow> Inl ctxErr
                 | None \<Rightarrow>
             (case result of
                Inl err \<Rightarrow>
                  let retryable = IsRetryable err
                  in Inr (failedWitness item now (\<not> retryable) (Error err) delay, False, retryable)
              | Inr receipt \<Rightarrow>
                  (case verify (WitnessCheckpoint item) receipt of
                     Some err \<Rightarrow> Inr (failedWitness item now True (Error err) delay, False, False)
                   | None \<Rightarrow> Inr (deliveredWitness item now receipt, True, False))))
      | _ \<Rightarrow> Inl ErrInvalid)"

definition deliver :: "cose \<Rightarrow> dtmmr \<Rightarrow> DeliveryRunner \<Rightarrow> 's WitnessStateStore \<Rightarrow> (WitnessState \<Rightarrow> error option)
    \<Rightarrow> (WitnessState \<Rightarrow> duration \<Rightarrow> duration) \<Rightarrow> time \<Rightarrow> string \<Rightarrow> WitnessState \<Rightarrow> 's
    \<Rightarrow> (bool \<times> bool) result \<times> 's" where
  "deliver cs dt r store ctx rnd now wid item s =
     (case nextWitness cs dt r ctx rnd now wid item of
        Inl err \<Rightarrow> (Inl err, s)
      | Inr (next_w, success, retryable) \<Rightarrow>
          (case ws_CommitWitness store s (Attempts item) next_w of
             (Inl err, s) \<Rightarrow> (Inl err, s)
           | (Inr _, s) \<Rightarrow> (Inr (success, retryable), s)))"

section \<open>A pass\<close>

record group =
  GId :: string
  GItems :: "WitnessState list"
  GCompleted :: int
  GErr :: "error option"

definition groupsOf :: "WitnessState list \<Rightarrow> group list" where
  "groupsOf pending = map (\<lambda>wid. \<lparr>GId = wid, GItems = filter (\<lambda>item. WitnessID item = wid) pending,
     GCompleted = 0, GErr = None\<rparr>) (remdups (map WitnessID pending))"

text \<open>One iteration of the loop of a group's goroutine.\<close>

definition groupStep :: "cose \<Rightarrow> dtmmr \<Rightarrow> DeliveryRunner \<Rightarrow> 's WitnessStateStore \<Rightarrow> (WitnessState \<Rightarrow> error option)
    \<Rightarrow> (WitnessState \<Rightarrow> duration \<Rightarrow> duration) \<Rightarrow> time \<Rightarrow> group \<Rightarrow> 's \<Rightarrow> group \<times> 's" where
  "groupStep cs dt r store ctx rnd now g s =
     (case GItems g of
        [] \<Rightarrow> (g, s)
      | item # rest \<Rightarrow>
          (case deliver cs dt r store ctx rnd now (GId g) item s of
             (Inl err, s) \<Rightarrow> (g\<lparr>GItems := [], GErr := Some err\<rparr>, s)
           | (Inr (success, retryable), s) \<Rightarrow>
               (g\<lparr>GItems := (if retryable then [] else rest),
                  GCompleted := GCompleted g + (if success then 1 else 0)\<rparr>, s)))"

inductive delivery_step :: "cose \<Rightarrow> dtmmr \<Rightarrow> DeliveryRunner \<Rightarrow> 's WitnessStateStore \<Rightarrow> (WitnessState \<Rightarrow> error option)
    \<Rightarrow> (WitnessState \<Rightarrow> duration \<Rightarrow> duration) \<Rightarrow> time \<Rightarrow> group list \<times> 's \<Rightarrow> group list \<times> 's \<Rightarrow> bool"
  for cs dt r store ctx rnd now where
  step: "i < length gs \<Longrightarrow> GItems (gs ! i) \<noteq> [] \<Longrightarrow> groupStep cs dt r store ctx rnd now (gs ! i) s = (g, s') \<Longrightarrow>
    delivery_step cs dt r store ctx rnd now (gs, s) (gs[i := g], s')"

inductive_cases delivery_stepE: "delivery_step cs dt r store ctx rnd now (gs, s) (gs', s')"

text \<open>The loop over the results channel, in the order in which the groups ended.\<close>

fun collect :: "group list \<Rightarrow> int \<Rightarrow> int \<times> error option" where
  "collect [] completed = (completed, None)"
| "collect (g # rest) completed =
     (case GErr g of
        Some err \<Rightarrow> (completed + GCompleted g, Some err)
      | None \<Rightarrow> collect rest (completed + GCompleted g))"

text \<open>\<open>RunOnce\<close>: the outcomes \<open>(completed, err)\<close> with the store states that some schedule leads to.\<close>

inductive delivery_RunOnce :: "cose \<Rightarrow> dtmmr \<Rightarrow> DeliveryRunner \<Rightarrow> 's WitnessStateStore \<Rightarrow> (WitnessState \<Rightarrow> error option)
    \<Rightarrow> (WitnessState \<Rightarrow> duration \<Rightarrow> duration) \<Rightarrow> time \<Rightarrow> int \<Rightarrow> 's \<Rightarrow> int \<times> error option \<Rightarrow> 's \<Rightarrow> bool"
  for cs dt r store ctx rnd now limit s where
  unavailable: "ws_PendingWitnesses store s (NormalizeTime now) limit = Inl err \<Longrightarrow>
    delivery_RunOnce cs dt r store ctx rnd now limit s (0, Some err) s"
| delivered: "ws_PendingWitnesses store s (NormalizeTime now) limit = Inr pending \<Longrightarrow>
    (delivery_step cs dt r store ctx rnd (NormalizeTime now))\<^sup>*\<^sup>* (groupsOf pending, s) (gs, s') \<Longrightarrow>
    list_all (\<lambda>g. GItems g = []) gs \<Longrightarrow> mset order = mset gs \<Longrightarrow>
    delivery_RunOnce cs dt r store ctx rnd now limit s (collect order 0) s'"

end
