(* ===== verification/Delivery_Laws.thy ===== *)
theory Delivery_Laws
  imports Witness_Delivery
begin

text \<open>
  Why delivery is right: the backoff stays between its bounds and never overflows, a row changes
  only by its own witness's outcome, every schedule of a pass ends, and all schedules end alike.
\<close>

section \<open>Backoff\<close>

lemma int64_id: "- (2 ^ 63) \<le> x \<Longrightarrow> x < 2 ^ 63 \<Longrightarrow> int64 x = x"
  unfolding int64_def by (subst mod_pos_pos_trivial) auto

lemma backoff_loop_eq:
  assumes "0 < d" "d \<le> m" "m < 2 ^ 63"
  shows "backoff_loop n m d = min m (d * 2 ^ n)"
  using assms(1,2)
proof (induction n arbitrary: d)
  case 0
  then show ?case by simp
next
  case (Suc n)
  show ?case
  proof (cases "d < m")
    case True
    have sub: "int64 (m - d) = m - d" using Suc.prems assms(3) by (intro int64_id) auto
    show ?thesis
    proof (cases "d > m - d")
      case cap: True
      have "d * 2 \<le> d * 2 ^ Suc n" using Suc.prems(1) by simp
      then have "m \<le> d * 2 ^ Suc n" using cap by linarith
      then show ?thesis using True cap sub Suc.IH [of m] Suc.prems
        by (simp add: min_absorb1 mult_le_cancel_left1)
    next
      case False
      then have "int64 (d * 2) = d * 2" using Suc.prems assms(3) by (intro int64_id) auto
      then show ?thesis using True False sub Suc.IH [of "d * 2"] Suc.prems by simp
    qed
  next
    case False
    then have "d = m" using Suc.prems by simp
    moreover have "m \<le> m * 2 ^ Suc n"
      using mult_left_mono [OF one_le_power, of 2 m "Suc n"] Suc.prems by simp
    ultimately show ?thesis by simp
  qed
qed

lemma backoff_bounds:
  assumes "0 < DcBaseBackoff c" "DcBaseBackoff c \<le> DcMaxBackoff c" "DcMaxBackoff c < 2 ^ 63"
    and "\<forall>n > 0. 0 \<le> rnd n \<and> rnd n < n"
  shows "backoff c rnd a = (if DcJitter c then rnd (min (DcMaxBackoff c) (DcBaseBackoff c * 2 ^ unat a))
      else min (DcMaxBackoff c) (DcBaseBackoff c * 2 ^ unat a))"
    and "0 \<le> backoff c rnd a \<and> backoff c rnd a \<le> DcMaxBackoff c"
    and "\<not> DcJitter c \<Longrightarrow> DcBaseBackoff c \<le> backoff c rnd a"
proof -
  let ?d = "min (DcMaxBackoff c) (DcBaseBackoff c * 2 ^ unat a)"
  have d: "DcBaseBackoff c \<le> ?d" using assms(1,2) by (simp add: mult_le_cancel_left1)
  then have pos: "0 < ?d" using assms(1) by linarith
  show eq: "backoff c rnd a = (if DcJitter c then rnd ?d else ?d)"
    using pos backoff_loop_eq [OF assms(1-3), of "unat a"] unfolding backoff_def Let_def by simp
  have "0 \<le> rnd ?d" "rnd ?d < ?d" using assms(4) pos by blast+
  then show "0 \<le> backoff c rnd a \<and> backoff c rnd a \<le> DcMaxBackoff c" using pos unfolding eq by auto
  show "\<not> DcJitter c \<Longrightarrow> DcBaseBackoff c \<le> backoff c rnd a" using d unfolding eq by simp
qed

section \<open>The rows of one witness\<close>

text \<open>The next row keeps its key and its checkpoint, and a receipt is one the verifier accepted.\<close>

lemma nextWitness_Inr:
  assumes "nextWitness cs dt r ctx rnd now wid item = Inr (w, success, retryable)"
  shows "WitnessID w = WitnessID item" "CheckpointSize w = CheckpointSize item"
    "WitnessCheckpoint w = WitnessCheckpoint item" "Attempts w = Attempts item + 1"
    "success \<Longrightarrow> \<exists>verify receipt rec. map_of (DrVerifiers r) wid = Some verify
        \<and> verify (WitnessCheckpoint item) receipt = None \<and> w = deliveredWitness item now receipt
        \<and> ParseRecord cs dt (WitnessCheckpoint item) = Inr rec \<and> VerifySignature cs rec = Inr ()"
    "\<not> success \<Longrightarrow> \<exists>permanent reason. w = failedWitness item now permanent reason
        (backoff (DrConfig r) (rnd item) (Attempts item)) \<and> (retryable \<longrightarrow> \<not> permanent)"
proof -
  obtain submit verify where cl: "map_of (DrClients r) wid = Some submit" "map_of (DrVerifiers r) wid = Some verify"
    using assms by (auto simp: nextWitness_def split: option.splits)
  have all: "WitnessID w = WitnessID item \<and> CheckpointSize w = CheckpointSize item
    \<and> WitnessCheckpoint w = WitnessCheckpoint item \<and> Attempts w = Attempts item + 1
    \<and> (success \<longrightarrow> (\<exists>receipt rec. verify (WitnessCheckpoint item) receipt = None \<and> w = deliveredWitness item now receipt
        \<and> ParseRecord cs dt (WitnessCheckpoint item) = Inr rec \<and> VerifySignature cs rec = Inr ()))
    \<and> (\<not> success \<longrightarrow> (\<exists>permanent reason. w = failedWitness item now permanent reason
        (backoff (DrConfig r) (rnd item) (Attempts item)) \<and> (retryable \<longrightarrow> \<not> permanent)))"
  proof (cases "ParseRecord cs dt (WitnessCheckpoint item)")
    case (Inl e)
    then show ?thesis using assms cl by (auto simp: nextWitness_def Let_def failedWitness_def)
  next
    case (Inr rec)
    show ?thesis
    proof (cases "VerifySignature cs rec")
      case (Inl e)
      then show ?thesis using assms cl Inr by (auto simp: nextWitness_def Let_def failedWitness_def)
    next
      case sig: (Inr u)
      show ?thesis
      proof (cases "submit (WitnessCheckpoint item)")
        case (Inl e)
        then show ?thesis using assms cl Inr sig
          by (auto simp: nextWitness_def Let_def failedWitness_def split: option.splits)
      next
        case rc: (Inr receipt)
        show ?thesis using assms cl Inr sig rc
          by (cases "verify (WitnessCheckpoint item) receipt")
            (auto simp: nextWitness_def Let_def failedWitness_def deliveredWitness_def split: option.splits)
      qed
    qed
  qed
  then show "WitnessID w = WitnessID item" "CheckpointSize w = CheckpointSize item"
    "WitnessCheckpoint w = WitnessCheckpoint item" "Attempts w = Attempts item + 1"
    "success \<Longrightarrow> \<exists>verify receipt rec. map_of (DrVerifiers r) wid = Some verify
        \<and> verify (WitnessCheckpoint item) receipt = None \<and> w = deliveredWitness item now receipt
        \<and> ParseRecord cs dt (WitnessCheckpoint item) = Inr rec \<and> VerifySignature cs rec = Inr ()"
    "\<not> success \<Longrightarrow> \<exists>permanent reason. w = failedWitness item now permanent reason
        (backoff (DrConfig r) (rnd item) (Attempts item)) \<and> (retryable \<longrightarrow> \<not> permanent)"
    using cl(2) by auto
qed

section \<open>A store of independent rows\<close>

text \<open>A commit replaces the row with its key, if that has the expected attempts, and looks at no other row.\<close>

locale witness_rows =
  fixes row :: "'s \<Rightarrow> string \<Rightarrow> uint64 \<Rightarrow> WitnessState option" and store :: "'s WitnessStateStore"
  assumes commit_done: "ws_CommitWitness store s a w = (Inr (), s') \<Longrightarrow>
      row s' (WitnessID w) (CheckpointSize w) = Some w
      \<and> (\<exists>old. row s (WitnessID w) (CheckpointSize w) = Some old \<and> Attempts old = a
          \<and> WitnessCheckpoint old = WitnessCheckpoint w)"
    and commit_err: "ws_CommitWitness store s a w = (Inl e, s') \<Longrightarrow> row s' = row s"
    and commit_other: "ws_CommitWitness store s a w = (q, s') \<Longrightarrow> (i, z) \<noteq> (WitnessID w, CheckpointSize w) \<Longrightarrow>
      row s' i z = row s i z"
    and commit_local: "row s (WitnessID w) (CheckpointSize w) = row t (WitnessID w) (CheckpointSize w) \<Longrightarrow>
      fst (ws_CommitWitness store s a w) = fst (ws_CommitWitness store t a w)"
begin

lemma deliver_other:
  assumes "deliver cs dt r store ctx rnd now wid item s = (q, s')" "i \<noteq> WitnessID item"
  shows "row s' i z = row s i z"
proof (cases "nextWitness cs dt r ctx rnd now wid item")
  case (Inr res)
  obtain w success retryable where res: "res = (w, success, retryable)" by (rule prod_cases3)
  obtain p s1 where c: "ws_CommitWitness store s (Attempts item) w = (p, s1)" by fastforce
  have "row s1 i z = row s i z"
    using commit_other [OF c] nextWitness_Inr(1) [OF Inr [unfolded res]] assms(2) by simp
  moreover have "s1 = s'" using assms(1) Inr res c by (cases p) (auto simp: deliver_def)
  ultimately show ?thesis by simp
qed (use assms in \<open>simp add: deliver_def\<close>)

lemma deliver_local:
  assumes eq: "\<And>z. row s (WitnessID item) z = row t (WitnessID item) z"
    and d: "deliver cs dt r store ctx rnd now wid item s = (q, s')" "deliver cs dt r store ctx rnd now wid item t = (q', t')"
  shows "q' = q" "row s' (WitnessID item) z = row t' (WitnessID item) z"
proof -
  have "q' = q \<and> row s' (WitnessID item) z = row t' (WitnessID item) z"
  proof (cases "nextWitness cs dt r ctx rnd now wid item")
    case (Inr res)
    obtain w success retryable where res: "res = (w, success, retryable)" by (rule prod_cases3)
    note w = nextWitness_Inr(1,2) [OF Inr [unfolded res]]
    obtain p s1 where c: "ws_CommitWitness store s (Attempts item) w = (p, s1)" by fastforce
    obtain p' t1 where c': "ws_CommitWitness store t (Attempts item) w = (p', t1)" by fastforce
    have p: "p' = p" using commit_local [of s w t "Attempts item"] c c' eq w by simp
    have "row s1 (WitnessID item) z = row t1 (WitnessID item) z"
    proof (cases p)
      case (Inl e)
      then show ?thesis using commit_err [of s] commit_err [of t] c c' p eq by auto
    next
      case ok: (Inr u)
      show ?thesis
      proof (cases "z = CheckpointSize w")
        case True
        have "row s1 (WitnessID w) (CheckpointSize w) = Some w" "row t1 (WitnessID w) (CheckpointSize w) = Some w"
          using commit_done [of s "Attempts item" w s1] commit_done [of t "Attempts item" w t1] c c' p ok by simp_all
        then show ?thesis using True w by simp
      next
        case False
        then show ?thesis using commit_other [OF c] commit_other [OF c'] eq by auto
      qed
    qed
    then show ?thesis using d Inr res c c' p by (cases p) (auto simp: deliver_def)
  qed (use d eq in \<open>simp add: deliver_def\<close>)
  then show "q' = q" "row s' (WitnessID item) z = row t' (WitnessID item) z" by simp_all
qed

end

section \<open>Schedules\<close>

definition uniform :: "group \<Rightarrow> bool" where
  "uniform g \<longleftrightarrow> list_all (\<lambda>item. WitnessID item = GId g) (GItems g)"

context witness_rows
begin

lemma groupStep_id: "groupStep cs dt r store ctx rnd now g s = (g', s') \<Longrightarrow> GId g' = GId g"
  by (auto simp: groupStep_def split: list.splits prod.splits sum.splits)

lemma groupStep_uniform:
  "groupStep cs dt r store ctx rnd now g s = (g', s') \<Longrightarrow> uniform g \<Longrightarrow> uniform g'"
  by (auto simp: groupStep_def uniform_def split: list.splits prod.splits sum.splits if_splits)

lemma groupStep_items:
  "groupStep cs dt r store ctx rnd now g s = (g', s') \<Longrightarrow> length (GItems g') \<le> length (GItems g) - 1"
  by (auto simp: groupStep_def split: list.splits prod.splits sum.splits if_splits)

lemma groupStep_idle: "GItems g = [] \<Longrightarrow> groupStep cs dt r store ctx rnd now g s = (g, s)"
  by (simp add: groupStep_def)

lemma groupStep_other:
  assumes "groupStep cs dt r store ctx rnd now g s = (g', s')" "uniform g" "i \<noteq> GId g"
  shows "row s' i z = row s i z"
proof (cases "GItems g")
  case (Cons item rest)
  obtain q s1 where d: "deliver cs dt r store ctx rnd now (GId g) item s = (q, s1)" by fastforce
  have "row s1 i z = row s i z" using deliver_other [OF d] assms(2,3) Cons by (simp add: uniform_def)
  moreover have "s1 = s'" using assms(1) Cons d by (cases q) (auto simp: groupStep_def)
  ultimately show ?thesis by simp
qed (use assms in \<open>simp add: groupStep_def\<close>)

lemma groupStep_local:
  assumes eq: "\<And>z. row s (GId g) z = row t (GId g) z" and u: "uniform g"
    and d: "groupStep cs dt r store ctx rnd now g s = (g', s')" "groupStep cs dt r store ctx rnd now g t = (h, t')"
  shows "h = g'" "row s' (GId g) z = row t' (GId g) z"
proof -
  have "h = g' \<and> row s' (GId g) z = row t' (GId g) z"
  proof (cases "GItems g")
    case (Cons item rest)
    have i: "WitnessID item = GId g" using u Cons by (simp add: uniform_def)
    obtain q s1 where e: "deliver cs dt r store ctx rnd now (GId g) item s = (q, s1)" by fastforce
    obtain p t1 where f: "deliver cs dt r store ctx rnd now (GId g) item t = (p, t1)" by fastforce
    note l = deliver_local [OF _ e f, unfolded i, OF eq]
    then show ?thesis using d Cons e f by (cases q) (auto simp: groupStep_def)
  qed (use d eq in \<open>simp add: groupStep_def\<close>)
  then show "h = g'" "row s' (GId g) z = row t' (GId g) z" by simp_all
qed

text \<open>A group running alone.\<close>

definition solo :: "cose \<Rightarrow> dtmmr \<Rightarrow> DeliveryRunner \<Rightarrow> (WitnessState \<Rightarrow> error option)
    \<Rightarrow> (WitnessState \<Rightarrow> duration \<Rightarrow> duration) \<Rightarrow> time \<Rightarrow> nat \<Rightarrow> group \<Rightarrow> 's \<Rightarrow> group \<times> 's" where
  "solo cs dt r ctx rnd now n g s = ((\<lambda>(g, s). groupStep cs dt r store ctx rnd now g s) ^^ n) (g, s)"

lemma solo_Suc: "solo cs dt r ctx rnd now n g s = (g', s') \<Longrightarrow>
    solo cs dt r ctx rnd now (Suc n) g s = groupStep cs dt r store ctx rnd now g' s'"
  by (simp add: solo_def)

lemma solo_stable:
  assumes "solo cs dt r ctx rnd now n g s = (g', s')" "GItems g' = []"
  shows "solo cs dt r ctx rnd now (n + k) g s = (g', s')"
  using assms by (induction k) (simp_all add: solo_Suc groupStep_idle)

lemma solo_items:
  "solo cs dt r ctx rnd now n g s = (g', s') \<Longrightarrow> GId g' = GId g \<and> length (GItems g') \<le> length (GItems g) - n
     \<and> (uniform g \<longrightarrow> uniform g')"
proof (induction n arbitrary: g' s')
  case (Suc n)
  obtain g1 s1 where 1: "solo cs dt r ctx rnd now n g s = (g1, s1)" by fastforce
  have 2: "groupStep cs dt r store ctx rnd now g1 s1 = (g', s')" using Suc.prems solo_Suc [OF 1] by simp
  show ?case using Suc.IH [OF 1] groupStep_id [OF 2] groupStep_items [OF 2] groupStep_uniform [OF 2] by auto
qed (simp add: solo_def)

lemma solo_unique:
  assumes "solo cs dt r ctx rnd now n g s = (g', s')" "GItems g' = []"
  shows "solo cs dt r ctx rnd now (length (GItems g)) g s = (g', s')"
proof -
  obtain h t where h: "solo cs dt r ctx rnd now (length (GItems g)) g s = (h, t)" by fastforce
  then have "GItems h = []" using solo_items [OF h] by simp
  then show ?thesis
    using solo_stable [OF assms, of "length (GItems g)"] solo_stable [OF h, of n] h by (simp add: add.commute)
qed

text \<open>In every schedule each group is where it would be had it run alone.\<close>

definition as_if_alone :: "cose \<Rightarrow> dtmmr \<Rightarrow> DeliveryRunner \<Rightarrow> (WitnessState \<Rightarrow> error option)
    \<Rightarrow> (WitnessState \<Rightarrow> duration \<Rightarrow> duration) \<Rightarrow> time \<Rightarrow> group list \<Rightarrow> 's \<Rightarrow> group list \<Rightarrow> 's \<Rightarrow> bool" where
  "as_if_alone cs dt r ctx rnd now gs s gs' s' \<longleftrightarrow> length gs' = length gs
     \<and> (\<forall>i < length gs. \<exists>n t. solo cs dt r ctx rnd now n (gs ! i) s = (gs' ! i, t)
          \<and> (\<forall>z. row s' (GId (gs ! i)) z = row t (GId (gs ! i)) z))
     \<and> (\<forall>w z. w \<notin> GId ` set gs \<longrightarrow> row s' w z = row s w z)"

lemma as_if_alone_step:
  assumes gs: "distinct (map GId gs)" "list_all uniform gs"
    and a: "as_if_alone cs dt r ctx rnd now gs s gs1 s1"
    and st: "delivery_step cs dt r store ctx rnd now (gs1, s1) (gs2, s2)"
  shows "as_if_alone cs dt r ctx rnd now gs s gs2 s2"
proof -
  obtain j g where j: "j < length gs1" "groupStep cs dt r store ctx rnd now (gs1 ! j) s1 = (g, s2)" "gs2 = gs1[j := g]"
    using st by (rule delivery_stepE) auto
  have len: "length gs1 = length gs" using a by (simp add: as_if_alone_def)
  obtain n t where n: "solo cs dt r ctx rnd now n (gs ! j) s = (gs1 ! j, t)"
    "\<forall>z. row s1 (GId (gs ! j)) z = row t (GId (gs ! j)) z"
    using a j(1) len by (auto simp: as_if_alone_def)
  have u: "GId (gs1 ! j) = GId (gs ! j)" "uniform (gs1 ! j)"
    using solo_items [OF n(1)] gs(2) j(1) len by (auto simp: list_all_length)
  obtain h t' where h: "groupStep cs dt r store ctx rnd now (gs1 ! j) t = (h, t')" by fastforce
  have loc: "h = g" "row s2 (GId (gs ! j)) z = row t' (GId (gs ! j)) z" for z
    using groupStep_local [OF _ u(2) j(2) h] n(2) u(1) by simp_all
  have other: "row s2 i z = row s1 i z" if "i \<noteq> GId (gs ! j)" for i z
    using groupStep_other [OF j(2) u(2)] that u(1) by simp
  have "\<exists>n t. solo cs dt r ctx rnd now n (gs ! i) s = (gs2 ! i, t) \<and> (\<forall>z. row s2 (GId (gs ! i)) z = row t (GId (gs ! i)) z)"
    if i: "i < length gs" for i
  proof (cases "i = j")
    case True
    then show ?thesis using solo_Suc [OF n(1)] h loc j(1,3) by (intro exI [of _ "Suc n"] exI [of _ t']) simp
  next
    case False
    then have "GId (gs ! i) \<noteq> GId (gs ! j)" using gs(1) i j(1) len by (simp add: distinct_conv_nth)
    moreover obtain m t1 where "solo cs dt r ctx rnd now m (gs ! i) s = (gs1 ! i, t1)"
      "\<forall>z. row s1 (GId (gs ! i)) z = row t1 (GId (gs ! i)) z"
      using a i by (auto simp: as_if_alone_def)
    ultimately show ?thesis using other j(3) False by (intro exI [of _ m] exI [of _ t1]) simp
  qed
  moreover have "row s2 w z = row s w z" if "w \<notin> GId ` set gs" for w z
  proof -
    have "GId (gs ! j) \<in> GId ` set gs" using j(1) len by simp
    then have "w \<noteq> GId (gs ! j)" using that by metis
    then show ?thesis using other [of w z] a that by (simp add: as_if_alone_def)
  qed
  ultimately show ?thesis using j(3) len by (simp add: as_if_alone_def)
qed

lemma schedule_alone:
  assumes gs: "distinct (map GId gs)" "list_all uniform gs"
    and st: "(delivery_step cs dt r store ctx rnd now)\<^sup>*\<^sup>* (gs, s) (gs', s')"
  shows "as_if_alone cs dt r ctx rnd now gs s gs' s'"
  using st
proof (induction "(gs', s')" arbitrary: gs' s' rule: rtranclp_induct)
  case base
  show ?case by (auto simp: as_if_alone_def solo_def intro!: exI [of _ 0])
next
  case (step c)
  then show ?case using as_if_alone_step [OF gs, of cs dt r ctx rnd now s "fst c" "snd c" gs' s'] by simp
qed

lemma schedules_agree:
  assumes gs: "distinct (map GId gs)" "list_all uniform gs"
    and st: "(delivery_step cs dt r store ctx rnd now)\<^sup>*\<^sup>* (gs, s) (gs1, s1)"
      "(delivery_step cs dt r store ctx rnd now)\<^sup>*\<^sup>* (gs, s) (gs2, s2)"
    and fin: "list_all (\<lambda>g. GItems g = []) gs1" "list_all (\<lambda>g. GItems g = []) gs2"
  shows "gs1 = gs2" "row s1 i z = row s2 i z"
proof -
  note a = schedule_alone [OF gs st(1)] schedule_alone [OF gs st(2)]
  have len: "length gs1 = length gs" "length gs2 = length gs" using a by (simp_all add: as_if_alone_def)
  have each: "gs1 ! j = gs2 ! j \<and> (\<forall>z. row s1 (GId (gs ! j)) z = row s2 (GId (gs ! j)) z)" if j: "j < length gs" for j
  proof -
    obtain n t where n: "solo cs dt r ctx rnd now n (gs ! j) s = (gs1 ! j, t)"
      "\<forall>z. row s1 (GId (gs ! j)) z = row t (GId (gs ! j)) z"
      using a(1) j by (auto simp: as_if_alone_def)
    obtain m u where m: "solo cs dt r ctx rnd now m (gs ! j) s = (gs2 ! j, u)"
      "\<forall>z. row s2 (GId (gs ! j)) z = row u (GId (gs ! j)) z"
      using a(2) j by (auto simp: as_if_alone_def)
    have "GItems (gs1 ! j) = []" "GItems (gs2 ! j) = []" using fin j len by (simp_all add: list_all_length)
    then show ?thesis using solo_unique [OF n(1)] solo_unique [OF m(1)] n(2) m(2) by simp
  qed
  then show "gs1 = gs2" using len by (intro nth_equalityI) simp_all
  show "row s1 i z = row s2 i z"
  proof (cases "i \<in> GId ` set gs")
    case True
    then obtain j where "j < length gs" "GId (gs ! j) = i" by (auto simp: in_set_conv_nth)
    then show ?thesis using each by auto
  next
    case False
    then show ?thesis using a by (simp add: as_if_alone_def)
  qed
qed

end

section \<open>Every schedule ends\<close>

definition remaining :: "group list \<Rightarrow> nat" where
  "remaining gs = sum_list (map (\<lambda>g. length (GItems g)) gs)"

lemma step_remaining:
  assumes "delivery_step cs dt r store ctx rnd now (gs, s) (gs', s')"
  shows "remaining gs' < remaining gs"
proof -
  obtain i g where i: "i < length gs" "GItems (gs ! i) \<noteq> []" "groupStep cs dt r store ctx rnd now (gs ! i) s = (g, s')"
    "gs' = gs[i := g]" using assms by (rule delivery_stepE) auto
  have "length (GItems g) < length (GItems (gs ! i))"
    using i(2,3) by (auto simp: groupStep_def split: list.splits prod.splits sum.splits if_splits)
  moreover have "remaining gs = remaining (take i gs) + length (GItems (gs ! i)) + remaining (drop (Suc i) gs)"
    unfolding remaining_def by (subst id_take_nth_drop [OF i(1)]) simp
  moreover have "remaining gs' = remaining (take i gs) + length (GItems g) + remaining (drop (Suc i) gs)"
    using i(1,4) by (simp add: remaining_def upd_conv_take_nth_drop)
  ultimately show ?thesis by simp
qed

lemma schedules_end:
  fixes store :: "'s WitnessStateStore"
  shows "wfP (\<lambda>c' c. delivery_step cs dt r store ctx rnd now c c')"
proof (rule wfp_if_convertible_to_nat [of _ "\<lambda>c. remaining (fst c)"])
  fix c c' :: "group list \<times> 's"
  assume "delivery_step cs dt r store ctx rnd now c c'"
  then show "remaining (fst c') < remaining (fst c)"
    using step_remaining [of cs dt r store ctx rnd now "fst c" "snd c" "fst c'" "snd c'"] by simp
qed

lemma schedule_total:
  "\<exists>gs' s'. (delivery_step cs dt r store ctx rnd now)\<^sup>*\<^sup>* (gs, s) (gs', s') \<and> list_all (\<lambda>g. GItems g = []) gs'"
proof (induction "remaining gs" arbitrary: gs s rule: less_induct)
  case less
  show ?case
  proof (cases "list_all (\<lambda>g. GItems g = []) gs")
    case False
    then obtain i where i: "i < length gs" "GItems (gs ! i) \<noteq> []" by (auto simp: list_all_length)
    obtain g s1 where g: "groupStep cs dt r store ctx rnd now (gs ! i) s = (g, s1)" by fastforce
    have st: "delivery_step cs dt r store ctx rnd now (gs, s) (gs[i := g], s1)" by (rule delivery_step.step [OF i g])
    then show ?thesis using less [OF step_remaining [OF st], of s1] by (meson converse_rtranclp_into_rtranclp)
  qed auto
qed

lemma groupsOf_ok: "distinct (map GId (groupsOf pending))" "list_all uniform (groupsOf pending)"
  by (simp_all add: groupsOf_def o_def uniform_def list_all_iff)

section \<open>The engine\<close>

definition engine_row :: "Engine \<Rightarrow> string \<Rightarrow> uint64 \<Rightarrow> WitnessState option" where
  "engine_row e wid sz = find (\<lambda>w. witness_key w = WitnessKey wid sz) (Witnesses (state e))"

definition engine_witnesses :: "Engine WitnessStateStore" where
  "engine_witnesses = \<lparr>ws_PendingWitnesses = PendingWitnesses, ws_CommitWitness = CommitWitness\<rparr>"

lemma replaceWitness_eq:
  "replaceWitness a w ws =
     (case find (\<lambda>v. witness_key v = witness_key w) ws of
        None \<Rightarrow> Inl ErrContention
      | Some old \<Rightarrow> if Attempts old \<noteq> a \<or> WitnessCheckpoint old \<noteq> WitnessCheckpoint w then Inl ErrContention
          else Inr (takeWhile (\<lambda>v. witness_key v \<noteq> witness_key w) ws
            @ w # tl (dropWhile (\<lambda>v. witness_key v \<noteq> witness_key w) ws)))"
  by (induction ws) (auto split: option.splits)

lemma find_replaced:
  "find (\<lambda>v. witness_key v = k) ws = Some old \<Longrightarrow> witness_key w = k \<Longrightarrow>
   find (\<lambda>v. witness_key v = k') (takeWhile (\<lambda>v. witness_key v \<noteq> k) ws
            @ w # tl (dropWhile (\<lambda>v. witness_key v \<noteq> k) ws))
     = (if k' = k then Some w else find (\<lambda>v. witness_key v = k') ws)"
  by (induction ws) (auto split: if_splits)

lemma CommitWitness_eq:
  "CommitWitness e a w =
     (if isl (validateWitness w ErrInvalid) then (Inl ErrInvalid, e)
      else case engine_row e (WitnessID w) (CheckpointSize w) of
        None \<Rightarrow> (Inl ErrContention, e)
      | Some old \<Rightarrow> if Attempts old \<noteq> a \<or> WitnessCheckpoint old \<noteq> WitnessCheckpoint w then (Inl ErrContention, e)
          else (Inr (), e\<lparr>state := (state e)\<lparr>Witnesses :=
            takeWhile (\<lambda>v. witness_key v \<noteq> witness_key w) (Witnesses (state e))
              @ w # tl (dropWhile (\<lambda>v. witness_key v \<noteq> witness_key w) (Witnesses (state e)))\<rparr>\<rparr>))"
proof (cases "validateWitness w ErrInvalid")
  case (Inl err)
  then show ?thesis using validateWitness_err [OF Inl] by (simp add: CommitWitness_def ApplyWitness_def)
next
  case (Inr u)
  then show ?thesis
    by (auto simp: CommitWitness_def ApplyWitness_def replaceWitness_eq engine_row_def witness_key_def
        split: option.splits)
qed

lemma engine_row_committed:
  assumes "CommitWitness e a w = (Inr (), e')"
  shows "engine_row e' i z = (if i = WitnessID w \<and> z = CheckpointSize w then Some w else engine_row e i z)"
    "\<exists>old. engine_row e (WitnessID w) (CheckpointSize w) = Some old \<and> Attempts old = a
       \<and> WitnessCheckpoint old = WitnessCheckpoint w"
proof -
  obtain old where old: "find (\<lambda>v. witness_key v = witness_key w) (Witnesses (state e)) = Some old"
      "Attempts old = a" "WitnessCheckpoint old = WitnessCheckpoint w"
    and e': "Witnesses (state e') = takeWhile (\<lambda>v. witness_key v \<noteq> witness_key w) (Witnesses (state e))
              @ w # tl (dropWhile (\<lambda>v. witness_key v \<noteq> witness_key w) (Witnesses (state e)))"
    using assms unfolding CommitWitness_eq engine_row_def witness_key_def [symmetric]
    by (auto split: if_splits option.splits)
  have "WitnessKey i z = witness_key w \<longleftrightarrow> i = WitnessID w \<and> z = CheckpointSize w" by (simp add: witness_key_def)
  then show "engine_row e' i z = (if i = WitnessID w \<and> z = CheckpointSize w then Some w else engine_row e i z)"
    unfolding engine_row_def e' find_replaced [OF old(1) refl] by simp
  show "\<exists>old. engine_row e (WitnessID w) (CheckpointSize w) = Some old \<and> Attempts old = a
       \<and> WitnessCheckpoint old = WitnessCheckpoint w"
    using old unfolding engine_row_def witness_key_def [symmetric] by blast
qed

lemma CommitWitness_refused: "CommitWitness e a w = (Inl err, e') \<Longrightarrow> e' = e"
  by (cases rule: CommitWitness_cases [of e a w]) auto

interpretation engine_rows: witness_rows engine_row engine_witnesses
proof
  fix e :: Engine and a w q e' err i z
  show "ws_CommitWitness engine_witnesses e a w = (Inr (), e') \<Longrightarrow>
      engine_row e' (WitnessID w) (CheckpointSize w) = Some w
      \<and> (\<exists>old. engine_row e (WitnessID w) (CheckpointSize w) = Some old \<and> Attempts old = a
          \<and> WitnessCheckpoint old = WitnessCheckpoint w)"
    using engine_row_committed by (simp add: engine_witnesses_def)
  show "ws_CommitWitness engine_witnesses e a w = (Inl err, e') \<Longrightarrow> engine_row e' = engine_row e"
    using CommitWitness_refused [of e a w err e'] by (auto simp: engine_witnesses_def)
  show "ws_CommitWitness engine_witnesses e a w = (q, e') \<Longrightarrow> (i, z) \<noteq> (WitnessID w, CheckpointSize w) \<Longrightarrow>
      engine_row e' i z = engine_row e i z"
    using engine_row_committed(1) [of e a w e' i z] CommitWitness_refused [of e a w _ e']
    by (cases q) (auto simp: engine_witnesses_def)
  show "engine_row e (WitnessID w) (CheckpointSize w) = engine_row t (WitnessID w) (CheckpointSize w) \<Longrightarrow>
      fst (ws_CommitWitness engine_witnesses e a w) = fst (ws_CommitWitness engine_witnesses t a w)" for t
    by (auto simp: engine_witnesses_def CommitWitness_eq split: option.splits)
qed

text \<open>Delivery changes nothing in an engine but the contents of witness rows.\<close>

definition rows_only :: "Engine \<Rightarrow> Engine \<Rightarrow> bool" where
  "rows_only e e' \<longleftrightarrow> (\<exists>ws. e' = e\<lparr>state := (state e)\<lparr>Witnesses := ws\<rparr>\<rparr>
     \<and> map (\<lambda>w. (witness_key w, WitnessCheckpoint w)) ws
       = map (\<lambda>w. (witness_key w, WitnessCheckpoint w)) (Witnesses (state e)))"

lemma rows_only_refl: "rows_only e e"
  by (auto simp: rows_only_def intro!: exI [of _ "Witnesses (state e)"])

lemma rows_only_trans: "rows_only e e' \<Longrightarrow> rows_only e' e'' \<Longrightarrow> rows_only e e''"
  by (auto simp: rows_only_def)

lemma CommitWitness_rows_only: "rows_only e (snd (CommitWitness e a w))"
proof (cases rule: CommitWitness_cases [of e a w])
  case (ok s')
  obtain pre old post where w: "Witnesses (state e) = pre @ old # post"
    "s' = (state e)\<lparr>Witnesses := pre @ w # post\<rparr>" "witness_key old = witness_key w"
    "WitnessCheckpoint old = WitnessCheckpoint w"
    using ApplyWitness_Inr [OF ok(2)] by metis
  then show ?thesis unfolding ok(1) rows_only_def by (intro exI [of _ "pre @ w # post"]) simp
qed (simp add: rows_only_refl)

lemma groupStep_rows_only:
  assumes "groupStep cs dt r engine_witnesses ctx rnd now g e = (g', e')"
  shows "rows_only e e'"
proof (cases "GItems g")
  case (Cons item rest)
  show ?thesis
  proof (cases "nextWitness cs dt r ctx rnd now (GId g) item")
    case (Inr res)
    obtain w success retryable where res: "res = (w, success, retryable)" by (rule prod_cases3)
    obtain q e1 where q: "CommitWitness e (Attempts item) w = (q, e1)" by fastforce
    have "e' = e1" using assms Cons Inr res q
      by (cases q) (auto simp: groupStep_def deliver_def engine_witnesses_def)
    then show ?thesis using CommitWitness_rows_only [of e "Attempts item" w] q by simp
  qed (use assms Cons in \<open>auto simp: groupStep_def deliver_def rows_only_refl\<close>)
qed (use assms in \<open>simp add: groupStep_def rows_only_refl\<close>)

lemma schedule_rows_only:
  assumes "(delivery_step cs dt r engine_witnesses ctx rnd now)\<^sup>*\<^sup>* (gs, e) (gs', e')"
  shows "rows_only e e'"
  using assms
proof (induction "(gs', e')" arbitrary: gs' e' rule: rtranclp_induct)
  case (step c)
  obtain gs1 e1 where c: "c = (gs1, e1)" by fastforce
  have "rows_only e1 e'" using step(2) unfolding c by (rule delivery_stepE) (auto dest: groupStep_rows_only)
  then show ?case using step(3) c rows_only_trans by blast
qed (simp add: rows_only_refl)

lemma rows_determine:
  assumes "distinct_keys ws" "map witness_key vs = map witness_key ws"
    and "\<And>k. find (\<lambda>w. witness_key w = k) vs = find (\<lambda>w. witness_key w = k) ws"
  shows "vs = ws"
proof (rule nth_equalityI)
  show len: "length vs = length ws" using arg_cong [OF assms(2), of length] by simp
  fix i assume i: "i < length vs"
  have d: "distinct (map witness_key vs)" "distinct (map witness_key ws)"
    using assms(1,2) by (simp_all add: distinct_keys_def)
  have key: "witness_key (vs ! i) = witness_key (ws ! i)" using assms(2) i len by (metis nth_map)
  have "find (\<lambda>w. witness_key w = witness_key (us ! i)) us = Some (us ! i)"
    if "distinct (map witness_key us)" "i < length us" for us :: "WitnessState list"
    using that by (auto simp: find_Some_iff distinct_conv_nth intro!: exI [of _ i])
  then have "Some (vs ! i) = Some (ws ! i)" using assms(3) [of "witness_key (vs ! i)"] d i len key by metis
  then show "vs ! i = ws ! i" by simp
qed

lemma engine_schedules_agree:
  assumes v: "distinct_keys (Witnesses (state e))"
    and st: "(delivery_step cs dt r engine_witnesses ctx rnd now)\<^sup>*\<^sup>* (groupsOf pending, e) (gs1, e1)"
      "(delivery_step cs dt r engine_witnesses ctx rnd now)\<^sup>*\<^sup>* (groupsOf pending, e) (gs2, e2)"
    and fin: "list_all (\<lambda>g. GItems g = []) gs1" "list_all (\<lambda>g. GItems g = []) gs2"
  shows "gs1 = gs2" "e1 = e2"
proof -
  note a = engine_rows.schedules_agree [OF groupsOf_ok st fin]
  show "gs1 = gs2" by (rule a(1))
  obtain ws1 where w1: "e1 = e\<lparr>state := (state e)\<lparr>Witnesses := ws1\<rparr>\<rparr>"
    "map (\<lambda>w. (witness_key w, WitnessCheckpoint w)) ws1 = map (\<lambda>w. (witness_key w, WitnessCheckpoint w)) (Witnesses (state e))"
    using schedule_rows_only [OF st(1)] by (auto simp: rows_only_def)
  obtain ws2 where w2: "e2 = e\<lparr>state := (state e)\<lparr>Witnesses := ws2\<rparr>\<rparr>"
    "map (\<lambda>w. (witness_key w, WitnessCheckpoint w)) ws2 = map (\<lambda>w. (witness_key w, WitnessCheckpoint w)) (Witnesses (state e))"
    using schedule_rows_only [OF st(2)] by (auto simp: rows_only_def)
  have k: "map witness_key ws1 = map witness_key (Witnesses (state e))" "map witness_key ws2 = map witness_key (Witnesses (state e))"
    using arg_cong [OF w1(2), of "map fst"] arg_cong [OF w2(2), of "map fst"] by (simp_all add: o_def)
  have "find (\<lambda>w. witness_key w = key) ws1 = find (\<lambda>w. witness_key w = key) ws2" for key
  proof (cases "key \<in> set (map witness_key (Witnesses (state e)))")
    case True
    then obtain w where "key = witness_key w" by auto
    then have "key = WitnessKey (WitnessID w) (CheckpointSize w)" by (simp add: witness_key_def)
    then show ?thesis using a(2) [of "WitnessID w" "CheckpointSize w"] w1(1) w2(1) by (simp add: engine_row_def)
  next
    case False
    then have "key \<notin> set (map witness_key ws1)" "key \<notin> set (map witness_key ws2)" unfolding k by simp_all
    then have "find (\<lambda>w. witness_key w = key) ws1 = None" "find (\<lambda>w. witness_key w = key) ws2 = None"
      by (auto simp: find_None_iff)
    then show ?thesis by simp
  qed
  moreover have "distinct_keys ws2" using v k(2) by (simp add: distinct_keys_def)
  ultimately have "ws1 = ws2" using k by (intro rows_determine) simp_all
  then show "e1 = e2" using w1(1) w2(1) by simp
qed

section \<open>Receipts are verified\<close>

definition receiptState :: "WReceipt \<Rightarrow> WitnessReceiptState" where
  "receiptState receipt = \<lparr>ReceiptBytes = WrBytes receipt, EntryHash = WrEntryHash receipt,
     EntryHashScheme = WrEntryHashScheme receipt, LeafIndex = Some (WrLeafIndex receipt),
     TreeSize = Some (WrTreeSize receipt)\<rparr>"

definition verified_receipt :: "cose \<Rightarrow> dtmmr \<Rightarrow> DeliveryRunner \<Rightarrow> WitnessState \<Rightarrow> bool" where
  "verified_receipt cs dt r w \<longleftrightarrow> (\<exists>verify receipt rec. map_of (DrVerifiers r) (WitnessID w) = Some verify
     \<and> verify (WitnessCheckpoint w) receipt = None \<and> Receipt w = Some (receiptState receipt)
     \<and> ParseRecord cs dt (WitnessCheckpoint w) = Inr rec \<and> VerifySignature cs rec = Inr ())"

context witness_rows
begin

lemma deliver_row:
  assumes d: "deliver cs dt r store ctx rnd now wid item s = (q, s')" and i: "WitnessID item = wid" "Receipt item = None"
    and w: "row s' j z = Some w" "Receipt w \<noteq> None"
  shows "row s j z = Some w \<or> verified_receipt cs dt r w"
proof (cases "nextWitness cs dt r ctx rnd now wid item")
  case (Inr res)
  obtain v success retryable where res: "res = (v, success, retryable)" by (rule prod_cases3)
  note v = nextWitness_Inr [OF Inr [unfolded res]]
  obtain p s1 where c: "ws_CommitWitness store s (Attempts item) v = (p, s1)" by fastforce
  have s1: "s1 = s'" using d Inr res c by (cases p) (auto simp: deliver_def)
  show ?thesis
  proof (cases "p = Inr () \<and> (j, z) = (WitnessID v, CheckpointSize v)")
    case True
    then have wv: "w = v" using commit_done [of s "Attempts item" v s1] c w(1) s1 by simp
    have success
    proof (rule ccontr)
      assume "\<not> success"
      then have "Receipt v = None" using v(6) i(2) by (auto simp: failedWitness_def)
      then show False using w(2) wv by simp
    qed
    then have "verified_receipt cs dt r v"
      using v(1,3,5) i(1) by (auto simp: verified_receipt_def deliveredWitness_def receiptState_def)
    then show ?thesis using wv by simp
  next
    case False
    then have "row s1 j z = row s j z" using commit_err [of s] commit_other [OF c] c by (cases p) auto
    then show ?thesis using w(1) s1 by simp
  qed
qed (use d w in \<open>simp add: deliver_def\<close>)

lemma schedule_receipts:
  assumes st: "(delivery_step cs dt r store ctx rnd now)\<^sup>*\<^sup>* (groupsOf pending, s) (gs', s')"
    and p: "\<forall>item \<in> set pending. Receipt item = None"
    and w: "row s' j z = Some w" "Receipt w \<noteq> None"
  shows "row s j z = Some w \<or> verified_receipt cs dt r w"
proof -
  have "(\<forall>g \<in> set gs'. uniform g \<and> set (GItems g) \<subseteq> set pending)
      \<and> (\<forall>j z w. row s' j z = Some w \<longrightarrow> Receipt w \<noteq> None \<longrightarrow> row s j z = Some w \<or> verified_receipt cs dt r w)"
    using st
  proof (induction "(gs', s')" arbitrary: gs' s' rule: rtranclp_induct)
    case base
    show ?case using groupsOf_ok(2) [of pending] by (auto simp: list_all_iff groupsOf_def)
  next
    case (step c)
    obtain gs1 s1 where c: "c = (gs1, s1)" by fastforce
    have ih: "\<forall>g \<in> set gs1. uniform g \<and> set (GItems g) \<subseteq> set pending"
      "\<And>j z w. row s1 j z = Some w \<Longrightarrow> Receipt w \<noteq> None \<Longrightarrow> row s j z = Some w \<or> verified_receipt cs dt r w"
      using step(3) [OF c] by blast+
    obtain i g where i: "i < length gs1" "GItems (gs1 ! i) \<noteq> []" "groupStep cs dt r store ctx rnd now (gs1 ! i) s1 = (g, s')"
      "gs' = gs1[i := g]" using step(2) unfolding c by (rule delivery_stepE) auto
    then obtain item rest where it: "GItems (gs1 ! i) = item # rest" by (cases "GItems (gs1 ! i)") auto
    have gi: "uniform (gs1 ! i)" "set (GItems (gs1 ! i)) \<subseteq> set pending" using ih(1) i(1) by simp_all
    obtain q s2 where d: "deliver cs dt r store ctx rnd now (GId (gs1 ! i)) item s1 = (q, s2)" by fastforce
    have s2: "s2 = s'" "set (GItems g) \<subseteq> set (GItems (gs1 ! i))"
      using i(3) it d by (cases q; auto simp: groupStep_def split: if_splits)+
    have "WitnessID item = GId (gs1 ! i)" "Receipt item = None"
      using gi it p by (auto simp: uniform_def)
    note row = deliver_row [OF d this, unfolded s2(1)]
    have "\<forall>g \<in> set gs'. uniform g \<and> set (GItems g) \<subseteq> set pending"
      using ih(1) gi s2(2) groupStep_uniform [OF i(3)] set_update_subset_insert [of gs1 i g] unfolding i(4) by blast
    then show ?case using row ih(2) by blast
  qed
  then show ?thesis using w by blast
qed

end

end
