(* ===== verification/Witness_Properties.thy ===== *)
theory Witness_Properties
  imports Checkpoint_Properties Delivery_Laws Backend_Properties
begin

text \<open>
  The properties of package \<open>witness\<close>: inclusion proofs and receipts, the text and the delays that
  failures leave behind, and concurrent delivery.
\<close>

section \<open>Inclusion proofs\<close>

text \<open>
  C24 (\<open>rootFromProof\<close>): for every leaf of a log of at most \<open>2^62\<close> entries, the RFC 9162 audit path
  leads from the entry to the Merkle tree hash of the log.
\<close>

theorem rootFromProof_accepts_audit_path:
  assumes "m < length es" "length es \<le> 2 ^ 62"
  shows "rootFromProof (es ! m) (int m) (int (length es)) (audit_path m es) = Some (mth es)"
  by (rule rootFromProof_complete [OF assms])

theorem rootFromProof_accepts_audit_path_witness:
  "rootFromProof [2] 1 3 (audit_path 1 [[1], [2], [3]]) = Some (mth [[1], [2], [3]])"
  using rootFromProof_accepts_audit_path [of 1 "[[1], [2], [3]]"] by simp

text \<open>
  \<open>rootFromProof\<close>: a path of 32-byte nodes that leads to the hash of a log proves that the entry
  is the one at that index, or the path and the log exhibit a SHA-256 collision.
\<close>

lemma rootFromProof_binding:
  assumes "rootFromProof e index (int (length es)) path = Some (mth es)" "list_all (\<lambda>x. length x = 32) path"
  shows "0 \<le> index \<and> index < int (length es) \<and>
    (e = es ! nat index \<or> hash_clash (proof_inputs e index (int (length es)) path) (mth_inputs es))"
  using rootFromProof_sound [OF assms] assms(1) by (auto simp: rootFromProof_def split: if_splits)

section \<open>Receipts\<close>


text \<open>A receipt for the example checkpoint in a log of one entry.\<close>

definition ex_entry :: bytes where
  "ex_entry = sha256 (sha256 ex_body)"

definition ex_authority :: bytes where "ex_authority = replicate 32 8"

definition ex_receipt :: WReceipt where
  "ex_receipt = \<lparr>WrBytes = [9], WrEntryHash = hex_EncodeToString ex_entry,
     WrEntryHashScheme = EntryHashSchemeCheckpointDigest, WrLeafIndex = 0, WrTreeSize = 1\<rparr>"

definition receipt_cose :: cose where
  "receipt_cose = cose_ref\<lparr>
     cose_UnmarshalCBOR := (\<lambda>b. if b = [9]
       then Inr \<lparr>Protected = [(AnyInt64 1, AnyInt64 (-8)), (AnyInt64 395, AnyInt64 1)],
                 Unprotected = [(AnyInt64 396, AnyMap [(AnyInt64 (-1), AnySlice [AnyBytes [5]])])],
                 RawProtected = [], MsgPayload = [], Signature = []\<rparr>
       else ref_Unmarshal b),
     cose_Verify := (\<lambda>key m. if key = ex_authority
       then (if MsgPayload m = mth [ex_entry] then Inr () else Inl (ErrMsg ''verification error''))
       else cose_Verify cose_ref key m)\<rparr>"

definition receipt_cbor :: proof_cbor where
  "receipt_cbor = \<lparr>cbor_RawMessages = (\<lambda>b. Inr [[1], [0], []]), cbor_Int64 = (\<lambda>b. Inr (uint (hd b))),
     cbor_ByteStrings = (\<lambda>b. Inr [])\<rparr>"

lemma ex_statement_long: "ex_statement \<noteq> [9]"
  using length_ex_key by (auto simp: ex_statement_def length_enc_pair length_enc_bytes dest: arg_cong [of _ _ length])

lemma ex_receipt_record:
  "\<exists>rec. ParseRecord receipt_cose dt_ref ex_statement = Inr rec \<and> VerifySignature receipt_cose rec = Inr ()
     \<and> record_EntryHash rec = Inr ex_entry"
proof -
  obtain rec where r: "ParseRecord cose_ref dt_ref ex_statement = Inr rec" "record_Payload rec = ex_payload"
    "VerifySignature cose_ref rec = Inr ()" using ex_signed(2) by blast
  have "ParseRecord receipt_cose dt_ref ex_statement = ParseRecord cose_ref dt_ref ex_statement"
  proof -
    have "cose_UnmarshalCBOR receipt_cose ex_statement = cose_UnmarshalCBOR cose_ref ex_statement"
      using ex_statement_long by (simp add: receipt_cose_def cose_ref_def)
    moreover have "cose_MarshalCBOR receipt_cose = cose_MarshalCBOR cose_ref"
      "cose_Algorithm receipt_cose = cose_Algorithm cose_ref" "cose_AlgorithmEdDSA receipt_cose = cose_AlgorithmEdDSA cose_ref"
      "cose_HeaderLabelContentType receipt_cose = cose_HeaderLabelContentType cose_ref"
      "cose_HeaderLabelKeyID receipt_cose = cose_HeaderLabelKeyID cose_ref"
      "cose_HeaderLabelCWTClaims receipt_cose = cose_HeaderLabelCWTClaims cose_ref"
      "cose_CWTClaimIssuer receipt_cose = cose_CWTClaimIssuer cose_ref"
      "cose_CWTClaimSubject receipt_cose = cose_CWTClaimSubject cose_ref"
      "cbor_claims_Unmarshal receipt_cose = cbor_claims_Unmarshal cose_ref"
      "cbor_claims_Marshal receipt_cose = cbor_claims_Marshal cose_ref"
      "cbor_peaks_Unmarshal receipt_cose = cbor_peaks_Unmarshal cose_ref"
      "cbor_peaks_Marshal receipt_cose = cbor_peaks_Marshal cose_ref"
      by (simp_all add: receipt_cose_def)
    ultimately show ?thesis
      unfolding ParseRecord_def checkHeaders_def decodeWireClaims_def decodeCommitment_def by (simp only:)
  qed
  moreover have "VerifySignature receipt_cose rec = VerifySignature cose_ref rec"
  proof -
    have "RKeyID rec = hex_EncodeToString (drop 32 ex_key)" "Rstatement rec = ex_statement"
      using arg_cong [OF r(2), of KeyID] r(1)
      by (auto simp: record_Payload_def ex_payload_def signer_KeyID_def ex_signer_def elim: ParseRecord_Inr)
    moreover have "drop 32 ex_key \<noteq> ex_authority" by (simp add: ex_key_def ex_authority_def)
    ultimately show ?thesis
      using ex_statement_long by (simp add: VerifySignature_def receipt_cose_def cose_ref_def split: sum.split)
  qed
  moreover have "record_EntryHash rec = Inr ex_entry"
    using r(2) ex_parse(2) by (simp add: record_EntryHash_def Digest_def ex_entry_def)
  ultimately show ?thesis using r by auto
qed

lemma ex_receipt_accepted:
  "receipt_Verify receipt_cose dt_ref receipt_cbor ex_authority ex_statement ex_receipt = Inr ()"
proof -
  obtain rec where "ParseRecord receipt_cose dt_ref ex_statement = Inr rec" "VerifySignature receipt_cose rec = Inr ()"
    "record_EntryHash rec = Inr ex_entry" using ex_receipt_record by blast
  moreover have "rootFromProof ex_entry 0 1 [] = Some (mth [ex_entry])"
    using rootFromProof_complete [of 0 "[ex_entry]"] by (simp add: audit_path.simps)
  ultimately show ?thesis
    by (simp add: receipt_Verify_def ex_receipt_def MaxWitnessResponseBytes_def receiptProof_def integerHeader_def
        decodeProof_def receipt_cbor_def receipt_cose_def cose_ref_def key_matches_def headerVDS_def headerVDP_def
        vdsRFC9162_def vdpInclusion_def)
qed


section \<open>Failures\<close>

text \<open>
  \<open>boundedText\<close>: whatever text a remote error has, what is stored is valid UTF-8 of at most
  \<open>MaxReasonBytes\<close> bytes and stays as it is when it is bounded again; text that already is valid and
  short is kept.
\<close>

lemma boundedText_storable:
  "ValidString (boundedText s) \<and> length (boundedText s) \<le> MaxReasonBytes \<and> boundedText (boundedText s) = boundedText s
   \<and> (ValidString s \<and> length s \<le> MaxReasonBytes \<longrightarrow> boundedText s = s)"
  using boundedText_valid boundedText_idem boundedText_id by simp

text \<open>
  C37 (\<open>DeliveryRunner.backoff\<close>): with a configuration that \<open>NewDeliveryRunner\<close> accepts, the delay is the
  base doubled per attempt up to the maximum, computed without \<open>int64\<close> overflow for every number of
  attempts; with jitter it is at least zero and below that.
\<close>

theorem backoff_bounded:
  assumes "NewDeliveryRunner c clients verifiers = Inr r" "DcMaxBackoff c < 2 ^ 63"
    "\<forall>n > 0. 0 \<le> rnd n \<and> rnd n < n"
  shows "0 \<le> backoff c rnd a \<and> backoff c rnd a \<le> DcMaxBackoff c
    \<and> backoff c rnd a = (if DcJitter c then rnd (min (DcMaxBackoff c) (DcBaseBackoff c * 2 ^ unat a))
        else min (DcMaxBackoff c) (DcBaseBackoff c * 2 ^ unat a))"
proof -
  have "0 < DcBaseBackoff c" "DcBaseBackoff c \<le> DcMaxBackoff c"
    using assms(1) by (auto simp: NewDeliveryRunner_def split: if_splits)
  then show ?thesis using backoff_bounds(1,2) [OF _ _ assms(2,3)] by blast
qed

theorem backoff_bounded_witness:
  "backoff (DefaultDeliveryConfig\<lparr>DcJitter := False\<rparr>) (\<lambda>n. 0) 40 = 60 * Minute_ns
   \<and> 0 \<le> backoff DefaultDeliveryConfig (\<lambda>n. n div 2) 3"
proof -
  let ?c = "DefaultDeliveryConfig\<lparr>DcJitter := False\<rparr>"
  let ?w = "[(''w'', \<lambda>_. Inl (OtherError []))] :: (string \<times> Submitter) list" and ?v = "[(''w'', \<lambda>_ _. None)]"
  have id: "ValidateIdentifier ''w'' = Inr ()"
    by (simp add: ValidateIdentifier_def identifierPattern_def identifier_char_def MaxIdentifierBytes_def)
  have n: "NewDeliveryRunner c ?w ?v = Inr \<lparr>DrConfig = c, DrClients = ?w, DrVerifiers = ?v\<rparr>"
    if "c = ?c \<or> c = DefaultDeliveryConfig" for c
    using that id by (auto simp: NewDeliveryRunner_def DefaultDeliveryConfig_def Minute_ns_def MaxWitnesses_def)
  have m: "DcMaxBackoff ?c < 2 ^ 63" "DcMaxBackoff DefaultDeliveryConfig < 2 ^ 63"
    by (simp_all add: DefaultDeliveryConfig_def Minute_ns_def)
  have "\<forall>n > 0. (0 :: int) \<le> n div 2 \<and> n div 2 < n" by auto
  then show ?thesis
    using backoff_bounded [OF n m(1), of "\<lambda>n. 0" 40] backoff_bounded [OF n m(2), of "\<lambda>n. n div 2" 3]
    by (simp add: DefaultDeliveryConfig_def Minute_ns_def)
qed

section \<open>Delivery\<close>


lemma collect_all: "list_all (\<lambda>g. GErr g = None) gs \<Longrightarrow> collect gs c = (c + sum_list (map GCompleted gs), None)"
  by (induction gs arbitrary: c) auto

lemma collect_err: "snd (collect gs c) = None \<longleftrightarrow> list_all (\<lambda>g. GErr g = None) gs"
  by (induction gs arbitrary: c) (auto split: option.splits)

lemma collect_mset:
  assumes "mset xs = mset ys" "snd (collect xs 0) = None"
  shows "collect xs 0 = collect ys 0"
proof -
  have x: "list_all (\<lambda>g. GErr g = None) xs" using collect_err [of xs 0] assms(2) by simp
  then have "list_all (\<lambda>g. GErr g = None) ys"
    using mset_eq_setD [OF assms(1)] by (simp add: list_all_iff)
  moreover have "sum_list (map GCompleted xs) = sum_list (map GCompleted ys)"
    using assms(1) by (metis mset_map sum_mset_sum_list)
  ultimately show ?thesis using x by (simp add: collect_all)
qed


text \<open>An engine with the example checkpoint pending for a witness that issues the example receipt.\<close>

definition ex_row :: WitnessState where
  "ex_row = pendingRow 1 ex_statement 0 ''w''"

definition ex_engine :: Engine where
  "ex_engine = Engine_New\<lparr>state := \<lparr>Size = 1, Nodes = [leafHash (replicate 32 7)], IndexedSeq = 1,
     FirstPendingAt = None, Checkpoint = None, Witnesses = [ex_row]\<rparr>\<rparr>"

definition ex_runner :: DeliveryRunner where
  "ex_runner = \<lparr>DrConfig = DefaultDeliveryConfig, DrClients = [(''w'', \<lambda>b. Inr ex_receipt)],
     DrVerifiers = [(''w'', \<lambda>b rc. if receipt_Verify receipt_cose dt_ref receipt_cbor ex_authority b rc = Inr ()
       then None else Some (OtherError []))]\<rparr>"

definition ex_delivered :: Engine where
  "ex_delivered = ex_engine\<lparr>state := (state ex_engine)\<lparr>Witnesses := [deliveredWitness ex_row 0 ex_receipt]\<rparr>\<rparr>"

lemma ex_statement_bounds: "0 < length ex_statement" "length ex_statement \<le> MaxCheckpointBytes"
  using ex_signed(2) by (auto dest!: ParseRecord_length simp: MaxEncodedBytes_def MaxCheckpointBytes_def)

lemma ex_identifier: "ValidateIdentifier ''w'' = Inr ()"
  by (simp add: ValidateIdentifier_def identifierPattern_def identifier_char_def MaxIdentifierBytes_def)

lemma ex_row_valid: "valid_witness ex_row"
  using ex_statement_bounds ex_identifier ex_time(1)
  by (simp add: valid_witness_def validateWitness_def ex_row_def pendingRow_def Suc_le_eq)

lemma ex_engine_inv: "engine_inv dt_ref ex_engine"
  using ex_row_valid ex_LeafCount
  by (simp add: engine_inv_def ex_engine_def Engine_New_def valid_entries_def index_ok_def valid_state_def
      valid_metadata_def distinct_keys_def EntryBytes_def)

lemma ex_delivered_valid: "validateWitness (deliveredWitness ex_row 0 ex_receipt) ErrInvalid = Inr ()"
proof -
  have "validEntryHash (hex_EncodeToString ex_entry)"
    by (simp add: validEntryHash_def ex_entry_def EntryBytes_def)
  then show ?thesis
    using ex_statement_bounds ex_identifier ex_time(1)
    by (simp add: validateWitness_def deliveredWitness_def ex_row_def pendingRow_def ex_receipt_def
        MaxWitnessResponseBytes_def EntryHashSchemeCheckpointDigest_def invalid_position_def Suc_le_eq MaxReasonBytes_def MaxPortableInteger_def)
qed

lemma ex_groupStep:
  "groupStep receipt_cose dt_ref ex_runner engine_witnesses (\<lambda>_. None) (\<lambda>_ _. 0) 0
     \<lparr>GId = ''w'', GItems = [ex_row], GCompleted = 0, GErr = None\<rparr> ex_engine
   = (\<lparr>GId = ''w'', GItems = [], GCompleted = 1, GErr = None\<rparr>, ex_delivered)"
proof -
  obtain rec where "ParseRecord receipt_cose dt_ref ex_statement = Inr rec" "VerifySignature receipt_cose rec = Inr ()"
    using ex_receipt_record by blast
  then have "nextWitness receipt_cose dt_ref ex_runner (\<lambda>_. None) (\<lambda>_ _. 0) 0 ''w'' ex_row
      = Inr (deliveredWitness ex_row 0 ex_receipt, True, False)"
    using ex_receipt_accepted by (simp add: nextWitness_def ex_runner_def ex_row_def pendingRow_def Let_def)
  moreover have "CommitWitness ex_engine (Attempts ex_row) (deliveredWitness ex_row 0 ex_receipt) = (Inr (), ex_delivered)"
    using ex_delivered_valid
    by (simp add: CommitWitness_def ApplyWitness_def ex_engine_def ex_delivered_def witness_key_def deliveredWitness_def)
  ultimately show ?thesis by (simp add: groupStep_def deliver_def engine_witnesses_def)
qed

lemma ex_delivery:
  "delivery_RunOnce receipt_cose dt_ref ex_runner engine_witnesses (\<lambda>_. None) (\<lambda>_ _. 0) 0 1 ex_engine (1, None) ex_delivered"
proof -
  let ?g = "\<lparr>GId = ''w'', GItems = [ex_row], GCompleted = 0, GErr = None\<rparr>"
    and ?h = "\<lparr>GId = ''w'', GItems = [], GCompleted = 1, GErr = None\<rparr>"
  have p: "ws_PendingWitnesses engine_witnesses ex_engine (NormalizeTime 0) 1 = Inr [ex_row]"
    using ex_time(1) by (simp add: engine_witnesses_def PendingWitnesses_def ex_engine_def ex_row_def pendingRow_def
        MaxWitnesses_def NormalizeTime_def)
  have g: "groupsOf [ex_row] = [?g]" by (simp add: groupsOf_def ex_row_def pendingRow_def)
  have "delivery_step receipt_cose dt_ref ex_runner engine_witnesses (\<lambda>_. None) (\<lambda>_ _. 0) 0 ([?g], ex_engine) ([?h], ex_delivered)"
    using delivery_step.step [of 0 "[?g]"] ex_groupStep by simp
  then have "delivery_RunOnce receipt_cose dt_ref ex_runner engine_witnesses (\<lambda>_. None) (\<lambda>_ _. 0) 0 1 ex_engine
      (collect [?h] 0) ex_delivered"
    using p g by (intro delivery_RunOnce.delivered [where pending = "[ex_row]" and gs = "[?h]"]) (simp_all add: NormalizeTime_def)
  then show ?thesis by simp
qed


text \<open>
  C18 (\<open>DeliveryRunner.RunOnce\<close>, \<open>deliver\<close>): a pass changes nothing but the contents of witness rows, and
  a row that holds a receipt afterwards held the same one before, or its statement is a correctly
  signed checkpoint and the receipt is one that the verifier of its own witness accepted for it.
\<close>

theorem delivery_receipts_verified:
  assumes "delivery_RunOnce cs dt r engine_witnesses ctx rnd now limit e out e'"
    "engine_row e' wid sz = Some w" "Receipt w \<noteq> None"
  shows "rows_only e e' \<and> (engine_row e wid sz = Some w \<or> verified_receipt cs dt r w)"
  using assms(1)
proof cases
  case (unavailable err)
  then show ?thesis using assms(2) by (simp add: rows_only_refl)
next
  case (delivered pending gs order)
  have "\<forall>item \<in> set pending. Receipt item = None"
    using delivered(2) by (auto simp: engine_witnesses_def PendingWitnesses_def Let_def split: if_splits dest!: in_set_takeD)
  then show ?thesis
    using schedule_rows_only [OF delivered(3)] engine_rows.schedule_receipts [OF delivered(3) _ assms(2,3)] by blast
qed

theorem delivery_receipts_verified_witness:
  "rows_only ex_engine ex_delivered \<and> verified_receipt receipt_cose dt_ref ex_runner (deliveredWitness ex_row 0 ex_receipt)"
proof -
  have "engine_row ex_delivered ''w'' 1 = Some (deliveredWitness ex_row 0 ex_receipt)"
    "Receipt (deliveredWitness ex_row 0 ex_receipt) \<noteq> None"
    "engine_row ex_engine ''w'' 1 \<noteq> Some (deliveredWitness ex_row 0 ex_receipt)"
    by (simp_all add: engine_row_def ex_delivered_def ex_engine_def deliveredWitness_def ex_row_def pendingRow_def witness_key_def)
  then show ?thesis using delivery_receipts_verified [OF ex_delivery, of "''w''" 1] by blast
qed

end
