(* ===== verification/Runner_Properties.thy ===== *)
theory Runner_Properties
  imports Witness_Properties
begin

text \<open>
  The checkpoint runner on the transition engine, together with everything else that writes to it:
  applications that append, the delivery runner that commits witness rows, and other runner passes.
\<close>

section \<open>The runner on the engine\<close>

lemma engine_runner:
  assumes "checkpoint_signer cs dt signer" "dtmmr_append dt ahl" "NewRunner config = Inr config"
  shows "reliable_runner cs dt signer ahl config (engine_inv dt) entries state (engine_store dt)"
proof -
  have "runner_context cs dt signer ahl config"
    using assms by (intro runner_context.intro runner_context_axioms.intro)
  then show ?thesis
    by (intro reliable_runner.intro runner_store.intro engine_checkpoints.checkpoint_store_axioms
        engine_checkpoints.reliable_store_axioms)
qed

text \<open>What a delivery pass and an append do to the runner's invariant: nothing.\<close>

lemma rows_only_inv:
  assumes "rows_only e e'" "runner_inv cs dt config signer (entries e) (state e)"
  shows "runner_inv cs dt config signer (entries e') (state e')"
proof -
  obtain ws where ws: "e' = e\<lparr>state := (state e)\<lparr>Witnesses := ws\<rparr>\<rparr>"
    "map (\<lambda>w. (witness_key w, WitnessCheckpoint w)) ws = map (\<lambda>w. (witness_key w, WitnessCheckpoint w)) (Witnesses (state e))"
    using assms(1) by (auto simp: rows_only_def)
  have len: "length ws = length (Witnesses (state e))" using arg_cong [OF ws(2), of length] by simp
  have key: "witness_key (ws ! i) = witness_key (Witnesses (state e) ! i)" if "i < length ws" for i
    using arg_cong [OF ws(2), of "\<lambda>xs. fst (xs ! i)"] that len by simp
  have "list_all (\<lambda>w. CheckpointSize w \<le> z) ws \<longleftrightarrow> list_all (\<lambda>w. CheckpointSize w \<le> z) (Witnesses (state e))" for z
    using key len by (simp add: list_all_length witness_key_eq)
  moreover have "ws = [] \<longleftrightarrow> Witnesses (state e) = []" using len by auto
  ultimately have "ckpt_inv cs dt config signer n (state e') = ckpt_inv cs dt config signer n (state e)" for n
    by (simp add: ckpt_inv_def ws(1) split: option.split)
  then show ?thesis using assms(2) by (simp add: runner_inv_def ws(1) lastCheckpointed_def)
qed

lemma append_prefix:
  assumes "engine_inv dt e"
  shows "entries e = take (length (entries e)) (entries (snd (Engine_Append e i))) \<and> state (snd (Engine_Append e i)) = state e"
  using Engine_Append_cases [OF assms, of i] by (elim disjE exE conjE) simp_all

text \<open>
  The writers of a log: appends, commits of witness rows, passes of checkpoint runners with other
  writers acting between their calls, and sequences of writers.
\<close>

inductive log_writer :: "cose \<Rightarrow> dtmmr \<Rightarrow> Tree add_hashed_leaf \<Rightarrow> RunnerConfig \<Rightarrow> Signer \<Rightarrow> (Engine \<Rightarrow> Engine) \<Rightarrow> bool"
  for cs dt ahl config signer where
  idle: "log_writer cs dt ahl config signer (\<lambda>e. e)"
| append: "log_writer cs dt ahl config signer (\<lambda>e. snd (Engine_Append e i))"
| witness: "log_writer cs dt ahl config signer (\<lambda>e. snd (CommitWitness e a w))"
| pass: "log_writer cs dt ahl config signer env \<Longrightarrow>
    log_writer cs dt ahl config signer
      (\<lambda>e. snd (runner_RunOnce cs dt ahl config (engine_store dt) signer env now e))"
| seq: "log_writer cs dt ahl config signer f \<Longrightarrow> log_writer cs dt ahl config signer g \<Longrightarrow>
    log_writer cs dt ahl config signer (\<lambda>e. g (f e))"

text \<open>
  C2 (\<open>checkpoint.Runner\<close>, \<open>witness.DeliveryRunner\<close>, \<open>backend.Engine\<close> together): whatever appends,
  delivery commits and runner passes do to a log, in any order and nested between the calls of one
  another, the log only grows and stays indexed: the stored nodes are the MMR over a prefix of the
  entries, the stored checkpoint is a verifiable statement with the size and the peaks of an earlier
  prefix, an entry is pending exactly when the checkpoint does not cover it, and no witness row is
  ahead of the checkpoint.
\<close>

theorem writers_keep_log_indexed:
  assumes "checkpoint_signer cs dt signer" "dtmmr_append dt ahl" "NewRunner config = Inr config"
    "log_writer cs dt ahl config signer f"
    "engine_inv dt e" "runner_inv cs dt config signer (entries e) (state e)"
  shows "engine_inv dt (f e) \<and> runner_inv cs dt config signer (entries (f e)) (state (f e))
    \<and> entries e = take (length (entries e)) (entries (f e))"
  using assms(4-6)
proof (induction arbitrary: e)
  case (append i)
  then show ?case
    using append_prefix [OF append(1), of i] Engine_Append_inv [OF append(1), of i] runner_inv_log [OF append(2)] by metis
next
  case (witness a w)
  then show ?case
    using CommitWitness_inv [OF witness(1), of a w] rows_only_inv [OF CommitWitness_rows_only witness(2)]
      CommitWitness_rows_only [of e a w] by (auto simp: rows_only_def)
next
  case (pass env now)
  have rs: "runner_store cs dt signer ahl config (engine_inv dt) entries state (engine_store dt)"
    using engine_runner [OF assms(1-3)] by (simp add: reliable_runner_def)
  show ?case
    using runner_store.RunOnce_safe [OF rs, unfolded runner_store.grows_to_def [OF rs], of env e now] pass by auto
next
  case (seq f g)
  have 1: "engine_inv dt (f e)" "runner_inv cs dt config signer (entries (f e)) (state (f e))"
    "entries e = take (length (entries e)) (entries (f e))" using seq.IH(1) [OF seq.prems] by auto
  have 2: "entries (f e) = take (length (entries (f e))) (entries (g (f e)))" using seq.IH(2) [OF 1(1,2)] by auto
  have "length (entries e) \<le> length (entries (f e))" by (rule prefix_length [OF 1(3)])
  then have "take (length (entries e)) (entries (f e)) = take (length (entries e)) (entries (g (f e)))"
    using arg_cong [OF 2, of "take (length (entries e))"] by (simp add: min_absorb1)
  then show ?case using 1(3) seq.IH(2) [OF 1(1,2)] by auto
qed simp

section \<open>An example run\<close>

definition ex_config :: RunnerConfig where
  "ex_config = \<lparr>RcLogID = ''log'', RcCadence = \<lparr>CadenceEntries = 1, CadenceAge = 1\<rparr>, RcScanLimit = 10,
     RcPollInterval = 1, RcWitnessIDs = [''w'']\<rparr>"

abbreviation ex_Signer :: Signer where
  "ex_Signer \<equiv> ed25519_Signer cose_ref dt_ref \<lparr>SgPrivate = ex_key, SgPublic = drop 32 ex_key\<rparr>"

lemma ex_config_valid: "NewRunner ex_config = Inr ex_config"
  by (simp add: NewRunner_def ex_config_def ValidateIdentifier_def identifierPattern_def identifier_char_def
      MaxIdentifierBytes_def MaxScanLimit_def Config_Validate_def MaxWitnesses_def)

interpretation ref_runner: reliable_runner cose_ref dt_ref ex_Signer ahl_ref ex_config "engine_inv dt_ref" entries state "engine_store dt_ref"
  by (rule engine_runner [OF ed_ref.ed.checkpoint_signer_axioms ref_append.dtmmr_append_axioms ex_config_valid])

theorem writers_keep_log_indexed_witness:
  "runner_inv cose_ref dt_ref ex_config ex_Signer
     (entries (snd (runner_RunOnce cose_ref dt_ref ahl_ref ex_config (engine_store dt_ref) ex_Signer (\<lambda>e. snd (Engine_Append e ex_input)) 0 Engine_New)))
     (state (snd (runner_RunOnce cose_ref dt_ref ahl_ref ex_config (engine_store dt_ref) ex_Signer (\<lambda>e. snd (Engine_Append e ex_input)) 0 Engine_New)))"
proof -
  have "runner_inv cose_ref dt_ref ex_config ex_Signer (entries Engine_New) (state Engine_New)"
    using runner_inv_empty by (simp add: Engine_New_def)
  from writers_keep_log_indexed [OF ed_ref.ed.checkpoint_signer_axioms ref_append.dtmmr_append_axioms ex_config_valid
      log_writer.pass [OF log_writer.append] Engine_New_inv [OF ref_laws] this]
  show ?thesis by simp
qed

text \<open>The signer's own errors are messages, so \<open>catchUp\<close> never takes one for contention.\<close>

definition message_error :: "'a result \<Rightarrow> bool" where
  "message_error r \<longleftrightarrow> (\<forall>e. r = Inl e \<longrightarrow> (\<exists>m. e = ErrMsg m))"

lemma message_error_simps [simp]: "message_error (Inr x)" "message_error (Inl (ErrMsg m))"
  by (simp_all add: message_error_def)

named_theorems message_intros \<open>results whose errors are messages\<close>

declare message_error_simps [message_intros]

lemma message_error_rbind [intro, message_intros]: "message_error m \<Longrightarrow> (\<And>x. message_error (f x)) \<Longrightarrow> message_error (rbind m f)"
  by (cases m) (auto simp: message_error_def)

lemma message_error_cases [message_intros]:
  "message_error m \<Longrightarrow> message_error m' \<Longrightarrow> message_error (if c then m else m')"
  "(\<And>a b. message_error (f a b)) \<Longrightarrow> message_error (case p of (a, b) \<Rightarrow> f a b)"
  "message_error m \<Longrightarrow> (\<And>x. message_error (g x)) \<Longrightarrow> message_error (case z of None \<Rightarrow> m | Some x \<Rightarrow> g x)"
  "(\<And>e. message_error (h e)) \<Longrightarrow> (\<And>x. message_error (k x)) \<Longrightarrow> message_error (case r of Inl e \<Rightarrow> h e | Inr x \<Rightarrow> k x)"
  by (auto split: prod.split option.split sum.split)

lemma canonicalFields_message [message_intros]: "message_error (canonicalFields p)"
  by (auto simp: canonicalFields_def formatTimestamp_def Let_def)

lemma checkHeaders_message [message_intros]: "message_error (checkHeaders cs m)"
  by (auto simp: checkHeaders_def split: option.split any.split sum.split)

lemma checkPredecessor_message [message_intros]: "message_error (checkPredecessor dt r)"
  by (auto simp: checkPredecessor_def Let_def split: option.split)

lemma decoders_message [message_intros]:
  "message_error (decodeWireClaims cs b)" "message_error (decodeCommitment cs b)"
  by (auto simp: decodeWireClaims_def decodeCommitment_def split: sum.split)

lemma ParseRecord_message [message_intros]: "message_error (ParseRecord cs dt b)"
  unfolding ParseRecord_def by (intro message_intros)

lemma ParsePayload_message [message_intros]: "message_error (ParsePayload b)"
  by (auto simp: ParsePayload_def Let_def split: option.split sum.split)

lemma ref_message [message_intros]:
  "message_error (cose_MarshalCBOR cose_ref m)" "message_error (cose_SetCWTClaims cose_ref c h)"
  "message_error (cose_NewSigner cose_ref k)" "message_error (cose_NewVerifier cose_ref k)"
  "message_error (cose_Sign cose_ref k m)" "message_error (cbor_peaks_Marshal cose_ref ps)"
  "message_error (cbor_claims_Marshal cose_ref w)"
  by (auto simp: cose_ref_def ref_Marshal_def split: option.split)

lemma encode_message [message_intros]:
  "message_error (validatePeakCommitments dt p newPeaks prevPeaks)" "message_error (formatTimestamp t)"
  by (simp_all add: validatePeakCommitments_def formatTimestamp_def Let_def)

lemma ref_verify_message [message_intros]:
  "message_error (VerifySignature cose_ref r)" "message_error (VerifyCheckpoint cose_ref dt s body b)"
proof -
  show v: "message_error (VerifySignature cose_ref r)" for r
    unfolding VerifySignature_def by (intro message_intros)
  show "message_error (VerifyCheckpoint cose_ref dt s body b)"
    unfolding VerifyCheckpoint_def by (intro message_intros v)
qed

lemma ref_sign_message: "message_error (signCheckpoint cose_ref dt None s body newPeaks prevPeaks pf cadence)"
  unfolding signCheckpoint_def encodeWireClaims_def CommitmentObject_def Let_def option.case
  by (intro message_intros)

lemma ex_appended: "length (entries (snd (Engine_Append Engine_New ex_input))) = 1"
  using ex_time(2) by (simp add: Engine_Append_def Engine_New_def ex_input_def EntryBytes_def Let_def MaxPortableInteger_def)

lemma ex_signable: "signable ex_Signer 0 1"
  using ex_year length_ex_key by (auto simp: signable_def ed25519_Signer_def signer_KeyID_def unat_MaxPortable)


end
