(* ===== verification/Witness_Submit.thy ===== *)
theory Witness_Submit
  imports Witness_Delivery
begin

text \<open>
  \<open>NewClient\<close> and \<open>Submit\<close> of \<open>witness/client.go\<close>. \<open>url.Parse\<close> and \<open>http.Client.Do\<close> are arguments:
  \<open>parse_url\<close> gives the parts of an accepted URL, \<open>send\<close> answers a request with an error text or a
  response. A response is its status, the bytes its body delivers, the error the body ends with, if
  any, and the error of closing it. \<open>Submit\<close> also returns the requests it sent.
\<close>

section \<open>Clients\<close>

record URL =
  UrlScheme :: string
  UrlHost :: string
  UrlUser :: "string option"
  UrlRawQuery :: string
  UrlFragment :: string

text \<open>\<open>http.Client\<close>: its timeout, and whether it follows redirects, the default, or returns the last response.\<close>

record http_Client =
  HcTimeout :: duration
  HcFollow :: bool

definition http_DefaultClient :: http_Client where
  "http_DefaultClient = \<lparr>HcTimeout = 0, HcFollow = True\<rparr>"

record Client =
  ClEndpoint :: string
  ClHttp :: http_Client
  ClMaxBytes :: int

definition DefaultMaxResponseBytes :: int where
  "DefaultMaxResponseBytes = int MaxWitnessResponseBytes"

definition DefaultRequestTimeout :: duration where
  "DefaultRequestTimeout = 30000000000"

definition TrimRight_slash :: "string \<Rightarrow> string" where
  "TrimRight_slash s = rev (dropWhile (\<lambda>c. c = CHR ''/'') (rev s))"

definition NewClient :: "(string \<Rightarrow> URL option) \<Rightarrow> string \<Rightarrow> http_Client option \<Rightarrow> int \<Rightarrow> submitError + Client" where
  "NewClient parse_url baseURL client maxResponseBytes =
     (if baseURL = [] then Inl (OtherError ''base URL is required'')
      else case parse_url baseURL of
        None \<Rightarrow> Inl (OtherError ''base URL must be an HTTP(S) origin or path'')
      | Some parsed \<Rightarrow>
          if UrlHost parsed = [] \<or> UrlUser parsed \<noteq> None \<or> UrlRawQuery parsed \<noteq> [] \<or> UrlFragment parsed \<noteq> []
            \<or> UrlScheme parsed \<noteq> ''http'' \<and> UrlScheme parsed \<noteq> ''https''
          then Inl (OtherError ''base URL must be an HTTP(S) origin or path'')
          else
            let maxResponseBytes = (if maxResponseBytes = 0 then DefaultMaxResponseBytes else maxResponseBytes)
            in if maxResponseBytes < 1 then Inl (OtherError ''max response bytes must be positive'')
               else
                 let copyClient = (case client of None \<Rightarrow> http_DefaultClient | Some c \<Rightarrow> c);
                     copyClient = (if HcTimeout copyClient = 0 then copyClient\<lparr>HcTimeout := DefaultRequestTimeout\<rparr>
                                   else copyClient);
                     copyClient = copyClient\<lparr>HcFollow := False\<rparr>
                 in Inr \<lparr>ClEndpoint = TrimRight_slash baseURL @ ''/checkpoints'', ClHttp = copyClient,
                         ClMaxBytes = maxResponseBytes\<rparr>)"

section \<open>Requests and responses\<close>

record http_Request =
  RqMethod :: string
  RqURL :: string
  RqContentType :: string
  RqAccept :: string
  RqBody :: bytes

record http_Response =
  RsStatusCode :: int
  RsBody :: bytes
  RsReadErr :: "string option"
  RsCloseErr :: "string option"

text \<open>\<open>io.ReadAll\<close> on an \<open>io.LimitReader\<close>, whose limit is an \<open>int64\<close>; a limit below one reads nothing.\<close>

definition readLimited :: "int \<Rightarrow> http_Response \<Rightarrow> bytes \<times> string option" where
  "readLimited n response =
     (if n \<le> 0 then ([], None)
      else if int (length (RsBody response)) < n then (RsBody response, RsReadErr response)
      else (take (nat n) (RsBody response), None))"

text \<open>\<open>errors.Join\<close> of two errors: their texts on lines of their own.\<close>

definition errors_Join :: "string option \<Rightarrow> string option \<Rightarrow> string option" where
  "errors_Join a b =
     (case (a, b) of
        (None, b) \<Rightarrow> b
      | (a, None) \<Rightarrow> a
      | (Some a, Some b) \<Rightarrow> Some (a @ [CHR 0x0A] @ b))"

text \<open>\<open>strings.TrimSpace\<close>: the ASCII and the other Unicode spaces, in their UTF-8 form, at both ends.\<close>

definition unicode_spaces :: "string list" where
  "unicode_spaces =
     map (\<lambda>n. [char_of (n :: nat)]) [9, 10, 11, 12, 13, 32]
     @ map (map char_of) ([[0xC2, 0x85], [0xC2, 0xA0], [0xE1, 0x9A, 0x80], [0xE2, 0x80, 0xA8], [0xE2, 0x80, 0xA9],
         [0xE2, 0x80, 0xAF], [0xE2, 0x81, 0x9F], [0xE3, 0x80, 0x80]] @ map (\<lambda>n. [0xE2, 0x80, n]) [0x80..<(0x8B :: nat)])"

fun trim_front :: "string list \<Rightarrow> nat \<Rightarrow> string \<Rightarrow> string" where
  "trim_front sps 0 s = s"
| "trim_front sps (Suc fuel) s =
     (case find (\<lambda>sp. prefix sp s) sps of None \<Rightarrow> s | Some sp \<Rightarrow> trim_front sps fuel (drop (length sp) s))"

definition TrimSpace :: "string \<Rightarrow> string" where
  "TrimSpace s =
     (let s = trim_front unicode_spaces (length s) s
      in rev (trim_front (map rev unicode_spaces) (length s) (rev s)))"

text \<open>The fields that \<open>Submit\<close> reads of the response.\<close>

record submitWire =
  SwReceiptB64 :: string
  SwEntryHash :: string
  SwEntryHashScheme :: string
  SwLeafIndex :: int
  SwTreeSize :: int

definition submitWire_type :: shape where
  "submitWire_type = ShStruct
     [(''receipt_b64'', False, ShString), (''entry_hash'', False, ShString), (''entry_hash_scheme'', False, ShString),
      (''leaf_index'', False, ShInt 64), (''tree_size'', False, ShInt 64)]"

definition submitWire_of :: "gval \<Rightarrow> submitWire" where
  "submitWire_of x = \<lparr>SwReceiptB64 = as_string (as_field 0 x), SwEntryHash = as_string (as_field 1 x),
     SwEntryHashScheme = as_string (as_field 2 x), SwLeafIndex = as_int (as_field 3 x), SwTreeSize = as_int (as_field 4 x)\<rparr>"

definition uint64_of_int64 :: "int \<Rightarrow> uint64" where
  "uint64_of_int64 n = of_int n"

definition readReceipt :: "bytes \<Rightarrow> submitError + WReceipt" where
  "readReceipt raw =
     (case json_Unmarshal submitWire_type (string_of raw) of
        None \<Rightarrow> Inl (OtherError ''decode witness response'')
      | Some x \<Rightarrow>
     let wire = submitWire_of x
     in if SwEntryHashScheme wire \<noteq> EntryHashSchemeCheckpointDigest
        then Inl (OtherError ''unsupported entry hash scheme'')
        else if (case hex_DecodeString (SwEntryHash wire) of
                   None \<Rightarrow> True
                 | Some entryHash \<Rightarrow> length entryHash \<noteq> 32 \<or> hex_EncodeToString entryHash \<noteq> SwEntryHash wire)
        then Inl (OtherError ''invalid entry hash'')
        else if SwTreeSize wire \<le> 0 \<or> SwLeafIndex wire < 0 \<or> SwLeafIndex wire \<ge> SwTreeSize wire
          \<or> uint64_of_int64 (SwTreeSize wire) > MaxPortableInteger \<or> uint64_of_int64 (SwLeafIndex wire) > MaxPortableInteger
        then Inl (OtherError ''invalid transparency position'')
        else case base64_StrictDecodeString (SwReceiptB64 wire) of
          None \<Rightarrow> Inl (OtherError ''invalid receipt base64'')
        | Some receiptBytes \<Rightarrow>
            if length receiptBytes = 0 then Inl (OtherError ''invalid receipt base64'')
            else Inr \<lparr>WrBytes = receiptBytes, WrEntryHash = SwEntryHash wire, WrEntryHashScheme = SwEntryHashScheme wire,
                      WrLeafIndex = SwLeafIndex wire, WrTreeSize = SwTreeSize wire\<rparr>)"

section \<open>\<open>Submit\<close>\<close>

fun error_text :: "error \<Rightarrow> string" where
  "error_text ErrNotFound = ''cll: not found''"
| "error_text ErrInvalid = ''cll: invalid''"
| "error_text ErrCorrupt = ''cll: corrupt''"
| "error_text ErrClosed = ''cll: closed''"
| "error_text ErrContention = ''cll: contention''"
| "error_text ErrRejected = ''cll: rejected''"
| "error_text DtNotFound = ''not found''"
| "error_text (ErrMsg msg) = msg"
| "error_text Panic = ''panic''"

definition checkpointRequest :: "Client \<Rightarrow> bytes \<Rightarrow> http_Request" where
  "checkpointRequest c signedCheckpoint =
     \<lparr>RqMethod = ''POST'', RqURL = ClEndpoint c, RqContentType = ContentType, RqAccept = ''application/json'',
      RqBody = signedCheckpoint\<rparr>"

definition readResponse :: "Client \<Rightarrow> http_Response \<Rightarrow> submitError + WReceipt" where
  "readResponse c response =
     (case readLimited (int64 (ClMaxBytes c + 1)) response of
        (raw, readErr) \<Rightarrow>
          (case errors_Join readErr (RsCloseErr response) of
             Some cause \<Rightarrow> Inl (TransportError cause)
           | None \<Rightarrow>
               if int (length raw) > ClMaxBytes c then Inl (OtherError ''witness response exceeds the limit'')
               else if RsStatusCode response < 200 \<or> RsStatusCode response \<ge> 300
               then Inl (HTTPError (RsStatusCode response) (boundedText (TrimSpace (string_of raw))))
               else readReceipt raw))"

definition Submit :: "cose \<Rightarrow> dtmmr \<Rightarrow> (string \<Rightarrow> URL option) \<Rightarrow> (http_Client \<Rightarrow> http_Request \<Rightarrow> string + http_Response)
    \<Rightarrow> Client \<Rightarrow> bytes \<Rightarrow> http_Request list \<times> (submitError + WReceipt)" where
  "Submit cs dt parse_url send c signedCheckpoint =
     (case rbind (ParseRecord cs dt signedCheckpoint) (VerifySignature cs) of
        Inl err \<Rightarrow> ([], Inl (OtherError (error_text err)))
      | Inr _ \<Rightarrow>
          if parse_url (ClEndpoint c) = None then ([], Inl (OtherError ''parse''))
          else
            let request = checkpointRequest c signedCheckpoint
            in ([request],
                case send (ClHttp c) request of
                  Inl cause \<Rightarrow> Inl (TransportError cause)
                | Inr response \<Rightarrow> readResponse c response))"

section \<open>What a receipt of \<open>Submit\<close> is\<close>

lemma position_bound:
  assumes "0 \<le> n" "n < 2 ^ 63" "uint64_of_int64 n \<le> MaxPortableInteger"
  shows "n \<le> int (unat MaxPortableInteger)"
proof -
  have "uint (uint64_of_int64 n) = n"
    unfolding uint64_of_int64_def using assms(1,2) by (simp add: uint_word_of_int)
  then show ?thesis using assms(3) by (simp add: word_le_def MaxPortableInteger_def)
qed

lemma readReceipt_Inr:
  assumes "readReceipt raw = Inr r"
  shows "WrBytes r \<noteq> []" "WrEntryHashScheme r = EntryHashSchemeCheckpointDigest" "validEntryHash (WrEntryHash r)"
    "0 \<le> WrLeafIndex r" "WrLeafIndex r < WrTreeSize r"
    "uint64_of_int64 (WrTreeSize r) \<le> MaxPortableInteger" "uint64_of_int64 (WrLeafIndex r) \<le> MaxPortableInteger"
  using assms
  by (auto simp: readReceipt_def Let_def validEntryHash_def EntryBytes_def not_less split: option.splits if_splits)

text \<open>The numbers that the decoder puts into a field fit the field.\<close>

definition int_field :: "shape \<Rightarrow> gval \<Rightarrow> bool" where
  "int_field t x = (case t of ShInt w \<Rightarrow> - (2 ^ (w - 1)) \<le> as_int x \<and> as_int x < 2 ^ (w - 1) | _ \<Rightarrow> True)"

lemma d_value_int: "d_value du t j x = Some y \<Longrightarrow> int_field t x \<Longrightarrow> int_field t y"
  by (cases t; cases j) (auto simp: int_field_def decode_int_def Let_def split: if_splits)

lemma d_members_int:
  assumes "list_all2 (\<lambda>f. int_field (snd (snd f))) fs xs" "d_members du fs ms xs = Some ys"
  shows "list_all2 (\<lambda>f. int_field (snd (snd f))) fs ys"
  using assms
proof (induction ms arbitrary: xs)
  case (Cons m ms)
  obtain name j where m: "m = (name, j)" by (cases m)
  show ?case
  proof (cases "field_index fs name")
    case None
    then show ?thesis using Cons m by (auto split: if_splits)
  next
    case (Some i)
    then obtain y where y: "d_value du (snd (snd (fs ! i))) j (xs ! i) = Some y" "d_members du fs ms (xs[i := y]) = Some ys"
      using Cons.prems(2) m by (auto simp: bind_eq_Some_conv)
    have "int_field (snd (snd (fs ! i))) y" if "i < length fs"
      using d_value_int [OF y(1)] Cons.prems(1) that by (simp add: list_all2_conv_all_nth)
    then have "list_all2 (\<lambda>f. int_field (snd (snd f))) fs (xs[i := y])"
      using Cons.prems(1) by (cases "i < length fs") (auto simp: list_all2_conv_all_nth nth_list_update)
    then show ?thesis using Cons.IH y(2) by blast
  qed
qed simp

lemma submitWire_ints:
  assumes "json_Unmarshal submitWire_type s = Some x"
  shows "SwLeafIndex (submitWire_of x) < 2 ^ 63" "SwTreeSize (submitWire_of x) < 2 ^ 63"
proof -
  obtain fs where fs: "submitWire_type = ShStruct fs" "length fs = 5" "snd (snd (fs ! 3)) = ShInt 64" "snd (snd (fs ! 4)) = ShInt 64"
    by (simp add: submitWire_type_def)
  have z: "list_all2 (\<lambda>f. int_field (snd (snd f))) fs (case zero_value (ShStruct fs) of GStruct zs \<Rightarrow> zs)"
    using fs(1) by (auto simp: submitWire_type_def int_field_def)
  obtain j where "d_value False (ShStruct fs) j (zero_value (ShStruct fs)) = Some x"
    using assms fs(1) by (auto simp: json_Unmarshal_def bind_eq_Some_conv)
  then obtain ys where ys: "x = GStruct ys" "list_all2 (\<lambda>f. int_field (snd (snd f))) fs ys"
    using z d_members_int by (cases j) (auto simp: bind_eq_Some_conv)
  then have "int_field (snd (snd (fs ! 3))) (ys ! 3)" "int_field (snd (snd (fs ! 4))) (ys ! 4)"
    using fs(2) by (simp_all add: list_all2_conv_all_nth)
  then show "SwLeafIndex (submitWire_of x) < 2 ^ 63" "SwTreeSize (submitWire_of x) < 2 ^ 63"
    using fs(3,4) ys(1) by (simp_all add: int_field_def submitWire_of_def)
qed

lemma readReceipt_positions:
  assumes "readReceipt raw = Inr r"
  shows "\<not> invalid_position (Some (WrLeafIndex r))" "\<not> invalid_position (Some (WrTreeSize r))"
proof -
  obtain x where "json_Unmarshal submitWire_type (string_of raw) = Some x" "WrLeafIndex r = SwLeafIndex (submitWire_of x)"
      "WrTreeSize r = SwTreeSize (submitWire_of x)"
    using assms by (auto simp: readReceipt_def Let_def split: option.splits if_splits)
  then have "WrLeafIndex r < 2 ^ 63" "WrTreeSize r < 2 ^ 63" using submitWire_ints by simp_all
  then show "\<not> invalid_position (Some (WrLeafIndex r))" "\<not> invalid_position (Some (WrTreeSize r))"
    using readReceipt_Inr(4-7) [OF assms] position_bound [of "WrLeafIndex r"] position_bound [of "WrTreeSize r"]
    by (simp_all add: invalid_position_def)
qed

end
