(* ===== verification/Wire_Json.thy ===== *)
theory Wire_Json
  imports Backend_Wire Go_Reflect
begin

text \<open>
  The JSON texts of the wire records: the struct types of \<open>internal/backend/wire.go\<close> with their tags,
  and \<open>MarshalMetadata\<close>, \<open>MarshalWitness\<close> and \<open>UnmarshalWitness\<close>, which the SQL backends use for their
  rows. The journal uses the same types inside its events.
\<close>

section \<open>Struct types\<close>

definition WireEntry_type :: shape where
  "WireEntry_type = ShStruct [(''seq'', False, ShString), (''value'', False, ShString), (''appendedAt'', False, ShString)]"

definition WireWitness_type :: shape where
  "WireWitness_type = ShStruct
     [(''witnessId'', False, ShString), (''checkpointSize'', False, ShString), (''checkpoint'', False, ShString),
      (''attempts'', False, ShUint 32), (''nextAttemptAt'', False, ShString), (''receipt'', True, ShPtr ShString),
      (''entryHash'', True, ShString), (''entryHashScheme'', True, ShString), (''leafIndex'', True, ShPtr (ShInt 64)),
      (''treeSize'', True, ShPtr (ShInt 64)), (''permanent'', False, ShBool), (''lastError'', True, ShString)]"

definition WireState_type :: shape where
  "WireState_type = ShStruct
     [(''size'', False, ShString), (''indexedSeq'', False, ShString), (''nodes'', False, ShSlice ShString),
      (''firstPendingAt'', True, ShPtr ShString), (''checkpoint'', True, ShPtr ShString),
      (''checkpointSize'', True, ShPtr ShString), (''checkpointIndexedSeq'', True, ShPtr ShString),
      (''checkpointPeaks'', True, ShPtr (ShSlice ShString)), (''witnesses'', False, ShSlice WireWitness_type)]"

definition WireEntry_value :: "WireEntry \<Rightarrow> gval" where
  "WireEntry_value w = GStruct [GString (WeSeq w), GString (WeValue w), GString (WeAppendedAt w)]"

definition WireEntry_of :: "gval \<Rightarrow> WireEntry" where
  "WireEntry_of x = \<lparr>WeSeq = as_string (as_field 0 x), WeValue = as_string (as_field 1 x),
     WeAppendedAt = as_string (as_field 2 x)\<rparr>"

definition WireWitness_value :: "WireWitness \<Rightarrow> gval" where
  "WireWitness_value w = GStruct
     [GString (WwWitnessID w), GString (WwCheckpointSize w), GString (WwCheckpoint w),
      GInt (uint (WwAttempts w)), GString (WwNextAttemptAt w), GPtr (map_option GString (WwReceipt w)),
      GString (WwEntryHash w), GString (WwEntryHashScheme w), GPtr (map_option GInt (WwLeafIndex w)),
      GPtr (map_option GInt (WwTreeSize w)), GBool (WwPermanent w), GString (WwLastError w)]"

definition WireWitness_of :: "gval \<Rightarrow> WireWitness" where
  "WireWitness_of x = \<lparr>WwWitnessID = as_string (as_field 0 x), WwCheckpointSize = as_string (as_field 1 x),
     WwCheckpoint = as_string (as_field 2 x), WwAttempts = of_int (as_int (as_field 3 x)),
     WwNextAttemptAt = as_string (as_field 4 x), WwReceipt = map_option as_string (as_ptr (as_field 5 x)),
     WwEntryHash = as_string (as_field 6 x), WwEntryHashScheme = as_string (as_field 7 x),
     WwLeafIndex = map_option as_int (as_ptr (as_field 8 x)), WwTreeSize = map_option as_int (as_ptr (as_field 9 x)),
     WwPermanent = as_bool (as_field 10 x), WwLastError = as_string (as_field 11 x)\<rparr>"

text \<open>\<open>StateToWire\<close> makes its slices, so none of them is nil; a nil slice and an empty one read the same.\<close>

definition WireState_value :: "WireState \<Rightarrow> gval" where
  "WireState_value w = GStruct
     [GString (WsSize w), GString (WsIndexedSeq w), GSlice (map GString (WsNodes w)) [],
      GPtr (map_option GString (WsFirstPendingAt w)), GPtr (map_option GString (WsCheckpoint w)),
      GPtr (map_option GString (WsCheckpointSize w)), GPtr (map_option GString (WsCheckpointIndexedSeq w)),
      GPtr (map_option (\<lambda>ps. GSlice (map GString ps) []) (WsCheckpointPeaks w)),
      GSlice (map WireWitness_value (WsWitnesses w)) []]"

definition WireState_of :: "gval \<Rightarrow> WireState" where
  "WireState_of x = \<lparr>WsSize = as_string (as_field 0 x), WsIndexedSeq = as_string (as_field 1 x),
     WsNodes = map as_string (as_slice (as_field 2 x)),
     WsFirstPendingAt = map_option as_string (as_ptr (as_field 3 x)),
     WsCheckpoint = map_option as_string (as_ptr (as_field 4 x)),
     WsCheckpointSize = map_option as_string (as_ptr (as_field 5 x)),
     WsCheckpointIndexedSeq = map_option as_string (as_ptr (as_field 6 x)),
     WsCheckpointPeaks = map_option (\<lambda>p. map as_string (as_slice p)) (as_ptr (as_field 7 x)),
     WsWitnesses = map WireWitness_of (as_slice (as_field 8 x))\<rparr>"

lemma WireEntry_of_value [simp]: "WireEntry_of (WireEntry_value w) = w"
  by (simp add: WireEntry_of_def WireEntry_value_def)

lemma WireWitness_of_value [simp]: "WireWitness_of (WireWitness_value w) = w"
  by (simp add: WireWitness_of_def WireWitness_value_def option.map_comp o_def option.map_ident)

lemma WireState_of_value [simp]: "WireState_of (WireState_value w) = w"
  by (simp add: WireState_of_def WireState_value_def option.map_comp o_def option.map_ident)

section \<open>Relational rows\<close>

definition MarshalMetadata :: "State \<Rightarrow> string result" where
  "MarshalMetadata value =
     rbind (StateToWire (value\<lparr>Nodes := [], Witnesses := []\<rparr>)) (\<lambda>wire.
       Inr (json_Marshal WireState_type (WireState_value wire)))"

definition MarshalWitness :: "WitnessState \<Rightarrow> string result" where
  "MarshalWitness value =
     rbind (WitnessToWire value) (\<lambda>wire. Inr (json_Marshal WireWitness_type (WireWitness_value wire)))"

definition UnmarshalWitness :: "string \<Rightarrow> WitnessState result" where
  "UnmarshalWitness data =
     (case json_Unmarshal WireWitness_type data of
        None \<Rightarrow> Inl ErrCorrupt
      | Some wire \<Rightarrow> WitnessFromWire (WireWitness_of wire))"

section \<open>Which wire records survive\<close>

definition ascii :: "string \<Rightarrow> bool" where
  "ascii s \<longleftrightarrow> list_all (\<lambda>c. code_of c < 128) s"

lemma ValidString_ascii: "ascii s \<Longrightarrow> ValidString s"
  unfolding ascii_def
proof (induction s)
  case (Cons c s)
  then show ?case by (simp add: ValidString.simps [of "c # s"])
qed simp

lemma ascii_simps [simp]: "ascii []" "ascii (c # s) \<longleftrightarrow> code_of c < 128 \<and> ascii s" "ascii (s @ t) \<longleftrightarrow> ascii s \<and> ascii t"
  by (simp_all add: ascii_def)

lemma ascii_digits: "list_all is_digit s \<Longrightarrow> ascii s"
  by (auto simp: ascii_def list_all_iff is_digit_def)

lemma ascii_FormatUint [simp]: "ascii (FormatUint n)"
  by (simp add: FormatUint_def ascii_digits)

lemma base64_char_ascii: "n < 64 \<Longrightarrow> code_of (base64_char n) < 128"
  using base64_char_range [of n] by auto

lemma sextets:
  "unat (a :: byte) div 4 < 64" "unat (a :: byte) mod 4 * 16 + unat (b :: byte) div 16 < 64"
  "unat (b :: byte) mod 16 * 4 + unat (c :: byte) div 64 < 64"
  using unat_byte_less [of a] unat_byte_less [of b] unat_byte_less [of c] by linarith+

lemma ascii_base64 [simp]: "ascii (base64_EncodeToString b)"
  by (induction b rule: base64_EncodeToString.induct) (auto intro!: base64_char_ascii sextets)

lemma ascii_hex [simp]: "ascii (hex_EncodeToString b)"
proof (induction b)
  case (Cons x b)
  have "code_of (hex_char k) < 128" if "k < 16" for k using that by (auto simp: hex_char_def)
  moreover have "unat x div 16 < 16" "unat x mod 16 < 16" using unat_byte_less [of x] by simp_all
  ultimately show ?case using Cons by simp
qed simp

lemma ascii_identifier: "ValidateIdentifier s = Inr () \<Longrightarrow> ascii s"
  by (auto simp: ValidateIdentifier_def identifierPattern_def identifier_char_def ascii_def list_all_iff
      Let_def split: if_splits)

lemma ascii_padded: "0 \<le> n \<Longrightarrow> ascii (format_padded w n)"
  by (simp add: format_padded_def zero_pad_digits ascii_digits)

lemma ascii_FormatTime:
  assumes "FormatTime t = Inr s"
  shows "ascii s"
proof -
  let ?t = "NormalizeTime t"
  have "0 \<le> Nanosecond ?t div ns_per_ms" using clock_ranges(7) [of ?t] by (simp add: ns_per_ms_def)
  then show ?thesis
    using assms time_fields [of ?t]
    by (auto simp: FormatTime_def Let_def ascii_padded split: sum.splits if_splits)
qed

lemmas ascii_valid = ValidString_ascii ascii_FormatTime ascii_identifier

lemma type_names_valid [simp]:
  "ascii s \<Longrightarrow> ValidString s"
  by (rule ValidString_ascii)

lemma wire_types_ok [simp]:
  "shape_ok WireEntry_type" "shape_ok WireWitness_type" "shape_ok WireState_type"
  "shape_depth WireEntry_type = 1" "shape_depth WireWitness_type = 1" "shape_depth WireState_type = 3"
  by (simp_all add: WireEntry_type_def WireWitness_type_def WireState_type_def)

lemma portable_position:
  "\<not> invalid_position p \<Longrightarrow> pred_option (\<lambda>n. fits (ShInt 64) (GInt n)) p"
  by (cases p) (auto simp: invalid_position_def MaxPortableInteger_def)

text \<open>The text of \<open>LastError\<close> is the one field of a row that validation lets through with invalid UTF-8.\<close>

definition utf8_row :: "WitnessState \<Rightarrow> bool" where
  "utf8_row w \<longleftrightarrow> ValidString (LastError w)"

lemma fits_option:
  "fits (ShPtr t) (GPtr (map_option f p)) \<longleftrightarrow> pred_option (\<lambda>x. fits t (f x) \<and> e_value t (f x) \<noteq> JNull) p"
  by (cases p) simp_all

lemma WireWitness_fits_iff:
  "fits WireWitness_type (WireWitness_value wire) \<longleftrightarrow>
     ValidString (WwWitnessID wire) \<and> ValidString (WwCheckpointSize wire) \<and> ValidString (WwCheckpoint wire)
     \<and> ValidString (WwNextAttemptAt wire) \<and> pred_option ValidString (WwReceipt wire)
     \<and> ValidString (WwEntryHash wire) \<and> ValidString (WwEntryHashScheme wire)
     \<and> pred_option (\<lambda>n. fits (ShInt 64) (GInt n)) (WwLeafIndex wire)
     \<and> pred_option (\<lambda>n. fits (ShInt 64) (GInt n)) (WwTreeSize wire) \<and> ValidString (WwLastError wire)"
proof -
  have "uint (WwAttempts wire) < 4294967296" using uint_bounded [of "WwAttempts wire"] by simp
  then show ?thesis
    by (cases "WwReceipt wire"; cases "WwLeafIndex wire"; cases "WwTreeSize wire")
      (auto simp: WireWitness_value_def WireWitness_type_def)
qed

lemma WireWitness_fits:
  assumes "WitnessToWire w = Inr wire" "valid_witness w" "utf8_row w"
  shows "fits WireWitness_type (WireWitness_value wire)"
proof -
  obtain ts where ts: "FormatTime (NextAttemptAt w) = Inr ts"
    using assms(1) by (auto simp: WitnessToWire_def result_simps)
  have id: "ascii (WitnessID w)"
    using assms(2) ascii_identifier not_isl_unit by (auto simp: valid_witness_def validateWitness_def split: if_splits)
  have "ascii (WwWitnessID wire)" "ascii (WwCheckpointSize wire)" "ascii (WwCheckpoint wire)"
    "ascii (WwNextAttemptAt wire)" "ValidString (WwLastError wire)"
    using assms(1,3) ts id ascii_FormatTime [OF ts]
    by (auto simp: WitnessToWire_def Let_def utf8_row_def split: option.splits)
  moreover have "pred_option ascii (WwReceipt wire) \<and> ascii (WwEntryHash wire) \<and> ascii (WwEntryHashScheme wire)
      \<and> \<not> invalid_position (WwLeafIndex wire) \<and> \<not> invalid_position (WwTreeSize wire)"
  proof (cases "Receipt w")
    case None
    then show ?thesis using assms(1) ts by (auto simp: WitnessToWire_def Let_def invalid_position_def)
  next
    case (Some r)
    then have "EntryHash r = [] \<or> validEntryHash (EntryHash r)" "EntryHashScheme r \<in> {[], ''legacy''}"
      "\<not> invalid_position (LeafIndex r)" "\<not> invalid_position (TreeSize r)"
      using assms(2) by (auto simp: valid_witness_def validateWitness_def split: if_splits)
    moreover have "ascii h" if "validEntryHash h" for h
      using that ascii_hex by (auto simp: validEntryHash_def split: option.splits)
    ultimately show ?thesis using assms(1) ts Some by (auto simp: WitnessToWire_def Let_def)
  qed
  ultimately show ?thesis
    using portable_position ValidString_ascii by (auto simp: WireWitness_fits_iff intro: option.pred_mono_strong)
qed

lemma WireEntry_fits:
  assumes "EntryToWire en = Inr wire"
  shows "fits WireEntry_type (WireEntry_value wire)"
  using assms ascii_FormatTime [of "AppendedAt en"]
  by (auto simp: EntryToWire_def result_simps WireEntry_type_def WireEntry_value_def)

lemma fits_strings: "list_all ValidString ss \<Longrightarrow> list_all (fits ShString) (map GString ss)"
  by (simp add: list_all_iff)

lemma WireState_fits_iff:
  "fits WireState_type (WireState_value wire) \<longleftrightarrow>
     ValidString (WsSize wire) \<and> ValidString (WsIndexedSeq wire) \<and> list_all ValidString (WsNodes wire)
     \<and> pred_option ValidString (WsFirstPendingAt wire) \<and> pred_option ValidString (WsCheckpoint wire)
     \<and> pred_option ValidString (WsCheckpointSize wire) \<and> pred_option ValidString (WsCheckpointIndexedSeq wire)
     \<and> pred_option (list_all ValidString) (WsCheckpointPeaks wire)
     \<and> list_all (\<lambda>w. fits WireWitness_type (WireWitness_value w)) (WsWitnesses wire)"
proof -
  have p: "fits (ShPtr ShString) (GPtr (map_option GString p)) \<longleftrightarrow> pred_option ValidString p" for p by (cases p) simp_all
  have q: "fits (ShPtr (ShSlice ShString)) (GPtr (map_option (\<lambda>ps. GSlice (map GString ps) []) p))
      \<longleftrightarrow> pred_option (list_all ValidString) p" for p by (cases p) (simp_all add: list_all_iff)
  show ?thesis
    unfolding WireState_value_def WireState_type_def
    by (simp add: p q list_all_iff)
qed

lemma WireState_fits:
  assumes "StateToWire s = Inr wire" "list_all valid_witness (Witnesses s)" "list_all utf8_row (Witnesses s)"
  shows "fits WireState_type (WireState_value wire)"
proof -
  have ws: "rmap WitnessToWire (Witnesses s) = Inr (WsWitnesses wire)"
    using assms(1) by (auto simp: StateToWire_def result_simps)
  have "list_all (\<lambda>w. fits WireWitness_type (WireWitness_value w)) (WsWitnesses wire)"
    using ws assms(2,3) WireWitness_fits unfolding rmap_Inr_iff
    by (auto simp: list_all_length list_all2_conv_all_nth)
  moreover have "pred_option ascii (WsFirstPendingAt wire)"
    using assms(1) ascii_FormatTime by (auto simp: StateToWire_def result_simps split: option.splits)
  ultimately show ?thesis
    using assms(1)
    by (auto simp: WireState_fits_iff StateToWire_def result_simps list_all_iff pred_option_def split: option.splits)
qed

text \<open>A valid row whose error text is valid UTF-8 survives the JSON of the SQL backends.\<close>

lemma UnmarshalWitness_MarshalWitness:
  assumes "valid_witness w" "utf8_row w"
  obtains data where "MarshalWitness w = Inr data" "UnmarshalWitness data = Inr (norm_witness w)"
proof -
  obtain wire where wire: "WitnessToWire w = Inr wire" using WitnessToWire_total [OF valid_witness_time [OF assms(1)]] .
  have "json_Unmarshal WireWitness_type (json_Marshal WireWitness_type (WireWitness_value wire)) = Some (WireWitness_value wire)"
    by (rule json_Unmarshal_Marshal) (simp_all add: WireWitness_fits [OF wire assms] maxNestingDepth_def)
  then show ?thesis using that wire WitnessFromWire_ToWire [OF wire assms(1)]
    by (simp add: MarshalWitness_def UnmarshalWitness_def)
qed

end
