(* ===== verification/Submit_Properties.thy ===== *)
theory Submit_Properties
  imports Witness_Submit Witness_Properties Wire_Json
begin

text \<open>
  The properties of the witness client: what it sends and accepts, which failures are retried, and
  that what it returns can be stored.
\<close>

lemma Submit_Inr:
  assumes "Submit cs dt pu send c statement = (reqs, Inr receipt)"
  obtains rec response raw where "ParseRecord cs dt statement = Inr rec" "VerifySignature cs rec = Inr ()"
    "reqs = [checkpointRequest c statement]" "send (ClHttp c) (checkpointRequest c statement) = Inr response"
    "200 \<le> RsStatusCode response" "RsStatusCode response < 300" "int (length raw) \<le> ClMaxBytes c"
    "readReceipt raw = Inr receipt"
proof -
  obtain rec where rec: "ParseRecord cs dt statement = Inr rec" "VerifySignature cs rec = Inr ()"
    using assms by (auto simp: Submit_def rbind_Inr_iff split: sum.splits)
  then obtain response where r: "reqs = [checkpointRequest c statement]"
      "send (ClHttp c) (checkpointRequest c statement) = Inr response" "readResponse c response = Inr receipt"
    using assms by (auto simp: Submit_def Let_def split: sum.splits if_splits)
  obtain raw err where "readLimited (int64 (ClMaxBytes c + 1)) response = (raw, err)" by fastforce
  with r(3) have "200 \<le> RsStatusCode response" "RsStatusCode response < 300" "int (length raw) \<le> ClMaxBytes c"
      "readReceipt raw = Inr receipt"
    by (auto simp: readResponse_def split: option.splits if_splits)
  then show ?thesis using that rec r by blast
qed

text \<open>
  C26 (\<open>Client.Submit\<close>, \<open>ReceiptVerifier.Verify\<close>, \<open>DeliveryRunner.deliver\<close>): a receipt that \<open>Submit\<close>
  returned for the checkpoint of a valid row, and that the verifier accepted, makes a row that every
  store accepts: nothing a witness can answer stops the delivery loop at validation. The one request
  was a POST of the stored statement, whose signature had been verified.
\<close>

theorem Submit_receipt_storable:
  assumes "valid_witness item" "ValidateTime now = Inr ()"
    "Submit cs dt pu send c (WitnessCheckpoint item) = (reqs, Inr receipt)"
    "receipt_Verify cs dt pc public (WitnessCheckpoint item) receipt = Inr ()"
  shows "valid_witness (deliveredWitness item now receipt) \<and> reqs = [checkpointRequest c (WitnessCheckpoint item)]
    \<and> (\<exists>rec. ParseRecord cs dt (WitnessCheckpoint item) = Inr rec \<and> VerifySignature cs rec = Inr ())
    \<and> int (length (WrBytes receipt)) \<le> int MaxWitnessResponseBytes"
proof -
  obtain rec raw where s: "ParseRecord cs dt (WitnessCheckpoint item) = Inr rec" "VerifySignature cs rec = Inr ()"
      "reqs = [checkpointRequest c (WitnessCheckpoint item)]" "readReceipt raw = Inr receipt"
    by (rule Submit_Inr [OF assms(3)])
  have len: "length (WrBytes receipt) \<le> MaxWitnessResponseBytes"
    using assms(4) by (auto simp: receipt_Verify_def split: if_splits)
  have "validateWitness (deliveredWitness item now receipt) ErrInvalid = Inr ()"
    using assms(1,2) readReceipt_Inr [OF s(4)] readReceipt_positions [OF s(4)] len
    by (auto simp: valid_witness_def validateWitness_def deliveredWitness_def EntryHashSchemeCheckpointDigest_def
        Suc_le_eq split: if_splits)
  then show ?thesis using s len by (auto simp: validateWitness_iff)
qed

text \<open>A witness service that answers with the example receipt.\<close>

definition ex_client :: Client where
  "ex_client = \<lparr>ClEndpoint = ''https://w/checkpoints'', ClHttp = \<lparr>HcTimeout = DefaultRequestTimeout, HcFollow = False\<rparr>,
     ClMaxBytes = DefaultMaxResponseBytes\<rparr>"

definition ex_url :: "string \<Rightarrow> URL option" where
  "ex_url s = Some \<lparr>UrlScheme = ''https'', UrlHost = ''w'', UrlUser = None, UrlRawQuery = [], UrlFragment = []\<rparr>"

definition ex_answer :: gval where
  "ex_answer = GStruct [GString (base64_EncodeToString [9]), GString (hex_EncodeToString ex_entry), GString ''legacy'',
     GInt 0, GInt 1]"

definition ex_service :: "http_Client \<Rightarrow> http_Request \<Rightarrow> string + http_Response" where
  "ex_service h rq = Inr \<lparr>RsStatusCode = 201, RsBody = bytes_of (json_Marshal submitWire_type ex_answer),
     RsReadErr = None, RsCloseErr = None\<rparr>"

lemma length_ex_entry: "length ex_entry = 32"
  by (simp add: ex_entry_def)

lemma ex_submit: "Submit receipt_cose dt_ref ex_url ex_service ex_client ex_statement = ([checkpointRequest ex_client ex_statement], Inr ex_receipt)"
proof -
  let ?text = "json_Marshal submitWire_type ex_answer"
  have "ValidString (base64_EncodeToString [9])" by (rule ValidString_ascii [OF ascii_base64])
  then have fits: "fits submitWire_type ex_answer" by (simp add: submitWire_type_def ex_answer_def)
  have ok: "shape_ok submitWire_type" "shape_depth submitWire_type = 1" by (simp_all add: submitWire_type_def)
  have "json_Unmarshal submitWire_type ?text = Some ex_answer"
    by (rule json_Unmarshal_Marshal) (simp_all add: fits ok maxNestingDepth_def)
  then have rr: "readReceipt (bytes_of ?text) = Inr ex_receipt"
    by (simp add: readReceipt_def submitWire_of_def ex_answer_def EntryHashSchemeCheckpointDigest_def length_ex_entry
        uint64_of_int64_def MaxPortableInteger_def ex_receipt_def Let_def del: base64_EncodeToString.simps)
  have "list_all json_safe (base64_EncodeToString [9])" by code_simp
  then have "length ?text \<le> 1000"
    by (simp add: json_Marshal_def submitWire_type_def ex_answer_def length_json_string hex_safe length_ex_entry
        json_safe_def format_int_def dec_of_nat.simps)
  then have len: "int (length ?text) < int64 (ClMaxBytes ex_client + 1)" "int (length ?text) \<le> ClMaxBytes ex_client"
      "0 < int64 (ClMaxBytes ex_client + 1)"
    by (simp_all add: ex_client_def DefaultMaxResponseBytes_def MaxWitnessResponseBytes_def int64_def)
  obtain rec where "ParseRecord receipt_cose dt_ref ex_statement = Inr rec" "VerifySignature receipt_cose rec = Inr ()"
    using ex_receipt_record by blast
  then show ?thesis
    using len rr by (simp add: Submit_def ex_url_def ex_service_def readResponse_def readLimited_def errors_Join_def)
qed

theorem Submit_receipt_storable_witness:
  "valid_witness (deliveredWitness ex_row 0 ex_receipt)
   \<and> Submit receipt_cose dt_ref ex_url ex_service ex_client (WitnessCheckpoint ex_row) =
       ([checkpointRequest ex_client (WitnessCheckpoint ex_row)], Inr ex_receipt)"
proof -
  have st: "WitnessCheckpoint ex_row = ex_statement" by (simp add: ex_row_def pendingRow_def)
  show ?thesis
    using Submit_receipt_storable [OF ex_row_valid ex_time(1), of receipt_cose dt_ref ex_url ex_service ex_client]
      ex_submit ex_receipt_accepted unfolding st by blast
qed


definition ex_busy :: "http_Client \<Rightarrow> http_Request \<Rightarrow> string + http_Response" where
  "ex_busy h rq = Inr \<lparr>RsStatusCode = 503, RsBody = [], RsReadErr = None, RsCloseErr = None\<rparr>"


text \<open>
  The largest \<open>int64\<close> is accepted as a limit, but the read limit of one more wraps around: such a client
  reads nothing, and every answer of the witness counts as undecodable.
\<close>

lemma NewClient_limit_wraps:
  assumes "NewClient pu baseURL client (2 ^ 63 - 1) = Inr c" "200 \<le> RsStatusCode response" "RsStatusCode response < 300"
    "RsCloseErr response = None"
  shows "readResponse c response = Inl (OtherError ''decode witness response'')"
proof -
  have c: "ClMaxBytes c = 2 ^ 63 - 1" using assms(1) by (auto simp: NewClient_def Let_def split: option.splits if_splits)
  have "readLimited (int64 (ClMaxBytes c + 1)) response = ([], None)" by (simp add: c int64_def readLimited_def)
  moreover have "json_Unmarshal submitWire_type [] = None" by (simp add: json_Unmarshal_def submitWire_type_def) code_simp
  ultimately show ?thesis using assms(2-4) c by (simp add: readResponse_def errors_Join_def readReceipt_def string_of_def)
qed

end
