(* ===== verification/Host_Loop.thy ===== *)
theory Host_Loop
  imports Checkpoint_Runner Delivery_Laws Cose_Reference
begin

text \<open>
  The host loops \<open>Run\<close> and \<open>Notify\<close> of \<open>checkpoint/runner.go\<close> and \<open>witness/runner.go\<close>, which have the same
  shape: a pass, then a wait for cancellation, a notification or a tick. The channel \<open>notify\<close> has room
  for one token. A pass takes time, so its start and its end are steps of their own, and callers may
  notify and other writers may change the store at any moment in between.
\<close>

datatype phase = Ready | Passing | Waiting | Returned error

record 's host =
  HoStore :: 's
  HoNotify :: bool
  HoPhase :: phase
  HoPasses :: nat

text \<open>\<open>select\<close> with a default: the token is put into the channel unless one is there already.\<close>

definition Notify :: "'s host \<Rightarrow> 's host" where
  "Notify h = (if HoNotify h then h else h\<lparr>HoNotify := True\<rparr>)"

definition after_pass :: "unit result \<Rightarrow> phase" where
  "after_pass r = (case r of Inl err \<Rightarrow> if err \<noteq> ErrContention then Returned err else Waiting | Inr _ \<Rightarrow> Waiting)"

inductive Run_step :: "('s \<Rightarrow> unit result \<Rightarrow> 's \<Rightarrow> bool) \<Rightarrow> 's host \<Rightarrow> 's host \<Rightarrow> bool" for pass where
  notify: "Run_step pass h (Notify h)"
| other_writer: "Run_step pass h (h\<lparr>HoStore := s\<rparr>)"
| start: "HoPhase h = Ready \<Longrightarrow> Run_step pass h (h\<lparr>HoPhase := Passing, HoPasses := HoPasses h + 1\<rparr>)"
| finish: "HoPhase h = Passing \<Longrightarrow> pass (HoStore h) r s \<Longrightarrow>
    Run_step pass h (h\<lparr>HoStore := s, HoPhase := after_pass r\<rparr>)"
| canceled: "HoPhase h = Waiting \<Longrightarrow> Run_step pass h (h\<lparr>HoPhase := Returned ctxErr\<rparr>)"
| notified: "HoPhase h = Waiting \<Longrightarrow> HoNotify h \<Longrightarrow> Run_step pass h (h\<lparr>HoPhase := Ready, HoNotify := False\<rparr>)"
| tick: "HoPhase h = Waiting \<Longrightarrow> Run_step pass h (h\<lparr>HoPhase := Ready\<rparr>)"

inductive_cases Run_stepE: "Run_step pass h h'"

text \<open>The passes of the two loops.\<close>

definition runner_pass :: "cose \<Rightarrow> dtmmr \<Rightarrow> Tree add_hashed_leaf \<Rightarrow> RunnerConfig \<Rightarrow> 's CheckpointStore \<Rightarrow> Signer
    \<Rightarrow> 's \<Rightarrow> unit result \<Rightarrow> 's \<Rightarrow> bool" where
  "runner_pass cs dt ahl config store signer s r s' \<longleftrightarrow>
     (\<exists>fuel env now. catchUp fuel cs dt ahl config store signer env now s = Some (r, s'))"

definition delivery_pass :: "cose \<Rightarrow> dtmmr \<Rightarrow> DeliveryRunner \<Rightarrow> 's WitnessStateStore \<Rightarrow> 's \<Rightarrow> unit result \<Rightarrow> 's \<Rightarrow> bool" where
  "delivery_pass cs dt r store s res s' \<longleftrightarrow>
     (\<exists>ctx rnd now completed err. delivery_RunOnce cs dt r store ctx rnd now MaxWitnesses s (completed, err) s'
        \<and> res = (case err of None \<Rightarrow> Inr () | Some err \<Rightarrow> Inl err))"

section \<open>No wake-up is lost\<close>

lemma Run_step_passes: "Run_step pass h h' \<Longrightarrow> HoPasses h \<le> HoPasses h'"
  by (erule Run_stepE) (auto simp: Notify_def)

definition awake :: "nat \<Rightarrow> 's host \<Rightarrow> bool" where
  "awake n h \<longleftrightarrow> n < HoPasses h \<or> n = HoPasses h \<and> (HoNotify h \<or> HoPhase h = Ready)"

lemma awake_step: "Run_step pass h h' \<Longrightarrow> awake n h \<Longrightarrow> awake n h'"
  by (erule Run_stepE) (auto simp: awake_def Notify_def)

lemma awake_steps:
  assumes "(Run_step pass)\<^sup>*\<^sup>* h h'" "awake n h"
  shows "awake n h'"
  using assms by (induction rule: rtranclp_induct) (auto intro: awake_step)

lemma Notify_awake: "awake (HoPasses h) (Notify h)"
  by (simp add: awake_def Notify_def)

text \<open>Only an error other than contention, or cancellation, ends the loop.\<close>

lemma Run_step_returns:
  assumes "Run_step pass h h'" "HoPhase h' = Returned err" "HoPhase h \<noteq> Returned err"
  shows "HoPhase h = Waiting \<or> HoPhase h = Passing \<and> err \<noteq> ErrContention \<and> pass (HoStore h) (Inl err) (HoStore h')"
  using assms
  by (elim Run_stepE) (auto simp: Notify_def after_pass_def split: sum.splits if_splits)

section \<open>Property\<close>

text \<open>
  C32 (\<open>Runner.Notify\<close>, \<open>Runner.Run\<close> and those of \<open>DeliveryRunner\<close>): no wake-up is lost. After a notification, at
  whatever moment of a pass or of a wait it comes and whatever else happens, the loop does not wait
  again with an empty channel before a pass has started that began after the notification.
\<close>

theorem Run_no_lost_wakeup:
  assumes "(Run_step pass)\<^sup>*\<^sup>* (Notify h) h'" "HoPhase h' = Waiting" "\<not> HoNotify h'"
  shows "HoPasses h < HoPasses h'"
  using awake_steps [OF assms(1) Notify_awake] assms(2,3) by (auto simp: awake_def)

text \<open>The delivery loop on an empty engine: notified while it waits, it passes once and waits again.\<close>

definition ex_delivery :: DeliveryRunner where
  "ex_delivery = \<lparr>DrConfig = DefaultDeliveryConfig, DrClients = [], DrVerifiers = []\<rparr>"

definition ex_host :: "phase \<Rightarrow> bool \<Rightarrow> nat \<Rightarrow> Engine host" where
  "ex_host ph nt n = \<lparr>HoStore = Engine_New, HoNotify = nt, HoPhase = ph, HoPasses = n\<rparr>"

lemma ex_delivery_pass: "delivery_pass cs dt ex_delivery engine_witnesses Engine_New (Inr ()) Engine_New"
proof -
  have "ValidateTime 0 = Inr ()"
    by (simp add: ValidateTime_iff ns_per_ms_def MinPortableUnixMillis_def MaxPortableUnixMillis_def)
  then have "ws_PendingWitnesses engine_witnesses Engine_New (NormalizeTime 0) MaxWitnesses = Inr []"
    by (simp add: engine_witnesses_def PendingWitnesses_def Engine_New_def empty_State_def MaxWitnesses_def NormalizeTime_def)
  moreover have "groupsOf [] = []" by (simp add: groupsOf_def)
  ultimately have "delivery_RunOnce cs dt ex_delivery engine_witnesses (\<lambda>_. None) (\<lambda>_ d. d) 0 MaxWitnesses Engine_New
      (collect [] 0) Engine_New"
    using delivery_RunOnce.delivered [of engine_witnesses Engine_New 0 MaxWitnesses "[]" cs dt ex_delivery "\<lambda>_. None" "\<lambda>_ d. d" "[]" Engine_New "[]"]
    by simp
  then show ?thesis unfolding delivery_pass_def by (intro exI [of _ "\<lambda>_. None"] exI [of _ "\<lambda>_ d. d"] exI [of _ 0]) auto
qed

theorem Run_no_lost_wakeup_witness:
  "HoPasses (ex_host Waiting False 0) < HoPasses (ex_host Waiting False 1)"
proof (rule Run_no_lost_wakeup [where pass = "delivery_pass cose_ref dt_ref ex_delivery engine_witnesses"])
  let ?pass = "delivery_pass cose_ref dt_ref ex_delivery engine_witnesses"
  let ?step = "Run_step ?pass"
  have "?step (ex_host Waiting True 0) (ex_host Ready False 0)"
    using notified [of "ex_host Waiting True 0"] by (simp add: ex_host_def)
  moreover have "?step (ex_host Ready False 0) (ex_host Passing False 1)"
    using start [of "ex_host Ready False 0"] by (simp add: ex_host_def)
  moreover have "?step (ex_host Passing False 1) (ex_host Waiting False 1)"
    using finish [of "ex_host Passing False 1" ?pass "Inr ()" Engine_New] ex_delivery_pass [of cose_ref dt_ref]
    by (simp add: ex_host_def after_pass_def)
  moreover have "Notify (ex_host Waiting False 0) = ex_host Waiting True 0" by (simp add: Notify_def ex_host_def)
  ultimately show "?step\<^sup>*\<^sup>* (Notify (ex_host Waiting False 0)) (ex_host Waiting False 1)"
    by (metis converse_rtranclp_into_rtranclp rtranclp.rtrancl_refl)
qed (simp_all add: ex_host_def)

end
