(* ===== verification/Sql_Rows.thy ===== *)
theory Sql_Rows
  imports Wire_Json Backend_Contract
begin

text \<open>
  What \<open>store/sqlite/store.go\<close> and \<open>store/mysql/store.go\<close> have in common: the same tables, the same
  statements and, word for word, the same functions on their rows. The database is an argument, a
  record with one field per statement; its first argument is the log the statement is about. A query
  of many rows gives the rows that were read and the error that ended the reading, if any. A statement
  that changes the database returns its next state.
\<close>

section \<open>The database\<close>

text \<open>\<open>sql.ErrNoRows\<close>, an error of the driver with its code, and any other error.\<close>

datatype dbErr = NoRows | Driver int | Cll error

type_synonym 'r rows = "'r list \<times> dbErr option"
type_synonym entry_row = "uint64 \<times> bytes \<times> string"
type_synonym witness_row = "string \<times> string \<times> uint32 \<times> string"

record 'd sql =
  sql_begin :: "string \<Rightarrow> 'd \<Rightarrow> (dbErr + unit) \<times> 'd"
  sql_commit :: "'d \<Rightarrow> (dbErr + unit) \<times> 'd"
  sql_rollback :: "'d \<Rightarrow> 'd"
  sel_meta :: "string \<Rightarrow> 'd \<Rightarrow> dbErr + string"
  sel_entry_widths :: "string \<Rightarrow> 'd \<Rightarrow> dbErr + (uint64 \<times> nat \<times> string) rows"
  sel_nodes :: "string \<Rightarrow> 'd \<Rightarrow> dbErr + (uint64 \<times> bytes) rows"
  sel_witnesses :: "string \<Rightarrow> 'd \<Rightarrow> dbErr + witness_row rows"
  sel_entry :: "string \<Rightarrow> bytes \<Rightarrow> 'd \<Rightarrow> dbErr + entry_row"
  sel_max_seq :: "string \<Rightarrow> 'd \<Rightarrow> dbErr + uint64 option"
  sel_entries_after :: "string \<Rightarrow> uint64 \<Rightarrow> int \<Rightarrow> 'd \<Rightarrow> dbErr + entry_row rows"
  sel_witness :: "string \<Rightarrow> string \<Rightarrow> string \<Rightarrow> 'd \<Rightarrow> dbErr + (uint32 \<times> string)"
  sql_schema :: "'d \<Rightarrow> (dbErr + unit) \<times> 'd"
  ins_meta :: "string \<Rightarrow> string \<Rightarrow> 'd \<Rightarrow> (dbErr + unit) \<times> 'd"
  ins_entry :: "string \<Rightarrow> uint64 \<Rightarrow> bytes \<Rightarrow> string \<Rightarrow> 'd \<Rightarrow> (dbErr + unit) \<times> 'd"
  upd_meta :: "string \<Rightarrow> string \<Rightarrow> 'd \<Rightarrow> (dbErr + unit) \<times> 'd"
  ins_node :: "string \<Rightarrow> nat \<Rightarrow> bytes \<Rightarrow> 'd \<Rightarrow> (dbErr + unit) \<times> 'd"
  ins_witness :: "string \<Rightarrow> string \<Rightarrow> string \<Rightarrow> uint32 \<Rightarrow> string \<Rightarrow> 'd \<Rightarrow> (dbErr + unit) \<times> 'd"
  upd_witness :: "string \<Rightarrow> string \<Rightarrow> string \<Rightarrow> uint32 \<Rightarrow> uint32 \<Rightarrow> string \<Rightarrow> 'd \<Rightarrow> (dbErr + nat) \<times> 'd"

fun cll_result :: "'a result \<Rightarrow> dbErr + 'a" where
  "cll_result (Inl err) = Inl (Cll err)"
| "cll_result (Inr x) = Inr x"

text \<open>The error a caller sees: its class, or a message.\<close>

primrec error_of :: "dbErr \<Rightarrow> error" where
  "error_of NoRows = ErrMsg ''sql: no rows in result set''"
| "error_of (Driver code) = ErrMsg ''driver error''"
| "error_of (Cll err) = err"

definition public :: "(dbErr + 'a) \<times> 'd \<Rightarrow> 'a result \<times> 'd" where
  "public p = (case p of (Inl err, d) \<Rightarrow> (Inl (error_of err), d) | (Inr x, d) \<Rightarrow> (Inr x, d))"

section \<open>Reading rows\<close>

fun checkEntryRows :: "uint64 \<Rightarrow> (uint64 \<times> nat \<times> string) list \<Rightarrow> dbErr + unit" where
  "checkEntryRows expected [] = Inr ()"
| "checkEntryRows expected ((seq, width, timestamp) # rest) =
     (if seq \<noteq> expected \<or> seq > MaxPortableInteger \<or> width \<noteq> EntryBytes then Inl (Cll ErrCorrupt)
      else case ParseTime timestamp of
        Inl _ \<Rightarrow> Inl (Cll ErrCorrupt)
      | Inr _ \<Rightarrow> checkEntryRows (expected + 1) rest)"

definition rows_err :: "dbErr option \<Rightarrow> dbErr + unit" where
  "rows_err err = (case err of None \<Rightarrow> Inr () | Some e \<Rightarrow> Inl e)"

text \<open>\<open>classify\<close> is the driver's part, so it is an argument.\<close>

definition validateEntries :: "(dbErr \<Rightarrow> dbErr) \<Rightarrow> 'd sql \<Rightarrow> string \<Rightarrow> 'd \<Rightarrow> dbErr + unit" where
  "validateEntries classify db logID d =
     (case sel_entry_widths db logID d of
        Inl err \<Rightarrow> Inl (classify err)
      | Inr (rows, err) \<Rightarrow> rbind (checkEntryRows 1 rows) (\<lambda>_. rows_err err))"

fun collectNodes :: "uint64 \<Rightarrow> (uint64 \<times> bytes) list \<Rightarrow> dbErr + string list" where
  "collectNodes position [] = Inr []"
| "collectNodes position ((storedPosition, node) # rest) =
     (if storedPosition \<noteq> position then Inl (Cll ErrCorrupt)
      else rbind (collectNodes (position + 1) rest) (\<lambda>nodes. Inr (base64_EncodeToString node # nodes)))"

definition decodeWitnessRow :: "witness_row \<Rightarrow> dbErr + WireWitness" where
  "decodeWitnessRow row =
     (case row of (wid, sz, attempts, encoded) \<Rightarrow>
        (case json_Unmarshal WireWitness_type encoded of
           None \<Rightarrow> Inl (Cll ErrCorrupt)
         | Some x \<Rightarrow>
             let witness = WireWitness_of x
             in if WwWitnessID witness \<noteq> wid \<or> WwCheckpointSize witness \<noteq> sz \<or> WwAttempts witness \<noteq> attempts
                then Inl (Cll ErrCorrupt) else Inr witness))"

definition loadWireWitnesses :: "'d sql \<Rightarrow> string \<Rightarrow> 'd \<Rightarrow> dbErr + WireWitness list" where
  "loadWireWitnesses db logID d =
     rbind (sel_witnesses db logID d) (\<lambda>(rows, err).
     rbind (rmap decodeWitnessRow rows) (\<lambda>witnesses.
     rbind (rows_err err) (\<lambda>_. Inr witnesses)))"

definition loadState :: "'d sql \<Rightarrow> dtmmr \<Rightarrow> string \<Rightarrow> 'd \<Rightarrow> dbErr + State" where
  "loadState db dt logID d =
     (case sel_meta db logID d of
        Inl err \<Rightarrow> Inl (if err = NoRows then Cll ErrCorrupt else err)
      | Inr raw \<Rightarrow>
     case json_Unmarshal WireState_type raw of
        None \<Rightarrow> Inl (Cll ErrCorrupt)
      | Some x \<Rightarrow>
     rbind (sel_nodes db logID d) (\<lambda>(rows, err).
     rbind (collectNodes 0 rows) (\<lambda>nodes.
     rbind (rows_err err) (\<lambda>_.
     rbind (loadWireWitnesses db logID d) (\<lambda>witnesses.
       cll_result (StateFromWire dt ((WireState_of x)\<lparr>WsNodes := nodes, WsWitnesses := witnesses\<rparr>)))))))"

definition entryFromRow :: "entry_row \<Rightarrow> Entry result" where
  "entryFromRow row =
     (case row of (seq, value, timestamp) \<Rightarrow>
        if seq = 0 \<or> seq > MaxPortableInteger \<or> length value \<noteq> EntryBytes then Inl ErrCorrupt
        else case ParseTime timestamp of
          Inl _ \<Rightarrow> Inl ErrCorrupt
        | Inr appendedAt \<Rightarrow> Inr \<lparr>Seq = seq, Value = value, AppendedAt = appendedAt\<rparr>)"

section \<open>The bodies of the operations\<close>

text \<open>A statement that changes the database, then the rest.\<close>

definition exec :: "(dbErr + 'a) \<times> 'd \<Rightarrow> ('a \<Rightarrow> 'd \<Rightarrow> (dbErr + 'b) \<times> 'd) \<Rightarrow> (dbErr + 'b) \<times> 'd" where
  "exec p rest = (case p of (Inl err, d) \<Rightarrow> (Inl err, d) | (Inr x, d) \<Rightarrow> rest x d)"

definition insertEntry :: "'d sql \<Rightarrow> string \<Rightarrow> AppendInput \<Rightarrow> uint64 option \<Rightarrow> 'd \<Rightarrow> (dbErr + AppendResult) \<times> 'd" where
  "insertEntry db logID input maximum d =
     (let seq = (case maximum of None \<Rightarrow> 1 | Some m \<Rightarrow> m + 1)
      in if seq > MaxPortableInteger then (Inl (Cll ErrInvalid), d)
         else case FormatTime (InputAppendedAt input) of
           Inl _ \<Rightarrow> (Inl (Cll ErrInvalid), d)
         | Inr timestamp \<Rightarrow>
             exec (ins_entry db logID seq (InputValue input) timestamp d) (\<lambda>_ d.
               (Inr \<lparr>ResultEntry = \<lparr>Seq = seq, Value = InputValue input,
                   AppendedAt = NormalizeTime (InputAppendedAt input)\<rparr>, Outcome = AppendInserted\<rparr>, d)))"

definition appendEntry :: "'d sql \<Rightarrow> string \<Rightarrow> AppendInput \<Rightarrow> 'd \<Rightarrow> (dbErr + AppendResult) \<times> 'd" where
  "appendEntry db logID input d =
     (case sel_entry db logID (InputValue input) d of
        Inr row \<Rightarrow>
          (rbind (cll_result (entryFromRow row)) (\<lambda>entry. Inr \<lparr>ResultEntry = entry, Outcome = AppendIdempotent\<rparr>), d)
      | Inl err \<Rightarrow>
          if err \<noteq> NoRows then (Inl err, d)
          else case sel_max_seq db logID d of
            Inl err \<Rightarrow> (Inl err, d)
          | Inr maximum \<Rightarrow> insertEntry db logID input maximum d)"

definition invalidInput :: "AppendInput \<Rightarrow> bool" where
  "invalidInput input \<longleftrightarrow> length (InputValue input) \<noteq> EntryBytes \<or> isl (ValidateTime (InputAppendedAt input))"

definition getEntry :: "'d sql \<Rightarrow> string \<Rightarrow> bytes \<Rightarrow> 'd \<Rightarrow> dbErr + Entry" where
  "getEntry db logID identity d =
     (if length identity \<noteq> EntryBytes then Inl (Cll ErrInvalid)
      else case sel_entry db logID identity d of
        Inl err \<Rightarrow> Inl (if err = NoRows then Cll ErrNotFound else err)
      | Inr row \<Rightarrow> cll_result (entryFromRow row))"

definition scanEntries :: "'d sql \<Rightarrow> string \<Rightarrow> uint64 \<Rightarrow> int \<Rightarrow> 'd \<Rightarrow> dbErr + Entry list" where
  "scanEntries db logID afterSeq limit d =
     (if afterSeq > MaxPortableInteger \<or> limit < 1 \<or> limit > MaxScanLimit then Inl (Cll ErrInvalid)
      else rbind (sel_entries_after db logID afterSeq limit d) (\<lambda>(rows, err).
           rbind (rmap (\<lambda>row. cll_result (entryFromRow row)) rows) (\<lambda>result.
           rbind (rows_err err) (\<lambda>_. Inr result))))"

fun insertNodes :: "'d sql \<Rightarrow> string \<Rightarrow> nat \<Rightarrow> bytes list \<Rightarrow> 'd \<Rightarrow> (dbErr + unit) \<times> 'd" where
  "insertNodes db logID position [] d = (Inr (), d)"
| "insertNodes db logID position (node # rest) d =
     exec (ins_node db logID position node d) (\<lambda>_ d. insertNodes db logID (position + 1) rest d)"

fun insertWitnesses :: "'d sql \<Rightarrow> string \<Rightarrow> string set \<Rightarrow> WitnessState list \<Rightarrow> 'd \<Rightarrow> (dbErr + unit) \<times> 'd" where
  "insertWitnesses db logID existing [] d = (Inr (), d)"
| "insertWitnesses db logID existing (witness # rest) d =
     (if witness_key witness \<in> existing then insertWitnesses db logID existing rest d
      else case MarshalWitness witness of
        Inl err \<Rightarrow> (Inl (Cll err), d)
      | Inr encoded \<Rightarrow>
          exec (ins_witness db logID (WitnessID witness) (FormatUint (CheckpointSize witness)) (Attempts witness) encoded d)
            (\<lambda>_ d. insertWitnesses db logID existing rest d))"

definition commitState :: "'d sql \<Rightarrow> dtmmr \<Rightarrow> string \<Rightarrow> uint64 \<Rightarrow> bytes option \<Rightarrow> State \<Rightarrow> 'd \<Rightarrow> (dbErr + unit) \<times> 'd" where
  "commitState db dt logID expectedSize expectedCheckpoint next_st d =
     (case loadState db dt logID d of
        Inl err \<Rightarrow> (Inl err, d)
      | Inr current \<Rightarrow>
     case rbind (ApplyCLL dt current expectedSize expectedCheckpoint next_st) (\<lambda>updated.
            rbind (MarshalMetadata updated) (\<lambda>metadata. Inr (updated, metadata))) of
        Inl err \<Rightarrow> (Inl (Cll err), d)
      | Inr (updated, metadata) \<Rightarrow>
          exec (upd_meta db logID metadata d) (\<lambda>_ d.
          exec (insertNodes db logID (length (Nodes current)) (drop (length (Nodes current)) (Nodes updated)) d) (\<lambda>_ d.
            insertWitnesses db logID (set (map witness_key (Witnesses current))) (Witnesses updated) d)))"

definition pendingWitnesses :: "'d sql \<Rightarrow> dtmmr \<Rightarrow> string \<Rightarrow> time \<Rightarrow> int \<Rightarrow> 'd \<Rightarrow> dbErr + WitnessState list" where
  "pendingWitnesses db dt logID now limit d =
     rbind (loadWireWitnesses db logID d) (\<lambda>witnesses.
     rbind (cll_result (StateFromWire dt \<lparr>WsSize = ''0'', WsIndexedSeq = ''0'', WsNodes = [], WsFirstPendingAt = None,
         WsCheckpoint = None, WsCheckpointSize = None, WsCheckpointIndexedSeq = None, WsCheckpointPeaks = None,
         WsWitnesses = witnesses\<rparr>)) (\<lambda>state.
       case Replace dt Engine_New [] state of
         (Inl err, _) \<Rightarrow> Inl (Cll err)
       | (Inr _, e) \<Rightarrow> cll_result (PendingWitnesses e now limit)))"

definition getWitness :: "'d sql \<Rightarrow> string \<Rightarrow> string \<Rightarrow> uint64 \<Rightarrow> 'd \<Rightarrow> dbErr + WitnessState" where
  "getWitness db logID wid sz d =
     (if isl (ValidateIdentifier wid) \<or> sz = 0 then Inl (Cll ErrInvalid)
      else case sel_witness db logID wid (FormatUint sz) d of
        Inl err \<Rightarrow> Inl (if err = NoRows then Cll ErrNotFound else err)
      | Inr (attempts, encoded) \<Rightarrow>
          rbind (cll_result (UnmarshalWitness encoded)) (\<lambda>result.
            if Attempts result \<noteq> attempts \<or> WitnessID result \<noteq> wid \<or> CheckpointSize result \<noteq> sz
            then Inl (Cll ErrCorrupt) else Inr result))"

text \<open>
  The \<open>UPDATE\<close> of a witness row is guarded by the expected attempts. \<open>env\<close> stands for what other
  connections do between the \<open>SELECT\<close> and the \<open>UPDATE\<close> where the transaction does not lock them out.
\<close>

definition commitRow :: "'d sql \<Rightarrow> ('d \<Rightarrow> 'd) \<Rightarrow> string \<Rightarrow> uint32 \<Rightarrow> WitnessState \<Rightarrow> 'd \<Rightarrow> (dbErr + unit) \<times> 'd" where
  "commitRow db env logID expectedAttempts next_w d =
     (case sel_witness db logID (WitnessID next_w) (FormatUint (CheckpointSize next_w)) d of
        Inl err \<Rightarrow> (Inl (if err = NoRows then Cll ErrContention else err), d)
      | Inr (_, encodedCurrent) \<Rightarrow>
     case rbind (UnmarshalWitness encodedCurrent) (\<lambda>current.
          rbind (ApplyWitness (empty_State\<lparr>Witnesses := [current]\<rparr>) expectedAttempts next_w) (\<lambda>updated.
            MarshalWitness (Witnesses updated ! 0))) of
        Inl err \<Rightarrow> (Inl (Cll err), d)
      | Inr encoded \<Rightarrow>
          exec (upd_witness db logID (WitnessID next_w) (FormatUint (CheckpointSize next_w)) expectedAttempts
                  (Attempts next_w) encoded (env d))
            (\<lambda>changed d. if changed \<noteq> 1 then (Inl (Cll ErrContention), d) else (Inr (), d)))"

end
