(* ===== verification/Sqlite_Store.thy ===== *)
theory Sqlite_Store
  imports Sql_Rows
begin

text \<open>
  \<open>store/sqlite/store.go\<close>. A handle is a log of a database; its methods run one transaction each, under
  the lock that handles of the same database and log share in a process, so a method is one step on
  the database. The paths, the opening of the database and its pragmas are the argument \<open>os\<close>.
\<close>

section \<open>Errors and transactions\<close>

fun classify :: "dbErr \<Rightarrow> dbErr" where
  "classify (Driver code) = (if code mod 256 = 5 \<or> code mod 256 = 6 then Cll ErrContention else Driver code)"
| "classify err = err"

definition runTransaction :: "'d sql \<Rightarrow> string \<Rightarrow> ('d \<Rightarrow> (dbErr + 'a) \<times> 'd) \<Rightarrow> 'd \<Rightarrow> (dbErr + 'a) \<times> 'd" where
  "runTransaction db begin_text operation d =
     (case sql_begin db begin_text d of
        (Inl err, d) \<Rightarrow> (Inl (classify err), d)
      | (Inr _, d) \<Rightarrow>
          (case operation d of
             (Inl err, d) \<Rightarrow> (Inl (classify err), sql_rollback db d)
           | (Inr x, d) \<Rightarrow>
               (case sql_commit db d of
                  (Inl err, d) \<Rightarrow> (Inl (classify err), sql_rollback db d)
                | (Inr _, d) \<Rightarrow> (Inr x, d))))"

record SqliteStore =
  SqLogID :: string
  SqLockKey :: string
  SqClosed :: bool

definition withTransaction :: "'d sql \<Rightarrow> SqliteStore \<Rightarrow> string \<Rightarrow> ('d \<Rightarrow> (dbErr + 'a) \<times> 'd) \<Rightarrow> 'd \<Rightarrow> 'a result \<times> 'd" where
  "withTransaction db s begin_text operation d =
     (if SqClosed s then (Inl ErrClosed, d) else public (runTransaction db begin_text operation d))"

definition withRead :: "'d sql \<Rightarrow> SqliteStore \<Rightarrow> ('d \<Rightarrow> dbErr + 'a) \<Rightarrow> 'd \<Rightarrow> 'a result \<times> 'd" where
  "withRead db s operation d = withTransaction db s ''BEGIN'' (\<lambda>d. (operation d, d)) d"

definition withWrite :: "'d sql \<Rightarrow> SqliteStore \<Rightarrow> ('d \<Rightarrow> (dbErr + 'a) \<times> 'd) \<Rightarrow> 'd \<Rightarrow> 'a result \<times> 'd" where
  "withWrite db s operation d = withTransaction db s ''BEGIN IMMEDIATE'' operation d"

section \<open>Opening\<close>

text \<open>The locks that handles share: how many handles hold each.\<close>

type_synonym locks = "string \<rightharpoonup> int"

definition acquireShared :: "string \<Rightarrow> locks \<Rightarrow> locks" where
  "acquireShared key items = items(key \<mapsto> (case items key of None \<Rightarrow> 0 | Some refs \<Rightarrow> refs) + 1)"

definition releaseShared :: "string \<Rightarrow> locks \<Rightarrow> locks" where
  "releaseShared key items =
     (case items key of
        None \<Rightarrow> items
      | Some refs \<Rightarrow> if refs - 1 = 0 then items(key := None) else items(key \<mapsto> refs - 1))"

record 'd os =
  os_Abs :: "string \<Rightarrow> string option"
  os_Clean :: "string \<Rightarrow> string"
  os_Open :: "string \<Rightarrow> string \<Rightarrow> 'd \<Rightarrow> (dbErr + unit) \<times> 'd"
  os_Pragma :: "string \<Rightarrow> 'd \<Rightarrow> (dbErr + unit) \<times> 'd"

definition validateOpenState :: "'d sql \<Rightarrow> dtmmr \<Rightarrow> string \<Rightarrow> 'd \<Rightarrow> (dbErr + unit) \<times> 'd" where
  "validateOpenState db dt logID d =
     runTransaction db ''BEGIN'' (\<lambda>d.
       (rbind (validateEntries classify db logID d) (\<lambda>_. rbind (loadState db dt logID d) (\<lambda>_. Inr ())), d)) d"

definition provision :: "'d sql \<Rightarrow> 'd os \<Rightarrow> string \<Rightarrow> 'd \<Rightarrow> (dbErr + unit) \<times> 'd" where
  "provision db os logID d =
     exec (os_Pragma os ''PRAGMA journal_mode=WAL'' d) (\<lambda>_ d.
     exec (sql_schema db d) (\<lambda>_ d.
       case MarshalMetadata empty_State of
         Inl err \<Rightarrow> (Inl (Cll err), d)
       | Inr metadata \<Rightarrow> ins_meta db logID metadata d))"

definition sqlite_open :: "'d sql \<Rightarrow> 'd os \<Rightarrow> dtmmr \<Rightarrow> string \<Rightarrow> string \<Rightarrow> bool \<Rightarrow> locks \<Rightarrow> 'd
    \<Rightarrow> SqliteStore result \<times> locks \<times> 'd" where
  "sqlite_open db os dt path logID initialize items d =
     (if path = [] \<or> isl (ValidateIdentifier logID) then (Inl ErrInvalid, items, d)
      else case os_Abs os path of
        None \<Rightarrow> (Inl (ErrMsg ''resolve SQLite path''), items, d)
      | Some absolute \<Rightarrow>
          let key = os_Clean os absolute @ [CHR 0x00] @ logID;
              items = acquireShared key items
          in (case os_Open os absolute (if initialize then ''rwc'' else ''rw'') d of
                (Inl err, d) \<Rightarrow> (Inl (error_of err), releaseShared key items, d)
              | (Inr _, d) \<Rightarrow>
                  (case exec (os_Pragma os ''PRAGMA foreign_keys=ON'' d) (\<lambda>_ d.
                        exec (os_Pragma os ''PRAGMA busy_timeout=5000'' d) (\<lambda>_ d.
                        exec (if initialize then provision db os logID d else (Inr (), d)) (\<lambda>_ d.
                          validateOpenState db dt logID d))) of
                     (Inl err, d) \<Rightarrow> (Inl (error_of (classify err)), releaseShared key items, d)
                   | (Inr _, d) \<Rightarrow> (Inr \<lparr>SqLogID = logID, SqLockKey = key, SqClosed = False\<rparr>, items, d))))"

definition sqlite_Open :: "'d sql \<Rightarrow> 'd os \<Rightarrow> dtmmr \<Rightarrow> string \<Rightarrow> string \<Rightarrow> locks \<Rightarrow> 'd
    \<Rightarrow> SqliteStore result \<times> locks \<times> 'd" where
  "sqlite_Open db os dt path logID items d = sqlite_open db os dt path logID False items d"

text \<open>\<open>Close\<close>; what \<open>sql.DB.Close\<close> answers is an argument.\<close>

definition sqlite_Close :: "unit result \<Rightarrow> SqliteStore \<Rightarrow> locks \<Rightarrow> unit result \<times> SqliteStore \<times> locks" where
  "sqlite_Close closeErr s items =
     (if SqClosed s then (Inr (), s, items)
      else (closeErr, s\<lparr>SqClosed := True\<rparr>, releaseShared (SqLockKey s) items))"

definition sqlite_Init :: "'d sql \<Rightarrow> 'd os \<Rightarrow> dtmmr \<Rightarrow> unit result \<Rightarrow> string \<Rightarrow> string \<Rightarrow> locks \<Rightarrow> 'd
    \<Rightarrow> unit result \<times> locks \<times> 'd" where
  "sqlite_Init db os dt closeErr path logID items d =
     (case sqlite_open db os dt path logID True items d of
        (Inl err, items, d) \<Rightarrow> (Inl err, items, d)
      | (Inr s, items, d) \<Rightarrow> (case sqlite_Close closeErr s items of (r, _, items) \<Rightarrow> (r, items, d)))"

section \<open>Operations\<close>

definition sqlite_Append :: "'d sql \<Rightarrow> SqliteStore \<Rightarrow> AppendInput \<Rightarrow> 'd \<Rightarrow> AppendResult result \<times> 'd" where
  "sqlite_Append db s input d =
     withWrite db s (\<lambda>d. if invalidInput input then (Inl (Cll ErrInvalid), d) else appendEntry db (SqLogID s) input d) d"

definition sqlite_GetEntry :: "'d sql \<Rightarrow> SqliteStore \<Rightarrow> bytes \<Rightarrow> 'd \<Rightarrow> Entry result \<times> 'd" where
  "sqlite_GetEntry db s identity d = withRead db s (getEntry db (SqLogID s) identity) d"

definition sqlite_ScanEntries :: "'d sql \<Rightarrow> SqliteStore \<Rightarrow> uint64 \<Rightarrow> int \<Rightarrow> 'd \<Rightarrow> Entry list result \<times> 'd" where
  "sqlite_ScanEntries db s afterSeq limit d = withRead db s (scanEntries db (SqLogID s) afterSeq limit) d"

definition sqlite_LoadCLL :: "'d sql \<Rightarrow> dtmmr \<Rightarrow> SqliteStore \<Rightarrow> 'd \<Rightarrow> State result \<times> 'd" where
  "sqlite_LoadCLL db dt s d = withRead db s (loadState db dt (SqLogID s)) d"

definition sqlite_CommitCLL :: "'d sql \<Rightarrow> dtmmr \<Rightarrow> SqliteStore \<Rightarrow> uint64 \<Rightarrow> bytes option \<Rightarrow> State \<Rightarrow> 'd \<Rightarrow> unit result \<times> 'd" where
  "sqlite_CommitCLL db dt s expectedSize expectedCheckpoint next_st d =
     withWrite db s (commitState db dt (SqLogID s) expectedSize expectedCheckpoint next_st) d"

definition sqlite_PendingWitnesses :: "'d sql \<Rightarrow> dtmmr \<Rightarrow> SqliteStore \<Rightarrow> time \<Rightarrow> int \<Rightarrow> 'd \<Rightarrow> WitnessState list result \<times> 'd" where
  "sqlite_PendingWitnesses db dt s now limit d = withRead db s (pendingWitnesses db dt (SqLogID s) now limit) d"

definition sqlite_GetWitness :: "'d sql \<Rightarrow> SqliteStore \<Rightarrow> string \<Rightarrow> uint64 \<Rightarrow> 'd \<Rightarrow> WitnessState result \<times> 'd" where
  "sqlite_GetWitness db s wid sz d = withRead db s (getWitness db (SqLogID s) wid sz) d"

text \<open>\<open>BEGIN IMMEDIATE\<close> keeps every other writer out, so nothing happens between the statements.\<close>

definition sqlite_CommitWitness :: "'d sql \<Rightarrow> SqliteStore \<Rightarrow> uint32 \<Rightarrow> WitnessState \<Rightarrow> 'd \<Rightarrow> unit result \<times> 'd" where
  "sqlite_CommitWitness db s expectedAttempts next_w d =
     withWrite db s (commitRow db id (SqLogID s) expectedAttempts next_w) d"

end
