(* ===== verification/Mysql_Store.thy ===== *)
theory Mysql_Store
  imports Sql_Rows
begin

text \<open>
  \<open>store/mysql/store.go\<close>. The functions on rows are those of \<open>Sql_Rows\<close>, which this package repeats;
  its own are the transactions, the lock on the metadata row, and opening. Reads of entries and
  witnesses run outside a transaction. The connection is the argument \<open>connect\<close>.
\<close>

section \<open>Errors and transactions\<close>

fun mysql_classify :: "dbErr \<Rightarrow> dbErr" where
  "mysql_classify (Driver number) = (if number = 1062 \<or> number = 1205 \<or> number = 1213 then Cll ErrContention else Driver number)"
| "mysql_classify err = err"

record MysqlStore =
  MyLogID :: string
  MyClosed :: bool

definition mysql_write :: "'d sql \<Rightarrow> MysqlStore \<Rightarrow> ('d \<Rightarrow> (dbErr + 'a) \<times> 'd) \<Rightarrow> 'd \<Rightarrow> 'a result \<times> 'd" where
  "mysql_write db s operation d =
     (if MyClosed s then (Inl ErrClosed, d)
      else public (case sql_begin db [] d of
        (Inl err, d) \<Rightarrow> (Inl (mysql_classify err), d)
      | (Inr _, d) \<Rightarrow>
          (case operation d of
             (Inl err, d) \<Rightarrow> (Inl (mysql_classify err), sql_rollback db d)
           | (Inr x, d) \<Rightarrow>
               (case sql_commit db d of
                  (Inl err, d) \<Rightarrow> (Inl (mysql_classify err), sql_rollback db d)
                | (Inr _, d) \<Rightarrow> (Inr x, d)))))"

definition mysql_readState :: "'d sql \<Rightarrow> dtmmr \<Rightarrow> MysqlStore \<Rightarrow> 'd \<Rightarrow> State result \<times> 'd" where
  "mysql_readState db dt s d =
     (if MyClosed s then (Inl ErrClosed, d)
      else public (case sql_begin db ''READ ONLY'' d of
        (Inl err, d) \<Rightarrow> (Inl (mysql_classify err), d)
      | (Inr _, d) \<Rightarrow>
          (case loadState db dt (MyLogID s) d of
             Inl err \<Rightarrow> (Inl (mysql_classify err), sql_rollback db d)
           | Inr st \<Rightarrow>
               (case sql_commit db d of
                  (Inl err, d) \<Rightarrow> (Inl (mysql_classify err), sql_rollback db d)
                | (Inr _, d) \<Rightarrow> (Inr st, d)))))"

definition mysql_read :: "MysqlStore \<Rightarrow> ('d \<Rightarrow> dbErr + 'a) \<Rightarrow> 'd \<Rightarrow> 'a result" where
  "mysql_read s operation d =
     (if MyClosed s then Inl ErrClosed
      else case operation d of Inl err \<Rightarrow> Inl (error_of (mysql_classify err)) | Inr x \<Rightarrow> Inr x)"

text \<open>\<open>SELECT ... FOR UPDATE\<close>: the lock keeps other appends and commits of the log out until the transaction ends.\<close>

definition lockMetadata :: "'d sql \<Rightarrow> string \<Rightarrow> 'd \<Rightarrow> dbErr + unit" where
  "lockMetadata db logID d = rbind (sel_meta db logID d) (\<lambda>_. Inr ())"

section \<open>Opening\<close>

definition openDatabase :: "(string \<Rightarrow> 'd \<Rightarrow> (dbErr + unit) \<times> 'd) \<Rightarrow> string \<Rightarrow> string \<Rightarrow> 'd \<Rightarrow> unit result \<times> 'd" where
  "openDatabase connect dsn logID d =
     (if dsn = [] \<or> isl (ValidateIdentifier logID) then (Inl ErrInvalid, d) else public (connect dsn d))"

definition validated :: "'d sql \<Rightarrow> dtmmr \<Rightarrow> string \<Rightarrow> 'd \<Rightarrow> MysqlStore result \<times> 'd" where
  "validated db dt logID d =
     (let store = \<lparr>MyLogID = logID, MyClosed = False\<rparr>
      in case validateEntries mysql_classify db logID d of
           Inl err \<Rightarrow> (Inl (error_of err), d)
         | Inr _ \<Rightarrow>
             (case mysql_readState db dt store d of
                (Inl err, d) \<Rightarrow> (Inl err, d)
              | (Inr _, d) \<Rightarrow> (Inr store, d)))"

definition initialize :: "'d sql \<Rightarrow> dtmmr \<Rightarrow> string \<Rightarrow> 'd \<Rightarrow> unit result \<times> 'd" where
  "initialize db dt logID d =
     (case sql_schema db d of
        (Inl err, d) \<Rightarrow> (Inl (error_of (mysql_classify err)), d)
      | (Inr _, d) \<Rightarrow>
     case MarshalMetadata empty_State of
        Inl err \<Rightarrow> (Inl err, d)
      | Inr metadata \<Rightarrow>
     case ins_meta db logID metadata d of
        (Inl err, d) \<Rightarrow> (Inl (error_of (mysql_classify err)), d)
      | (Inr _, d) \<Rightarrow>
     case validated db dt logID d of
        (Inl err, d) \<Rightarrow> (Inl err, d)
      | (Inr _, d) \<Rightarrow> (Inr (), d))"

text \<open>\<open>Init\<close> closes the database whatever happened; what \<open>sql.DB.Close\<close> answers is an argument.\<close>

definition mysql_Init :: "'d sql \<Rightarrow> (string \<Rightarrow> 'd \<Rightarrow> (dbErr + unit) \<times> 'd) \<Rightarrow> dtmmr \<Rightarrow> unit result \<Rightarrow> string \<Rightarrow> string \<Rightarrow> 'd
    \<Rightarrow> unit result \<times> 'd" where
  "mysql_Init db connect dt closeErr dsn logID d =
     (case openDatabase connect dsn logID d of
        (Inl err, d) \<Rightarrow> (Inl err, d)
      | (Inr _, d) \<Rightarrow> (case initialize db dt logID d of (r, d) \<Rightarrow> (rbind r (\<lambda>_. closeErr), d)))"

definition mysql_Open :: "'d sql \<Rightarrow> (string \<Rightarrow> 'd \<Rightarrow> (dbErr + unit) \<times> 'd) \<Rightarrow> dtmmr \<Rightarrow> string \<Rightarrow> string \<Rightarrow> 'd
    \<Rightarrow> MysqlStore result \<times> 'd" where
  "mysql_Open db connect dt dsn logID d =
     (case openDatabase connect dsn logID d of
        (Inl err, d) \<Rightarrow> (Inl err, d)
      | (Inr _, d) \<Rightarrow> validated db dt logID d)"

definition mysql_Close :: "unit result \<Rightarrow> MysqlStore \<Rightarrow> unit result \<times> MysqlStore" where
  "mysql_Close closeErr s = (if MyClosed s then (Inr (), s) else (closeErr, s\<lparr>MyClosed := True\<rparr>))"

section \<open>Operations\<close>

definition mysql_Append :: "'d sql \<Rightarrow> MysqlStore \<Rightarrow> AppendInput \<Rightarrow> 'd \<Rightarrow> AppendResult result \<times> 'd" where
  "mysql_Append db s input d =
     mysql_write db s (\<lambda>d.
       if invalidInput input then (Inl (Cll ErrInvalid), d)
       else case lockMetadata db (MyLogID s) d of
         Inl err \<Rightarrow> (Inl err, d)
       | Inr _ \<Rightarrow> appendEntry db (MyLogID s) input d) d"

definition mysql_GetEntry :: "'d sql \<Rightarrow> MysqlStore \<Rightarrow> bytes \<Rightarrow> 'd \<Rightarrow> Entry result" where
  "mysql_GetEntry db s identity d = mysql_read s (getEntry db (MyLogID s) identity) d"

definition mysql_ScanEntries :: "'d sql \<Rightarrow> MysqlStore \<Rightarrow> uint64 \<Rightarrow> int \<Rightarrow> 'd \<Rightarrow> Entry list result" where
  "mysql_ScanEntries db s afterSeq limit d = mysql_read s (scanEntries db (MyLogID s) afterSeq limit) d"

definition mysql_LoadCLL :: "'d sql \<Rightarrow> dtmmr \<Rightarrow> MysqlStore \<Rightarrow> 'd \<Rightarrow> State result \<times> 'd" where
  "mysql_LoadCLL db dt s d = mysql_readState db dt s d"

definition mysql_CommitCLL :: "'d sql \<Rightarrow> dtmmr \<Rightarrow> MysqlStore \<Rightarrow> uint64 \<Rightarrow> bytes option \<Rightarrow> State \<Rightarrow> 'd \<Rightarrow> unit result \<times> 'd" where
  "mysql_CommitCLL db dt s expectedSize expectedCheckpoint next_st d =
     mysql_write db s (commitState db dt (MyLogID s) expectedSize expectedCheckpoint next_st) d"

definition mysql_PendingWitnesses :: "'d sql \<Rightarrow> dtmmr \<Rightarrow> MysqlStore \<Rightarrow> time \<Rightarrow> int \<Rightarrow> 'd \<Rightarrow> WitnessState list result" where
  "mysql_PendingWitnesses db dt s now limit d = mysql_read s (pendingWitnesses db dt (MyLogID s) now limit) d"

definition mysql_GetWitness :: "'d sql \<Rightarrow> MysqlStore \<Rightarrow> string \<Rightarrow> uint64 \<Rightarrow> 'd \<Rightarrow> WitnessState result" where
  "mysql_GetWitness db s wid sz d = mysql_read s (getWitness db (MyLogID s) wid sz) d"

text \<open>The transaction takes no lock before the \<open>UPDATE\<close>: \<open>env\<close> is what others commit between the statements.\<close>

definition mysql_CommitWitness :: "'d sql \<Rightarrow> ('d \<Rightarrow> 'd) \<Rightarrow> MysqlStore \<Rightarrow> uint32 \<Rightarrow> WitnessState \<Rightarrow> 'd \<Rightarrow> unit result \<times> 'd" where
  "mysql_CommitWitness db env s expectedAttempts next_w d =
     mysql_write db s (commitRow db env (MyLogID s) expectedAttempts next_w) d"

end
