(* ===== verification/Sql_Laws.thy ===== *)
theory Sql_Laws
  imports Sqlite_Store Mysql_Store "HOL-Library.Multiset"
begin

text \<open>
  What the SQL stores rely on of their databases, as a locale: what the tables of a log hold, what each
  statement reads and changes of them when it succeeds, and that transactions can be rolled back. A
  statement may fail at any time; it then changes nothing. From these laws: what a commit leaves in
  the tables is what \<open>LoadCLL\<close> reads, and an operation that fails leaves the tables as they were.
\<close>

section \<open>Tables\<close>

record log_tables =
  lt_meta :: "string option"
  lt_entries :: "entry_row list"
  lt_nodes :: "(uint64 \<times> bytes) list"
  lt_witnesses :: "witness_row list"

type_synonym tables = "string \<Rightarrow> log_tables"

definition guarded_row :: "string \<Rightarrow> string \<Rightarrow> uint32 \<Rightarrow> witness_row \<Rightarrow> bool" where
  "guarded_row wid sz expected row \<longleftrightarrow> (case row of (w, z, a, _) \<Rightarrow> w = wid \<and> z = sz \<and> a = expected)"

definition set_row :: "string \<Rightarrow> string \<Rightarrow> uint32 \<Rightarrow> uint32 \<Rightarrow> string \<Rightarrow> witness_row \<Rightarrow> witness_row" where
  "set_row wid sz expected attempts encoded row =
     (if guarded_row wid sz expected row then (wid, sz, attempts, encoded) else row)"

text \<open>
  The laws. Text columns compare as bytes. \<open>ORDER BY\<close> on a primary key of numbers is the order the
  table keeps; the order of witness rows is left open, since it depends on the collation. An \<open>UPDATE\<close>
  counts the rows it found, or those it changed, as drivers do either. The errors of the classes of
  \<open>cll/errors.go\<close> are the program's, so no query ends with one, nor does
  \<open>BEGIN\<close> or \<open>COMMIT\<close>.
\<close>

locale sql_lib =
  fixes db :: "'d sql" and tab saved :: "'d \<Rightarrow> tables"
  assumes begin_ok: "sql_begin db t d = (Inr u, d') \<Longrightarrow> tab d' = tab d \<and> saved d' = tab d"
    and begin_err: "sql_begin db t d = (Inl err, d') \<Longrightarrow> tab d' = tab d"
    and commit_ok: "sql_commit db d = (Inr u, d') \<Longrightarrow> tab d' = tab d"
    and commit_err: "sql_commit db d = (Inl err, d') \<Longrightarrow> saved d' = saved d \<or> saved d' = tab d"
    and rollback: "tab (sql_rollback db d) = saved d"
    and meta: "sel_meta db l d = Inr raw \<Longrightarrow> lt_meta (tab d l) = Some raw"
    and widths: "sel_entry_widths db l d = Inr (wds, None) \<Longrightarrow> wds = map (\<lambda>(sq, v, ts). (sq, length v, ts)) (lt_entries (tab d l))"
    and nodes: "sel_nodes db l d = Inr (ns, None) \<Longrightarrow> ns = lt_nodes (tab d l)"
    and witnesses: "sel_witnesses db l d = Inr (ws, None) \<Longrightarrow> ws = lt_witnesses (tab d l)"
    and entry: "sel_entry db l v d = Inr row \<Longrightarrow> row \<in> set (lt_entries (tab d l)) \<and> fst (snd row) = v"
    and no_entry: "sel_entry db l v d = Inl NoRows \<Longrightarrow> v \<notin> (fst \<circ> snd) ` set (lt_entries (tab d l))"
    and max_seq: "sel_max_seq db l d = Inr mx \<Longrightarrow>
      mx = (if lt_entries (tab d l) = [] then None else Some (fst (last (lt_entries (tab d l)))))"
    and entries_after: "sel_entries_after db l sq lim d = Inr (rows, None) \<Longrightarrow>
      rows = take (nat lim) (filter (\<lambda>row. sq < fst row) (lt_entries (tab d l)))"
    and no_cll: "sel_entry db l v d \<noteq> Inl (Cll cls)" "sel_witness db l w z d \<noteq> Inl (Cll cls)"
      "fst (sql_begin db t d) \<noteq> Inl (Cll cls)" "fst (sql_commit db d) \<noteq> Inl (Cll cls)"
    and no_witness: "sel_witness db l w z d = Inl NoRows \<Longrightarrow> (w, z, a, enc) \<notin> set (lt_witnesses (tab d l))"
    and witness: "sel_witness db l w z d = Inr (a, enc) \<Longrightarrow> (w, z, a, enc) \<in> set (lt_witnesses (tab d l))"
    and schema_ok: "sql_schema db d = (r, d') \<Longrightarrow> tab d' = tab d"
    and ins_meta_ok: "ins_meta db l m d = (Inr u, d') \<Longrightarrow>
      tab d' = (tab d)(l := (tab d l)\<lparr>lt_meta := Some (case lt_meta (tab d l) of None \<Rightarrow> m | Some x \<Rightarrow> x)\<rparr>)"
    and ins_entry_ok: "ins_entry db l sq v ts d = (Inr u, d') \<Longrightarrow> saved d' = saved d \<and>
      tab d' = (tab d)(l := (tab d l)\<lparr>lt_entries := insort_key fst (sq, v, ts) (lt_entries (tab d l))\<rparr>)"
    and upd_meta_ok: "upd_meta db l m d = (Inr u, d') \<Longrightarrow> saved d' = saved d \<and>
      tab d' = (tab d)(l := (tab d l)\<lparr>lt_meta := map_option (\<lambda>_. m) (lt_meta (tab d l))\<rparr>)"
    and ins_node_ok: "ins_node db l p nd d = (Inr u, d') \<Longrightarrow> saved d' = saved d \<and>
      tab d' = (tab d)(l := (tab d l)\<lparr>lt_nodes := insort_key fst (of_nat p, nd) (lt_nodes (tab d l))\<rparr>)"
    and ins_witness_ok: "ins_witness db l w z a enc d = (Inr u, d') \<Longrightarrow> saved d' = saved d \<and>
      (\<exists>rows. mset rows = add_mset (w, z, a, enc) (mset (lt_witnesses (tab d l)))
        \<and> tab d' = (tab d)(l := (tab d l)\<lparr>lt_witnesses := rows\<rparr>))"
    and upd_witness_ok: "upd_witness db l w z a a' enc d = (Inr k, d') \<Longrightarrow> saved d' = saved d \<and>
      (k = length (filter (guarded_row w z a) (lt_witnesses (tab d l)))
        \<or> k = length (filter (\<lambda>row. set_row w z a a' enc row \<noteq> row) (lt_witnesses (tab d l)))) \<and>
      tab d' = (tab d)(l := (tab d l)\<lparr>lt_witnesses := map (set_row w z a a' enc) (lt_witnesses (tab d l))\<rparr>)"
    and ins_entry_err: "ins_entry db l sq v ts d = (Inl err, d') \<Longrightarrow> tab d' = tab d \<and> saved d' = saved d"
    and upd_meta_err: "upd_meta db l m d = (Inl err, d') \<Longrightarrow> tab d' = tab d \<and> saved d' = saved d"
    and ins_node_err: "ins_node db l p nd d = (Inl err, d') \<Longrightarrow> tab d' = tab d \<and> saved d' = saved d"
    and ins_witness_err: "ins_witness db l w z a enc d = (Inl err, d') \<Longrightarrow> tab d' = tab d \<and> saved d' = saved d"
    and upd_witness_err: "upd_witness db l w z a a' enc d = (Inl err, d') \<Longrightarrow> tab d' = tab d \<and> saved d' = saved d"

section \<open>What tables say\<close>

definition row_witness :: "witness_row \<Rightarrow> dbErr + WitnessState" where
  "row_witness row = rbind (decodeWitnessRow row) (\<lambda>w. cll_result (WitnessFromWire w))"

definition table_state :: "dtmmr \<Rightarrow> log_tables \<Rightarrow> dbErr + State" where
  "table_state dt t =
     (case Option.bind (lt_meta t) (json_Unmarshal WireState_type) of
        None \<Rightarrow> Inl (Cll ErrCorrupt)
      | Some x \<Rightarrow>
          rbind (collectNodes 0 (lt_nodes t)) (\<lambda>nodes.
          rbind (rmap decodeWitnessRow (lt_witnesses t)) (\<lambda>witnesses.
            cll_result (StateFromWire dt ((WireState_of x)\<lparr>WsNodes := nodes, WsWitnesses := witnesses\<rparr>)))))"

lemma cll_result_Inr [simp]: "cll_result r = Inr x \<longleftrightarrow> r = Inr x"
  by (cases r) simp_all

lemma rows_err_Inr [simp]: "rows_err err = Inr u \<longleftrightarrow> err = None"
  by (cases err) (simp_all add: rows_err_def)

text \<open>A state is read field by field: the metadata, the nodes and the rows do not depend on each other.\<close>

definition metaFromWire :: "WireState \<Rightarrow> State result" where
  "metaFromWire wire = stateFromWire (wire\<lparr>WsNodes := [], WsWitnesses := []\<rparr>)"

lemma stateFromWire_split:
  "stateFromWire (wire\<lparr>WsNodes := ns, WsWitnesses := ws\<rparr>) = Inr st \<longleftrightarrow>
     (\<exists>st0 nds wits. metaFromWire wire = Inr st0 \<and> rmap decodeNode ns = Inr nds
        \<and> rmap WitnessFromWire ws = Inr wits \<and> st = st0\<lparr>Nodes := nds, Witnesses := wits\<rparr>)"
proof -
  have "checkpointFromWire (wire\<lparr>WsNodes := ns, WsWitnesses := ws\<rparr>) = checkpointFromWire wire" for ns ws
  proof -
    let ?w = "wire\<lparr>WsNodes := ns, WsWitnesses := ws\<rparr>"
    have f: "WsCheckpoint ?w = WsCheckpoint wire" "WsCheckpointSize ?w = WsCheckpointSize wire"
      "WsCheckpointIndexedSeq ?w = WsCheckpointIndexedSeq wire" "WsCheckpointPeaks ?w = WsCheckpointPeaks wire"
      by simp_all
    show ?thesis unfolding checkpointFromWire_def f ..
  qed
  then show ?thesis
    by (cases "parseDecimal (WsSize wire)"; cases "parseDecimal (WsIndexedSeq wire)")
      (auto simp: metaFromWire_def stateFromWire_def rbind_Inr_iff)
qed

lemma collectNodes_Inr:
  "collectNodes p ns = Inr nds \<longleftrightarrow> map fst ns = map (\<lambda>i. p + of_nat i) [0..<length ns] \<and>
     nds = map (base64_EncodeToString \<circ> snd) ns"
proof (induction ns arbitrary: p nds)
  case (Cons n ns)
  obtain q b where n: "n = (q, b)" by (cases n)
  have up: "map (\<lambda>i. p + of_nat i) [0..<length (n # ns)] = p # map (\<lambda>i. p + 1 + of_nat i) [0..<length ns]"
    by (simp add: upt_conv_Cons map_Suc_upt [symmetric] o_def add.assoc del: upt_Suc)
  show ?case unfolding up using Cons [of "p + 1"] n by (auto simp: rbind_Inr_iff)
qed auto

lemma rmap_rows:
  "rmap row_witness rows = Inr wits \<longleftrightarrow>
    (\<exists>ws. rmap decodeWitnessRow rows = Inr ws \<and> rmap WitnessFromWire ws = Inr wits)"
proof (induction rows arbitrary: wits)
  case (Cons row rows)
  show ?case using Cons by (auto simp: rbind_Inr_iff row_witness_def)
qed simp

lemma table_state_Inr:
  "table_state dt t = Inr st \<longleftrightarrow>
     (\<exists>x st0 wits. Option.bind (lt_meta t) (json_Unmarshal WireState_type) = Some x
        \<and> metaFromWire (WireState_of x) = Inr st0
        \<and> map fst (lt_nodes t) = map of_nat [0..<length (lt_nodes t)]
        \<and> rmap row_witness (lt_witnesses t) = Inr wits
        \<and> st = st0\<lparr>Nodes := map snd (lt_nodes t), Witnesses := wits\<rparr> \<and> valid_state dt st)"
proof -
  have dec: "rmap decodeNode (map (base64_EncodeToString \<circ> snd) ns) = Inr (map snd ns)" for ns :: "(uint64 \<times> bytes) list"
    using rmap_decodeNode [of "map snd ns"] by simp
  show ?thesis
  proof (cases "Option.bind (lt_meta t) (json_Unmarshal WireState_type)")
    case (Some x)
    let ?w = "WireState_of x"
    have "table_state dt t = Inr st \<longleftrightarrow> (\<exists>nds ws. collectNodes 0 (lt_nodes t) = Inr nds
        \<and> rmap decodeWitnessRow (lt_witnesses t) = Inr ws
        \<and> stateFromWire (?w\<lparr>WsNodes := nds, WsWitnesses := ws\<rparr>) = Inr st \<and> valid_state dt st)"
      unfolding table_state_def Some option.case rbind_Inr_iff cll_result_Inr StateFromWire_def by (auto simp: validateState_iff)
    also have "\<dots> \<longleftrightarrow> (\<exists>st0 wits. metaFromWire ?w = Inr st0
        \<and> map fst (lt_nodes t) = map of_nat [0..<length (lt_nodes t)] \<and> rmap row_witness (lt_witnesses t) = Inr wits
        \<and> st = st0\<lparr>Nodes := map snd (lt_nodes t), Witnesses := wits\<rparr> \<and> valid_state dt st)"
      unfolding collectNodes_Inr stateFromWire_split [where wire = ?w] rmap_rows by (simp add: dec) blast
    finally show ?thesis unfolding Some option.inject by blast
  qed (simp add: table_state_def)
qed

section \<open>Rows of a commit\<close>

definition encoded_row :: "WitnessState \<Rightarrow> witness_row" where
  "encoded_row w = (WitnessID w, FormatUint (CheckpointSize w), Attempts w, projr (MarshalWitness w))"

lemma encoded_row_witness:
  assumes "valid_witness w" "utf8_row w"
  shows "row_witness (encoded_row w) = Inr (norm_witness w)" "MarshalWitness w = Inr (projr (MarshalWitness w))"
proof -
  obtain wire where wire: "WitnessToWire w = Inr wire" using WitnessToWire_total [OF valid_witness_time [OF assms(1)]] .
  have js: "json_Unmarshal WireWitness_type (json_Marshal WireWitness_type (WireWitness_value wire)) = Some (WireWitness_value wire)"
    by (rule json_Unmarshal_Marshal) (simp_all add: WireWitness_fits [OF wire assms] maxNestingDepth_def)
  have "WwWitnessID wire = WitnessID w" "WwCheckpointSize wire = FormatUint (CheckpointSize w)" "WwAttempts wire = Attempts w"
    using wire by (auto simp: WitnessToWire_def rbind_Inr_iff Let_def split: option.splits)
  then show "row_witness (encoded_row w) = Inr (norm_witness w)" "MarshalWitness w = Inr (projr (MarshalWitness w))"
    using js WitnessFromWire_ToWire [OF wire assms(1)]
    by (simp_all add: row_witness_def encoded_row_def decodeWitnessRow_def MarshalWitness_def wire)
qed

lemma metadata_reads:
  assumes "valid_state dt s" "MarshalMetadata s = Inr metadata"
  obtains x where "json_Unmarshal WireState_type metadata = Some x"
    "metaFromWire (WireState_of x) = Inr (norm_state (s\<lparr>Nodes := [], Witnesses := []\<rparr>))"
proof -
  let ?s = "s\<lparr>Nodes := [], Witnesses := []\<rparr>"
  obtain wire where w: "StateToWire ?s = Inr wire" "stateFromWire wire = Inr (norm_state ?s)"
    using stateFromWire_ToWire [of ?s] assms(1) by (auto simp: valid_state_def valid_metadata_def)
  have "metadata = json_Marshal WireState_type (WireState_value wire)" using assms(2) w(1) by (simp add: MarshalMetadata_def)
  moreover have "fits WireState_type (WireState_value wire)" by (rule WireState_fits [OF w(1)]) simp_all
  ultimately have "json_Unmarshal WireState_type metadata = Some (WireState_value wire)"
    by (simp add: json_Unmarshal_Marshal maxNestingDepth_def)
  moreover have "wire\<lparr>WsNodes := [], WsWitnesses := []\<rparr> = wire" using w(1) by (auto simp: StateToWire_def rbind_Inr_iff)
  ultimately show ?thesis using that [of "WireState_value wire"] w(2) by (simp add: metaFromWire_def)
qed

lemma insort_last: "(\<And>y. y \<in> set ys \<Longrightarrow> f y < f x) \<Longrightarrow> insort_key f x ys = ys @ [x]"
  by (induction ys) (auto simp: not_le [symmetric])

text \<open>Two states with the same rows, perhaps in another order.\<close>

definition same_state :: "State \<Rightarrow> State \<Rightarrow> bool" where
  "same_state a b \<longleftrightarrow> a\<lparr>Witnesses := []\<rparr> = b\<lparr>Witnesses := []\<rparr> \<and> mset (Witnesses a) = mset (Witnesses b)"

lemma same_state_valid:
  assumes "same_state a b" "valid_state dt b"
  shows "valid_state dt a"
proof -
  have "a = b\<lparr>Witnesses := Witnesses a\<rparr>" using assms(1) by (cases a; cases b) (simp add: same_state_def)
  moreover have "distinct_keys (Witnesses a)" "list_all valid_witness (Witnesses a)"
  proof -
    have m: "mset (Witnesses a) = mset (Witnesses b)" using assms(1) by (simp add: same_state_def)
    then have "mset (map witness_key (Witnesses a)) = mset (map witness_key (Witnesses b))" by simp
    then show "distinct_keys (Witnesses a)"
      using assms(2) unfolding distinct_keys_def valid_state_def valid_metadata_def by (metis mset_eq_imp_distinct_iff)
    show "list_all valid_witness (Witnesses a)"
      using assms(2) mset_eq_setD [OF m] by (simp add: valid_state_def valid_metadata_def list_all_iff)
  qed
  ultimately show ?thesis using valid_state_witnesses [OF assms(2)] by metis
qed

lemma rmap_total: "rmap f xs = Inr ys \<longleftrightarrow> (\<forall>x \<in> set xs. \<not> isl (f x)) \<and> ys = map (projr \<circ> f) xs"
proof (induction xs arbitrary: ys)
  case (Cons x xs)
  then show ?case by (cases "f x") (auto simp: rbind_Inr_iff)
qed auto

context sql_lib
begin

lemma loadState_table:
  assumes "loadState db dt l d = Inr st"
  shows "table_state dt (tab d l) = Inr st"
proof -
  obtain raw x ns nds ws where
    r: "sel_meta db l d = Inr raw" "json_Unmarshal WireState_type raw = Some x" "sel_nodes db l d = Inr (ns, None)"
      "collectNodes 0 ns = Inr nds" "loadWireWitnesses db l d = Inr ws"
      "StateFromWire dt ((WireState_of x)\<lparr>WsNodes := nds, WsWitnesses := ws\<rparr>) = Inr st"
    using assms by (auto simp: loadState_def rbind_Inr_iff split: sum.splits option.splits)
  obtain rows where rows: "sel_witnesses db l d = Inr (rows, None)" "rmap decodeWitnessRow rows = Inr ws"
    using r(5) by (auto simp: loadWireWitnesses_def rbind_Inr_iff)
  show ?thesis using r meta [OF r(1)] nodes [OF r(3)] witnesses [OF rows(1)] rows(2) by (simp add: table_state_def)
qed

lemma insertNodes_tab:
  assumes "insertNodes db l k ns d = (Inr u, d')" "map fst (lt_nodes (tab d l)) = map of_nat [0..<k]" "k + length ns < 2 ^ 64"
  shows "saved d' = saved d \<and> tab d' = (tab d)(l := (tab d l)\<lparr>lt_nodes := lt_nodes (tab d l)
    @ map (\<lambda>i. (of_nat (k + i), ns ! i)) [0..<length ns]\<rparr>)"
  using assms
proof (induction ns arbitrary: k d)
  case (Cons n ns)
  obtain d1 where d1: "ins_node db l k n d = (Inr (), d1)" "insertNodes db l (k + 1) ns d1 = (Inr u, d')"
    using Cons.prems(1) by (auto simp: exec_def split: prod.splits sum.splits)
  have "fst y < of_nat k" if "y \<in> set (lt_nodes (tab d l))" for y
  proof -
    have "fst y \<in> of_nat ` {0..<k}" using that Cons.prems(2) by (metis image_eqI image_set set_map set_upt atLeastLessThan_upt)
    then obtain i where "fst y = of_nat i" "i < k" by auto
    then show ?thesis using Cons.prems(3) by (simp add: word_less_nat_alt unat_of_nat64)
  qed
  then have t1: "saved d1 = saved d" "tab d1 = (tab d)(l := (tab d l)\<lparr>lt_nodes := lt_nodes (tab d l) @ [(of_nat k, n)]\<rparr>)"
    using ins_node_ok [OF d1(1)] insort_last [of "lt_nodes (tab d l)" fst "(of_nat k, n)"] by simp_all
  have "map fst (lt_nodes (tab d1 l)) = map of_nat [0..<k + 1]" using Cons.prems(2) t1(2) by simp
  then have ih: "saved d' = saved d1 \<and> tab d' = (tab d1)(l := (tab d1 l)\<lparr>lt_nodes := lt_nodes (tab d1 l)
      @ map (\<lambda>i. (of_nat (k + 1 + i), ns ! i)) [0..<length ns]\<rparr>)"
    by (rule Cons.IH [OF d1(2)]) (use Cons.prems(3) in simp)
  have eq: "map (\<lambda>i. (of_nat (k + i) :: uint64, (n # ns) ! i)) [0..<length (n # ns)] =
      (of_nat k, n) # map (\<lambda>i. (of_nat (k + 1 + i), ns ! i)) [0..<length ns]"
    by (simp add: upt_conv_Cons map_Suc_upt [symmetric] o_def add_ac del: upt_Suc)
  show ?case unfolding eq using ih t1 by (simp del: of_nat_add)
qed (simp_all add: fun_eq_iff)

lemma insertWitnesses_tab:
  assumes "insertWitnesses db l ex ws d = (Inr u, d')" "list_all (\<lambda>w. witness_key w \<notin> ex \<longrightarrow> valid_witness w \<and> utf8_row w) ws"
  shows "saved d' = saved d \<and> (\<exists>rows. tab d' = (tab d)(l := (tab d l)\<lparr>lt_witnesses := rows\<rparr>)
    \<and> mset rows = mset (lt_witnesses (tab d l)) + mset (map encoded_row (filter (\<lambda>w. witness_key w \<notin> ex) ws)))"
  using assms
proof (induction ws arbitrary: d)
  case Nil
  then show ?case by (intro conjI exI [of _ "lt_witnesses (tab d l)"]) (auto simp: fun_eq_iff)
next
  case (Cons w ws)
  show ?case
  proof (cases "witness_key w \<in> ex")
    case True
    then show ?thesis using Cons by simp
  next
    case False
    then have w: "MarshalWitness w = Inr (projr (MarshalWitness w))" using encoded_row_witness(2) Cons.prems(2) by simp
    obtain d1 where d1: "ins_witness db l (WitnessID w) (FormatUint (CheckpointSize w)) (Attempts w)
        (projr (MarshalWitness w)) d = (Inr (), d1)" "insertWitnesses db l ex ws d1 = (Inr u, d')"
      using Cons.prems(1) False w by (auto simp: exec_def split: prod.splits sum.splits)
    note t1 = ins_witness_ok [OF d1(1)]
    have "list_all (\<lambda>w. witness_key w \<notin> ex \<longrightarrow> valid_witness w \<and> utf8_row w) ws" using Cons.prems(2) by simp
    then obtain rows where rows: "saved d' = saved d1" "tab d' = (tab d1)(l := (tab d1 l)\<lparr>lt_witnesses := rows\<rparr>)"
        "mset rows = mset (lt_witnesses (tab d1 l)) + mset (map encoded_row (filter (\<lambda>w. witness_key w \<notin> ex) ws))"
      using Cons.IH [OF d1(2)] by blast
    obtain r1 where "mset r1 = add_mset (encoded_row w) (mset (lt_witnesses (tab d l)))"
        "tab d1 = (tab d)(l := (tab d l)\<lparr>lt_witnesses := r1\<rparr>)" "saved d1 = saved d"
      using t1 unfolding encoded_row_def by blast
    then show ?thesis using rows False by (intro conjI exI [of _ rows]) simp_all
  qed
qed

end

section \<open>What the writing operations do\<close>

text \<open>An operation that changes the tables of one log only, inside the transaction.\<close>

definition local :: "('d \<Rightarrow> tables) \<Rightarrow> ('d \<Rightarrow> tables) \<Rightarrow> string \<Rightarrow> ('d \<Rightarrow> (dbErr + 'a) \<times> 'd) \<Rightarrow> bool" where
  "local tab saved l operation \<longleftrightarrow>
     (\<forall>d r d'. operation d = (r, d') \<longrightarrow> saved d' = saved d \<and> (\<forall>l'. l' \<noteq> l \<longrightarrow> tab d' l' = tab d l'))"

lemma localI:
  "(\<And>d r d'. operation d = (r, d') \<Longrightarrow> saved d' = saved d \<and> (\<forall>l'. l' \<noteq> l \<longrightarrow> tab d' l' = tab d l')) \<Longrightarrow>
   local tab saved l operation"
  by (auto simp: local_def)

lemma local_const: "local tab saved l (\<lambda>d. (f d, d))"
  by (auto simp: local_def)

lemma local_exec:
  assumes "local tab saved l p" "\<And>x. local tab saved l (rest x)"
  shows "local tab saved l (\<lambda>d. exec (p d) rest)"
proof (rule localI)
  fix d r d'
  assume e: "exec (p d) rest = (r, d')"
  obtain q d1 where p: "p d = (q, d1)" by fastforce
  have d1: "saved d1 = saved d \<and> (\<forall>l'. l' \<noteq> l \<longrightarrow> tab d1 l' = tab d l')" using assms(1) p by (simp add: local_def)
  show "saved d' = saved d \<and> (\<forall>l'. l' \<noteq> l \<longrightarrow> tab d' l' = tab d l')"
  proof (cases q)
    case (Inl err)
    then show ?thesis using e p d1 by (simp add: exec_def)
  next
    case (Inr x)
    then have "rest x d1 = (r, d')" using e p by (simp add: exec_def)
    then show ?thesis using assms(2) [of x] d1 by (auto simp: local_def)
  qed
qed

text \<open>
  A transaction: it changes nothing, or what the operation changed when it succeeded. The second is the
  outcome of a success, and of a \<open>COMMIT\<close> whose answer was lost.
\<close>

definition transacted :: "('d \<Rightarrow> tables) \<Rightarrow> ('d \<Rightarrow> (dbErr + 'a) \<times> 'd) \<Rightarrow> 'd \<Rightarrow> 'a result \<Rightarrow> 'd \<Rightarrow> bool" where
  "transacted tab operation d r d' \<longleftrightarrow> isl r \<and> tab d' = tab d \<or>
     (\<exists>d1 x d2. tab d1 = tab d \<and> operation d1 = (Inr x, d2) \<and> tab d' = tab d2 \<and> (isl r \<or> r = Inr x))"

context sql_lib
begin

lemma transaction:
  assumes "local tab saved l operation"
    "(case sql_begin db t d of
        (Inl err, d) \<Rightarrow> (Inl (classified err), d)
      | (Inr _, d) \<Rightarrow>
          (case operation d of
             (Inl err, d) \<Rightarrow> (Inl (classified err), sql_rollback db d)
           | (Inr x, d) \<Rightarrow>
               (case sql_commit db d of
                  (Inl err, d) \<Rightarrow> (Inl (classified err), sql_rollback db d)
                | (Inr _, d) \<Rightarrow> (Inr x, d)))) = (q, d')"
    "isl r = isl q" "\<not> isl q \<Longrightarrow> r = Inr (projr q)"
  shows "transacted tab operation d r d'"
proof -
  obtain b d1 where b: "sql_begin db t d = (b, d1)" by fastforce
  show ?thesis
  proof (cases b)
    case (Inl err)
    then have "d' = d1" "isl q" using assms(2) b by auto
    then show ?thesis using begin_err b Inl assms(3) by (auto simp: transacted_def)
  next
    case (Inr u)
    have d1: "tab d1 = tab d" "saved d1 = tab d" using begin_ok [OF b [unfolded Inr]] by auto
    obtain o' d2 where o': "operation d1 = (o', d2)" by fastforce
    have d2: "saved d2 = tab d" using assms(1) o' d1(2) unfolding local_def by metis
    show ?thesis
    proof (cases o')
      case (Inl err)
      then have "d' = sql_rollback db d2" "isl q" using assms(2) b Inr o' by auto
      then show ?thesis using rollback d2 assms(3) by (auto simp: transacted_def)
    next
      case x: (Inr x)
      obtain c d3 where c: "sql_commit db d2 = (c, d3)" by fastforce
      show ?thesis
      proof (cases c)
        case (Inl err)
        then have q: "d' = sql_rollback db d3" "isl q" using assms(2) b Inr o' x c by auto
        have "tab d' = tab d \<or> tab d' = tab d2" using commit_err [OF c [unfolded Inl]] rollback [of d3] d2 q(1) by auto
        then show ?thesis using q(2) assms(3) d1(1) o' x unfolding transacted_def by blast
      next
        case Inr': (Inr v)
        then have "d' = d3" "q = Inr x" using assms(2) b Inr o' x c by auto
        then show ?thesis using commit_ok [OF c [unfolded Inr']] assms(3,4) d1(1) o' x unfolding transacted_def by auto
      qed
    qed
  qed
qed

lemma sqlite_transacted:
  assumes "local tab saved l operation" "withWrite db s operation d = (r, d')"
  shows "transacted tab operation d r d'"
proof (cases "SqClosed s")
  case True
  then show ?thesis using assms(2) by (auto simp: withWrite_def withTransaction_def transacted_def)
next
  case False
  obtain q d1 where q: "runTransaction db ''BEGIN IMMEDIATE'' operation d = (q, d1)" by fastforce
  have "r = (case q of Inl err \<Rightarrow> Inl (error_of err) | Inr x \<Rightarrow> Inr x)" "d1 = d'"
    using assms(2) False q by (cases q; simp add: withWrite_def withTransaction_def public_def)+
  then show ?thesis using transaction [OF assms(1) q [unfolded runTransaction_def], of r] by (cases q) simp_all
qed

lemma mysql_transacted:
  assumes "local tab saved l operation" "mysql_write db s operation d = (r, d')"
  shows "transacted tab operation d r d'"
proof (cases "MyClosed s")
  case True
  then show ?thesis using assms(2) by (auto simp: mysql_write_def transacted_def)
next
  case False
  define p where "p = (case sql_begin db [] d of
        (Inl err, d) \<Rightarrow> (Inl (mysql_classify err), d)
      | (Inr _, d) \<Rightarrow>
          (case operation d of
             (Inl err, d) \<Rightarrow> (Inl (mysql_classify err), sql_rollback db d)
           | (Inr x, d) \<Rightarrow>
               (case sql_commit db d of
                  (Inl err, d) \<Rightarrow> (Inl (mysql_classify err), sql_rollback db d)
                | (Inr _, d) \<Rightarrow> (Inr x, d))))"
  obtain q d1 where q: "p = (q, d1)" by fastforce
  have "public p = (r, d')" using assms(2) False by (simp add: mysql_write_def p_def)
  then have "r = (case q of Inl err \<Rightarrow> Inl (error_of err) | Inr x \<Rightarrow> Inr x)" "d1 = d'" using q by (cases q; simp add: public_def)+
  then show ?thesis using transaction [OF assms(1) q [unfolded p_def], of r] by (cases q) simp_all
qed

lemma local_statements:
  "local tab saved l (ins_entry db l sq v ts)" "local tab saved l (upd_meta db l m)" "local tab saved l (ins_node db l p nd)"
  "local tab saved l (ins_witness db l w z a enc)" "local tab saved l (upd_witness db l w z a a' enc)"
proof -
  have *: "local tab saved l operation"
    if "\<And>d x d'. operation d = (Inr x, d') \<Longrightarrow> saved d' = saved d \<and> (\<exists>t. tab d' = (tab d)(l := t))"
      "\<And>d err d'. operation d = (Inl err, d') \<Longrightarrow> tab d' = tab d \<and> saved d' = saved d"
    for operation :: "'d \<Rightarrow> (dbErr + 'b) \<times> 'd"
  proof (rule localI)
    fix d r d'
    assume "operation d = (r, d')"
    then show "saved d' = saved d \<and> (\<forall>l'. l' \<noteq> l \<longrightarrow> tab d' l' = tab d l')"
      by (cases r) (use that(1) [of d _ d'] that(2) [of d _ d'] in force)+
  qed
  show "local tab saved l (ins_entry db l sq v ts)" by (rule *) (use ins_entry_ok ins_entry_err in blast)+
  show "local tab saved l (upd_meta db l m)" by (rule *) (use upd_meta_ok upd_meta_err in blast)+
  show "local tab saved l (ins_node db l p nd)" by (rule *) (use ins_node_ok ins_node_err in blast)+
  show "local tab saved l (ins_witness db l w z a enc)" by (rule *) (use ins_witness_ok ins_witness_err in blast)+
  show "local tab saved l (upd_witness db l w z a a' enc)" by (rule *) (use upd_witness_ok upd_witness_err in blast)+
qed

end

lemma local_cases:
  assumes "\<And>d. \<exists>p. local tab saved l p \<and> operation d = p d"
  shows "local tab saved l operation"
proof (rule localI)
  fix d r d'
  assume "operation d = (r, d')"
  moreover obtain p where "local tab saved l p" "operation d = p d" using assms by blast
  ultimately show "saved d' = saved d \<and> (\<forall>l'. l' \<noteq> l \<longrightarrow> tab d' l' = tab d l')" by (simp add: local_def)
qed

lemma row_witness_norm: "row_witness row = Inr w \<Longrightarrow> norm_witness w = w"
  using WitnessFromWire_valid(2) by (auto simp: row_witness_def rbind_Inr_iff)

lemma row_witnesses_norm: "rmap row_witness rows = Inr wits \<Longrightarrow> map norm_witness wits = wits"
  by (induction rows arbitrary: wits) (auto simp: rbind_Inr_iff row_witness_norm)

text \<open>Old rows and encoded new ones, in any order, read as the old and the new witnesses.\<close>

lemma commit_rows:
  assumes "rmap row_witness old = Inr wits" "mset rows = mset old + mset (map encoded_row new)"
    "\<And>w. w \<in> set new \<Longrightarrow> valid_witness w \<and> utf8_row w"
  obtains wits' where "rmap row_witness rows = Inr wits'" "mset wits' = mset (map norm_witness (wits @ new))"
proof -
  have wits: "wits = map (projr \<circ> row_witness) old" "\<forall>r \<in> set old. \<not> isl (row_witness r)"
    using assms(1) unfolding rmap_total by auto
  have "set rows = set old \<union> encoded_row ` set new" using arg_cong [OF assms(2), of set_mset] by simp
  then have "\<forall>r \<in> set rows. \<not> isl (row_witness r)" using wits(2) assms(3) encoded_row_witness(1) by auto
  then have rm: "rmap row_witness rows = Inr (map (projr \<circ> row_witness) rows)" unfolding rmap_total by simp
  have "image_mset (projr \<circ> row_witness \<circ> encoded_row) (mset new) = image_mset norm_witness (mset new)"
    by (rule image_mset_cong) (use assms(3) encoded_row_witness(1) in simp)
  then have "mset (map (projr \<circ> row_witness) rows) = mset wits + mset (map norm_witness new)"
    unfolding mset_map assms(2) by (simp add: wits(1) multiset.map_comp)
  also have "\<dots> = mset (map norm_witness (wits @ new))" using row_witnesses_norm [OF assms(1)] by (metis map_append mset_append)
  finally show ?thesis using that [OF rm] by blast
qed

lemma appended_nodes:
  assumes "ns' = ns @ map (\<lambda>i. (of_nat (k + i) :: uint64, drop k all ! i)) [0..<length (drop k all)]"
    "map fst ns = map of_nat [0..<length ns]" "k = length ns" "map snd ns = take k all"
  shows "map snd ns' = all" "map fst ns' = map of_nat [0..<length ns']"
proof -
  have "map (\<lambda>i. drop k all ! i) [0..<length (drop k all)] = drop k all" by (rule map_nth)
  then show "map snd ns' = all" using assms(1,4) by (simp add: o_def)
  have "[0..<length ns'] = [0..<k] @ [k..<k + length (drop k all)]"
    using assms(1,3) upt_add_eq_append [of 0 k "length (drop k all)"] by simp
  moreover have "[k..<k + length (drop k all)] = map (\<lambda>i. k + i) [0..<length (drop k all)]"
    using map_add_upt [of k "length (drop k all)"] by (simp add: add.commute)
  ultimately have "[0..<length ns'] = [0..<k] @ map (\<lambda>i. k + i) [0..<length (drop k all)]" by simp
  then show "map fst ns' = map of_nat [0..<length ns']" using assms(1-3) by (simp add: o_def)
qed

context sql_lib
begin

lemma local_insertNodes: "local tab saved l (insertNodes db l k ns)"
proof (induction ns arbitrary: k)
  case Nil
  have "insertNodes db l k [] = (\<lambda>d. (Inr (), d))" by (simp add: fun_eq_iff)
  then show ?case using local_const [of tab saved l "\<lambda>_. Inr ()"] by simp
next
  case (Cons n ns)
  have "insertNodes db l k (n # ns) = (\<lambda>d. exec (ins_node db l k n d) (\<lambda>_. insertNodes db l (k + 1) ns))"
    by (simp add: fun_eq_iff)
  then show ?case using local_exec [OF local_statements(3) Cons] by simp
qed

lemma local_insertWitnesses: "local tab saved l (insertWitnesses db l ex ws)"
proof (induction ws)
  case Nil
  have "insertWitnesses db l ex [] = (\<lambda>d. (Inr (), d))" by (simp add: fun_eq_iff)
  then show ?case using local_const [of tab saved l "\<lambda>_. Inr ()"] by simp
next
  case (Cons w ws)
  show ?case
  proof (cases "witness_key w \<in> ex")
    case True
    then have "insertWitnesses db l ex (w # ws) = insertWitnesses db l ex ws" by (simp add: fun_eq_iff)
    then show ?thesis using Cons by simp
  next
    case False
    show ?thesis
    proof (cases "MarshalWitness w")
      case (Inl err)
      then have "insertWitnesses db l ex (w # ws) = (\<lambda>d. (Inl (Cll err), d))" using False by (simp add: fun_eq_iff)
      then show ?thesis using local_const [of tab saved l "\<lambda>_. Inl (Cll err)"] by simp
    next
      case (Inr enc)
      then have "insertWitnesses db l ex (w # ws) =
          (\<lambda>d. exec (ins_witness db l (WitnessID w) (FormatUint (CheckpointSize w)) (Attempts w) enc d)
             (\<lambda>_. insertWitnesses db l ex ws))"
        using False by (simp add: fun_eq_iff)
      then show ?thesis using local_exec [OF local_statements(4) Cons] by simp
    qed
  qed
qed

lemma local_appendEntry: "local tab saved l (appendEntry db l input)"
proof (rule local_cases)
  fix d
  have ins: "local tab saved l (insertEntry db l input mx)" for mx
  proof (rule local_cases)
    fix d
    let ?sq = "case mx of None \<Rightarrow> 1 | Some m \<Rightarrow> m + 1"
    have "local tab saved l (\<lambda>d. exec (ins_entry db l ?sq (InputValue input) ts d) (\<lambda>_ d.
        (Inr \<lparr>ResultEntry = \<lparr>Seq = ?sq, Value = InputValue input,
           AppendedAt = NormalizeTime (InputAppendedAt input)\<rparr>, Outcome = AppendInserted\<rparr>, d)))" for ts
      by (intro local_exec local_statements local_const)
    then show "\<exists>p. local tab saved l p \<and> insertEntry db l input mx d = p d"
      using local_const [of tab saved l "\<lambda>_. Inl (Cll ErrInvalid)"]
      by (cases "MaxPortableInteger < ?sq"; cases "FormatTime (InputAppendedAt input)")
        (fastforce simp: insertEntry_def Let_def)+
  qed
  have "\<And>r. appendEntry db l input d = (r, d) \<Longrightarrow> \<exists>p. local tab saved l p \<and> appendEntry db l input d = p d"
    using local_const by fast
  then show "\<exists>p. local tab saved l p \<and> appendEntry db l input d = p d"
    using ins by (auto simp: appendEntry_def split: sum.splits)
qed

lemma local_commitState: "local tab saved l (commitState db dt l sz ck nxt)"
proof (rule local_cases)
  fix d
  have w: "local tab saved l (\<lambda>d. exec (upd_meta db l m d) (\<lambda>_ d. exec (insertNodes db l k ns d) (\<lambda>_. insertWitnesses db l ex ws)))"
    for m k ns ex ws
    by (intro local_exec local_statements local_insertNodes local_insertWitnesses)
  have "\<And>r. commitState db dt l sz ck nxt d = (r, d) \<Longrightarrow> \<exists>p. local tab saved l p \<and> commitState db dt l sz ck nxt d = p d"
    using local_const by fast
  then show "\<exists>p. local tab saved l p \<and> commitState db dt l sz ck nxt d = p d"
    using w by (fastforce simp: commitState_def split: sum.splits)
qed

lemma commitState_tab:
  assumes "commitState db dt l sz ck nxt d = (Inr u, d')" "length (Nodes nxt) < 2 ^ 64" "list_all utf8_row (Witnesses nxt)"
  obtains cur st st' where "table_state dt (tab d l) = Inr cur" "ApplyCLL dt cur sz ck nxt = Inr st"
    "table_state dt (tab d' l) = Inr st'" "same_state st' (norm_state st)"
proof -
  obtain cur st m d1 d2 where
    c: "loadState db dt l d = Inr cur" "ApplyCLL dt cur sz ck nxt = Inr st" "MarshalMetadata st = Inr m"
      "upd_meta db l m d = (Inr (), d1)"
      "insertNodes db l (length (Nodes cur)) (drop (length (Nodes cur)) (Nodes st)) d1 = (Inr (), d2)"
      "insertWitnesses db l (set (map witness_key (Witnesses cur))) (Witnesses st) d2 = (Inr (), d')"
    using assms(1) by (auto simp: commitState_def exec_def rbind_Inr_iff split: sum.splits prod.splits)
  note t0 = loadState_table [OF c(1)]
  let ?k = "length (Nodes cur)" and ?ex = "set (map witness_key (Witnesses cur))"
  obtain x0 st0 wits where r0: "Option.bind (lt_meta (tab d l)) (json_Unmarshal WireState_type) = Some x0"
      "map fst (lt_nodes (tab d l)) = map of_nat [0..<length (lt_nodes (tab d l))]"
      "rmap row_witness (lt_witnesses (tab d l)) = Inr wits"
      "cur = st0\<lparr>Nodes := map snd (lt_nodes (tab d l)), Witnesses := wits\<rparr>" "valid_state dt cur"
    using t0 unfolding table_state_Inr by blast
  have cur: "Nodes cur = map snd (lt_nodes (tab d l))" "Witnesses cur = wits" using r0(4) by simp_all
  have ap: "Nodes cur = take ?k (Nodes nxt)" "valid_state dt nxt"
      "st = nxt\<lparr>Witnesses := Witnesses cur @ new_witnesses (Witnesses cur) (Witnesses nxt)\<rparr>"
    using c(2) unfolding ApplyCLL_iff by auto
  have len: "?k \<le> length (Nodes nxt)" by (rule prefix_length [OF ap(1)])
  have vst: "valid_state dt st" by (rule ApplyCLL_valid [OF c(2) r0(5)])
  let ?new = "new_witnesses (Witnesses cur) (Witnesses nxt)"
  have new: "filter (\<lambda>w. witness_key w \<notin> ?ex) (Witnesses st) = ?new"
    unfolding ap(3) by (simp add: new_witnesses_def filter_empty_conv)
  have newok: "w \<in> set ?new \<Longrightarrow> valid_witness w \<and> utf8_row w" for w
    using ap(2) assms(3) by (auto simp: new_witnesses_def valid_state_def valid_metadata_def list_all_iff)
  have "w \<in> set (Witnesses st) \<Longrightarrow> witness_key w \<notin> ?ex \<Longrightarrow> w \<in> set ?new" for w using arg_cong [OF new, of set] by auto
  then have rowsok: "list_all (\<lambda>w. witness_key w \<notin> ?ex \<longrightarrow> valid_witness w \<and> utf8_row w) (Witnesses st)"
    using newok by (auto simp: list_all_iff)
  have t1: "tab d1 l = (tab d l)\<lparr>lt_meta := Some m\<rparr>" using upd_meta_ok [OF c(4)] r0(1) by (cases "lt_meta (tab d l)") auto
  have "map fst (lt_nodes (tab d1 l)) = map of_nat [0..<?k]" using r0(2) cur(1) t1 by simp
  from insertNodes_tab [OF c(5) this] have t2: "tab d2 l = (tab d1 l)\<lparr>lt_nodes := lt_nodes (tab d l)
      @ map (\<lambda>i. (of_nat (?k + i), drop ?k (Nodes st) ! i)) [0..<length (drop ?k (Nodes st))]\<rparr>"
    using assms(2) len ap(3) t1 by simp
  obtain rows where rows: "tab d' = (tab d2)(l := (tab d2 l)\<lparr>lt_witnesses := rows\<rparr>)"
      "mset rows = mset (lt_witnesses (tab d2 l)) + mset (map encoded_row (filter (\<lambda>w. witness_key w \<notin> ?ex) (Witnesses st)))"
    using insertWitnesses_tab [OF c(6) rowsok] by blast
  then have t3: "tab d' l = (tab d2 l)\<lparr>lt_witnesses := rows\<rparr>"
      "mset rows = mset (lt_witnesses (tab d l)) + mset (map encoded_row ?new)"
    unfolding new using t1 t2 by simp_all
  obtain x where x: "json_Unmarshal WireState_type m = Some x"
      "metaFromWire (WireState_of x) = Inr (norm_state (st\<lparr>Nodes := [], Witnesses := []\<rparr>))"
    by (rule metadata_reads [OF vst c(3)])
  have nds: "map snd (lt_nodes (tab d' l)) = Nodes st" "map fst (lt_nodes (tab d' l)) = map of_nat [0..<length (lt_nodes (tab d' l))]"
    by (rule appended_nodes [OF _ r0(2)]; use t2 t3(1) cur(1) ap len in simp)+
  obtain wits' where rm: "rmap row_witness rows = Inr wits'" and ms: "mset wits' = mset (map norm_witness (wits @ ?new))"
    using commit_rows [OF r0(3) t3(2)] newok by blast
  define st' where "st' = (norm_state (st\<lparr>Nodes := [], Witnesses := []\<rparr>))\<lparr>Nodes := Nodes st, Witnesses := wits'\<rparr>"
  have same: "same_state st' (norm_state st)"
    using ms cur(2) by (simp add: same_state_def st'_def norm_state_def ap(3))
  then have "valid_state dt st'" using same_state_valid vst by simp
  then have "table_state dt (tab d' l) = Inr st'"
    unfolding table_state_Inr using x nds rm t1 t2 t3(1) by (auto simp: st'_def)
  then show ?thesis using that t0 c(2) same by blast
qed

end

section \<open>Committing a row\<close>

text \<open>A decimal without leading zeros is the text of its number, so a row is found under one key only.\<close>

lemma dec_of_digits:
  assumes "list_all is_digit s" "s \<noteq> []" "length s > 1 \<Longrightarrow> s ! 0 \<noteq> CHR ''0''"
  shows "dec_of_nat (digits_value s) = s"
  using assms
proof (induction s rule: rev_induct)
  case (snoc c s)
  have c: "digit_value c < 10" "digit_char (digit_value c) = c"
    using snoc.prems(1) by (auto simp: is_digit_def digit_value_def digit_char_def)
  show ?case
  proof (cases "s = []")
    case True
    then show ?thesis using c digits_value_snoc [of "[]" c] by (simp add: dec_of_nat.simps [of "digit_value c"])
  next
    case False
    then have ih: "dec_of_nat (digits_value s) = s" and nz: "s ! 0 \<noteq> CHR ''0''"
      using snoc by (auto simp: nth_append)
    have "digits_value s \<noteq> 0"
    proof
      assume "digits_value s = 0"
      then have "s = dec_of_nat 0" using ih by simp
      moreover have "char_of (48 :: nat) = CHR ''0''" by code_simp
      ultimately show False using nz by (simp add: dec_of_nat.simps [of 0] digit_char_def)
    qed
    then show ?thesis using ih c by (subst dec_of_nat.simps) simp
  qed
qed simp

lemma parseDecimal_canonical:
  assumes "parseDecimal s = Inr n"
  shows "s = FormatUint n"
proof -
  have "list_all is_digit s" "s \<noteq> []" "length s > 1 \<Longrightarrow> s ! 0 \<noteq> CHR ''0''" "digits_value s < 2 ^ 64" "n = of_nat (digits_value s)"
    using assms by (auto simp: parseDecimal_def ParseUint64_def split: if_splits option.splits)
  then show ?thesis using dec_of_digits [of s] by (simp add: FormatUint_def unat_of_nat64)
qed

lemma row_witness_key:
  assumes "row_witness (w, z, a, enc) = Inr v"
  shows "WitnessID v = w" "z = FormatUint (CheckpointSize v)" "Attempts v = a" "UnmarshalWitness enc = Inr v" "valid_witness v"
proof -
  obtain wire where wire: "decodeWitnessRow (w, z, a, enc) = Inr wire" "WitnessFromWire wire = Inr v"
    using assms by (auto simp: row_witness_def rbind_Inr_iff)
  obtain x where x: "json_Unmarshal WireWitness_type enc = Some x" "wire = WireWitness_of x" "WwWitnessID wire = w"
      "WwCheckpointSize wire = z" "WwAttempts wire = a"
    using wire(1) by (auto simp: decodeWitnessRow_def Let_def split: option.splits if_splits)
  show "UnmarshalWitness enc = Inr v" using x(1,2) wire(2) by (simp add: UnmarshalWitness_def)
  show "valid_witness v" by (rule WitnessFromWire_valid(1) [OF wire(2)])
  have "WitnessID v = WwWitnessID wire" "parseDecimal (WwCheckpointSize wire) = Inr (CheckpointSize v)" "Attempts v = WwAttempts wire"
    using wire(2) by (auto simp: WitnessFromWire_def rbind_Inr_iff Let_def split: sum.splits option.splits)
  then show "WitnessID v = w" "z = FormatUint (CheckpointSize v)" "Attempts v = a"
    using x parseDecimal_canonical by auto
qed

text \<open>The row with the key and the attempts of \<open>CommitWitness\<close> is replaced, no other.\<close>

definition replaced :: "uint32 \<Rightarrow> WitnessState \<Rightarrow> WitnessState \<Rightarrow> WitnessState" where
  "replaced a w v = (if witness_key v = witness_key w \<and> Attempts v = a then norm_witness w else v)"

lemma set_row_witness:
  assumes "row_witness row = Inr v" "valid_witness w" "utf8_row w"
  shows "row_witness (set_row (WitnessID w) (FormatUint (CheckpointSize w)) a (Attempts w) (projr (MarshalWitness w)) row)
    = Inr (replaced a w v)"
proof -
  obtain wid z a' enc where row: "row = (wid, z, a', enc)" by (cases row)
  have k: "WitnessID v = wid" "z = FormatUint (CheckpointSize v)" "Attempts v = a'"
    using row_witness_key(1-3) assms(1) unfolding row by blast+
  show ?thesis
    using assms encoded_row_witness(1) [OF assms(2,3)] k row
    by (auto simp: set_row_def guarded_row_def replaced_def witness_key_eq encoded_row_def)
qed

lemma set_rows_witness:
  assumes "valid_witness w" "utf8_row w"
  shows "rmap row_witness rows = Inr wits \<Longrightarrow> rmap row_witness (map (set_row (WitnessID w)
    (FormatUint (CheckpointSize w)) a (Attempts w) (projr (MarshalWitness w))) rows) = Inr (map (replaced a w) wits)"
proof (induction rows arbitrary: wits)
  case (Cons row rows)
  then obtain v vs where "row_witness row = Inr v" "rmap row_witness rows = Inr vs" "wits = v # vs"
    by (auto simp: rbind_Inr_iff)
  then show ?case using set_row_witness [OF _ assms, of row v] Cons.IH by simp
qed simp

lemma replaced_valid:
  assumes "valid_state dt st" "valid_witness w"
  shows "valid_state dt (st\<lparr>Witnesses := map (replaced a w) (Witnesses st)\<rparr>)"
proof -
  have k: "witness_key (replaced a w v) = witness_key v" for v by (simp add: replaced_def)
  have "distinct_keys (map (replaced a w) (Witnesses st))"
    using assms(1) by (simp add: valid_state_def valid_metadata_def distinct_keys_def o_def k)
  moreover have "list_all valid_witness (map (replaced a w) (Witnesses st))"
    using assms by (auto simp: valid_state_def valid_metadata_def list_all_iff replaced_def)
  ultimately show ?thesis by (rule valid_state_witnesses [OF assms(1)])
qed

lemma commitRow_Inr:
  assumes "commitRow db env l a w d = (Inr u, d')"
  obtains enc0 cur upd enc where "UnmarshalWitness enc0 = Inr cur"
    "ApplyWitness (empty_State\<lparr>Witnesses := [cur]\<rparr>) a w = Inr upd" "MarshalWitness (Witnesses upd ! 0) = Inr enc"
    "upd_witness db l (WitnessID w) (FormatUint (CheckpointSize w)) a (Attempts w) enc (env d) = (Inr 1, d')"
proof -
  obtain a0 enc0 enc where e: "rbind (UnmarshalWitness enc0) (\<lambda>current.
      rbind (ApplyWitness (empty_State\<lparr>Witnesses := [current]\<rparr>) a w) (\<lambda>updated. MarshalWitness (Witnesses updated ! 0))) = Inr enc"
      "exec (upd_witness db l (WitnessID w) (FormatUint (CheckpointSize w)) a (Attempts w) enc (env d))
         (\<lambda>changed d. if changed \<noteq> 1 then (Inl (Cll ErrContention), d) else (Inr (), d)) = (Inr u, d')"
    using assms unfolding commitRow_def by (auto split: sum.splits prod.splits)
  obtain q d1 where q: "upd_witness db l (WitnessID w) (FormatUint (CheckpointSize w)) a (Attempts w) enc (env d) = (q, d1)" by fastforce
  then have "q = Inr 1" "d1 = d'" using e(2) by (auto simp: exec_def split: sum.splits if_splits)
  then show ?thesis using that e(1) q unfolding rbind_Inr_iff by blast
qed

context sql_lib
begin

text \<open>
  Whatever other connections commit between the \<open>SELECT\<close> and the \<open>UPDATE\<close>: when the row is committed, the
  tables had it with the expected attempts at that moment, and it alone is replaced.
\<close>

lemma commitRow_tab:
  assumes "commitRow db env l a w d = (Inr u, d')" "utf8_row w" "table_state dt (tab (env d) l) = Inr st"
  shows "table_state dt (tab d' l) = Inr (st\<lparr>Witnesses := map (replaced a w) (Witnesses st)\<rparr>)"
    "\<exists>v \<in> set (Witnesses st). witness_key v = witness_key w \<and> Attempts v = a"
    "saved d' = saved (env d)" "l' \<noteq> l \<Longrightarrow> tab d' l' = tab (env d) l'" "valid_witness w"
proof -
  let ?z = "FormatUint (CheckpointSize w)" and ?t = "tab (env d) l"
  obtain enc0 cur upd enc where c: "UnmarshalWitness enc0 = Inr cur"
      "ApplyWitness (empty_State\<lparr>Witnesses := [cur]\<rparr>) a w = Inr upd" "MarshalWitness (Witnesses upd ! 0) = Inr enc"
      "upd_witness db l (WitnessID w) ?z a (Attempts w) enc (env d) = (Inr 1, d')"
    by (rule commitRow_Inr [OF assms(1)])
  obtain pre old post where p: "Witnesses (empty_State\<lparr>Witnesses := [cur]\<rparr>) = pre @ old # post"
      "upd = (empty_State\<lparr>Witnesses := [cur]\<rparr>)\<lparr>Witnesses := pre @ w # post\<rparr>" and v: "valid_witness w"
    by (rule ApplyWitness_Inr [OF c(2)])
  from p have "Witnesses upd ! 0 = w" by (cases pre) simp_all
  then have enc: "enc = projr (MarshalWitness w)" using c(3) by simp
  note u = upd_witness_ok [OF c(4)]
  obtain x st0 wits where r: "Option.bind (lt_meta ?t) (json_Unmarshal WireState_type) = Some x" "metaFromWire (WireState_of x) = Inr st0"
      "map fst (lt_nodes ?t) = map of_nat [0..<length (lt_nodes ?t)]" "rmap row_witness (lt_witnesses ?t) = Inr wits"
      "st = st0\<lparr>Nodes := map snd (lt_nodes ?t), Witnesses := wits\<rparr>" "valid_state dt st"
    using assms(3) unfolding table_state_Inr by blast
  let ?f = "set_row (WitnessID w) ?z a (Attempts w) enc"
  have t': "tab d' l = ?t\<lparr>lt_witnesses := map ?f (lt_witnesses ?t)\<rparr>" using u by simp
  have rows: "rmap row_witness (map ?f (lt_witnesses ?t)) = Inr (map (replaced a w) wits)"
    unfolding enc by (rule set_rows_witness [OF v assms(2) r(4)])
  have "valid_state dt (st\<lparr>Witnesses := map (replaced a w) (Witnesses st)\<rparr>)" by (rule replaced_valid [OF r(6) v])
  then show "table_state dt (tab d' l) = Inr (st\<lparr>Witnesses := map (replaced a w) (Witnesses st)\<rparr>)"
    unfolding table_state_Inr t' using r(1-3,5) rows by auto
  have "filter (guarded_row (WitnessID w) ?z a) (lt_witnesses ?t) \<noteq> [] \<or> filter (\<lambda>row. ?f row \<noteq> row) (lt_witnesses ?t) \<noteq> []"
    using u by fastforce
  then obtain row where "row \<in> set (lt_witnesses ?t)" "guarded_row (WitnessID w) ?z a row"
    by (auto simp: filter_empty_conv set_row_def split: if_splits)
  then obtain enc1 where m: "(WitnessID w, ?z, a, enc1) \<in> set (lt_witnesses ?t)" by (cases row) (auto simp: guarded_row_def)
  obtain v where v': "row_witness (WitnessID w, ?z, a, enc1) = Inr v" "v \<in> set wits"
  proof -
    have "projr (row_witness (WitnessID w, ?z, a, enc1)) \<in> set wits" "\<not> isl (row_witness (WitnessID w, ?z, a, enc1))"
      using m r(4) unfolding rmap_total by (metis comp_apply image_eqI set_map, blast)
    then show ?thesis by (intro that) (simp_all add: sum.expand)
  qed
  then have "witness_key v = witness_key w \<and> Attempts v = a" using row_witness_key(1-3) [OF v'(1)] by (simp add: witness_key_eq)
  then show "\<exists>v \<in> set (Witnesses st). witness_key v = witness_key w \<and> Attempts v = a" using v'(2) r(5) by auto
  show "saved d' = saved (env d)" "l' \<noteq> l \<Longrightarrow> tab d' l' = tab (env d) l'" "valid_witness w" using u v by auto
qed

lemma local_commitRow: "local tab saved l (commitRow db id l a w)"
proof (rule local_cases)
  fix d
  have "local tab saved l (\<lambda>d. exec (upd_witness db l wid z a a' enc d)
      (\<lambda>changed d. if changed \<noteq> 1 then (Inl (Cll ErrContention), d) else (Inr (), d)))" for wid z a' enc
  proof (rule local_exec [OF local_statements(5)])
    show "local tab saved l (\<lambda>d. if changed \<noteq> 1 then (Inl (Cll ErrContention), d) else (Inr (), d))" for changed :: nat
      by (cases "changed = 1") (simp_all add: local_const [of tab saved l "\<lambda>_. Inl (Cll ErrContention)"]
          local_const [of tab saved l "\<lambda>_. Inr ()"])
  qed
  then show "\<exists>p. local tab saved l p \<and> commitRow db id l a w d = p d"
    using local_const [of tab saved l] by (fastforce simp: commitRow_def split: sum.splits prod.splits)
qed

end

end
