(* ===== verification/Jsonl_Store.thy ===== *)
theory Jsonl_Store
  imports Wire_Json Memory_Store
begin

text \<open>
  \<open>store/jsonl/store.go\<close>: the journal backend. An event is one line of JSON; opening a journal replays
  its lines into an engine; every change is applied to the engine, appended to the journal and, when
  the journal cannot take it, undone. The journal is the text of its file. What the operating system
  answers is an argument: which call fails, and how much each \<open>Write\<close> takes. The context argument is
  the error \<open>ctx.Err()\<close> reports. Methods run under the store's lock, so each is one step.
\<close>

section \<open>Events\<close>

definition schemaVersion :: int where "schemaVersion = 4"

record event =
  EvVersion :: int
  EvType :: string
  EvEntry :: "WireEntry option"
  EvExpectedSize :: string
  EvExpectedCheckpoint :: "string option"
  EvState :: "WireState option"
  EvExpectedAttempts :: "uint32 option"
  EvWitness :: "WireWitness option"

definition new_event :: "string \<Rightarrow> event" where
  "new_event typ = \<lparr>EvVersion = schemaVersion, EvType = typ, EvEntry = None, EvExpectedSize = [],
     EvExpectedCheckpoint = None, EvState = None, EvExpectedAttempts = None, EvWitness = None\<rparr>"

definition event_type :: shape where
  "event_type = ShStruct
     [(''version'', False, ShInt 64), (''type'', False, ShString), (''entry'', True, ShPtr WireEntry_type),
      (''expected_size'', True, ShString), (''expected_checkpoint'', True, ShPtr ShString),
      (''state'', True, ShPtr WireState_type), (''expected_attempts'', True, ShPtr (ShUint 32)),
      (''witness'', True, ShPtr WireWitness_type)]"

definition event_value :: "event \<Rightarrow> gval" where
  "event_value ev = GStruct
     [GInt (EvVersion ev), GString (EvType ev), GPtr (map_option WireEntry_value (EvEntry ev)),
      GString (EvExpectedSize ev), GPtr (map_option GString (EvExpectedCheckpoint ev)),
      GPtr (map_option WireState_value (EvState ev)),
      GPtr (map_option (\<lambda>n. GInt (uint n)) (EvExpectedAttempts ev)),
      GPtr (map_option WireWitness_value (EvWitness ev))]"

definition event_of :: "gval \<Rightarrow> event" where
  "event_of x = \<lparr>EvVersion = as_int (as_field 0 x), EvType = as_string (as_field 1 x),
     EvEntry = map_option WireEntry_of (as_ptr (as_field 2 x)), EvExpectedSize = as_string (as_field 3 x),
     EvExpectedCheckpoint = map_option as_string (as_ptr (as_field 4 x)),
     EvState = map_option WireState_of (as_ptr (as_field 5 x)),
     EvExpectedAttempts = map_option (\<lambda>n. of_int (as_int n)) (as_ptr (as_field 6 x)),
     EvWitness = map_option WireWitness_of (as_ptr (as_field 7 x))\<rparr>"

text \<open>The header that \<open>replay\<close> reads of a line before it decodes the event.\<close>

record header_line =
  HVersion :: int
  HV :: int
  HType :: string

definition header_type :: shape where
  "header_type = ShStruct [(''version'', False, ShInt 64), (''v'', False, ShInt 64), (''type'', False, ShString)]"

definition header_of :: "gval \<Rightarrow> header_line" where
  "header_of x = \<lparr>HVersion = as_int (as_field 0 x), HV = as_int (as_field 1 x), HType = as_string (as_field 2 x)\<rparr>"

section \<open>Replay\<close>

definition applyAppend :: "Engine \<Rightarrow> WireEntry \<Rightarrow> unit result \<times> Engine" where
  "applyAppend e wire =
     (case EntryFromWire wire of
        Inl err \<Rightarrow> (Inl err, e)
      | Inr entry \<Rightarrow>
          (case Engine_Append e \<lparr>InputValue = Value entry, InputAppendedAt = AppendedAt entry\<rparr> of
             (Inl _, e) \<Rightarrow> (Inl (ErrMsg ''invalid entry append event''), e)
           | (Inr result, e) \<Rightarrow>
               if Outcome result \<noteq> AppendInserted \<or> Seq (ResultEntry result) \<noteq> Seq entry
               then (Inl (ErrMsg ''invalid entry append event''), e)
               else (Inr (), e)))"

definition applyCommit :: "dtmmr \<Rightarrow> Engine \<Rightarrow> string \<Rightarrow> string option \<Rightarrow> WireState \<Rightarrow> unit result \<times> Engine" where
  "applyCommit dt e expectedSize expectedCheckpoint wire =
     (case parseDecimal expectedSize of
        Inl _ \<Rightarrow> (Inl (ErrMsg ''invalid expected size''), e)
      | Inr expected \<Rightarrow>
     case (case expectedCheckpoint of
             None \<Rightarrow> Some None
           | Some encoded \<Rightarrow> map_option Some (base64_StrictDecodeString encoded)) of
        None \<Rightarrow> (Inl (ErrMsg ''invalid expected checkpoint''), e)
      | Some checkpoint \<Rightarrow>
     case StateDeltaFromWire wire of
        Inl err \<Rightarrow> (Inl err, e)
      | Inr next_st \<Rightarrow> CommitCLLDelta dt e expected checkpoint next_st)"

definition applyEvent :: "dtmmr \<Rightarrow> Engine \<Rightarrow> event \<Rightarrow> unit result \<times> Engine" where
  "applyEvent dt e item =
     (if EvType item = ''cll.init'' then
        (if length (Engine_Entries e) \<noteq> 0 \<or> Size (Engine_State e) \<noteq> 0
         then (Inl (ErrMsg ''duplicate CLL initialization after state''), e)
         else if EvEntry item \<noteq> None \<or> EvState item \<noteq> None \<or> EvWitness item \<noteq> None
         then (Inl (ErrMsg ''invalid CLL initialization''), e)
         else (Inr (), e))
      else if EvType item = ''entry.append'' then
        (case EvEntry item of None \<Rightarrow> (Inl (ErrMsg ''missing entry''), e) | Some wire \<Rightarrow> applyAppend e wire)
      else if EvType item = ''cll.commit'' then
        (case EvState item of
           None \<Rightarrow> (Inl (ErrMsg ''missing CLL state''), e)
         | Some wire \<Rightarrow> applyCommit dt e (EvExpectedSize item) (EvExpectedCheckpoint item) wire)
      else if EvType item = ''witness.commit'' then
        (case (EvExpectedAttempts item, EvWitness item) of
           (Some attempts, Some wire) \<Rightarrow>
             (case WitnessFromWire wire of
                Inl err \<Rightarrow> (Inl err, e)
              | Inr witness \<Rightarrow> CommitWitness e attempts witness)
         | _ \<Rightarrow> (Inl (ErrMsg ''missing witness commit fields''), e))
      else (Inl (ErrMsg ''unknown event type''), e))"

text \<open>One complete line of the journal; the flag says whether a line has been replayed before.\<close>

definition replayLine :: "dtmmr \<Rightarrow> bool \<Rightarrow> Engine \<Rightarrow> string \<Rightarrow> Engine result" where
  "replayLine dt initialized e line =
     (if length line > MaxJournalEventBytes then Inl ErrCorrupt
      else if \<not> ValidString line then Inl ErrCorrupt
      else case json_Unmarshal header_type line of
        None \<Rightarrow> Inl ErrCorrupt
      | Some h \<Rightarrow>
     let header = header_of h
     in if HVersion header \<noteq> schemaVersion then Inl ErrCorrupt
        else if \<not> initialized \<and> HType header \<noteq> ''cll.init'' then Inl ErrCorrupt
        else case json_Unmarshal event_type line of
          None \<Rightarrow> Inl ErrCorrupt
        | Some item \<Rightarrow>
            (case applyEvent dt e (event_of item) of (Inl _, _) \<Rightarrow> Inl ErrCorrupt | (Inr _, e) \<Rightarrow> Inr e))"

function replay_loop :: "dtmmr \<Rightarrow> string \<Rightarrow> bool \<Rightarrow> nat \<Rightarrow> Engine \<Rightarrow> (Engine \<times> nat) result" where
  "replay_loop dt rest initialized validEnd e =
     (if CHR 0x0A \<notin> set rest then Inr (e, validEnd)
      else
        let line = takeWhile (\<lambda>c. c \<noteq> CHR 0x0A) rest
        in rbind (replayLine dt initialized e line) (\<lambda>e.
             replay_loop dt (drop (length line + 1) rest) True (validEnd + length line + 1) e))"
  by pat_completeness auto

termination
  by (relation "measure (\<lambda>(_, rest, _). length rest)") (auto intro!: diff_less length_pos_if_in_set)

declare replay_loop.simps [simp del]

section \<open>Opening\<close>

text \<open>What the calls on the file answer; \<open>True\<close> is a failure. A \<open>Write\<close> takes some bytes and may fail.\<close>

record append_io =
  IoSeek :: bool
  IoWrites :: "(nat \<times> bool) list"
  IoSync :: bool
  IoTruncate :: bool
  IoSeekBack :: bool
  IoSyncBack :: bool

record open_io =
  OioOpen :: bool
  OioLocked :: bool
  OioRead :: bool
  OioTruncate :: bool
  OioSync :: bool
  OioSeek :: bool
  OioStat :: bool
  OioAppend :: append_io

record JsonlStore =
  js_journal :: string
  js_engine :: Engine
  js_closed :: bool

text \<open>\<open>replay\<close>: the engine of the journal, and the journal itself, whose torn tail is cut off when asked.\<close>

definition replay :: "dtmmr \<Rightarrow> open_io \<Rightarrow> bool \<Rightarrow> string \<Rightarrow> Engine result \<times> string" where
  "replay dt io repair data =
     (if OioRead io then (Inl (ErrMsg ''read JSONL journal''), data)
      else case replay_loop dt data False 0 Engine_New of
        Inl err \<Rightarrow> (Inl err, data)
      | Inr (e, validEnd) \<Rightarrow>
          if validEnd \<noteq> length data then
            (if \<not> repair then (Inl ErrCorrupt, data)
             else if OioTruncate io then (Inl (ErrMsg ''truncate torn JSONL tail''), data)
             else if OioSync io then (Inl (ErrMsg ''sync truncated JSONL journal''), take validEnd data)
             else if OioSeek io then (Inl (ErrMsg ''seek JSONL journal''), take validEnd data)
             else (Inr e, take validEnd data))
          else if OioSeek io then (Inl (ErrMsg ''seek JSONL journal''), data)
          else (Inr e, data))"

fun writeAll :: "(nat \<times> bool) list \<Rightarrow> string \<Rightarrow> string \<Rightarrow> bool \<times> string" where
  "writeAll writes [] journal = (True, journal)"
| "writeAll [] data journal = (True, journal @ data)"
| "writeAll ((count, fails) # writes) data journal =
     (let n = min count (length data); journal = journal @ take n data
      in if fails \<or> n = 0 then (False, journal) else writeAll writes (drop n data) journal)"

definition rollback :: "append_io \<Rightarrow> nat \<Rightarrow> error \<Rightarrow> JsonlStore \<Rightarrow> unit result \<times> JsonlStore" where
  "rollback io offset cause s =
     (let s = (if IoTruncate io then s else s\<lparr>js_journal := take offset (js_journal s)\<rparr>)
      in if \<not> IoTruncate io \<and> \<not> IoSeekBack io \<and> \<not> IoSyncBack io then (Inl cause, s)
         else (Inl ErrCorrupt, s\<lparr>js_closed := True\<rparr>))"

definition encodeEvent :: "event \<Rightarrow> string" where
  "encodeEvent item = json_Marshal event_type (event_value item)"

definition appendEvent :: "append_io \<Rightarrow> event \<Rightarrow> JsonlStore \<Rightarrow> unit result \<times> JsonlStore" where
  "appendEvent io item s =
     (let encoded = encodeEvent item @ [CHR 0x0A]
      in if length encoded > MaxJournalEventBytes then (Inl ErrInvalid, s)
         else if IoSeek io then (Inl (ErrMsg ''seek JSONL journal''), s)
         else
           let start = length (js_journal s);
               (written, journal) = writeAll (IoWrites io) encoded (js_journal s);
               s = s\<lparr>js_journal := journal\<rparr>
           in if \<not> written then rollback io start (ErrMsg ''write JSONL journal'') s
              else if IoSync io then rollback io start (ErrMsg ''sync JSONL journal'') s
              else (Inr (), s))"

text \<open>\<open>open\<close>; the disk holds the journal, if the file exists.\<close>

definition openJournal :: "dtmmr \<Rightarrow> open_io \<Rightarrow> string \<Rightarrow> bool \<Rightarrow> string option \<Rightarrow> JsonlStore result \<times> string option" where
  "openJournal dt io path initialize disk =
     (if path = [] then (Inl ErrInvalid, disk)
      else if OioOpen io \<or> (disk = None \<and> \<not> initialize) then (Inl (ErrMsg ''open JSONL journal''), disk)
      else
        let data = (case disk of None \<Rightarrow> [] | Some data \<Rightarrow> data)
        in if OioLocked io then (Inl ErrContention, Some data)
           else case replay dt io initialize data of
             (Inl err, data) \<Rightarrow> (Inl err, Some data)
           | (Inr e, data) \<Rightarrow>
               let s = \<lparr>js_journal = data, js_engine = e, js_closed = False\<rparr>
               in if OioStat io then (Inl (ErrMsg ''stat JSONL journal''), Some data)
                  else if length data = 0 then
                    (if \<not> initialize then (Inl ErrCorrupt, Some data)
                     else case appendEvent (OioAppend io) (new_event ''cll.init'') s of
                       (Inl err, s) \<Rightarrow> (Inl err, Some (js_journal s))
                     | (Inr _, s) \<Rightarrow> (Inr s, Some (js_journal s)))
                  else (Inr s, Some data))"

definition Jsonl_Open :: "dtmmr \<Rightarrow> open_io \<Rightarrow> string \<Rightarrow> string option \<Rightarrow> JsonlStore result \<times> string option" where
  "Jsonl_Open dt io path disk = openJournal dt io path False disk"

definition Jsonl_Close :: "JsonlStore \<Rightarrow> unit result \<times> JsonlStore" where
  "Jsonl_Close s = (if js_closed s then (Inr (), s) else (Inr (), s\<lparr>js_closed := True\<rparr>))"

definition Jsonl_Init :: "dtmmr \<Rightarrow> open_io \<Rightarrow> string \<Rightarrow> string option \<Rightarrow> unit result \<times> string option" where
  "Jsonl_Init dt io path disk =
     (case openJournal dt io path True disk of
        (Inl err, disk) \<Rightarrow> (Inl err, disk)
      | (Inr s, disk) \<Rightarrow> (fst (Jsonl_Close s), disk))"

section \<open>Operations\<close>

definition restore :: "Snapshot \<Rightarrow> error \<Rightarrow> JsonlStore \<Rightarrow> error \<times> JsonlStore" where
  "restore snapshot cause s =
     (case Restore (js_engine s) snapshot of
        (Inl _, e) \<Rightarrow> (ErrCorrupt, s\<lparr>js_engine := e, js_closed := True\<rparr>)
      | (Inr _, e) \<Rightarrow> (cause, s\<lparr>js_engine := e\<rparr>))"

text \<open>The common end of the three writing methods: journal the event, undo the change if that fails.\<close>

definition persist :: "append_io \<Rightarrow> Snapshot \<Rightarrow> event result \<Rightarrow> JsonlStore \<Rightarrow> unit result \<times> JsonlStore" where
  "persist io snapshot item s =
     (case (case item of Inl err \<Rightarrow> (Inl err, s) | Inr item \<Rightarrow> appendEvent io item s) of
        (Inl err, s) \<Rightarrow> (case restore snapshot err s of (err, s) \<Rightarrow> (Inl err, s))
      | (Inr _, s) \<Rightarrow> (Inr (), s))"

definition Jsonl_Append ::
    "append_io \<Rightarrow> error option \<Rightarrow> JsonlStore \<Rightarrow> AppendInput \<Rightarrow> AppendResult result \<times> JsonlStore" where
  "Jsonl_Append io ctxErr s input =
     (case guarded ctxErr (js_closed s) of
        Some err \<Rightarrow> (Inl err, s)
      | None \<Rightarrow>
          let snapshot = Engine_Snapshot (js_engine s)
          in (case Engine_Append (js_engine s) input of
                (Inl err, e) \<Rightarrow> (Inl err, s\<lparr>js_engine := e\<rparr>)
              | (Inr result, e) \<Rightarrow>
                  if Outcome result = AppendIdempotent then (Inr result, s\<lparr>js_engine := e\<rparr>)
                  else (case persist io snapshot
                          (rbind (EntryToWire (ResultEntry result)) (\<lambda>wire.
                            Inr ((new_event ''entry.append'')\<lparr>EvEntry := Some wire\<rparr>)))
                          (s\<lparr>js_engine := e\<rparr>) of
                      (Inl err, s) \<Rightarrow> (Inl err, s)
                    | (Inr _, s) \<Rightarrow> (Inr result, s))))"

definition Jsonl_CommitCLL :: "append_io \<Rightarrow> dtmmr \<Rightarrow> error option \<Rightarrow> JsonlStore \<Rightarrow> uint64 \<Rightarrow> bytes option \<Rightarrow> State
    \<Rightarrow> unit result \<times> JsonlStore" where
  "Jsonl_CommitCLL io dt ctxErr s expectedSize expectedCheckpoint next_st =
     (case guarded ctxErr (js_closed s) of
        Some err \<Rightarrow> (Inl err, s)
      | None \<Rightarrow>
          let snapshot = Engine_Snapshot (js_engine s)
          in (case CommitCLL dt (js_engine s) expectedSize expectedCheckpoint next_st of
                (Inl err, e) \<Rightarrow> (Inl err, s\<lparr>js_engine := e\<rparr>)
              | (Inr _, e) \<Rightarrow>
                  persist io snapshot
                    (rbind (DeltaSince e snapshot) (\<lambda>delta.
                     rbind (StateToWire delta) (\<lambda>wire.
                       Inr ((new_event ''cll.commit'')\<lparr>EvExpectedSize := FormatUint expectedSize,
                         EvExpectedCheckpoint := map_option base64_EncodeToString expectedCheckpoint,
                         EvState := Some wire\<rparr>))))
                    (s\<lparr>js_engine := e\<rparr>)))"

definition Jsonl_CommitWitness ::
    "append_io \<Rightarrow> error option \<Rightarrow> JsonlStore \<Rightarrow> uint32 \<Rightarrow> WitnessState \<Rightarrow> unit result \<times> JsonlStore" where
  "Jsonl_CommitWitness io ctxErr s expectedAttempts next_w =
     (case guarded ctxErr (js_closed s) of
        Some err \<Rightarrow> (Inl err, s)
      | None \<Rightarrow>
          let snapshot = Engine_Snapshot (js_engine s)
          in (case CommitWitness (js_engine s) expectedAttempts next_w of
                (Inl err, e) \<Rightarrow> (Inl err, s\<lparr>js_engine := e\<rparr>)
              | (Inr _, e) \<Rightarrow>
                  persist io snapshot
                    (rbind (WitnessToWire next_w) (\<lambda>wire.
                      Inr ((new_event ''witness.commit'')\<lparr>EvExpectedAttempts := Some expectedAttempts,
                        EvWitness := Some wire\<rparr>)))
                    (s\<lparr>js_engine := e\<rparr>)))"

definition Jsonl_GetEntry :: "error option \<Rightarrow> JsonlStore \<Rightarrow> bytes \<Rightarrow> Entry result" where
  "Jsonl_GetEntry ctxErr s value =
     (case guarded ctxErr (js_closed s) of Some err \<Rightarrow> Inl err | None \<Rightarrow> GetEntry (js_engine s) value)"

definition Jsonl_ScanEntries :: "error option \<Rightarrow> JsonlStore \<Rightarrow> uint64 \<Rightarrow> int \<Rightarrow> Entry list result" where
  "Jsonl_ScanEntries ctxErr s afterSeq limit =
     (case guarded ctxErr (js_closed s) of Some err \<Rightarrow> Inl err | None \<Rightarrow> ScanEntries (js_engine s) afterSeq limit)"

definition Jsonl_LoadCLL :: "error option \<Rightarrow> JsonlStore \<Rightarrow> State result" where
  "Jsonl_LoadCLL ctxErr s =
     (case guarded ctxErr (js_closed s) of Some err \<Rightarrow> Inl err | None \<Rightarrow> Inr (Engine_State (js_engine s)))"

definition Jsonl_PendingWitnesses :: "error option \<Rightarrow> JsonlStore \<Rightarrow> time \<Rightarrow> int \<Rightarrow> WitnessState list result" where
  "Jsonl_PendingWitnesses ctxErr s now limit =
     (case guarded ctxErr (js_closed s) of Some err \<Rightarrow> Inl err | None \<Rightarrow> PendingWitnesses (js_engine s) now limit)"

definition Jsonl_GetWitness :: "error option \<Rightarrow> JsonlStore \<Rightarrow> string \<Rightarrow> uint64 \<Rightarrow> WitnessState result" where
  "Jsonl_GetWitness ctxErr s wid sz =
     (case guarded ctxErr (js_closed s) of Some err \<Rightarrow> Inl err | None \<Rightarrow> GetWitness (js_engine s) wid sz)"

end
