(* ===== verification/Jsonl_Laws.thy ===== *)
theory Jsonl_Laws
  imports Jsonl_Store
begin

text \<open>
  What the journal keeps. The text of an event replays to that event; a journal followed by a whole
  line replays to the journal's engine followed by the line's event, and followed by a part of a line
  it replays to the journal's engine; the events of the three writing methods replay to what the
  methods did to the engine, with times cut to milliseconds.
\<close>

section \<open>Lines\<close>

lemma event_of_value [simp]: "event_of (event_value ev) = ev"
  by (simp add: event_of_def event_value_def option.map_comp o_def option.map_ident)

lemma wire_values_not_null [simp]:
  "e_value WireEntry_type (WireEntry_value a) \<noteq> JNull" "e_value WireWitness_type (WireWitness_value b) \<noteq> JNull"
  "e_value WireState_type (WireState_value c) \<noteq> JNull"
  by (simp_all add: WireEntry_type_def WireEntry_value_def WireWitness_type_def WireWitness_value_def
      WireState_type_def WireState_value_def)

definition storable :: "event \<Rightarrow> bool" where
  "storable ev \<longleftrightarrow> EvVersion ev = schemaVersion \<and> ValidString (EvType ev) \<and> ValidString (EvExpectedSize ev)
     \<and> pred_option (\<lambda>w. fits WireEntry_type (WireEntry_value w)) (EvEntry ev)
     \<and> pred_option ValidString (EvExpectedCheckpoint ev)
     \<and> pred_option (\<lambda>w. fits WireState_type (WireState_value w)) (EvState ev)
     \<and> pred_option (\<lambda>w. fits WireWitness_type (WireWitness_value w)) (EvWitness ev)"

lemma event_fits:
  assumes "storable ev"
  shows "fits event_type (event_value ev)"
proof -
  have p: "fits (ShPtr t) (GPtr (map_option f p))"
    if "pred_option (\<lambda>x. fits t (f x)) p" "\<And>x. e_value t (f x) \<noteq> JNull" for t p and f :: "'a \<Rightarrow> gval"
    using that by (cases p) simp_all
  have "pred_option (\<lambda>n. fits (ShUint 32) (GInt (uint n))) q" for q :: "uint32 option"
    using uint_bounded by (cases q) (auto simp: uint_bounded [where ?'a = 32, simplified])
  then show ?thesis
    using assms p unfolding storable_def event_type_def event_value_def
    by (simp add: schemaVersion_def p)
qed

lemma event_type_ok [simp]: "shape_ok event_type" "shape_depth event_type = 4"
  by (simp_all add: event_type_def)

lemma d_members_skip:
  "list_all (\<lambda>(k, _). field_index fs k = None) ms \<Longrightarrow> d_members False fs ms xs = Some xs"
  by (induction ms) auto

lemma e_fields_names: "fst ` set (e_fields fs xs) \<subseteq> fst ` set fs"
proof (induction fs arbitrary: xs)
  case (Cons f fs)
  obtain n om t where f: "f = (n, om, t)" by (cases f)
  show ?case using Cons [of "tl xs"] f by (cases xs) (auto split: if_splits)
qed simp

lemma event_parses:
  assumes "storable ev"
  shows "json_parse (encodeEvent ev) = Some (e_value event_type (event_value ev))"
  using e_value_ok(1) [OF event_type_ok(1) event_fits [OF assms]]
    json_parse_print [of "e_value event_type (event_value ev)"]
  by (simp add: encodeEvent_def json_Marshal_def maxNestingDepth_def)

lemma event_header:
  assumes "storable ev"
  shows "json_Unmarshal header_type (encodeEvent ev) =
    Some (GStruct [GInt schemaVersion, GInt 0, GString (EvType ev)])"
proof -
  define fs where "fs = [(''version'', False, ShInt 64), (''v'', False, ShInt 64), (''type'', False, ShString)]"
  obtain ms where ms: "e_value event_type (event_value ev) =
      JObject ((''version'', JNumber (format_int (EvVersion ev))) # (''type'', JString (EvType ev)) # ms)"
    "fst ` set ms \<subseteq> {''entry'', ''expected_size'', ''expected_checkpoint'', ''state'', ''expected_attempts'', ''witness''}"
  proof
    let ?fs = "drop 2 (case event_type of ShStruct fs \<Rightarrow> fs)" and ?xs = "drop 2 (case event_value ev of GStruct xs \<Rightarrow> xs)"
    show "e_value event_type (event_value ev) =
      JObject ((''version'', JNumber (format_int (EvVersion ev))) # (''type'', JString (EvType ev)) # e_fields ?fs ?xs)"
      by (simp add: event_type_def event_value_def)
    show "fst ` set (e_fields ?fs ?xs) \<subseteq> {''entry'', ''expected_size'', ''expected_checkpoint'', ''state'',
        ''expected_attempts'', ''witness''}"
      using e_fields_names [of ?fs ?xs] by (simp add: event_type_def)
  qed
  have "field_index fs k = None" if "k \<in> fst ` set ms" for k
    using ms(2) that unfolding fs_def by (auto simp: field_index_def)
  then have "list_all (\<lambda>(k, _). field_index fs k = None) ms" by (force simp: list_all_iff)
  from d_members_skip [OF this] have "d_members False fs ms xs = Some xs" for xs .
  moreover have "field_index fs ''version'' = Some 0" "field_index fs ''type'' = Some 2"
    by (simp_all add: fs_def field_index_def)
  moreover have "decode_int True 64 (format_int schemaVersion) = Some schemaVersion"
    by (rule decode_int_format_int(1)) (simp_all add: schemaVersion_def)
  moreover have "EvVersion ev = schemaVersion" using assms by (simp add: storable_def)
  ultimately show ?thesis
    using event_parses [OF assms] ms(1)
    by (simp add: json_Unmarshal_def header_type_def flip: fs_def) (simp add: fs_def)
qed

lemma replayLine_event:
  assumes "storable ev" "length (encodeEvent ev) \<le> MaxJournalEventBytes" "initialized \<or> EvType ev = ''cll.init''"
  shows "replayLine dt initialized e (encodeEvent ev) =
    (case applyEvent dt e ev of (Inl _, _) \<Rightarrow> Inl ErrCorrupt | (Inr _, e) \<Rightarrow> Inr e)"
proof -
  have "json_Unmarshal event_type (encodeEvent ev) = Some (event_value ev)"
    unfolding encodeEvent_def
    by (rule json_Unmarshal_Marshal) (simp_all add: event_fits [OF assms(1)] maxNestingDepth_def)
  moreover have "ValidString (encodeEvent ev)"
    using plain_line [OF plain_json_print] e_value_ok(1) [OF event_type_ok(1) event_fits [OF assms(1)]]
    by (simp add: encodeEvent_def json_Marshal_def)
  ultimately show ?thesis
    using assms(2,3) event_header [OF assms(1)]
    by (auto simp: replayLine_def header_of_def Let_def)
qed

lemma event_no_newline: "storable ev \<Longrightarrow> CHR 0x0A \<notin> set (encodeEvent ev)"
  using plain_line [OF plain_json_print] e_value_ok(1) [OF event_type_ok(1) event_fits]
  by (simp add: encodeEvent_def json_Marshal_def)

section \<open>Journals\<close>

lemma replay_loop_line:
  assumes "CHR 0x0A \<notin> set line"
  shows "replay_loop dt (line @ CHR 0x0A # rest) ini k e =
    rbind (replayLine dt ini e line) (\<lambda>e. replay_loop dt rest True (k + length line + 1) e)"
proof -
  have "takeWhile (\<lambda>c. c \<noteq> CHR 0x0A) (line @ CHR 0x0A # rest) = line" using assms by (induction line) auto
  then show ?thesis by (subst replay_loop.simps) (simp add: Let_def)
qed

lemma replay_loop_torn: "CHR 0x0A \<notin> set torn \<Longrightarrow> replay_loop dt torn ini k e = Inr (e, k)"
  by (subst replay_loop.simps) simp

text \<open>A text is a torn line, or a line and a text.\<close>

lemma lines_induct [case_names torn line]:
  assumes "\<And>c. CHR 0x0A \<notin> set c \<Longrightarrow> P c"
    "\<And>line rest. CHR 0x0A \<notin> set line \<Longrightarrow> P rest \<Longrightarrow> P (line @ CHR 0x0A # rest)"
  shows "P (c :: string)"
proof (induction c rule: length_induct)
  case (1 c)
  show ?case
  proof (cases "CHR 0x0A \<in> set c")
    case True
    then obtain line rest where "c = line @ CHR 0x0A # rest" "CHR 0x0A \<notin> set line" using split_list_first by metis
    then show ?thesis using 1 assms(2) by simp
  qed (rule assms(1))
qed

lemma replay_loop_tail:
  "replay_loop dt c ini k e = Inr (e', n) \<Longrightarrow> k \<le> n \<and> CHR 0x0A \<notin> set (drop (n - k) c)"
proof (induction c arbitrary: ini k e rule: lines_induct)
  case (line line rest)
  then obtain e1 where "replay_loop dt rest True (k + length line + 1) e1 = Inr (e', n)"
    by (auto simp: replay_loop_line rbind_Inr_iff)
  from line.IH [OF this] obtain d where d: "n = k + length line + 1 + d" "CHR 0x0A \<notin> set (drop d rest)"
    by (auto simp: le_iff_add)
  then have "n - k = length line + (1 + d)" by simp
  then show ?case using d by simp
qed (auto simp: replay_loop_torn)

text \<open>A journal that was read to its last byte can be continued.\<close>

lemma replay_loop_append:
  "replay_loop dt c ini k e = Inr (e', k + length c) \<Longrightarrow>
   replay_loop dt (c @ d) ini k e = replay_loop dt d (ini \<or> c \<noteq> []) (k + length c) e'"
proof (induction c arbitrary: ini k e rule: lines_induct)
  case (line line rest)
  then obtain e1 where e1: "replayLine dt ini e line = Inr e1"
      "replay_loop dt rest True (k + length line + 1) e1 = Inr (e', k + length line + 1 + length rest)"
    by (auto simp: replay_loop_line rbind_Inr_iff)
  show ?case using line.IH [OF e1(2)] e1(1) line.hyps by (simp add: replay_loop_line add.assoc)
next
  case (torn c)
  then show ?case using replay_loop_torn by auto
qed

definition journaled :: "dtmmr \<Rightarrow> string \<Rightarrow> Engine \<Rightarrow> bool" where
  "journaled dt c e \<longleftrightarrow> c \<noteq> [] \<and> replay_loop dt c False 0 Engine_New = Inr (e, length c)"

definition event_line :: "event \<Rightarrow> string" where
  "event_line ev = encodeEvent ev @ [CHR 0x0A]"

lemma journaled_init:
  shows "journaled dt (event_line (new_event ''cll.init'')) Engine_New"
    "length (event_line (new_event ''cll.init'')) \<le> MaxJournalEventBytes"
proof -
  let ?ev = "new_event ''cll.init''"
  have st: "storable ?ev"
    by (simp add: storable_def new_event_def)
  have enc: "encodeEvent ?ev = ''{'' @ json_string ''version'' @ '':4,'' @ json_string ''type'' @ '':'' @ json_string ''cll.init'' @ ''}''"
  proof -
    have "char_of (52 :: nat) = CHR ''4''" by code_simp
    then show ?thesis
      by (simp add: encodeEvent_def json_Marshal_def new_event_def event_type_def event_value_def schemaVersion_def
          format_int_def dec_of_nat.simps digit_char_def)
  qed
  have l: "length (encodeEvent ?ev) \<le> 100" unfolding enc by (simp add: length_json_string json_safe_def)
  then show "length (event_line ?ev) \<le> MaxJournalEventBytes" by (simp add: event_line_def MaxJournalEventBytes_def)
  have "applyEvent dt Engine_New ?ev = (Inr (), Engine_New)"
    by (simp add: applyEvent_def new_event_def Engine_Entries_def Engine_State_def Engine_New_def empty_State_def)
  then show "journaled dt (event_line ?ev) Engine_New"
    using replay_loop_line [OF event_no_newline [OF st], of dt "[]" False 0] replayLine_event [OF st, of False dt]
      replay_loop_torn [of "[]"] l
    by (simp add: journaled_def event_line_def new_event_def MaxJournalEventBytes_def)
qed

lemma journaled_snoc:
  assumes "journaled dt c e" "storable ev" "length (event_line ev) \<le> MaxJournalEventBytes"
    "applyEvent dt e ev = (Inr u, e')"
  shows "journaled dt (c @ event_line ev) e'"
proof -
  have c: "c \<noteq> []" "replay_loop dt c False 0 Engine_New = Inr (e, 0 + length c)"
    using assms(1) by (simp_all add: journaled_def)
  have "replay_loop dt (event_line ev) True (length c) e = Inr (e', length c + length (event_line ev))"
    using replay_loop_line [OF event_no_newline [OF assms(2)], of dt "[]" True "length c" e]
      replayLine_event [OF assms(2), of True dt e] assms(3,4) replay_loop_torn [of "[]"]
    by (simp add: event_line_def)
  then show ?thesis using replay_loop_append [OF c(2), of "event_line ev"] c(1) by (simp add: journaled_def)
qed

lemma journaled_torn:
  assumes "journaled dt c e" "CHR 0x0A \<notin> set torn"
  shows "replay_loop dt (c @ torn) False 0 Engine_New = Inr (e, length c)"
proof -
  have c: "c \<noteq> []" "replay_loop dt c False 0 Engine_New = Inr (e, 0 + length c)"
    using assms(1) by (simp_all add: journaled_def)
  then show ?thesis using replay_loop_append [OF c(2), of torn] replay_loop_torn [OF assms(2)] by simp
qed

lemma take_event_line:
  assumes "storable ev" "n < length (event_line ev)"
  shows "CHR 0x0A \<notin> set (take n (event_line ev))"
  using assms event_no_newline [OF assms(1)] by (auto simp: event_line_def dest: in_set_takeD)

section \<open>Events of the writing methods\<close>

text \<open>What a journal keeps of an engine: its times are cut to milliseconds.\<close>

definition norm_engine :: "Engine \<Rightarrow> Engine" where
  "norm_engine e = e\<lparr>state := norm_state (state e)\<rparr>"

lemma norm_engine_fields [simp]:
  "entries (norm_engine e) = entries e" "byValue (norm_engine e) = byValue e"
  "state (norm_engine e) = norm_state (state e)" "norm_engine (e\<lparr>state := st\<rparr>) = e\<lparr>state := norm_state st\<rparr>"
  "norm_engine (e\<lparr>entries := es, byValue := m\<rparr>) = (norm_engine e)\<lparr>entries := es, byValue := m\<rparr>"
  by (simp_all add: norm_engine_def)

lemma norm_state_fields [simp]:
  "Size (norm_state s) = Size s" "Nodes (norm_state s) = Nodes s" "IndexedSeq (norm_state s) = IndexedSeq s"
  "Checkpoint (norm_state s) = Checkpoint s" "Witnesses (norm_state s) = map norm_witness (Witnesses s)"
  "norm_state (s\<lparr>Witnesses := ws\<rparr>) = (norm_state s)\<lparr>Witnesses := map norm_witness ws\<rparr>"
  "norm_state (s\<lparr>Nodes := ns\<rparr>) = (norm_state s)\<lparr>Nodes := ns\<rparr>"
  by (simp_all add: norm_state_def)

lemma norm_engine_inv [simp]: "engine_inv dt (norm_engine e) = engine_inv dt e"
  by (simp add: engine_inv_def)

lemma norm_engine_New [simp]: "norm_engine Engine_New = Engine_New"
  by (simp add: norm_engine_def Engine_New_def empty_State_def norm_state_def)

lemma keys_norm [simp]: "witness_key \<circ> norm_witness = witness_key" "(\<lambda>w. witness_key (norm_witness w)) = witness_key"
  by (simp_all add: fun_eq_iff)

lemma witnessMap_norm: "witnessMap (map norm_witness ws) k = map_option norm_witness (witnessMap ws k)"
  by (induction ws rule: rev_induct) (simp_all add: witnessMap_snoc)

lemma new_witnesses_norm:
  "new_witnesses (map norm_witness ws) (map norm_witness vs) = map norm_witness (new_witnesses ws vs)"
  by (simp add: new_witnesses_def filter_map o_def image_image)

lemma mergeable_norm: "mergeable (map norm_witness ws) (map norm_witness vs) = mergeable ws vs"
  by (auto simp: mergeable_def distinct_keys_def witnessMap_norm)

lemma ApplyCLL_norm:
  "ApplyCLL dt cur sz ck nxt = Inr st \<Longrightarrow> ApplyCLL dt (norm_state cur) sz ck (norm_state nxt) = Inr (norm_state st)"
  unfolding ApplyCLL_iff by (auto simp: mergeable_norm new_witnesses_norm)

lemma replaceWitness_norm:
  "replaceWitness a (norm_witness w) (map norm_witness ws) =
     (case replaceWitness a w ws of Inl err \<Rightarrow> Inl err | Inr vs \<Rightarrow> Inr (map norm_witness vs))"
  by (induction ws) (auto split: sum.splits)

lemma ApplyWitness_norm:
  "ApplyWitness s a w = Inr st \<Longrightarrow> ApplyWitness (norm_state s) a (norm_witness w) = Inr (norm_state st)"
  by (auto simp: ApplyWitness_def result_simps replaceWitness_norm)

text \<open>The events that the three methods journal; an engine that was read from a journal follows them.\<close>

definition append_event :: "WireEntry \<Rightarrow> event" where
  "append_event wire = (new_event ''entry.append'')\<lparr>EvEntry := Some wire\<rparr>"

definition commit_event :: "uint64 \<Rightarrow> bytes option \<Rightarrow> WireState \<Rightarrow> event" where
  "commit_event sz ck wire = (new_event ''cll.commit'')\<lparr>EvExpectedSize := FormatUint sz,
     EvExpectedCheckpoint := map_option base64_EncodeToString ck, EvState := Some wire\<rparr>"

definition witness_event :: "uint32 \<Rightarrow> WireWitness \<Rightarrow> event" where
  "witness_event a wire = (new_event ''witness.commit'')\<lparr>EvExpectedAttempts := Some a, EvWitness := Some wire\<rparr>"

lemma append_replays:
  assumes "engine_inv dt e" "Engine_Append e input = (Inr r, e')" "Outcome r \<noteq> AppendIdempotent"
  obtains wire where "EntryToWire (ResultEntry r) = Inr wire" "storable (append_event wire)"
    "applyEvent dt (norm_engine e) (append_event wire) = (Inr (), norm_engine e')"
proof -
  let ?n = "length (entries e)"
  obtain en where en: "r = \<lparr>ResultEntry = en, Outcome = AppendInserted\<rparr>"
      "e' = e\<lparr>entries := entries e @ [en], byValue := (byValue e)(Value en \<mapsto> ?n)\<rparr>"
      "valid_entry ?n en" "Value en \<notin> set (map Value (entries e))" "?n < unat MaxPortableInteger"
      "AppendedAt en = NormalizeTime (InputAppendedAt input)"
    using Engine_Append_cases [OF assms(1), of input] assms(2,3) by (elim disjE exE conjE) auto
  have v: "Seq en = of_nat (?n + 1)" "Seq en \<noteq> 0" "Seq en \<le> MaxPortableInteger" "length (Value en) = EntryBytes"
      "ValidateTime (AppendedAt en) = Inr ()"
    using en(3) seq_in_range [OF en(5)] by (auto simp: valid_entry_def unat_eq_0)
  obtain wire where w: "EntryToWire en = Inr wire"
    using FormatTime_total [OF v(5)] by (auto simp: EntryToWire_def)
  have "norm_entry en = en" by (simp add: en(6) norm_entry_def)
  then have f: "EntryFromWire wire = Inr en" using EntryFromWire_ToWire [OF w v(2,3,4)] by simp
  let ?in = "\<lparr>InputValue = Value en, InputAppendedAt = AppendedAt en\<rparr>"
  obtain en' where en': "Engine_Append (norm_engine e) ?in = (Inr \<lparr>ResultEntry = en', Outcome = AppendInserted\<rparr>,
      (norm_engine e)\<lparr>entries := entries e @ [en'], byValue := (byValue e)(Value en' \<mapsto> ?n)\<rparr>)"
      "valid_entry ?n en'" "Value en' = Value en" "AppendedAt en' = NormalizeTime (AppendedAt en)"
    using Engine_Append_cases [OF norm_engine_inv [THEN iffD2, OF assms(1)], of ?in] v(4,5) en(4,5)
    by (elim disjE exE conjE) (auto dest: value_mem)
  have "en' = en" using en'(2-4) en(3,6) by (cases en; cases en') (simp add: valid_entry_def)
  then have "applyEvent dt (norm_engine e) (append_event wire) = (Inr (), norm_engine e')"
    using en'(1) f by (simp add: applyEvent_def append_event_def new_event_def applyAppend_def en(2))
  moreover have "storable (append_event wire)"
    using WireEntry_fits [OF w] by (simp add: storable_def append_event_def new_event_def)
  ultimately show ?thesis using w that en(1) by simp
qed

lemma commit_replays:
  assumes "engine_inv dt e" "ApplyCLL dt (state e) sz ck nxt = Inr st" "length (Nodes nxt) < 2 ^ 64"
    "list_all utf8_row (Witnesses nxt)"
  obtains delta wire where "DeltaSince (e\<lparr>state := st\<rparr>) (Engine_Snapshot e) = Inr delta"
    "StateToWire delta = Inr wire" "storable (commit_event sz ck wire)"
    "applyEvent dt (norm_engine e) (commit_event sz ck wire) = (Inr (), e\<lparr>state := norm_state st\<rparr>)"
proof -
  let ?ws = "new_witnesses (Witnesses (state e)) (Witnesses nxt)"
  define delta where "delta = nxt\<lparr>Nodes := drop (length (Nodes (state e))) (Nodes nxt), Witnesses := ?ws\<rparr>"
  note d = delta_of_commit [OF assms(2), folded delta_def]
  have v: "valid_state dt nxt" using assms(2) by (simp add: ApplyCLL_iff)
  have rows: "list_all valid_witness ?ws" "list_all utf8_row ?ws"
    using v assms(4) by (auto simp: valid_state_def valid_metadata_def new_witnesses_def list_all_iff)
  have "pred_option (\<lambda>t. ValidateTime t = Inr ()) (FirstPendingAt delta)" "list_all valid_witness (Witnesses delta)"
    using v rows(1) by (simp_all add: delta_def valid_state_def valid_metadata_def)
  then obtain wire where w: "StateToWire delta = Inr wire" "stateFromWire wire = Inr (norm_state delta)"
    using stateFromWire_ToWire by blast
  note n = ApplyCLL_norm [OF assms(2)]
  have "DeltaSince ((norm_engine e)\<lparr>state := norm_state st\<rparr>) (Engine_Snapshot (norm_engine e)) = Inr (norm_state delta)"
    using delta_of_commit [of dt "norm_engine e" sz ck "norm_state nxt" "norm_state st"] n
    by (simp add: delta_def new_witnesses_norm)
  then have "CommitCLLDelta dt (norm_engine e) sz ck (norm_state delta) = (Inr (), (norm_engine e)\<lparr>state := norm_state st\<rparr>)"
    using CommitCLLDelta_replays [of dt "norm_engine e" sz ck "norm_state nxt" "norm_state st"] n assms(1,3)
    by (simp add: engine_inv_def)
  moreover have "(case map_option base64_EncodeToString ck of None \<Rightarrow> Some None
      | Some encoded \<Rightarrow> map_option Some (base64_StrictDecodeString encoded)) = Some ck"
    by (cases ck) simp_all
  ultimately have "applyEvent dt (norm_engine e) (commit_event sz ck wire) = (Inr (), e\<lparr>state := norm_state st\<rparr>)"
    using w(2) by (simp add: applyEvent_def commit_event_def new_event_def applyCommit_def StateDeltaFromWire_def norm_engine_def)
  moreover have "storable (commit_event sz ck wire)"
    using WireState_fits [OF w(1)] rows by (cases ck) (simp_all add: storable_def commit_event_def new_event_def delta_def)
  ultimately show ?thesis using d w(1) that by blast
qed

lemma witness_replays:
  assumes "ApplyWitness (state e) a w = Inr st" "utf8_row w"
  obtains wire where "WitnessToWire w = Inr wire" "storable (witness_event a wire)"
    "applyEvent dt (norm_engine e) (witness_event a wire) = (Inr (), e\<lparr>state := norm_state st\<rparr>)"
proof -
  have v: "valid_witness w" using ApplyWitness_Inr [OF assms(1)] by metis
  obtain wire where wire: "WitnessToWire w = Inr wire" using WitnessToWire_total [OF valid_witness_time [OF v]] .
  have "applyEvent dt (norm_engine e) (witness_event a wire) = (Inr (), e\<lparr>state := norm_state st\<rparr>)"
    using WitnessFromWire_ToWire [OF wire v] ApplyWitness_norm [OF assms(1)]
    by (simp add: applyEvent_def witness_event_def new_event_def CommitWitness_def norm_engine_def)
  moreover have "storable (witness_event a wire)"
    using WireWitness_fits [OF wire v assms(2)] by (simp add: storable_def witness_event_def new_event_def)
  ultimately show ?thesis using wire that by blast
qed

section \<open>Writing under faults\<close>

lemma writeAll_result:
  obtains (all) "writeAll io d j = (True, j @ d)" | (part) n where "writeAll io d j = (False, j @ take n d)"
proof -
  have "writeAll io d j = (True, j @ d) \<or> (\<exists>n. writeAll io d j = (False, j @ take n d))"
  proof (induction io d j rule: writeAll.induct)
    case (3 count fails io c d j)
    let ?n = "min count (length (c # d))"
    show ?case
    proof (cases "fails \<or> ?n = 0")
      case True
      then show ?thesis by (auto simp: Let_def intro: exI [of _ ?n])
    next
      case False
      let ?j = "j @ take ?n (c # d)" and ?d = "drop ?n (c # d)"
      have w: "writeAll ((count, fails) # io) (c # d) j = writeAll io ?d ?j"
        using False by (simp only: writeAll.simps Let_def if_False)
      have a: "?j @ ?d = j @ c # d" "?j @ take m ?d = j @ take (?n + m) (c # d)" for m
        by (simp_all only: append_assoc append_take_drop_id take_add)
      from 3 [OF refl refl False] show ?thesis unfolding w a by blast
    qed
  qed simp_all
  then show thesis using that by blast
qed

text \<open>
  What a failed \<open>appendEvent\<close> leaves: the journal as it was, or a closed store whose journal has
  kept a part of the line, perhaps the whole line.
\<close>

lemma rollback_result:
  assumes "js_journal s = j @ take n line"
  obtains (undone) err where "rollback io (length j) cause s = (Inl err, s\<lparr>js_journal := j\<rparr>)"
  | (stuck) m where "rollback io (length j) cause s = (Inl ErrCorrupt, s\<lparr>js_journal := j @ take m line, js_closed := True\<rparr>)"
proof (cases "IoTruncate io")
  case True
  have "s = s\<lparr>js_journal := j @ take n line\<rparr>" using assms by (cases s) simp
  then show ?thesis using True stuck [of n] by (simp add: rollback_def Let_def)
next
  case False
  then show ?thesis
    using assms undone stuck [of 0] by (cases "IoSeekBack io \<or> IoSyncBack io") (auto simp: rollback_def Let_def)
qed

lemma appendEvent_result:
  obtains (ok) "appendEvent io ev s = (Inr (), s\<lparr>js_journal := js_journal s @ event_line ev\<rparr>)"
      "length (event_line ev) \<le> MaxJournalEventBytes"
  | (undone) err where "appendEvent io ev s = (Inl err, s)"
  | (stuck) err m where "appendEvent io ev s =
      (Inl err, s\<lparr>js_journal := js_journal s @ take m (event_line ev), js_closed := True\<rparr>)"
      "length (event_line ev) \<le> MaxJournalEventBytes"
proof (cases "length (event_line ev) > MaxJournalEventBytes \<or> IoSeek io")
  case True
  then have "\<exists>err. appendEvent io ev s = (Inl err, s)" by (auto simp: appendEvent_def event_line_def Let_def)
  then show ?thesis using undone by blast
next
  case False
  let ?j = "js_journal s" and ?l = "event_line ev"
  have undo: thesis if "appendEvent io ev s = rollback io (length ?j) cause (s\<lparr>js_journal := ?j @ take n ?l\<rparr>)" for cause n
  proof -
    have "js_journal (s\<lparr>js_journal := ?j @ take n ?l\<rparr>) = ?j @ take n ?l" by simp
    then show thesis
      using that undone stuck False
      by (cases rule: rollback_result [of "s\<lparr>js_journal := ?j @ take n ?l\<rparr>" ?j n ?l io cause]) auto
  qed
  have ap: "appendEvent io ev s =
      (let (written, journal) = writeAll (IoWrites io) ?l ?j; s = s\<lparr>js_journal := journal\<rparr>
       in if \<not> written then rollback io (length ?j) (ErrMsg ''write JSONL journal'') s
          else if IoSync io then rollback io (length ?j) (ErrMsg ''sync JSONL journal'') s
          else (Inr (), s))"
    using False by (simp add: appendEvent_def event_line_def Let_def)
  show ?thesis
  proof (cases rule: writeAll_result [of "IoWrites io" ?l ?j])
    case all
    then show ?thesis
      using ap ok False undo [of "ErrMsg ''sync JSONL journal''" "length ?l"] by (cases "IoSync io") simp_all
  next
    case (part n)
    then show ?thesis using ap undo [of "ErrMsg ''write JSONL journal''" n] by simp
  qed
qed

section \<open>The three writing methods\<close>

text \<open>A journal from which an engine can be recovered: whole lines that replay to it, and no other whole line.\<close>

definition recovers :: "dtmmr \<Rightarrow> string \<Rightarrow> Engine \<Rightarrow> bool" where
  "recovers dt j e \<longleftrightarrow> (\<exists>c torn. j = c @ torn \<and> journaled dt c e \<and> CHR 0x0A \<notin> set torn)"

lemma journaled_recovers: "journaled dt c e \<Longrightarrow> recovers dt c e"
  unfolding recovers_def by (intro exI [of _ c] exI [of _ "[]"]) simp

lemma torn_recovers:
  assumes "journaled dt c e" "storable ev" "length (event_line ev) \<le> MaxJournalEventBytes"
    "applyEvent dt e ev = (Inr u, e')"
  shows "recovers dt (c @ take n (event_line ev)) e \<or> recovers dt (c @ take n (event_line ev)) e'"
proof (cases "n < length (event_line ev)")
  case True
  then show ?thesis using take_event_line [OF assms(2)] assms(1) unfolding recovers_def by blast
next
  case False
  then show ?thesis using journaled_recovers [OF journaled_snoc [OF assms]] by simp
qed

definition store_ok :: "dtmmr \<Rightarrow> JsonlStore \<Rightarrow> bool" where
  "store_ok dt s \<longleftrightarrow> \<not> js_closed s \<and> engine_inv dt (js_engine s)
     \<and> journaled dt (js_journal s) (norm_engine (js_engine s))"

text \<open>A change \<open>e \<rightarrow> e'\<close> of the engine, and how a store that is asked for it may end.\<close>

definition journal_outcome :: "dtmmr \<Rightarrow> Engine \<Rightarrow> JsonlStore \<Rightarrow> bool \<Rightarrow> JsonlStore \<Rightarrow> bool" where
  "journal_outcome dt e' s success s' \<longleftrightarrow>
     (if success then store_ok dt s' \<and> js_engine s' = e'
      else s' = s \<or> js_closed s' \<and> js_engine s' = js_engine s
        \<and> (recovers dt (js_journal s') (norm_engine (js_engine s)) \<or> recovers dt (js_journal s') (norm_engine e')))"

lemma persist_outcome:
  assumes s: "store_ok dt s" and e': "engine_inv dt e'" "grows (js_engine s) e'"
    and ev: "storable ev" "applyEvent dt (norm_engine (js_engine s)) ev = (Inr (), norm_engine e')"
    and p: "persist io (Engine_Snapshot (js_engine s)) (Inr ev) (s\<lparr>js_engine := e'\<rparr>) = (r, s')"
  shows "journal_outcome dt e' s (\<not> isl r) s'"
proof -
  let ?e = "js_engine s" and ?s = "s\<lparr>js_engine := e'\<rparr>"
  have i: "engine_inv dt ?e" "journaled dt (js_journal s) (norm_engine ?e)" using s by (simp_all add: store_ok_def)
  have res: "Restore e' (Engine_Snapshot ?e) = (Inr (), ?e)" by (rule Restore_eq [OF i(1) e'(1) growsD(1) [OF e'(2)]])
  show ?thesis
  proof (cases rule: appendEvent_result [of io ev ?s])
    case ok
    then have "s' = ?s\<lparr>js_journal := js_journal s @ event_line ev\<rparr>" "r = Inr ()" using p by (simp_all add: persist_def)
    then show ?thesis
      using s e'(1) journaled_snoc [OF i(2) ev(1) ok(2) ev(2)] by (simp add: journal_outcome_def store_ok_def)
  next
    case (undone err)
    then have "s' = s" "r = Inl err" using p res by (auto simp: persist_def restore_def)
    then show ?thesis by (simp add: journal_outcome_def)
  next
    case (stuck err m)
    then have "s' = s\<lparr>js_journal := js_journal s @ take m (event_line ev), js_closed := True\<rparr>" "r = Inl err"
      using p res by (auto simp: persist_def restore_def)
    then show ?thesis using torn_recovers [OF i(2) ev(1) stuck(2) ev(2)] by (simp add: journal_outcome_def)
  qed
qed

lemma guarded_None [simp]: "guarded ctxErr c = None \<longleftrightarrow> ctxErr = None \<and> \<not> c"
  by (cases ctxErr) (simp_all add: guarded_def)

lemma Jsonl_Append_outcome:
  assumes s: "store_ok dt s" and ap: "Jsonl_Append io ctxErr s input = (r, s')"
  shows "journal_outcome dt (snd (Engine_Append (js_engine s) input)) s (\<not> isl r) s'"
proof (cases "guarded ctxErr (js_closed s)")
  case None
  let ?e = "js_engine s"
  have e: "engine_inv dt ?e" "journaled dt (js_journal s) (norm_engine ?e)" using s by (simp_all add: store_ok_def)
  obtain q e' where q: "Engine_Append ?e input = (q, e')" by fastforce
  have e': "engine_inv dt e'" "grows ?e e'"
    using Engine_Append_inv [OF e(1), of input] Append_grows [OF e(1), of input] q by simp_all
  have same: "e' = ?e" if "isl q \<or> Outcome (projr q) = AppendIdempotent"
    using Engine_Append_cases [OF e(1), of input] q that by (elim disjE exE conjE) auto
  show ?thesis
  proof (cases "isl q \<or> Outcome (projr q) = AppendIdempotent")
    case True
    then have "s' = s" using same [OF True] ap q None by (cases q) (auto simp: Jsonl_Append_def)
    then show ?thesis using s same [OF True] q by (auto simp: journal_outcome_def)
  next
    case False
    then obtain res where res: "q = Inr res" "Outcome res \<noteq> AppendIdempotent" by (cases q) auto
    obtain wire where w: "EntryToWire (ResultEntry res) = Inr wire" "storable (append_event wire)"
        "applyEvent dt (norm_engine ?e) (append_event wire) = (Inr (), norm_engine e')"
      using append_replays [OF e(1) q [unfolded res(1)] res(2)] .
    obtain r1 where r1: "persist io (Engine_Snapshot ?e) (Inr (append_event wire)) (s\<lparr>js_engine := e'\<rparr>) = (r1, s')"
        "isl r1 = isl r"
      using ap None q res w(1) by (auto simp: Jsonl_Append_def append_event_def split: prod.splits sum.splits)
    show ?thesis using persist_outcome [OF s e' w(2,3) r1(1)] r1(2) q by simp
  qed
next
  case (Some err)
  then show ?thesis using ap by (auto simp: Jsonl_Append_def journal_outcome_def)
qed

lemma Jsonl_CommitCLL_outcome:
  assumes s: "store_ok dt s" and ap: "Jsonl_CommitCLL io dt ctxErr s sz ck nxt = (r, s')"
    and len: "length (Nodes nxt) < 2 ^ 64" "list_all utf8_row (Witnesses nxt)"
  shows "journal_outcome dt (snd (CommitCLL dt (js_engine s) sz ck nxt)) s (\<not> isl r) s'"
proof (cases "guarded ctxErr (js_closed s)")
  case None
  let ?e = "js_engine s"
  have e: "engine_inv dt ?e" using s by (simp add: store_ok_def)
  have e': "engine_inv dt (snd (CommitCLL dt ?e sz ck nxt))" "grows ?e (snd (CommitCLL dt ?e sz ck nxt))"
    by (rule CommitCLL_inv [OF e], rule CommitCLL_grows)
  show ?thesis
  proof (cases rule: CommitCLL_cases [of dt ?e sz ck nxt])
    case (fail err)
    then have "s' = s" "r = Inl err" using ap None by (auto simp: Jsonl_CommitCLL_def)
    then show ?thesis by (simp add: journal_outcome_def)
  next
    case (ok st)
    obtain delta wire where w: "DeltaSince (?e\<lparr>state := st\<rparr>) (Engine_Snapshot ?e) = Inr delta" "StateToWire delta = Inr wire"
        "storable (commit_event sz ck wire)"
        "applyEvent dt (norm_engine ?e) (commit_event sz ck wire) = (Inr (), ?e\<lparr>state := norm_state st\<rparr>)"
      using commit_replays [OF e ok(2) len] .
    have "persist io (Engine_Snapshot ?e) (Inr (commit_event sz ck wire)) (s\<lparr>js_engine := ?e\<lparr>state := st\<rparr>\<rparr>) = (r, s')"
      using ap None ok(1) w(1,2) by (auto simp: Jsonl_CommitCLL_def commit_event_def)
    then show ?thesis using persist_outcome [OF s _ _ w(3), of "?e\<lparr>state := st\<rparr>"] e' ok(1) w(4) by simp
  qed
next
  case (Some err)
  then show ?thesis using ap by (auto simp: Jsonl_CommitCLL_def journal_outcome_def)
qed

lemma Jsonl_CommitWitness_outcome:
  assumes s: "store_ok dt s" and ap: "Jsonl_CommitWitness io ctxErr s a w = (r, s')" and utf8: "utf8_row w"
  shows "journal_outcome dt (snd (CommitWitness (js_engine s) a w)) s (\<not> isl r) s'"
proof (cases "guarded ctxErr (js_closed s)")
  case None
  let ?e = "js_engine s"
  have e: "engine_inv dt ?e" using s by (simp add: store_ok_def)
  have e': "engine_inv dt (snd (CommitWitness ?e a w))" "grows ?e (snd (CommitWitness ?e a w))"
    by (rule CommitWitness_inv [OF e], rule CommitWitness_grows)
  show ?thesis
  proof (cases rule: CommitWitness_cases [of ?e a w])
    case (fail err)
    then have "s' = s" "r = Inl err" using ap None by (auto simp: Jsonl_CommitWitness_def)
    then show ?thesis by (simp add: journal_outcome_def)
  next
    case (ok st)
    obtain wire where wire: "WitnessToWire w = Inr wire" "storable (witness_event a wire)"
        "applyEvent dt (norm_engine ?e) (witness_event a wire) = (Inr (), ?e\<lparr>state := norm_state st\<rparr>)"
      using witness_replays [OF ok(2) utf8] .
    have "persist io (Engine_Snapshot ?e) (Inr (witness_event a wire)) (s\<lparr>js_engine := ?e\<lparr>state := st\<rparr>\<rparr>) = (r, s')"
      using ap None ok(1) wire(1) by (auto simp: Jsonl_CommitWitness_def witness_event_def)
    then show ?thesis using persist_outcome [OF s _ _ wire(2), of "?e\<lparr>state := st\<rparr>"] e' ok(1) wire(3) by simp
  qed
next
  case (Some err)
  then show ?thesis using ap by (auto simp: Jsonl_CommitWitness_def journal_outcome_def)
qed

section \<open>Opening and recovering\<close>

definition no_append_faults :: append_io where
  "no_append_faults = \<lparr>IoSeek = False, IoWrites = [], IoSync = False, IoTruncate = False, IoSeekBack = False,
     IoSyncBack = False\<rparr>"

definition no_faults :: open_io where
  "no_faults = \<lparr>OioOpen = False, OioLocked = False, OioRead = False, OioTruncate = False, OioSync = False,
     OioSeek = False, OioStat = False, OioAppend = no_append_faults\<rparr>"

lemma Jsonl_Open_journaled:
  assumes "journaled dt c e" "path \<noteq> []"
  shows "Jsonl_Open dt no_faults path (Some c) = (Inr \<lparr>js_journal = c, js_engine = e, js_closed = False\<rparr>, Some c)"
  using assms by (simp add: Jsonl_Open_def openJournal_def replay_def no_faults_def journaled_def)

lemma Jsonl_Init_recovers:
  assumes "recovers dt j e" "path \<noteq> []"
  obtains c where "Jsonl_Init dt no_faults path (Some j) = (Inr (), Some c)" "journaled dt c e"
proof -
  obtain c torn where c: "j = c @ torn" "journaled dt c e" "CHR 0x0A \<notin> set torn"
    using assms(1) by (auto simp: recovers_def)
  then have "replay_loop dt j False 0 Engine_New = Inr (e, length c)" using journaled_torn by simp
  then have "replay dt no_faults True j = (Inr e, c)" using c(1) by (auto simp: replay_def no_faults_def)
  then have "Jsonl_Init dt no_faults path (Some j) = (Inr (), Some c)"
    using c(2) assms(2)
    by (simp add: Jsonl_Init_def openJournal_def journaled_def no_faults_def Jsonl_Close_def)
  with c(2) show ?thesis using that by blast
qed

lemma Jsonl_Init_fresh:
  assumes "path \<noteq> []"
  obtains c where "Jsonl_Init dt no_faults path None = (Inr (), Some c)" "journaled dt c Engine_New"
proof -
  let ?ev = "new_event ''cll.init''"
  have "length (event_line ?ev) \<le> MaxJournalEventBytes" by (rule journaled_init)
  then have "appendEvent no_append_faults ?ev \<lparr>js_journal = [], js_engine = Engine_New, js_closed = False\<rparr>
      = (Inr (), \<lparr>js_journal = event_line ?ev, js_engine = Engine_New, js_closed = False\<rparr>)"
    by (cases "event_line ?ev") (simp_all add: appendEvent_def Let_def no_append_faults_def flip: event_line_def)
  then have "Jsonl_Init dt no_faults path None = (Inr (), Some (event_line ?ev))"
    using assms replay_loop_torn [of "[]" dt False 0 Engine_New]
    by (simp add: Jsonl_Init_def openJournal_def no_faults_def replay_def Jsonl_Close_def)
  then show ?thesis using that journaled_init(1) by blast
qed

text \<open>No call of \<open>Open\<close> writes, and \<open>Init\<close> only cuts off a tail without a complete line.\<close>

lemma replay_keeps:
  "snd (replay dt io repair data) = data \<or> (repair \<and> (\<exists>k. snd (replay dt io repair data) = take k data
     \<and> CHR 0x0A \<notin> set (drop k data)))"
proof (cases "replay_loop dt data False 0 Engine_New")
  case (Inr p)
  obtain e k where p: "p = (e, k)" by (cases p)
  have "CHR 0x0A \<notin> set (drop k data)" using replay_loop_tail [of dt data False 0 Engine_New e k] Inr p by simp
  then show ?thesis using Inr p by (cases repair) (auto simp: replay_def)
qed (simp add: replay_def)

section \<open>The contract\<close>

text \<open>A store on a disk without faults implements the same interfaces as the engine.\<close>

definition jsonl_live :: "dtmmr \<Rightarrow> JsonlStore \<Rightarrow> bool" where
  "jsonl_live dt s \<longleftrightarrow> \<not> js_closed s \<and> engine_inv dt (js_engine s)"

lemma appendEvent_faultless:
  "appendEvent no_append_faults ev s = (Inl ErrInvalid, s)
   \<or> appendEvent no_append_faults ev s = (Inr (), s\<lparr>js_journal := js_journal s @ event_line ev\<rparr>)"
  by (cases "event_line ev") (simp_all add: appendEvent_def Let_def no_append_faults_def flip: event_line_def)

lemma persist_faultless:
  assumes "jsonl_live dt s" "engine_inv dt e'" "grows (js_engine s) e'"
    "persist no_append_faults (Engine_Snapshot (js_engine s)) item (s\<lparr>js_engine := e'\<rparr>) = (r, s')"
  shows "\<not> js_closed s' \<and> js_engine s' = (if isl r then js_engine s else e')"
proof -
  have "Restore e' (Engine_Snapshot (js_engine s)) = (Inr (), js_engine s)"
    using Restore_eq [of dt "js_engine s" e'] assms(1,2) growsD(1) [OF assms(3)] by (simp add: jsonl_live_def)
  then show ?thesis
    using assms(1,4) appendEvent_faultless [of "projr item" "s\<lparr>js_engine := e'\<rparr>"]
    by (cases item) (auto simp: persist_def restore_def jsonl_live_def)
qed

lemma Jsonl_Append_faultless:
  assumes "jsonl_live dt s" "Jsonl_Append no_append_faults None s i = (r, s')"
  obtains q e' where "Engine_Append (js_engine s) i = (q, e')" "\<not> js_closed s'"
    "js_engine s' = (if isl r then js_engine s else e')" "\<not> isl r \<Longrightarrow> q = r" "isl q \<Longrightarrow> q = r \<and> s' = s"
proof -
  let ?e = "js_engine s"
  have e: "engine_inv dt ?e" "\<not> js_closed s" using assms(1) by (simp_all add: jsonl_live_def)
  obtain q e' where q: "Engine_Append ?e i = (q, e')" by fastforce
  have e': "engine_inv dt e'" "grows ?e e'" using Engine_Append_inv [OF e(1), of i] Append_grows [OF e(1), of i] q by simp_all
  have same: "e' = ?e" if "isl q \<or> Outcome (projr q) = AppendIdempotent"
    using Engine_Append_cases [OF e(1), of i] q that by (elim disjE exE conjE) auto
  show ?thesis
  proof (cases "isl q \<or> Outcome (projr q) = AppendIdempotent")
    case True
    have "Jsonl_Append no_append_faults None s i = (q, s)"
      using True q e(2) same [OF True] by (cases q) (simp_all add: Jsonl_Append_def guarded_def)
    then have "s' = s" "r = q" using assms(2) by simp_all
    then show ?thesis using e(2) same [OF True] by (intro that [OF q]) simp_all
  next
    case False
    then obtain res where res: "q = Inr res" "Outcome res \<noteq> AppendIdempotent" by (cases q) auto
    define item where "item = rbind (EntryToWire (ResultEntry res))
      (\<lambda>wire. Inr ((new_event ''entry.append'')\<lparr>EvEntry := Some wire\<rparr>))"
    obtain r1 s1 where p: "persist no_append_faults (Engine_Snapshot ?e) item (s\<lparr>js_engine := e'\<rparr>) = (r1, s1)" by fastforce
    have "Jsonl_Append no_append_faults None s i = (case r1 of Inl err \<Rightarrow> (Inl err, s1) | Inr _ \<Rightarrow> (Inr res, s1))"
      using q res e(2) p by (simp add: Jsonl_Append_def guarded_def Let_def item_def)
    then have "s1 = s' \<and> isl r1 = isl r \<and> (\<not> isl r \<longrightarrow> r = q)" using assms(2) res(1) by (cases r1) auto
    note r1 = this
    have "\<not> js_closed s1 \<and> js_engine s1 = (if isl r1 then ?e else e')" by (rule persist_faultless [OF assms(1) e' p])
    then show ?thesis using r1 res(1) by (intro that [OF q]) simp_all
  qed
qed

interpretation jsonl_log: entry_log "jsonl_live dt" "\<lambda>s. entries (js_engine s)" "Jsonl_Append no_append_faults None"
  "Jsonl_GetEntry None" "Jsonl_ScanEntries None" for dt
proof
  fix s :: JsonlStore and i r s'
  assume s: "jsonl_live dt s"
  then have e: "engine_inv dt (js_engine s)" "guarded None (js_closed s) = None" by (simp_all add: jsonl_live_def)
  show "valid_entries (entries (js_engine s))" by (rule engine_log.log_valid [OF e(1)])
  show "length v = EntryBytes \<Longrightarrow> Jsonl_GetEntry None s v =
      (case find (\<lambda>en. Value en = v) (entries (js_engine s)) of None \<Rightarrow> Inl ErrNotFound | Some en \<Rightarrow> Inr en)" for v
    unfolding Jsonl_GetEntry_def e(2) option.case by (rule engine_log.get [OF e(1)])
  show "a \<le> MaxPortableInteger \<Longrightarrow> 1 \<le> l \<Longrightarrow> l \<le> MaxScanLimit \<Longrightarrow>
      Jsonl_ScanEntries None s a l = Inr (take (nat l) (drop (unat a) (entries (js_engine s))))" for a l
    unfolding Jsonl_ScanEntries_def e(2) option.case by (rule engine_log.scan [OF e(1)])
  obtain r0 s0 where rs: "Jsonl_Append no_append_faults None s i = (r0, s0)" by fastforce
  obtain q e' where q: "Engine_Append (js_engine s) i = (q, e')" "\<not> js_closed s0"
      "js_engine s0 = (if isl r0 then js_engine s else e')" "\<not> isl r0 \<Longrightarrow> q = r0"
    using Jsonl_Append_faultless [OF s rs] by metis
  show "jsonl_live dt (snd (Jsonl_Append no_append_faults None s i))"
    using q rs e(1) engine_log.append_ok [OF e(1), of i] by (simp add: jsonl_live_def)
  show "Jsonl_Append no_append_faults None s i = (Inl err, s') \<Longrightarrow> entries (js_engine s') = entries (js_engine s)" for err
    using rs q(3) by simp
  assume "Jsonl_Append no_append_faults None s i = (Inr r, s')"
  then have ap: "Engine_Append (js_engine s) i = (Inr r, js_engine s')" using rs q by simp
  show "InputValue i \<notin> set (map Value (entries (js_engine s))) \<Longrightarrow> Outcome r = AppendInserted
      \<and> entries (js_engine s') = entries (js_engine s) @ [ResultEntry r] \<and> Value (ResultEntry r) = InputValue i"
    by (rule engine_log.append_new [OF e(1) ap])
  show "InputValue i \<in> set (map Value (entries (js_engine s))) \<Longrightarrow> Outcome r = AppendIdempotent
      \<and> entries (js_engine s') = entries (js_engine s) \<and> ResultEntry r \<in> set (entries (js_engine s))
      \<and> Value (ResultEntry r) = InputValue i"
    by (rule engine_log.append_old [OF e(1) ap])
qed

lemma Jsonl_CommitCLL_faultless:
  assumes "jsonl_live dt s" "Jsonl_CommitCLL no_append_faults dt None s sz ck n = (r, s')"
  shows "\<not> js_closed s'" "isl r \<Longrightarrow> js_engine s' = js_engine s"
    "\<not> isl r \<Longrightarrow> CommitCLL dt (js_engine s) sz ck n = (Inr (), js_engine s')"
    "CommitCLL dt (js_engine s) sz ck n = (Inl err, e') \<Longrightarrow> r = Inl err \<and> s' = s"
proof -
  let ?e = "js_engine s"
  have e: "engine_inv dt ?e" "\<not> js_closed s" using assms(1) by (simp_all add: jsonl_live_def)
  have e': "engine_inv dt (snd (CommitCLL dt ?e sz ck n))" "grows ?e (snd (CommitCLL dt ?e sz ck n))"
    by (rule CommitCLL_inv [OF e(1)], rule CommitCLL_grows)
  have "\<not> js_closed s' \<and> (isl r \<longrightarrow> js_engine s' = ?e) \<and>
      (\<not> isl r \<longrightarrow> CommitCLL dt ?e sz ck n = (Inr (), js_engine s')) \<and>
      (\<forall>err e'. CommitCLL dt ?e sz ck n = (Inl err, e') \<longrightarrow> r = Inl err \<and> s' = s)"
  proof (cases rule: CommitCLL_cases [of dt ?e sz ck n])
    case (fail err)
    then show ?thesis using assms(2) e(2) by (auto simp: Jsonl_CommitCLL_def guarded_def)
  next
    case (ok st)
    obtain item where "persist no_append_faults (Engine_Snapshot ?e) item (s\<lparr>js_engine := ?e\<lparr>state := st\<rparr>\<rparr>) = (r, s')"
      using assms(2) ok(1) e(2) by (auto simp: Jsonl_CommitCLL_def guarded_def Let_def)
    from persist_faultless [OF assms(1) _ _ this] e' ok(1) show ?thesis by simp
  qed
  then show "\<not> js_closed s'" "isl r \<Longrightarrow> js_engine s' = js_engine s"
    "\<not> isl r \<Longrightarrow> CommitCLL dt (js_engine s) sz ck n = (Inr (), js_engine s')"
    "CommitCLL dt (js_engine s) sz ck n = (Inl err, e') \<Longrightarrow> r = Inl err \<and> s' = s" by blast+
qed

interpretation jsonl_cas: cas_store "jsonl_live dt" "\<lambda>s. state (js_engine s)" "Jsonl_CommitCLL no_append_faults dt None" for dt
proof
  fix s :: JsonlStore and sz ck n s'
  assume s: "jsonl_live dt s"
  then have e: "engine_inv dt (js_engine s)" by (simp add: jsonl_live_def)
  obtain r0 s0 where rs: "Jsonl_CommitCLL no_append_faults dt None s sz ck n = (r0, s0)" by fastforce
  note c = Jsonl_CommitCLL_faultless [OF s rs]
  show "jsonl_live dt (snd (Jsonl_CommitCLL no_append_faults dt None s sz ck n))"
    using c(1-3) rs e engine_cas.commit_ok [OF e, of sz ck n] by (cases "isl r0") (simp_all add: jsonl_live_def)
  show "Size (state (js_engine s)) \<noteq> sz \<or> \<not> sameOptional (Checkpoint (state (js_engine s))) ck \<Longrightarrow>
      Jsonl_CommitCLL no_append_faults dt None s sz ck n = (Inl ErrContention, s)"
    using engine_cas.commit_stale [OF e, of sz ck n] c(4) rs by simp
  show "Jsonl_CommitCLL no_append_faults dt None s sz ck n = (Inl err, s') \<Longrightarrow> state (js_engine s') = state (js_engine s)" for err
    using c(2) rs by simp
  assume "Jsonl_CommitCLL no_append_faults dt None s sz ck n = (Inr (), s')"
  then have "CommitCLL dt (js_engine s) sz ck n = (Inr (), js_engine s')" using c(3) rs by simp
  from engine_cas.commit_done [OF e this] show
    "Size (state (js_engine s')) = Size n \<and> Nodes (state (js_engine s')) = Nodes n
      \<and> IndexedSeq (state (js_engine s')) = IndexedSeq n \<and> FirstPendingAt (state (js_engine s')) = FirstPendingAt n
      \<and> Checkpoint (state (js_engine s')) = Checkpoint n
      \<and> Nodes (state (js_engine s)) = take (length (Nodes (state (js_engine s)))) (Nodes n)
      \<and> IndexedSeq (state (js_engine s)) \<le> IndexedSeq n" .
qed

end
