(* ===== verification/Jsonl_Properties.thy ===== *)
theory Jsonl_Properties
  imports Jsonl_Laws Backend_Properties
begin

text \<open>
  The properties of the journal store: every write is atomic whatever the operating system does, a
  journal can always be recovered to the acknowledged writes, and opening a journal never loses a
  complete line.
\<close>

section \<open>Calls and runs\<close>

datatype write_op =
  OpAppend AppendInput
| OpCommitCLL uint64 "bytes option" State
| OpCommitWitness uint32 WitnessState

text \<open>Go slices are shorter than \<open>2 ^ 64\<close>; the error text of a row is valid UTF-8, as \<open>boundedText\<close> makes it.\<close>

fun op_ok :: "write_op \<Rightarrow> bool" where
  "op_ok (OpAppend input) = True"
| "op_ok (OpCommitCLL sz ck nxt) = (length (Nodes nxt) < 2 ^ 64 \<and> list_all utf8_row (Witnesses nxt))"
| "op_ok (OpCommitWitness a w) = utf8_row w"

fun engine_write :: "dtmmr \<Rightarrow> Engine \<Rightarrow> write_op \<Rightarrow> Engine" where
  "engine_write dt e (OpAppend input) = snd (Engine_Append e input)"
| "engine_write dt e (OpCommitCLL sz ck nxt) = snd (CommitCLL dt e sz ck nxt)"
| "engine_write dt e (OpCommitWitness a w) = snd (CommitWitness e a w)"

fun jsonl_write :: "dtmmr \<Rightarrow> append_io \<Rightarrow> error option \<Rightarrow> write_op \<Rightarrow> JsonlStore \<Rightarrow> unit result \<times> JsonlStore" where
  "jsonl_write dt io ctxErr (OpAppend input) s =
     (case Jsonl_Append io ctxErr s input of (r, s) \<Rightarrow> (rbind r (\<lambda>_. Inr ()), s))"
| "jsonl_write dt io ctxErr (OpCommitCLL sz ck nxt) s = Jsonl_CommitCLL io dt ctxErr s sz ck nxt"
| "jsonl_write dt io ctxErr (OpCommitWitness a w) s = Jsonl_CommitWitness io ctxErr s a w"

text \<open>A run of calls, each with its faults and its context; the second part are the writes that were acknowledged.\<close>

fun jsonl_run :: "dtmmr \<Rightarrow> (append_io \<times> error option \<times> write_op) list \<Rightarrow> JsonlStore \<Rightarrow> JsonlStore \<times> write_op list" where
  "jsonl_run dt [] s = (s, [])"
| "jsonl_run dt ((io, ctxErr, op) # calls) s =
     (let (r, s1) = jsonl_write dt io ctxErr op s; (s2, acked) = jsonl_run dt calls s1
      in (s2, if isl r then acked else op # acked))"

definition engine_run :: "dtmmr \<Rightarrow> write_op list \<Rightarrow> Engine" where
  "engine_run dt ops = foldl (engine_write dt) Engine_New ops"

lemma jsonl_write_outcome:
  assumes "store_ok dt s" "op_ok op" "jsonl_write dt io ctxErr op s = (r, s')"
  shows "journal_outcome dt (engine_write dt (js_engine s) op) s (\<not> isl r) s'"
proof (cases op)
  case (OpAppend input)
  obtain q where "Jsonl_Append io ctxErr s input = (q, s')" "isl q = isl r"
    using assms(3) OpAppend by (cases "Jsonl_Append io ctxErr s input"; cases "fst (Jsonl_Append io ctxErr s input)") auto
  then show ?thesis using Jsonl_Append_outcome [OF assms(1)] OpAppend by fastforce
next
  case (OpCommitCLL sz ck nxt)
  then show ?thesis using Jsonl_CommitCLL_outcome [OF assms(1)] assms(2,3) by simp
next
  case (OpCommitWitness a w)
  then show ?thesis using Jsonl_CommitWitness_outcome [OF assms(1)] assms(2,3) by simp
qed

lemma closed_refuses:
  assumes "js_closed s"
  shows "\<exists>err. jsonl_write dt io ctxErr op s = (Inl err, s)"
proof -
  have "guarded ctxErr (js_closed s) \<noteq> None" using assms by simp
  then obtain err where "guarded ctxErr (js_closed s) = Some err" by blast
  then show ?thesis by (cases op) (simp_all add: Jsonl_Append_def Jsonl_CommitCLL_def Jsonl_CommitWitness_def)
qed

lemma closed_run:
  assumes "js_closed s"
  shows "jsonl_run dt calls s = (s, [])"
proof (induction calls)
  case (Cons call calls)
  obtain io ctxErr op where "call = (io, ctxErr, op)" by (cases call)
  moreover obtain err where "jsonl_write dt io ctxErr op s = (Inl err, s)" using closed_refuses [OF assms] by blast
  ultimately show ?case using Cons by simp
qed simp

text \<open>
  After a run the store is open, or it is closed because the last write of the run could not be
  undone; that write was not acknowledged, and the journal may still hold it.
\<close>

definition ran :: "dtmmr \<Rightarrow> JsonlStore \<Rightarrow> write_op list \<Rightarrow> write_op list \<Rightarrow> JsonlStore \<Rightarrow> bool" where
  "ran dt s ops acked s' \<longleftrightarrow>
     (let e = foldl (engine_write dt) (js_engine s) acked
      in store_ok dt s' \<and> js_engine s' = e
       \<or> js_closed s' \<and> (recovers dt (js_journal s') (norm_engine e)
           \<or> (\<exists>op \<in> set ops. recovers dt (js_journal s') (norm_engine (engine_write dt e op)))))"

lemma jsonl_run_ran:
  assumes "store_ok dt s" "list_all (\<lambda>(_, _, op). op_ok op) calls" "jsonl_run dt calls s = (s', acked)"
  shows "ran dt s (map (snd \<circ> snd) calls) acked s'"
  using assms
proof (induction calls arbitrary: s acked)
  case (Cons call calls)
  obtain io ctxErr op where call: "call = (io, ctxErr, op)" by (cases call)
  obtain r s1 where w: "jsonl_write dt io ctxErr op s = (r, s1)" by fastforce
  obtain acked1 where run: "jsonl_run dt calls s1 = (s', acked1)" "acked = (if isl r then acked1 else op # acked1)"
    using Cons.prems(3) call w by (auto split: prod.splits)
  have ok: "op_ok op" "list_all (\<lambda>(_, _, op). op_ok op) calls" using Cons.prems(2) call by simp_all
  have out: "journal_outcome dt (engine_write dt (js_engine s) op) s (\<not> isl r) s1"
    by (rule jsonl_write_outcome [OF Cons.prems(1) ok(1) w])
  show ?case
  proof (cases "js_closed s1 \<and> isl r")
    case True
    then have "s' = s1" "acked1 = []" using run closed_run by auto
    then show ?thesis
      using out True run(2) Cons.prems(1) by (auto simp: ran_def journal_outcome_def call store_ok_def Let_def)
  next
    case False
    then have s1: "store_ok dt s1" "js_engine s1 = (if isl r then js_engine s else engine_write dt (js_engine s) op)"
      using out Cons.prems(1) by (auto simp: journal_outcome_def split: if_splits)
    show ?thesis
      using Cons.IH [OF s1(1) ok(2) run(1)] run(2) s1(2) by (auto simp: ran_def call Let_def split: if_splits)
  qed
qed (simp add: ran_def)

section \<open>Properties\<close>

text \<open>
  C5 (\<open>jsonl.Store.Append\<close>, \<open>CommitCLL\<close>, \<open>CommitWitness\<close>, \<open>Init\<close>, \<open>Open\<close>): crash safety of the journal.
  Take a new journal and any sequence of writes, during which seeks, writes, syncs and truncations may
  fail or stop half way, and stop anywhere: initialising and opening the journal again succeeds and
  gives exactly the engine of the acknowledged writes, with times in milliseconds. The one exception
  is a write whose undoing failed too: it closed the store, and it may be found in the journal as a
  whole.
\<close>

theorem Jsonl_acknowledged_writes_recover:
  assumes "dtmmr_lib dt" "path \<noteq> []" "list_all (\<lambda>(_, _, op). op_ok op) calls"
  shows "\<exists>c0 s0. Jsonl_Init dt no_faults path None = (Inr (), Some c0)
    \<and> Jsonl_Open dt no_faults path (Some c0) = (Inr s0, Some c0)
    \<and> (\<forall>s acked. jsonl_run dt calls s0 = (s, acked) \<longrightarrow>
        (\<exists>c e. Jsonl_Init dt no_faults path (Some (js_journal s)) = (Inr (), Some c)
          \<and> Jsonl_Open dt no_faults path (Some c) = (Inr \<lparr>js_journal = c, js_engine = e, js_closed = False\<rparr>, Some c)
          \<and> (e = norm_engine (engine_run dt acked)
             \<or> js_closed s \<and> (\<exists>op \<in> set (map (snd \<circ> snd) calls). e = norm_engine (engine_run dt (acked @ [op]))))))"
proof -
  obtain c0 where c0: "Jsonl_Init dt no_faults path None = (Inr (), Some c0)" "journaled dt c0 Engine_New"
    using Jsonl_Init_fresh [OF assms(2)] .
  define s0 where "s0 = \<lparr>js_journal = c0, js_engine = Engine_New, js_closed = False\<rparr>"
  have s0: "store_ok dt s0" using c0(2) Engine_New_inv [OF assms(1)] by (simp add: s0_def store_ok_def)
  have rec: "\<exists>c e. Jsonl_Init dt no_faults path (Some (js_journal s)) = (Inr (), Some c)
      \<and> Jsonl_Open dt no_faults path (Some c) = (Inr \<lparr>js_journal = c, js_engine = e, js_closed = False\<rparr>, Some c)
      \<and> (e = norm_engine (engine_run dt acked)
         \<or> js_closed s \<and> (\<exists>op \<in> set (map (snd \<circ> snd) calls). e = norm_engine (engine_run dt (acked @ [op]))))"
    if run: "jsonl_run dt calls s0 = (s, acked)" for s acked
  proof -
    have "ran dt s0 (map (snd \<circ> snd) calls) acked s" by (rule jsonl_run_ran [OF s0 assms(3) run])
    then obtain e where e: "recovers dt (js_journal s) e" "e = norm_engine (engine_run dt acked)
         \<or> js_closed s \<and> (\<exists>op \<in> set (map (snd \<circ> snd) calls). e = norm_engine (engine_run dt (acked @ [op])))"
      unfolding ran_def Let_def engine_run_def s0_def store_ok_def using journaled_recovers by fastforce
    obtain c where c: "Jsonl_Init dt no_faults path (Some (js_journal s)) = (Inr (), Some c)" "journaled dt c e"
      using Jsonl_Init_recovers [OF e(1) assms(2)] .
    show ?thesis using c(1) Jsonl_Open_journaled [OF c(2) assms(2)] e(2) by blast
  qed
  show ?thesis
    using c0(1) Jsonl_Open_journaled [OF c0(2) assms(2)] rec unfolding s0_def by blast
qed

text \<open>A disk that takes three bytes of the second write and then refuses to truncate.\<close>

definition ex_torn :: append_io where
  "ex_torn = no_append_faults\<lparr>IoWrites := [(3, True)], IoTruncate := True\<rparr>"

theorem Jsonl_acknowledged_writes_recover_witness:
  "\<exists>c0 s0. Jsonl_Init dt_ref no_faults ''j'' None = (Inr (), Some c0)
    \<and> Jsonl_Open dt_ref no_faults ''j'' (Some c0) = (Inr s0, Some c0)
    \<and> (\<forall>s acked. jsonl_run dt_ref [(no_append_faults, None, OpAppend ex_input), (ex_torn, None, OpCommitCLL 0 None ex_state)]
          s0 = (s, acked) \<longrightarrow>
        (\<exists>c e. Jsonl_Init dt_ref no_faults ''j'' (Some (js_journal s)) = (Inr (), Some c)
          \<and> Jsonl_Open dt_ref no_faults ''j'' (Some c) = (Inr \<lparr>js_journal = c, js_engine = e, js_closed = False\<rparr>, Some c)
          \<and> (e = norm_engine (engine_run dt_ref acked)
             \<or> js_closed s \<and> (\<exists>op \<in> {OpAppend ex_input, OpCommitCLL 0 None ex_state}.
                 e = norm_engine (engine_run dt_ref (acked @ [op]))))))"
  using Jsonl_acknowledged_writes_recover [OF ref_laws, of "''j''"
      "[(no_append_faults, None, OpAppend ex_input), (ex_torn, None, OpCommitCLL 0 None ex_state)]"]
  by (simp add: ex_state_def ex_witness_def utf8_row_def)

text \<open>
  C15 (\<open>jsonl.Store.Append\<close>, \<open>CommitCLL\<close>, \<open>CommitWitness\<close>, \<open>appendEvent\<close>, \<open>rollback\<close>, \<open>restore\<close>): one
  write under any faults. A write that succeeds is the engine's operation, and the journal replays to
  its result; a write that fails leaves the store as it was, or leaves the engine as it was and the
  store closed, with a journal that recovers to the engine before or after the write.
\<close>

theorem Jsonl_write_atomic:
  assumes "store_ok dt s" "op_ok op" "jsonl_write dt io ctxErr op s = (r, s')"
  shows "(\<not> isl r \<longrightarrow> store_ok dt s' \<and> js_engine s' = engine_write dt (js_engine s) op) \<and>
    (isl r \<longrightarrow> s' = s \<or> js_closed s' \<and> js_engine s' = js_engine s
       \<and> (recovers dt (js_journal s') (norm_engine (js_engine s))
          \<or> recovers dt (js_journal s') (norm_engine (engine_write dt (js_engine s) op))))"
  using jsonl_write_outcome [OF assms] by (auto simp: journal_outcome_def)

definition ex_store :: JsonlStore where
  "ex_store = \<lparr>js_journal = event_line (new_event ''cll.init''), js_engine = Engine_New, js_closed = False\<rparr>"

theorem Jsonl_write_atomic_witness:
  "\<exists>r s'. jsonl_write dt_ref ex_torn None (OpCommitCLL 0 None ex_state) ex_store = (r, s') \<and>
    (\<not> isl r \<longrightarrow> store_ok dt_ref s' \<and> js_engine s' = engine_write dt_ref Engine_New (OpCommitCLL 0 None ex_state)) \<and>
    (isl r \<longrightarrow> s' = ex_store \<or> js_closed s' \<and> js_engine s' = Engine_New
       \<and> (recovers dt_ref (js_journal s') (norm_engine Engine_New)
          \<or> recovers dt_ref (js_journal s') (norm_engine (engine_write dt_ref Engine_New (OpCommitCLL 0 None ex_state)))))"
proof -
  have "store_ok dt_ref ex_store"
    using journaled_init(1) Engine_New_inv [OF ref_laws] by (simp add: ex_store_def store_ok_def)
  moreover have "op_ok (OpCommitCLL 0 None ex_state)" by (simp add: ex_state_def ex_witness_def utf8_row_def)
  moreover have "js_engine ex_store = Engine_New" by (simp add: ex_store_def)
  ultimately show ?thesis
    using Jsonl_write_atomic [of dt_ref ex_store "OpCommitCLL 0 None ex_state" ex_torn None] surjective_pairing by metis
qed

text \<open>
  C30 (\<open>jsonl.Open\<close>, \<open>jsonl.Init\<close>): whatever a journal holds and whatever the operating system does,
  \<open>Open\<close> does not write, and \<open>Init\<close> cuts off no more than a tail without a line end. It adds bytes only
  to a journal without a complete line, and then only of the initialisation event.
\<close>

theorem Jsonl_open_keeps_lines:
  "snd (Jsonl_Open dt io path disk) = disk \<and>
   (\<exists>k d. snd (Jsonl_Init dt io path (Some data)) = Some d \<and> CHR 0x0A \<notin> set (drop k data)
      \<and> (d = take k data \<or> take k data = [] \<and> (\<exists>m. d = take m (event_line (new_event ''cll.init'')))))"
proof
  have "replay dt io False d = (q, d') \<Longrightarrow> d' = d" for d q d' using replay_keeps [of dt io False d] by auto
  then show "snd (Jsonl_Open dt io path disk) = disk"
    by (auto simp: Jsonl_Open_def openJournal_def Let_def split: prod.splits sum.splits option.splits)
  obtain q d where r: "replay dt io True data = (q, d)" by fastforce
  obtain k where k: "CHR 0x0A \<notin> set (drop k data)" "d = take k data"
    using replay_keeps [of dt io True data] r by (metis append_Nil2 append_take_drop_id drop_all empty_iff
        empty_set nle_le snd_conv)
  have ap: "\<exists>m. js_journal s' = take m (event_line ev)"
    if "appendEvent aio ev \<lparr>js_journal = [], js_engine = e, js_closed = False\<rparr> = (r', s')" for aio ev e r' s'
    using that
    by (cases rule: appendEvent_result [of aio ev "\<lparr>js_journal = [], js_engine = e, js_closed = False\<rparr>"])
      (auto intro: exI [of _ 0] exI [of _ "length (event_line ev)"])
  have "\<exists>d'. snd (Jsonl_Init dt io path (Some data)) = Some d' \<and>
      (d' = data \<or> d' = d \<or> d = [] \<and> (\<exists>m. d' = take m (event_line (new_event ''cll.init''))))"
    by (auto simp: Jsonl_Init_def openJournal_def Let_def r split: prod.splits sum.splits dest: ap)
  then show "\<exists>k d. snd (Jsonl_Init dt io path (Some data)) = Some d \<and> CHR 0x0A \<notin> set (drop k data)
      \<and> (d = take k data \<or> take k data = [] \<and> (\<exists>m. d = take m (event_line (new_event ''cll.init''))))"
    using k by (metis append.right_neutral append_take_drop_id drop_all empty_iff empty_set nle_le)
qed

end
