(* ===== verification/Sql_Refinement.thy ===== *)
theory Sql_Refinement
  imports Sql_Laws Jsonl_Properties
begin

text \<open>
  The tables of a log as an engine. Tables represent the engine whose entries and state are what the
  rows decode to; the operations of the SQL stores then do to the tables what the engine's operations
  do to the engine, and read from them what the engine would answer.
\<close>

section \<open>Representation\<close>

definition represents :: "dtmmr \<Rightarrow> log_tables \<Rightarrow> Engine \<Rightarrow> bool" where
  "represents dt t e \<longleftrightarrow> rmap entryFromRow (lt_entries t) = Inr (entries e) \<and> table_state dt t = Inr (state e)
     \<and> engine_inv dt e"

text \<open>Two engines with the same log and, but for the order of the witness rows, the same state.\<close>

definition same_engine :: "Engine \<Rightarrow> Engine \<Rightarrow> bool" where
  "same_engine a b \<longleftrightarrow> entries a = entries b \<and> byValue a = byValue b \<and> same_state (state a) (state b)"

lemma same_engine_refl [simp]: "same_engine e e"
  by (simp add: same_engine_def same_state_def)

lemma entryFromRow_Inr:
  "entryFromRow (sq, v, ts) = Inr en \<Longrightarrow> Seq en = sq \<and> Value en = v \<and> ParseTime ts = Inr (AppendedAt en)"
  by (auto simp: entryFromRow_def split: if_splits sum.splits)

lemma entry_rows:
  assumes "rmap entryFromRow rows = Inr es"
  shows "length rows = length es" "map fst rows = map Seq es" "map (fst \<circ> snd) rows = map Value es"
    "i < length rows \<Longrightarrow> entryFromRow (rows ! i) = Inr (es ! i)"
proof -
  have es: "es = map (projr \<circ> entryFromRow) rows" "\<forall>r \<in> set rows. \<not> isl (entryFromRow r)"
    using assms unfolding rmap_total by auto
  have r: "entryFromRow r = Inr (projr (entryFromRow r))" if "r \<in> set rows" for r
    using es(2) that by (simp add: sum.expand)
  have "fst r = Seq (projr (entryFromRow r)) \<and> (fst \<circ> snd) r = Value (projr (entryFromRow r))" if "r \<in> set rows" for r
    using entryFromRow_Inr [of "fst r" "fst (snd r)" "snd (snd r)"] r [OF that] by simp
  then show "map fst rows = map Seq es" "map (fst \<circ> snd) rows = map Value es" using es(1) by simp_all
  show "length rows = length es" "i < length rows \<Longrightarrow> entryFromRow (rows ! i) = Inr (es ! i)" using es(1) r by simp_all
qed

text \<open>A log of valid entries is dense, so the largest sequence number is its length.\<close>

lemma dense_rows:
  assumes "rmap entryFromRow rows = Inr es" "valid_entries es"
  shows "(case (if rows = [] then None else Some (fst (last rows))) of None \<Rightarrow> 1 | Some m \<Rightarrow> m + 1) = (of_nat (length es + 1) :: uint64)"
    "row \<in> set rows \<Longrightarrow> length es < unat MaxPortableInteger \<Longrightarrow> fst row < of_nat (length es + 1)"
proof -
  have sq: "fst (rows ! i) = of_nat (Suc i)" if "i < length es" for i
    using entry_rows(1,2) [OF assms(1)] assms(2) that by (metis nth_map valid_entries_def valid_entry_def)
  show "(case (if rows = [] then None else Some (fst (last rows))) of None \<Rightarrow> 1 | Some m \<Rightarrow> m + 1) = (of_nat (length es + 1) :: uint64)"
  proof (cases "rows = []")
    case False
    then have "fst (last rows) = of_nat (length es)"
      using sq [of "length es - 1"] entry_rows(1) [OF assms(1)] by (cases es) (simp_all add: last_conv_nth)
    then show ?thesis using False by simp
  qed (use entry_rows(1) [OF assms(1)] in simp)
  assume "row \<in> set rows" and lt: "length es < unat MaxPortableInteger"
  then obtain i where i: "i < length es" "row = rows ! i" using entry_rows(1) [OF assms(1)] by (metis in_set_conv_nth)
  then show "fst row < of_nat (length es + 1)"
    using sq [of i] seq_in_range(2) [of i] seq_in_range(2) [of "length es"] lt by (simp add: word_less_nat_alt del: of_nat_Suc)
qed

lemma inserted_row:
  assumes "FormatTime t = Inr ts" "length v = EntryBytes" "0 < sq" "sq \<le> MaxPortableInteger"
  shows "entryFromRow (sq, v, ts) = Inr \<lparr>Seq = sq, Value = v, AppendedAt = NormalizeTime t\<rparr>"
  using assms ParseTime_FormatTime [OF assms(1)] by (auto simp: entryFromRow_def)

lemma rmap_snoc: "rmap f (xs @ [x]) = rbind (rmap f xs) (\<lambda>ys. rbind (f x) (\<lambda>y. Inr (ys @ [y])))"
  by (induction xs) (simp_all split: sum.splits add: rbind_def)

lemma table_state_entries [simp]: "table_state dt (t\<lparr>lt_entries := rows\<rparr>) = table_state dt t"
proof -
  have f: "lt_meta (t\<lparr>lt_entries := rows\<rparr>) = lt_meta t" "lt_nodes (t\<lparr>lt_entries := rows\<rparr>) = lt_nodes t"
    "lt_witnesses (t\<lparr>lt_entries := rows\<rparr>) = lt_witnesses t" by simp_all
  show ?thesis unfolding table_state_def f ..
qed

lemma entry_found:
  assumes "rmap entryFromRow rows = Inr es" "valid_entries es" "row \<in> set rows"
  obtains i where "i < length es" "entryFromRow row = Inr (es ! i)" "Value (es ! i) = fst (snd row)"
proof -
  obtain i where i: "i < length rows" "row = rows ! i" using assms(3) by (metis in_set_conv_nth)
  then have "Value (es ! i) = fst (snd row)" using entry_rows(1,3) [OF assms(1)] by (metis comp_apply nth_map)
  then show ?thesis using that [of i] i entry_rows(1,4) [OF assms(1)] by simp
qed

lemma Engine_Append_found:
  assumes "engine_inv dt e" "\<not> invalidInput input" "i < length (entries e)" "Value (entries e ! i) = InputValue input"
  shows "Engine_Append e input = (Inr \<lparr>ResultEntry = entries e ! i, Outcome = AppendIdempotent\<rparr>, e)"
proof -
  have "byValue e (InputValue input) = Some i" using assms(1,3,4) by (auto simp: engine_inv_def index_ok_def)
  then show ?thesis using assms(2,3) by (simp add: Engine_Append_def invalidInput_def)
qed

context sql_lib
begin

lemma appendEntry_tab:
  assumes "appendEntry db l input d = (Inr r, d')" "\<not> invalidInput input" "represents dt (tab d l) e"
  shows "Engine_Append e input = (Inr r, snd (Engine_Append e input))"
    "represents dt (tab d' l) (snd (Engine_Append e input))"
proof -
  have rep: "rmap entryFromRow (lt_entries (tab d l)) = Inr (entries e)" "table_state dt (tab d l) = Inr (state e)"
    "engine_inv dt e" "valid_entries (entries e)" "index_ok (entries e) (byValue e)"
    using assms(3) by (auto simp: represents_def engine_inv_def)
  let ?v = "InputValue input" and ?sq = "of_nat (length (entries e) + 1) :: uint64"
  have "Engine_Append e input = (Inr r, snd (Engine_Append e input)) \<and> represents dt (tab d' l) (snd (Engine_Append e input))"
  proof (cases "sel_entry db l ?v d")
    case (Inr row)
    then have row: "row \<in> set (lt_entries (tab d l))" "fst (snd row) = ?v" using entry by blast+
    obtain i where i: "i < length (entries e)" "entryFromRow row = Inr (entries e ! i)" "Value (entries e ! i) = ?v"
      using entry_found [OF rep(1,4) row(1)] row(2) by metis
    have "r = \<lparr>ResultEntry = entries e ! i, Outcome = AppendIdempotent\<rparr>" "d' = d"
      using assms(1) Inr i(2) by (auto simp: appendEntry_def)
    then show ?thesis using Engine_Append_found [OF rep(3) assms(2) i(1,3)] assms(3) by simp
  next
    case (Inl err)
    then have nr: "sel_entry db l ?v d = Inl NoRows" using assms(1) by (cases "err = NoRows") (auto simp: appendEntry_def)
    obtain mx where mx: "sel_max_seq db l d = Inr mx" "insertEntry db l input mx d = (Inr r, d')"
      using assms(1) nr by (auto simp: appendEntry_def split: sum.splits)
    have sq: "(case mx of None \<Rightarrow> 1 | Some m \<Rightarrow> m + 1) = ?sq" using max_seq [OF mx(1)] dense_rows(1) [OF rep(1,4)] by simp
    have sq_le: "?sq \<le> MaxPortableInteger" using mx(2) unfolding insertEntry_def Let_def sq by (auto split: if_splits)
    obtain ts where ts: "FormatTime (InputAppendedAt input) = Inr ts"
      using mx(2) unfolding insertEntry_def Let_def sq by (auto split: if_splits sum.splits)
    let ?en = "\<lparr>Seq = ?sq, Value = ?v, AppendedAt = NormalizeTime (InputAppendedAt input)\<rparr>"
    have ins: "ins_entry db l ?sq ?v ts d = (Inr (), d')" "r = \<lparr>ResultEntry = ?en, Outcome = AppendInserted\<rparr>"
      using mx(2) sq_le unfolding insertEntry_def Let_def sq ts not_less [symmetric]
      by (auto simp: exec_def simp del: of_nat_add of_nat_Suc split: prod.splits sum.splits)
    have fresh: "?v \<notin> set (map Value (entries e))" using no_entry [OF nr] entry_rows(3) [OF rep(1)] by (metis set_map)
    have eng: "Engine_Append e input = (Inr r, e\<lparr>entries := entries e @ [?en], byValue := (byValue e)(?v \<mapsto> length (entries e))\<rparr>)"
      using assms(2) index_None [OF rep(5), of ?v] fresh sq_le ins(2)
      by (simp add: Engine_Append_def invalidInput_def Let_def)
    have "\<not> length (entries e) \<ge> unat MaxPortableInteger"
      using Engine_Append_cases [OF rep(3), of input] eng ins(2) rep(4) by (auto simp: valid_entries_def)
    then have lt: "length (entries e) < unat MaxPortableInteger" by simp
    have "\<And>row. row \<in> set (lt_entries (tab d l)) \<Longrightarrow> fst row < fst (?sq, ?v, ts)"
      using dense_rows(2) [OF rep(1,4) _ lt] by simp
    then have t': "tab d' l = (tab d l)\<lparr>lt_entries := lt_entries (tab d l) @ [(?sq, ?v, ts)]\<rparr>"
      using ins_entry_ok [OF ins(1)] insort_last [of "lt_entries (tab d l)" fst "(?sq, ?v, ts)"] by simp
    have "entryFromRow (?sq, ?v, ts) = Inr ?en"
    proof (rule inserted_row [OF ts _ _ sq_le])
      show "length ?v = EntryBytes" using assms(2) by (simp add: invalidInput_def)
      show "0 < ?sq" using seq_in_range(2) [OF lt] by (simp add: word_less_nat_alt del: of_nat_Suc)
    qed
    then have "represents dt (tab d' l) (snd (Engine_Append e input))"
      using Engine_Append_inv [OF rep(3), of input] rep(1,2) eng by (simp add: represents_def t' rmap_snoc)
    then show ?thesis using eng by simp
  qed
  then show "Engine_Append e input = (Inr r, snd (Engine_Append e input))"
    "represents dt (tab d' l) (snd (Engine_Append e input))" by blast+
qed

end

section \<open>Writes\<close>

text \<open>What the engine answers to a write, and what a committed write leaves in the tables: the engine's result, with times in milliseconds.\<close>

fun engine_answer :: "dtmmr \<Rightarrow> Engine \<Rightarrow> write_op \<Rightarrow> AppendResult option result" where
  "engine_answer dt e (OpAppend input) = rbind (fst (Engine_Append e input)) (\<lambda>r. Inr (Some r))"
| "engine_answer dt e (OpCommitCLL sz ck nxt) = rbind (fst (CommitCLL dt e sz ck nxt)) (\<lambda>_. Inr None)"
| "engine_answer dt e (OpCommitWitness a w) = rbind (fst (CommitWitness e a w)) (\<lambda>_. Inr None)"

definition stored :: "dtmmr \<Rightarrow> Engine \<Rightarrow> write_op \<Rightarrow> AppendResult option \<Rightarrow> log_tables \<Rightarrow> bool" where
  "stored dt e op x t \<longleftrightarrow> engine_answer dt e op = Inr x
     \<and> (\<exists>e'. represents dt t e' \<and> same_engine e' (norm_engine (engine_write dt e op)))"

text \<open>
  A write of log \<open>l\<close>: no other log changes; when it succeeds the tables hold the result, and when it
  fails they are as they were or hold it too (the answer to \<open>COMMIT\<close> was lost).
\<close>

definition written :: "('d \<Rightarrow> tables) \<Rightarrow> string \<Rightarrow> ('a \<Rightarrow> log_tables \<Rightarrow> bool) \<Rightarrow> 'd \<Rightarrow> 'a result \<Rightarrow> 'd \<Rightarrow> bool" where
  "written tab l result d r d' \<longleftrightarrow> (\<forall>l'. l' \<noteq> l \<longrightarrow> tab d' l' = tab d l') \<and>
     (case r of Inr x \<Rightarrow> result x (tab d' l) | Inl _ \<Rightarrow> tab d' l = tab d l \<or> (\<exists>x. result x (tab d' l)))"

lemma written_map: "written tab l (\<lambda>x. result (f x)) d r d' \<Longrightarrow> written tab l result d (rbind r (\<lambda>x. Inr (f x))) d'"
  by (cases r) (auto simp: written_def)

lemma table_state_valid:
  assumes "table_state dt t = Inr st"
  shows "norm_state st = st" "valid_state dt st"
proof -
  obtain x nodes witnesses where "StateFromWire dt ((WireState_of x)\<lparr>WsNodes := nodes, WsWitnesses := witnesses\<rparr>) = Inr st"
    using assms by (auto simp: table_state_def rbind_Inr_iff split: option.splits)
  then obtain wire where "stateFromWire wire = Inr st" "validateState dt st ErrCorrupt = Inr ()"
    by (auto simp: StateFromWire_def rbind_Inr_iff)
  then show "norm_state st = st" "valid_state dt st" using stateFromWire_norm(1) by (auto simp: validateState_iff)
qed

lemma table_state_rows:
  assumes "table_state dt t = Inr st"
  shows "rmap row_witness (lt_witnesses t) = Inr (Witnesses st)" "distinct_keys (Witnesses st)"
    "row \<in> set (lt_witnesses t) \<Longrightarrow> \<exists>v \<in> set (Witnesses st). row_witness row = Inr v"
proof -
  show rm: "rmap row_witness (lt_witnesses t) = Inr (Witnesses st)" using assms unfolding table_state_Inr by auto
  show "distinct_keys (Witnesses st)" using table_state_valid(2) [OF assms] by (simp add: valid_state_def valid_metadata_def)
  assume row: "row \<in> set (lt_witnesses t)"
  have w: "Witnesses st = map (projr \<circ> row_witness) (lt_witnesses t)" "\<not> isl (row_witness row)"
    using rm row unfolding rmap_total by auto
  have "projr (row_witness row) \<in> set (Witnesses st)" unfolding w(1) using row by simp
  moreover have "row_witness row = Inr (projr (row_witness row))" using w(2) by (simp add: sum.expand)
  ultimately show "\<exists>v \<in> set (Witnesses st). row_witness row = Inr v" by blast
qed

text \<open>Replacing the row with a key, in the engine and in the table.\<close>

lemma replaceWitness_member:
  assumes "v \<in> set ws" "distinct_keys ws" "witness_key v = witness_key w" "Attempts v = a" "WitnessCheckpoint v = WitnessCheckpoint w"
  shows "replaceWitness a w ws = Inr (map (\<lambda>v. if witness_key v = witness_key w \<and> Attempts v = a then w else v) ws)"
  using assms
proof (induction ws)
  case (Cons u ws)
  show ?case
  proof (cases "witness_key u = witness_key w")
    case True
    then have u: "u = v" and rest: "\<forall>x \<in> set ws. witness_key x \<noteq> witness_key w"
      using Cons.prems(1-3) by (auto simp: distinct_keys_def) (metis rev_image_eqI)+
    have "map (\<lambda>v. if witness_key v = witness_key w \<and> Attempts v = a then w else v) ws = ws" by (rule map_idI) (use rest in auto)
    then show ?thesis using True u Cons.prems(4,5) by simp
  next
    case False
    then show ?thesis using Cons by (auto simp: distinct_keys_def)
  qed
qed simp

lemma ApplyWitness_member:
  assumes "v \<in> set (Witnesses st)" "valid_state dt st" "witness_key v = witness_key w" "Attempts v = a"
    "WitnessCheckpoint v = WitnessCheckpoint w" "valid_witness w"
  shows "ApplyWitness st a w = Inr (st\<lparr>Witnesses := map (\<lambda>v. if witness_key v = witness_key w \<and> Attempts v = a then w else v) (Witnesses st)\<rparr>)"
proof -
  have "distinct_keys (Witnesses st)" using assms(2) by (simp add: valid_state_def valid_metadata_def)
  then show ?thesis
    using replaceWitness_member [OF assms(1) _ assms(3-5)] validateWitness_iff [THEN iffD2, OF assms(6), of ErrInvalid] by (simp add: ApplyWitness_def)
qed

lemma norm_replaced:
  assumes "norm_state st = st"
  shows "norm_state (st\<lparr>Witnesses := map (\<lambda>v. if witness_key v = witness_key w \<and> Attempts v = a then w else v) (Witnesses st)\<rparr>)
    = st\<lparr>Witnesses := map (replaced a w) (Witnesses st)\<rparr>"
proof -
  have "map norm_witness (Witnesses st) = Witnesses st" using arg_cong [OF assms, of Witnesses] by simp
  then have n: "v \<in> set (Witnesses st) \<Longrightarrow> norm_witness v = v" for v by (metis map_eq_conv list.map_ident)
  show ?thesis using assms n by (simp add: replaced_def)
qed

lemma commitRow_current:
  assumes "commitRow db env l a w d = (Inr u, d')"
  obtains a0 enc0 cur upd where "sel_witness db l (WitnessID w) (FormatUint (CheckpointSize w)) d = Inr (a0, enc0)"
    "UnmarshalWitness enc0 = Inr cur" "ApplyWitness (empty_State\<lparr>Witnesses := [cur]\<rparr>) a w = Inr upd"
  using assms unfolding commitRow_def by (auto simp: rbind_Inr_iff split: sum.splits prod.splits)

context sql_lib
begin

lemma written_transacted:
  assumes "local tab saved l operation" "transacted tab operation d r d'"
    "\<And>d1 x d2. tab d1 = tab d \<Longrightarrow> operation d1 = (Inr x, d2) \<Longrightarrow> result x (tab d2 l)"
  shows "written tab l result d r d'"
proof (cases "isl r \<and> tab d' = tab d")
  case True
  then show ?thesis by (cases r) (simp_all add: written_def)
next
  case False
  then obtain d1 x d2 where o1: "tab d1 = tab d" "operation d1 = (Inr x, d2)" "tab d' = tab d2" "isl r \<or> r = Inr x"
    using assms(2) unfolding transacted_def by blast
  moreover have "\<forall>l'. l' \<noteq> l \<longrightarrow> tab d2 l' = tab d1 l'" using assms(1) o1(2) unfolding local_def by blast
  ultimately show ?thesis using assms(3) [OF o1(1,2)] by (cases r) (auto simp: written_def)
qed

lemma stored_append:
  assumes "appendEntry db l input d = (Inr r, d')" "\<not> invalidInput input" "represents dt (tab d l) e"
  shows "stored dt e (OpAppend input) (Some r) (tab d' l)"
proof -
  let ?e = "snd (Engine_Append e input)"
  have rep: "represents dt (tab d' l) ?e" by (rule appendEntry_tab(2) [OF assms])
  then have "norm_state (state ?e) = state ?e" using table_state_valid(1) unfolding represents_def by blast
  then have "norm_engine ?e = ?e" by (simp add: norm_engine_def)
  moreover have "engine_answer dt e (OpAppend input) = Inr (Some r)" using appendEntry_tab(1) [OF assms] by (metis engine_answer.simps(1) fst_conv rbind_simps(2))
  ultimately show ?thesis using rep unfolding stored_def by (intro conjI exI [of _ ?e]) simp_all
qed

lemma commitState_entries:
  assumes "commitState db dt l sz ck nxt d = (Inr u, d')"
  shows "lt_entries (tab d' l) = lt_entries (tab d l)"
proof -
  obtain m k ns ex ws d1 d2 where c: "upd_meta db l m d = (Inr (), d1)" "insertNodes db l k ns d1 = (Inr (), d2)"
      "insertWitnesses db l ex ws d2 = (Inr (), d')"
    using assms by (auto simp: commitState_def exec_def rbind_Inr_iff split: sum.splits prod.splits)
  have n: "insertNodes db l k ns d1 = (Inr u, d2) \<Longrightarrow> lt_entries (tab d2 l) = lt_entries (tab d1 l)" for k ns d1 d2 u
  proof (induction ns arbitrary: k d1)
    case (Cons n ns)
    then obtain d3 where "ins_node db l k n d1 = (Inr (), d3)" "insertNodes db l (k + 1) ns d3 = (Inr u, d2)"
      by (auto simp: exec_def split: prod.splits sum.splits)
    then show ?case using Cons.IH ins_node_ok by fastforce
  qed simp
  have w: "insertWitnesses db l ex ws d1 = (Inr u, d2) \<Longrightarrow> lt_entries (tab d2 l) = lt_entries (tab d1 l)" for ws d1 d2 u
  proof (induction ws arbitrary: d1)
    case (Cons w ws)
    show ?case
    proof (cases "witness_key w \<in> ex")
      case False
      then obtain enc d3 where "ins_witness db l (WitnessID w) (FormatUint (CheckpointSize w)) (Attempts w) enc d1 = (Inr (), d3)"
          "insertWitnesses db l ex ws d3 = (Inr u, d2)"
        using Cons.prems by (auto simp: exec_def split: prod.splits sum.splits)
      then show ?thesis using Cons.IH ins_witness_ok by fastforce
    qed (use Cons in simp)
  qed simp
  show ?thesis using upd_meta_ok [OF c(1)] n [OF c(2)] w [OF c(3)] by simp
qed

lemma stored_commit:
  assumes "commitState db dt l sz ck nxt d = (Inr u, d')" "op_ok (OpCommitCLL sz ck nxt)" "represents dt (tab d l) e"
  shows "stored dt e (OpCommitCLL sz ck nxt) None (tab d' l)"
proof -
  have ok: "length (Nodes nxt) < 2 ^ 64" "list_all utf8_row (Witnesses nxt)" using assms(2) by simp_all
  obtain cur st st' where c: "table_state dt (tab d l) = Inr cur" "ApplyCLL dt cur sz ck nxt = Inr st"
      "table_state dt (tab d' l) = Inr st'" "same_state st' (norm_state st)"
    by (rule commitState_tab [OF assms(1) ok])
  have rep: "rmap entryFromRow (lt_entries (tab d l)) = Inr (entries e)" "state e = cur" "engine_inv dt e"
    using assms(3) c(1) by (auto simp: represents_def)
  have eng: "engine_write dt e (OpCommitCLL sz ck nxt) = e\<lparr>state := st\<rparr>" "engine_answer dt e (OpCommitCLL sz ck nxt) = Inr None"
    using c(2) rep(2) by (simp_all add: CommitCLL_def)
  have "represents dt (tab d' l) (e\<lparr>state := st'\<rparr>)"
    using rep(1,3) c(3) table_state_valid(2) [OF c(3)] by (simp add: represents_def commitState_entries [OF assms(1)] engine_inv_def)
  then show ?thesis using c(4) unfolding stored_def eng by (intro conjI exI [of _ "e\<lparr>state := st'\<rparr>"]) (simp_all add: same_engine_def)
qed

lemma stored_witness:
  assumes "commitRow db id l a w d = (Inr u, d')" "op_ok (OpCommitWitness a w)" "represents dt (tab d l) e"
  shows "stored dt e (OpCommitWitness a w) None (tab d' l)"
proof -
  have rep: "rmap entryFromRow (lt_entries (tab d l)) = Inr (entries e)" "table_state dt (tab d l) = Inr (state e)" "engine_inv dt e"
    using assms(3) by (auto simp: represents_def)
  have utf: "utf8_row w" using assms(2) by simp
  let ?st' = "(state e)\<lparr>Witnesses := map (replaced a w) (Witnesses (state e))\<rparr>"
  have st': "table_state dt (tab d' l) = Inr ?st'" and w: "valid_witness w"
    using commitRow_tab(1,5) [OF assms(1) utf, of dt "state e"] rep(2) by simp_all
  obtain a0 enc0 cur upd where c: "sel_witness db l (WitnessID w) (FormatUint (CheckpointSize w)) d = Inr (a0, enc0)"
    "UnmarshalWitness enc0 = Inr cur" "ApplyWitness (empty_State\<lparr>Witnesses := [cur]\<rparr>) a w = Inr upd"
    by (rule commitRow_current [OF assms(1)])
  obtain v where v: "v \<in> set (Witnesses (state e))" "row_witness (WitnessID w, FormatUint (CheckpointSize w), a0, enc0) = Inr v"
    using table_state_rows(3) [OF rep(2) witness [OF c(1)]] by blast
  have "cur = v" using row_witness_key(4) [OF v(2)] c(2) by simp
  moreover have "witness_key cur = witness_key w \<and> Attempts cur = a \<and> WitnessCheckpoint cur = WitnessCheckpoint w"
  proof (rule ApplyWitness_Inr [OF c(3)])
    fix pre old post
    assume old: "Witnesses (empty_State\<lparr>Witnesses := [cur]\<rparr>) = pre @ old # post" "witness_key old = witness_key w"
      "Attempts old = a" "WitnessCheckpoint old = WitnessCheckpoint w"
    have "old = cur" using old(1) by (cases pre) simp_all
    then show ?thesis using old(2-4) by blast
  qed
  ultimately have m: "witness_key v = witness_key w" "Attempts v = a" "WitnessCheckpoint v = WitnessCheckpoint w" by simp_all
  have vs: "norm_state (state e) = state e" "valid_state dt (state e)" using table_state_valid [OF rep(2)] by blast+
  have eng: "norm_engine (engine_write dt e (OpCommitWitness a w)) = e\<lparr>state := ?st'\<rparr>" "engine_answer dt e (OpCommitWitness a w) = Inr None"
    using ApplyWitness_member [OF v(1) vs(2) m w] norm_replaced [OF vs(1), of w a] by (simp_all add: CommitWitness_def norm_engine_def)
  have "lt_entries (tab d' l) = lt_entries (tab d l)"
  proof (rule commitRow_Inr [OF assms(1)])
    fix enc
    assume "upd_witness db l (WitnessID w) (FormatUint (CheckpointSize w)) a (Attempts w) enc (id d) = (Inr 1, d')"
    from upd_witness_ok [OF this] show ?thesis by simp
  qed
  then have "represents dt (tab d' l) (e\<lparr>state := ?st'\<rparr>)"
    using rep(1,3) st' table_state_valid(2) [OF st'] by (simp add: represents_def engine_inv_def)
  then show ?thesis unfolding stored_def eng by (intro conjI exI [of _ "e\<lparr>state := ?st'\<rparr>"]) simp_all
qed

end

section \<open>Reads\<close>

datatype read_op = OpGet bytes | OpScan uint64 int | OpLoad | OpPending time int | OpWitness string uint64

datatype answer = EntryIs Entry | EntriesAre "Entry list" | StateIs State | WitnessesAre "WitnessState list" | WitnessIs WitnessState

definition answered :: "('a \<Rightarrow> answer) \<Rightarrow> 'b + 'a \<Rightarrow> 'b + answer" where
  "answered f r = rbind r (\<lambda>x. Inr (f x))"

fun engine_read :: "Engine \<Rightarrow> read_op \<Rightarrow> answer result" where
  "engine_read e (OpGet v) = answered EntryIs (GetEntry e v)"
| "engine_read e (OpScan sq n) = answered EntriesAre (ScanEntries e sq n)"
| "engine_read e OpLoad = Inr (StateIs (Engine_State e))"
| "engine_read e (OpPending now n) = answered WitnessesAre (PendingWitnesses e now n)"
| "engine_read e (OpWitness wid sz) = answered WitnessIs (GetWitness e wid sz)"

text \<open>The bodies of the reads, on the database.\<close>

fun table_read :: "'d sql \<Rightarrow> dtmmr \<Rightarrow> string \<Rightarrow> read_op \<Rightarrow> 'd \<Rightarrow> dbErr + answer" where
  "table_read db dt l (OpGet v) = (\<lambda>d. answered EntryIs (getEntry db l v d))"
| "table_read db dt l (OpScan sq n) = (\<lambda>d. answered EntriesAre (scanEntries db l sq n d))"
| "table_read db dt l OpLoad = (\<lambda>d. answered StateIs (loadState db dt l d))"
| "table_read db dt l (OpPending now n) = (\<lambda>d. answered WitnessesAre (pendingWitnesses db dt l now n d))"
| "table_read db dt l (OpWitness wid sz) = (\<lambda>d. answered WitnessIs (getWitness db l wid sz d))"

lemma answered_Inr [simp]: "answered f r = Inr y \<longleftrightarrow> (\<exists>x. r = Inr x \<and> y = f x)"
  by (auto simp: answered_def rbind_Inr_iff)

lemma answered_simps [simp]: "answered f (Inr x) = Inr (f x)" "answered f (Inl err) = Inl err"
  by (simp_all add: answered_def)

lemma answered_Inl: "answered f r = Inl err \<longleftrightarrow> r = Inl err"
  by (cases r) simp_all

lemma rmap_cll: "rmap (\<lambda>row. cll_result (f row)) rows = Inr xs \<longleftrightarrow> rmap f rows = Inr xs"
  by (induction rows arbitrary: xs) (auto simp: rbind_Inr_iff)

lemma GetEntry_found:
  assumes "engine_inv dt e" "i < length (entries e)" "Value (entries e ! i) = v" "length v = EntryBytes"
  shows "GetEntry e v = Inr (entries e ! i)"
proof -
  have "byValue e v = Some i" using assms(1-3) by (auto simp: engine_inv_def index_ok_def)
  then show ?thesis using assms(2,4) by (simp add: GetEntry_def)
qed

lemma GetEntry_missing:
  assumes "engine_inv dt e" "v \<notin> set (map Value (entries e))" "length v = EntryBytes"
  shows "GetEntry e v = Inl ErrNotFound"
  using assms index_None [of "entries e" "byValue e" v] by (simp add: engine_inv_def GetEntry_def)

text \<open>Rows after a sequence number, in a dense log.\<close>

lemma filter_dense:
  assumes "\<And>i. i < length rows \<Longrightarrow> unat (fst (rows ! i)) = Suc (k + i)"
  shows "filter (\<lambda>row. sq < fst row) rows = drop (unat sq - k) rows"
  using assms
proof (induction rows arbitrary: k)
  case (Cons row rows)
  have r: "unat (fst row) = Suc k" using Cons.prems [of 0] by simp
  have "unat (fst (rows ! i)) = Suc (Suc k + i)" if "i < length rows" for i using Cons.prems [of "Suc i"] that by simp
  then have ih: "filter (\<lambda>row. sq < fst row) rows = drop (unat sq - Suc k) rows" by (rule Cons.IH)
  show ?case
  proof (cases "sq < fst row")
    case True
    then have "unat sq \<le> k" using r by (simp add: word_less_nat_alt)
    then show ?thesis using True ih by simp
  next
    case False
    then have "unat sq - k = Suc (unat sq - Suc k)" using r by (simp add: word_less_nat_alt)
    then show ?thesis using False ih by simp
  qed
qed simp

lemma rmap_take_drop: "rmap f rows = Inr xs \<Longrightarrow> rmap f (take n (drop k rows)) = Inr (take n (drop k xs))"
  unfolding rmap_total by (auto simp: take_map drop_map dest: in_set_takeD in_set_dropD)

lemma find_key:
  assumes "v \<in> set ws" "distinct_keys ws" "witness_key v = k"
  shows "find (\<lambda>w. witness_key w = k) ws = Some v"
  using assms by (induction ws) (auto simp: distinct_keys_def rev_image_eqI)

context sql_lib
begin

lemma getEntry_tab:
  assumes "represents dt (tab d l) e"
  shows "getEntry db l v d = Inr en \<Longrightarrow> GetEntry e v = Inr en"
    "getEntry db l v d = Inl (Cll ErrNotFound) \<Longrightarrow> GetEntry e v = Inl ErrNotFound"
proof -
  have rep: "rmap entryFromRow (lt_entries (tab d l)) = Inr (entries e)" "engine_inv dt e" "valid_entries (entries e)"
    using assms by (auto simp: represents_def engine_inv_def)
  have found: "\<exists>i < length (entries e). entryFromRow row = Inr (entries e ! i) \<and> Value (entries e ! i) = v"
    if "sel_entry db l v d = Inr row" for row
    using entry_found [OF rep(1,3)] entry [OF that] by metis
  show "GetEntry e v = Inr en" if g: "getEntry db l v d = Inr en"
  proof -
    obtain row where "length v = EntryBytes" "sel_entry db l v d = Inr row" "entryFromRow row = Inr en"
      using g by (auto simp: getEntry_def split: if_splits sum.splits)
    then show ?thesis using found GetEntry_found [OF rep(2)] by fastforce
  qed
  show "GetEntry e v = Inl ErrNotFound" if g: "getEntry db l v d = Inl (Cll ErrNotFound)"
  proof (cases "sel_entry db l v d")
    case (Inl err)
    then have "length v = EntryBytes" "err = NoRows"
      using g no_cll(1) [of l v d ErrNotFound] by (auto simp: getEntry_def split: if_splits)
    then show ?thesis
      using GetEntry_missing [OF rep(2)] no_entry [of l v d] entry_rows(3) [OF rep(1)] Inl by (metis set_map)
  next
    case (Inr row)
    then show ?thesis using g found [OF Inr] by (auto simp: getEntry_def split: if_splits)
  qed
qed

lemma scanEntries_tab:
  assumes "represents dt (tab d l) e" "scanEntries db l sq n d = Inr ens"
  shows "ScanEntries e sq n = Inr ens"
proof -
  have rep: "rmap entryFromRow (lt_entries (tab d l)) = Inr (entries e)" "engine_inv dt e" "valid_entries (entries e)"
    using assms(1) by (auto simp: represents_def engine_inv_def)
  have g: "sq \<le> MaxPortableInteger" "1 \<le> n" "n \<le> MaxScanLimit"
    using assms(2) by (auto simp: scanEntries_def split: if_splits)
  obtain rows where rows: "sel_entries_after db l sq n d = Inr (rows, None)" "rmap entryFromRow rows = Inr ens"
    using assms(2) g by (auto simp: scanEntries_def rbind_Inr_iff rmap_cll not_less split: if_splits)
  have "unat (fst (lt_entries (tab d l) ! i)) = Suc (0 + i)" if "i < length (lt_entries (tab d l))" for i
  proof -
    have i: "i < length (entries e)" "fst (lt_entries (tab d l) ! i) = Seq (entries e ! i)"
      using that entry_rows(1,2) [OF rep(1)] by (metis nth_map)+
    then show ?thesis
      using rep(3) seq_in_range(2) [of i] by (simp add: valid_entries_def valid_entry_def del: of_nat_Suc)
  qed
  from filter_dense [of "lt_entries (tab d l)" 0, OF this]
  have "rows = take (nat n) (drop (unat sq) (lt_entries (tab d l)))" using entries_after [OF rows(1)] by simp
  then have "ens = take (nat n) (drop (unat sq) (entries e))" using rows(2) rmap_take_drop [OF rep(1)] by simp
  then show ?thesis using ScanEntries_eq [OF rep(2) g] by simp
qed

lemma loadWireWitnesses_tab:
  assumes "represents dt (tab d l) e" "loadWireWitnesses db l d = Inr ws"
  shows "rmap WitnessFromWire ws = Inr (Witnesses (state e))"
proof -
  obtain rows where "sel_witnesses db l d = Inr (rows, None)" "rmap decodeWitnessRow rows = Inr ws"
    using assms(2) by (auto simp: loadWireWitnesses_def rbind_Inr_iff)
  moreover have "rmap row_witness (lt_witnesses (tab d l)) = Inr (Witnesses (state e))"
    using table_state_rows(1) assms(1) by (auto simp: represents_def)
  ultimately show ?thesis using witnesses unfolding rmap_rows by fastforce
qed

lemma pendingWitnesses_tab:
  assumes "represents dt (tab d l) e" "pendingWitnesses db dt l now n d = Inr ws"
  shows "PendingWitnesses e now n = Inr ws"
proof -
  let ?wire = "\<lambda>witnesses. \<lparr>WsSize = ''0'', WsIndexedSeq = ''0'', WsNodes = [], WsFirstPendingAt = None,
         WsCheckpoint = None, WsCheckpointSize = None, WsCheckpointIndexedSeq = None, WsCheckpointPeaks = None,
         WsWitnesses = witnesses\<rparr>"
  obtain wits st where p: "loadWireWitnesses db l d = Inr wits" "StateFromWire dt (?wire wits) = Inr st"
      "(case Replace dt Engine_New [] st of (Inl err, _) \<Rightarrow> Inl (Cll err) | (Inr _, e) \<Rightarrow> cll_result (PendingWitnesses e now n)) = Inr ws"
    using assms(2) by (auto simp: pendingWitnesses_def rbind_Inr_iff)
  obtain r e1 where r: "Replace dt Engine_New [] st = (r, e1)" by fastforce
  then have e1: "r = Inr ()" "PendingWitnesses e1 now n = Inr ws" using p(3) by (cases r; simp)+
  have "Witnesses st = Witnesses (state e)"
    using p(2) loadWireWitnesses_tab [OF assms(1) p(1)] by (auto simp: StateFromWire_def stateFromWire_def rbind_Inr_iff split: sum.splits)
  moreover have "state e1 = st" using r e1(1) by (auto simp: Replace_def split: sum.splits)
  ultimately have w: "Witnesses (state e1) = Witnesses (state e)" by simp
  have "PendingWitnesses e1 now n = PendingWitnesses e now n" unfolding PendingWitnesses_def w ..
  then show ?thesis using e1(2) by simp
qed

lemma getWitness_tab:
  assumes "represents dt (tab d l) e"
  shows "getWitness db l wid sz d = Inr w \<Longrightarrow> GetWitness e wid sz = Inr w"
    "getWitness db l wid sz d = Inl (Cll ErrNotFound) \<Longrightarrow> GetWitness e wid sz = Inl ErrNotFound"
proof -
  have rep: "table_state dt (tab d l) = Inr (state e)" using assms by (simp add: represents_def)
  note rows = table_state_rows [OF rep]
  have found: "\<exists>v. UnmarshalWitness enc = Inr v \<and> find (\<lambda>w. witness_key w = WitnessKey wid sz) (Witnesses (state e)) = Some v"
    if s: "sel_witness db l wid (FormatUint sz) d = Inr (a, enc)" for a enc
  proof -
    obtain v where v: "v \<in> set (Witnesses (state e))" "row_witness (wid, FormatUint sz, a, enc) = Inr v"
      using rows(3) witness [OF s] by blast
    note k = row_witness_key [OF v(2)]
    have "CheckpointSize v = sz" using arg_cong [OF k(2), of parseDecimal] by simp
    then show ?thesis using find_key [OF v(1) rows(2)] k(1,4) by (simp add: witness_key_def)
  qed
  show "GetWitness e wid sz = Inr w" if g: "getWitness db l wid sz d = Inr w"
  proof -
    obtain a enc where "\<not> (isl (ValidateIdentifier wid) \<or> sz = 0)" "sel_witness db l wid (FormatUint sz) d = Inr (a, enc)"
        "UnmarshalWitness enc = Inr w"
      using g by (auto simp: getWitness_def rbind_Inr_iff split: if_splits sum.splits)
    then show ?thesis using found [of a enc] by (auto simp: GetWitness_def)
  qed
  show "GetWitness e wid sz = Inl ErrNotFound" if g: "getWitness db l wid sz d = Inl (Cll ErrNotFound)"
  proof (cases "sel_witness db l wid (FormatUint sz) d")
    case (Inl err)
    then have ok: "\<not> (isl (ValidateIdentifier wid) \<or> sz = 0)" and nr: "sel_witness db l wid (FormatUint sz) d = Inl NoRows"
      using g no_cll(2) [of l wid "FormatUint sz" d ErrNotFound] by (auto simp: getWitness_def split: if_splits)
    have "witness_key v \<noteq> WitnessKey wid sz" if v: "v \<in> set (Witnesses (state e))" for v
    proof
      assume k: "witness_key v = WitnessKey wid sz"
      have "v \<in> (projr \<circ> row_witness) ` set (lt_witnesses (tab d l))" using rows(1) v unfolding rmap_total by auto
      then obtain row where row: "row \<in> set (lt_witnesses (tab d l))" "v = projr (row_witness row)" by auto
      then have rw: "row_witness row = Inr v" using rows(1) unfolding rmap_total by (auto simp: sum.expand)
      obtain w' z a enc where r: "row = (w', z, a, enc)" by (cases row)
      have "WitnessID v = wid" "CheckpointSize v = sz" using k by (simp_all add: witness_key_def)
      then have "row = (wid, FormatUint sz, a, enc)" using row_witness_key(1,2) [OF rw [unfolded r]] r by metis
      then show False using row(1) no_witness [OF nr] by metis
    qed
    then have "find (\<lambda>w. witness_key w = WitnessKey wid sz) (Witnesses (state e)) = None" by (simp add: find_None_iff)
    then show ?thesis using ok by (simp add: GetWitness_def)
  next
    case (Inr p)
    obtain a enc where "p = (a, enc)" by (cases p)
    then show ?thesis using g found [of a enc] Inr by (auto simp: getWitness_def split: if_splits)
  qed
qed

lemma loadState_tab: "represents dt (tab d l) e \<Longrightarrow> loadState db dt l d = Inr st \<Longrightarrow> st = state e"
  using loadState_table by (fastforce simp: represents_def)

lemma table_read_tab:
  assumes "represents dt (tab d l) e"
  shows "table_read db dt l op d = Inr x \<Longrightarrow> engine_read e op = Inr x"
  using getEntry_tab(1) [OF assms] scanEntries_tab [OF assms] loadState_tab [OF assms] pendingWitnesses_tab [OF assms]
    getWitness_tab(1) [OF assms]
  by (cases op) (auto simp: Engine_State_def)

end

end
