(* ===== verification/Sql_Properties.thy ===== *)
theory Sql_Properties
  imports Sql_Refinement
begin

text \<open>
  The properties of the SQLite and MySQL stores, on every database that keeps the laws of \<open>sql_lib\<close>: a
  write is the engine's and atomic, a read answers what the engine would, and a witness row is
  replaced only when it still has the expected attempts, whatever other connections do.
\<close>

section \<open>Calls of the two stores\<close>

definition as_answer :: "('a \<Rightarrow> 'b) \<Rightarrow> 'a result \<times> 'd \<Rightarrow> 'b result \<times> 'd" where
  "as_answer f p = (case p of (r, d) \<Rightarrow> (rbind r (\<lambda>x. Inr (f x)), d))"

fun sqlite_call :: "'d sql \<Rightarrow> dtmmr \<Rightarrow> SqliteStore \<Rightarrow> write_op \<Rightarrow> 'd \<Rightarrow> AppendResult option result \<times> 'd" where
  "sqlite_call db dt s (OpAppend input) d = as_answer Some (sqlite_Append db s input d)"
| "sqlite_call db dt s (OpCommitCLL sz ck nxt) d = as_answer (\<lambda>_. None) (sqlite_CommitCLL db dt s sz ck nxt d)"
| "sqlite_call db dt s (OpCommitWitness a w) d = as_answer (\<lambda>_. None) (sqlite_CommitWitness db s a w d)"

fun mysql_call :: "'d sql \<Rightarrow> dtmmr \<Rightarrow> MysqlStore \<Rightarrow> write_op \<Rightarrow> 'd \<Rightarrow> AppendResult option result \<times> 'd" where
  "mysql_call db dt s (OpAppend input) d = as_answer Some (mysql_Append db s input d)"
| "mysql_call db dt s (OpCommitCLL sz ck nxt) d = as_answer (\<lambda>_. None) (mysql_CommitCLL db dt s sz ck nxt d)"
| "mysql_call db dt s (OpCommitWitness a w) d = as_answer (\<lambda>_. None) (mysql_CommitWitness db id s a w d)"

fun sqlite_query :: "'d sql \<Rightarrow> dtmmr \<Rightarrow> SqliteStore \<Rightarrow> read_op \<Rightarrow> 'd \<Rightarrow> answer result \<times> 'd" where
  "sqlite_query db dt s (OpGet v) d = as_answer EntryIs (sqlite_GetEntry db s v d)"
| "sqlite_query db dt s (OpScan sq n) d = as_answer EntriesAre (sqlite_ScanEntries db s sq n d)"
| "sqlite_query db dt s OpLoad d = as_answer StateIs (sqlite_LoadCLL db dt s d)"
| "sqlite_query db dt s (OpPending now n) d = as_answer WitnessesAre (sqlite_PendingWitnesses db dt s now n d)"
| "sqlite_query db dt s (OpWitness wid sz) d = as_answer WitnessIs (sqlite_GetWitness db s wid sz d)"

fun mysql_query :: "'d sql \<Rightarrow> dtmmr \<Rightarrow> MysqlStore \<Rightarrow> read_op \<Rightarrow> 'd \<Rightarrow> answer result \<times> 'd" where
  "mysql_query db dt s (OpGet v) d = (answered EntryIs (mysql_GetEntry db s v d), d)"
| "mysql_query db dt s (OpScan sq n) d = (answered EntriesAre (mysql_ScanEntries db s sq n d), d)"
| "mysql_query db dt s OpLoad d = as_answer StateIs (mysql_LoadCLL db dt s d)"
| "mysql_query db dt s (OpPending now n) d = (answered WitnessesAre (mysql_PendingWitnesses db dt s now n d), d)"
| "mysql_query db dt s (OpWitness wid sz) d = (answered WitnessIs (mysql_GetWitness db s wid sz d), d)"

lemma as_answerE:
  assumes "as_answer f p = (r, d')"
  obtains q where "p = (q, d')" "r = rbind q (\<lambda>x. Inr (f x))"
  using assms by (cases p) (simp add: as_answer_def)

context sql_lib
begin

lemma local_guard:
  assumes "local tab saved l operation"
  shows "local tab saved l (\<lambda>d. if c then (Inl (Cll err), d) else operation d)"
  using assms local_const [of tab saved l "\<lambda>_. Inl (Cll err)"] by (cases c) simp_all

lemma local_locked:
  assumes "local tab saved l operation"
  shows "local tab saved l (\<lambda>d. case lockMetadata db l d of Inl err \<Rightarrow> (Inl err, d) | Inr _ \<Rightarrow> operation d)"
proof (rule local_cases)
  fix d
  show "\<exists>p. local tab saved l p \<and> (case lockMetadata db l d of Inl err \<Rightarrow> (Inl err, d) | Inr _ \<Rightarrow> operation d) = p d"
    using assms local_const [of tab saved l] by (cases "lockMetadata db l d") fastforce+
qed

lemma written_append:
  assumes "local tab saved l operation" "transacted tab operation d r d'" "represents dt (tab d l) e"
    "\<And>d1 x d2. operation d1 = (Inr x, d2) \<Longrightarrow> appendEntry db l input d1 = (Inr x, d2) \<and> \<not> invalidInput input"
  shows "written tab l (\<lambda>x. stored dt e (OpAppend input) (Some x)) d r d'"
  by (rule written_transacted [OF assms(1,2)]) (use assms(3,4) stored_append in metis)

lemma written_commit:
  assumes "transacted tab (commitState db dt l sz ck nxt) d r d'" "represents dt (tab d l) e" "op_ok (OpCommitCLL sz ck nxt)"
  shows "written tab l (\<lambda>_. stored dt e (OpCommitCLL sz ck nxt) None) d r d'"
  by (rule written_transacted [OF local_commitState assms(1)]) (use assms(2,3) stored_commit in metis)

lemma written_row:
  assumes "transacted tab (commitRow db id l a w) d r d'" "represents dt (tab d l) e" "op_ok (OpCommitWitness a w)"
  shows "written tab l (\<lambda>_. stored dt e (OpCommitWitness a w) None) d r d'"
  by (rule written_transacted [OF local_commitRow assms(1)]) (use assms(2,3) stored_witness in metis)

lemma sqlite_writes:
  assumes "represents dt (tab d (SqLogID s)) e" "op_ok op" "sqlite_call db dt s op d = (r, d')"
  shows "written tab (SqLogID s) (stored dt e op) d r d'"
proof (cases op)
  case (OpAppend input)
  obtain q where q: "sqlite_Append db s input d = (q, d')" "r = rbind q (\<lambda>x. Inr (Some x))"
    using assms(3) unfolding OpAppend sqlite_call.simps by (rule as_answerE)
  note loc = local_guard [OF local_appendEntry]
  have "written tab (SqLogID s) (\<lambda>x. stored dt e (OpAppend input) (Some x)) d q d'"
    by (rule written_append [OF loc sqlite_transacted [OF loc q(1) [unfolded sqlite_Append_def]] assms(1)]) (auto split: if_splits)
  then show ?thesis unfolding OpAppend q(2) by (rule written_map)
next
  case (OpCommitCLL sz ck nxt)
  obtain q where q: "sqlite_CommitCLL db dt s sz ck nxt d = (q, d')" "r = rbind q (\<lambda>_. Inr None)"
    using assms(3) unfolding OpCommitCLL sqlite_call.simps by (rule as_answerE)
  have "written tab (SqLogID s) (\<lambda>_. stored dt e op None) d q d'"
    using written_commit [OF sqlite_transacted [OF local_commitState q(1) [unfolded sqlite_CommitCLL_def]] assms(1)] assms(2) unfolding OpCommitCLL by blast
  then show ?thesis unfolding q(2) by (rule written_map)
next
  case (OpCommitWitness a w)
  obtain q where q: "sqlite_CommitWitness db s a w d = (q, d')" "r = rbind q (\<lambda>_. Inr None)"
    using assms(3) unfolding OpCommitWitness sqlite_call.simps by (rule as_answerE)
  have "written tab (SqLogID s) (\<lambda>_. stored dt e op None) d q d'"
    using written_row [OF sqlite_transacted [OF local_commitRow q(1) [unfolded sqlite_CommitWitness_def]] assms(1)] assms(2) unfolding OpCommitWitness by blast
  then show ?thesis unfolding q(2) by (rule written_map)
qed

lemma mysql_writes:
  assumes "represents dt (tab d (MyLogID s)) e" "op_ok op" "mysql_call db dt s op d = (r, d')"
  shows "written tab (MyLogID s) (stored dt e op) d r d'"
proof (cases op)
  case (OpAppend input)
  obtain q where q: "mysql_Append db s input d = (q, d')" "r = rbind q (\<lambda>x. Inr (Some x))"
    using assms(3) unfolding OpAppend mysql_call.simps by (rule as_answerE)
  note loc = local_guard [OF local_locked [OF local_appendEntry]]
  have "written tab (MyLogID s) (\<lambda>x. stored dt e (OpAppend input) (Some x)) d q d'"
    by (rule written_append [OF loc mysql_transacted [OF loc q(1) [unfolded mysql_Append_def]] assms(1)]) (auto split: if_splits sum.splits)
  then show ?thesis unfolding OpAppend q(2) by (rule written_map)
next
  case (OpCommitCLL sz ck nxt)
  obtain q where q: "mysql_CommitCLL db dt s sz ck nxt d = (q, d')" "r = rbind q (\<lambda>_. Inr None)"
    using assms(3) unfolding OpCommitCLL mysql_call.simps by (rule as_answerE)
  have "written tab (MyLogID s) (\<lambda>_. stored dt e op None) d q d'"
    using written_commit [OF mysql_transacted [OF local_commitState q(1) [unfolded mysql_CommitCLL_def]] assms(1)] assms(2) unfolding OpCommitCLL by blast
  then show ?thesis unfolding q(2) by (rule written_map)
next
  case (OpCommitWitness a w)
  obtain q where q: "mysql_CommitWitness db id s a w d = (q, d')" "r = rbind q (\<lambda>_. Inr None)"
    using assms(3) unfolding OpCommitWitness mysql_call.simps by (rule as_answerE)
  have "written tab (MyLogID s) (\<lambda>_. stored dt e op None) d q d'"
    using written_row [OF mysql_transacted [OF local_commitRow q(1) [unfolded mysql_CommitWitness_def]] assms(1)] assms(2) unfolding OpCommitWitness by blast
  then show ?thesis unfolding q(2) by (rule written_map)
qed

end

section \<open>Reads of the two stores\<close>

text \<open>A lookup by key can answer that there is nothing.\<close>

fun lookup_op :: "read_op \<Rightarrow> bool" where
  "lookup_op (OpGet v) = True"
| "lookup_op (OpWitness wid sz) = True"
| "lookup_op _ = False"

definition reads :: "('d \<Rightarrow> tables) \<Rightarrow> ('d \<Rightarrow> dbErr + 'a) \<Rightarrow> 'd \<Rightarrow> 'a result \<Rightarrow> 'd \<Rightarrow> bool" where
  "reads tab operation d r d' \<longleftrightarrow> tab d' = tab d \<and>
     (\<forall>x. r = Inr x \<longrightarrow> (\<exists>d1. tab d1 = tab d \<and> operation d1 = Inr x)) \<and>
     (r = Inl ErrNotFound \<longrightarrow> (\<exists>d1. tab d1 = tab d \<and> operation d1 = Inl (Cll ErrNotFound)))"

lemma as_answer_public:
  "as_answer f (public (case p of (Inl err, d) \<Rightarrow> (Inl (c err), d)
      | (Inr u, d) \<Rightarrow> (case g d of Inl err \<Rightarrow> (Inl (c err), h d)
           | Inr x \<Rightarrow> (case k d of (Inl err, d) \<Rightarrow> (Inl (c err), h d) | (Inr v, d) \<Rightarrow> (Inr x, d))))) =
   public (case p of (Inl err, d) \<Rightarrow> (Inl (c err), d)
      | (Inr u, d) \<Rightarrow> (case answered f (g d) of Inl err \<Rightarrow> (Inl (c err), h d)
           | Inr x \<Rightarrow> (case k d of (Inl err, d) \<Rightarrow> (Inl (c err), h d) | (Inr v, d) \<Rightarrow> (Inr x, d))))"
  by (auto simp: as_answer_def public_def split: prod.splits sum.splits)

lemma runTransaction_read:
  "runTransaction db t (\<lambda>d. (g d, d)) d = (case sql_begin db t d of (Inl err, d) \<Rightarrow> (Inl (classify err), d)
      | (Inr u, d) \<Rightarrow> (case g d of Inl err \<Rightarrow> (Inl (classify err), sql_rollback db d)
           | Inr x \<Rightarrow> (case sql_commit db d of (Inl err, d) \<Rightarrow> (Inl (classify err), sql_rollback db d) | (Inr v, d) \<Rightarrow> (Inr x, d))))"
  by (auto simp: runTransaction_def split: prod.splits sum.splits)

lemma as_answer_withRead: "as_answer f (withRead db s g d) = withRead db s (\<lambda>d. answered f (g d)) d"
proof (cases "SqClosed s")
  case True
  then show ?thesis by (simp add: withRead_def withTransaction_def as_answer_def)
next
  case False
  then show ?thesis by (simp add: withRead_def withTransaction_def runTransaction_read as_answer_public)
qed

lemma sqlite_query_eq: "sqlite_query db dt s op d = withRead db s (table_read db dt (SqLogID s) op) d"
  by (cases op) (simp_all add: as_answer_withRead sqlite_GetEntry_def sqlite_ScanEntries_def sqlite_LoadCLL_def
      sqlite_PendingWitnesses_def sqlite_GetWitness_def)

lemma answered_mysql_read: "answered f (mysql_read s g d) = mysql_read s (\<lambda>d. answered f (g d)) d"
  by (cases "g d") (simp_all add: mysql_read_def)

lemma mysql_query_eq:
  "op \<noteq> OpLoad \<Longrightarrow> mysql_query db dt s op d = (mysql_read s (table_read db dt (MyLogID s) op) d, d)"
  by (cases op) (simp_all add: answered_mysql_read mysql_GetEntry_def mysql_ScanEntries_def mysql_PendingWitnesses_def mysql_GetWitness_def)

lemma mysql_load_eq:
  "mysql_query db dt s OpLoad d =
     (if MyClosed s then (Inl ErrClosed, d)
      else public (case sql_begin db ''READ ONLY'' d of (Inl err, d) \<Rightarrow> (Inl (mysql_classify err), d)
      | (Inr u, d) \<Rightarrow> (case table_read db dt (MyLogID s) OpLoad d of Inl err \<Rightarrow> (Inl (mysql_classify err), sql_rollback db d)
           | Inr x \<Rightarrow> (case sql_commit db d of (Inl err, d) \<Rightarrow> (Inl (mysql_classify err), sql_rollback db d) | (Inr v, d) \<Rightarrow> (Inr x, d)))))"
proof (cases "MyClosed s")
  case True
  then show ?thesis by (simp add: mysql_LoadCLL_def mysql_readState_def as_answer_def)
next
  case False
  then show ?thesis
    unfolding mysql_query.simps mysql_LoadCLL_def mysql_readState_def table_read.simps by (simp add: as_answer_public)
qed

text \<open>Neither classification gives an error another class.\<close>

lemma classified_not_found:
  "error_of (classify err) = ErrNotFound \<longleftrightarrow> err = Cll ErrNotFound"
  "error_of (mysql_classify err) = ErrNotFound \<longleftrightarrow> err = Cll ErrNotFound"
  by (cases err; simp)+

context sql_lib
begin

lemma read_transaction:
  assumes "public (case sql_begin db t d of (Inl err, d) \<Rightarrow> (Inl (c err), d)
      | (Inr u, d) \<Rightarrow> (case g d of Inl err \<Rightarrow> (Inl (c err), sql_rollback db d)
           | Inr x \<Rightarrow> (case sql_commit db d of (Inl err, d) \<Rightarrow> (Inl (c err), sql_rollback db d) | (Inr v, d) \<Rightarrow> (Inr x, d)))) = (r, d')"
    "\<And>err. error_of (c err) = ErrNotFound \<longleftrightarrow> err = Cll ErrNotFound"
  shows "reads tab g d r d'"
proof -
  obtain b d1 where b: "sql_begin db t d = (b, d1)" by fastforce
  obtain q d2 where q: "sql_commit db d1 = (q, d2)" by fastforce
  have nf: "b \<noteq> Inl (Cll ErrNotFound)" "q \<noteq> Inl (Cll ErrNotFound)"
    using no_cll(3) [of t d ErrNotFound] no_cll(4) [of d1 ErrNotFound] b q by auto
  show ?thesis
  proof (cases b)
    case (Inl err)
    then have "d' = d1" "r = Inl (error_of (c err))" using assms(1) b by (auto simp: public_def)
    then show ?thesis using begin_err [OF b [unfolded Inl]] nf(1) Inl assms(2) by (auto simp: reads_def)
  next
    case (Inr u)
    have d1: "tab d1 = tab d" "saved d1 = tab d" using begin_ok [OF b [unfolded Inr]] by auto
    show ?thesis
    proof (cases "g d1")
      case (Inl err)
      then have "d' = sql_rollback db d1" "r = Inl (error_of (c err))" using assms(1) b Inr by (auto simp: public_def)
      then show ?thesis using rollback [of d1] d1 Inl assms(2) by (auto simp: reads_def)
    next
      case x: (Inr x)
      show ?thesis
      proof (cases q)
        case (Inl err)
        then have r: "d' = sql_rollback db d2" "r = Inl (error_of (c err))" using assms(1) b Inr x q by (auto simp: public_def)
        have "tab d' = tab d" using commit_err [OF q [unfolded Inl]] rollback [of d2] d1 r(1) by auto
        then show ?thesis using r(2) nf(2) Inl assms(2) by (auto simp: reads_def)
      next
        case Inr': (Inr v)
        then have "d' = d2" "r = Inr x" using assms(1) b Inr x q by (auto simp: public_def)
        then show ?thesis using commit_ok [OF q [unfolded Inr']] d1 x by (auto simp: reads_def)
      qed
    qed
  qed
qed

lemma sqlite_query_reads:
  assumes "sqlite_query db dt s op d = (r, d')"
  shows "reads tab (table_read db dt (SqLogID s) op) d r d'"
proof (cases "SqClosed s")
  case True
  then show ?thesis using assms by (auto simp: sqlite_query_eq withRead_def withTransaction_def reads_def)
next
  case False
  then show ?thesis
    using assms read_transaction [OF _ classified_not_found(1)]
    unfolding sqlite_query_eq withRead_def withTransaction_def runTransaction_read by simp
qed

lemma mysql_query_reads:
  assumes "mysql_query db dt s op d = (r, d')"
  shows "reads tab (table_read db dt (MyLogID s) op) d r d'"
proof (cases "op = OpLoad")
  case True
  show ?thesis
  proof (cases "MyClosed s")
    case closed: True
    then show ?thesis using assms unfolding True mysql_load_eq by (auto simp: reads_def)
  next
    case False
    note load = mysql_load_eq [of db dt s d, unfolded if_not_P [OF False]]
    show ?thesis unfolding True by (rule read_transaction [OF trans [OF load [symmetric] assms [unfolded True]] classified_not_found(2)])
  qed
next
  case False
  then have "d' = d" "r = mysql_read s (table_read db dt (MyLogID s) op) d" using assms mysql_query_eq [of op db dt s d] by auto
  then show ?thesis by (auto simp: reads_def mysql_read_def classified_not_found split: if_splits sum.splits)
qed

lemma reads_answer:
  assumes "represents dt (tab d l) e" "reads tab (table_read db dt l op) d r d'"
  shows "tab d' = tab d \<and> (\<not> isl r \<longrightarrow> engine_read e op = r) \<and> (lookup_op op \<and> r = Inl ErrNotFound \<longrightarrow> engine_read e op = r)"
proof (intro conjI impI)
  show "tab d' = tab d" using assms(2) by (simp add: reads_def)
  show "engine_read e op = r" if "\<not> isl r"
  proof -
    have r: "r = Inr (projr r)" using that by (simp add: sum.expand)
    then obtain d1 where "tab d1 = tab d" "table_read db dt l op d1 = Inr (projr r)" using assms(2) unfolding reads_def by blast
    then show ?thesis using table_read_tab [of dt d1 l e op] assms(1) r by simp
  qed
  show "engine_read e op = r" if nf: "lookup_op op \<and> r = Inl ErrNotFound"
  proof -
    obtain d1 where d1: "tab d1 = tab d" "table_read db dt l op d1 = Inl (Cll ErrNotFound)" using assms(2) nf by (auto simp: reads_def)
    then have rep: "represents dt (tab d1 l) e" using assms(1) by simp
    show ?thesis
    proof (cases op)
      case (OpGet v)
      then show ?thesis using getEntry_tab(2) [OF rep, of v] d1(2) nf by (simp add: answered_Inl)
    next
      case (OpWitness wid sz)
      then show ?thesis using getWitness_tab(2) [OF rep, of wid sz] d1(2) nf by (simp add: answered_Inl)
    qed (use nf in simp_all)
  qed
qed

end

section \<open>A database in memory\<close>

text \<open>
  A database that keeps the laws: tables, those of the last \<open>BEGIN\<close>, and a list of faults. Every
  statement that writes takes one of them; \<open>True\<close> makes it fail, and makes \<open>COMMIT\<close> lose its answer.
  Keys are unique.
\<close>

record memdb =
  md_tables :: tables
  md_saved :: tables
  md_faults :: "bool list"

definition md_step :: "(memdb \<Rightarrow> (dbErr + 'a) \<times> memdb) \<Rightarrow> (memdb \<Rightarrow> memdb) \<Rightarrow> memdb \<Rightarrow> (dbErr + 'a) \<times> memdb" where
  "md_step effect lost d =
     (case md_faults d of
        [] \<Rightarrow> effect d
      | fault # rest \<Rightarrow>
          (let d = d\<lparr>md_faults := rest\<rparr> in if fault then (Inl (Driver 2013), lost d) else effect d))"

definition md_put :: "string \<Rightarrow> (log_tables \<Rightarrow> log_tables) \<Rightarrow> memdb \<Rightarrow> memdb" where
  "md_put l f d = d\<lparr>md_tables := (md_tables d)(l := f (md_tables d l))\<rparr>"

definition md_insert :: "string \<Rightarrow> (log_tables \<Rightarrow> bool) \<Rightarrow> (log_tables \<Rightarrow> log_tables) \<Rightarrow> memdb \<Rightarrow> (dbErr + unit) \<times> memdb" where
  "md_insert l taken f = md_step (\<lambda>d. if taken (md_tables d l) then (Inl (Driver 1062), d) else (Inr (), md_put l f d)) id"

definition found_row :: "'a option \<Rightarrow> dbErr + 'a" where
  "found_row r = (case r of None \<Rightarrow> Inl NoRows | Some x \<Rightarrow> Inr x)"

definition mem_db :: "memdb sql" where
  "mem_db = \<lparr>
     sql_begin = (\<lambda>_. md_step (\<lambda>d. (Inr (), d\<lparr>md_saved := md_tables d\<rparr>)) id),
     sql_commit = md_step (\<lambda>d. (Inr (), d)) (\<lambda>d. d\<lparr>md_saved := md_tables d\<rparr>),
     sql_rollback = (\<lambda>d. d\<lparr>md_tables := md_saved d\<rparr>),
     sel_meta = (\<lambda>l d. found_row (lt_meta (md_tables d l))),
     sel_entry_widths = (\<lambda>l d. Inr (map (\<lambda>(sq, v, ts). (sq, length v, ts)) (lt_entries (md_tables d l)), None)),
     sel_nodes = (\<lambda>l d. Inr (lt_nodes (md_tables d l), None)),
     sel_witnesses = (\<lambda>l d. Inr (lt_witnesses (md_tables d l), None)),
     sel_entry = (\<lambda>l v d. found_row (find (\<lambda>row. fst (snd row) = v) (lt_entries (md_tables d l)))),
     sel_max_seq = (\<lambda>l d. Inr (let rows = lt_entries (md_tables d l) in if rows = [] then None else Some (fst (last rows)))),
     sel_entries_after = (\<lambda>l sq n d. Inr (take (nat n) (filter (\<lambda>row. sq < fst row) (lt_entries (md_tables d l))), None)),
     sel_witness = (\<lambda>l w z d. found_row (map_option (snd \<circ> snd) (find (\<lambda>row. fst row = w \<and> fst (snd row) = z) (lt_witnesses (md_tables d l))))),
     sql_schema = md_step (\<lambda>d. (Inr (), d)) id,
     ins_meta = (\<lambda>l m. md_insert l (\<lambda>_. False) (\<lambda>t. t\<lparr>lt_meta := Some (case lt_meta t of None \<Rightarrow> m | Some x \<Rightarrow> x)\<rparr>)),
     ins_entry = (\<lambda>l sq v ts. md_insert l (\<lambda>t. list_ex (\<lambda>row. fst row = sq \<or> fst (snd row) = v) (lt_entries t))
       (\<lambda>t. t\<lparr>lt_entries := insort_key fst (sq, v, ts) (lt_entries t)\<rparr>)),
     upd_meta = (\<lambda>l m. md_insert l (\<lambda>_. False) (\<lambda>t. t\<lparr>lt_meta := map_option (\<lambda>_. m) (lt_meta t)\<rparr>)),
     ins_node = (\<lambda>l p nd. md_insert l (\<lambda>t. list_ex (\<lambda>row. fst row = of_nat p) (lt_nodes t))
       (\<lambda>t. t\<lparr>lt_nodes := insort_key fst (of_nat p, nd) (lt_nodes t)\<rparr>)),
     ins_witness = (\<lambda>l w z a enc. md_insert l (\<lambda>t. list_ex (\<lambda>row. fst row = w \<and> fst (snd row) = z) (lt_witnesses t))
       (\<lambda>t. t\<lparr>lt_witnesses := insort_key (\<lambda>row. (fst (snd row), fst row)) (w, z, a, enc) (lt_witnesses t)\<rparr>)),
     upd_witness = (\<lambda>l w z a a' enc. md_step (\<lambda>d.
       (Inr (length (filter (guarded_row w z a) (lt_witnesses (md_tables d l)))),
        md_put l (\<lambda>t. t\<lparr>lt_witnesses := map (set_row w z a a' enc) (lt_witnesses t)\<rparr>) d)) id)\<rparr>"

lemma md_step_cases:
  assumes "md_step effect lost d = (r, d')"
  obtains (lost) rest where "r = Inl (Driver 2013)" "d' = lost (d\<lparr>md_faults := rest\<rparr>)"
  | (run) fs where "effect (d\<lparr>md_faults := fs\<rparr>) = (r, d')"
proof (cases "md_faults d")
  case Nil
  then have eq: "d\<lparr>md_faults := []\<rparr> = d" by (cases d) simp
  have "effect (d\<lparr>md_faults := []\<rparr>) = (r, d')" unfolding eq using assms Nil by (simp add: md_step_def)
  then show thesis by (rule run)
next
  case (Cons fault rest)
  then show thesis using assms that by (cases fault) (auto simp: md_step_def Let_def)
qed

lemma md_insert_ok:
  assumes "md_insert l taken f d = (Inr u, d')"
  shows "md_saved d' = md_saved d \<and> md_tables d' = (md_tables d)(l := f (md_tables d l))"
  using assms unfolding md_insert_def by (cases rule: md_step_cases) (auto simp: md_put_def split: if_splits)

lemma md_insert_err:
  assumes "md_insert l taken f d = (Inl err, d')"
  shows "md_tables d' = md_tables d \<and> md_saved d' = md_saved d"
  using assms unfolding md_insert_def by (cases rule: md_step_cases) (auto split: if_splits)

lemma found_row_simps [simp]:
  "found_row r = Inr x \<longleftrightarrow> r = Some x" "found_row r = Inl err \<longleftrightarrow> r = None \<and> err = NoRows"
  by (auto simp: found_row_def split: option.splits)

lemma find_row: "find P rows = Some row \<Longrightarrow> row \<in> set rows \<and> P row"
  by (auto simp: find_Some_iff)

interpretation mem: sql_lib mem_db md_tables md_saved
proof
  fix t l m w z enc :: string and d d' :: memdb and u and err :: dbErr and v nd :: bytes and sq :: uint64 and ts :: string
    and a a' :: uint32 and k p :: nat and lim :: int and raw wds ns ws row mx rows cls r
  show "sql_begin mem_db t d = (Inr u, d') \<Longrightarrow> md_tables d' = md_tables d \<and> md_saved d' = md_tables d"
    "sql_begin mem_db t d = (Inl err, d') \<Longrightarrow> md_tables d' = md_tables d"
    "sql_commit mem_db d = (Inr u, d') \<Longrightarrow> md_tables d' = md_tables d"
    "sql_commit mem_db d = (Inl err, d') \<Longrightarrow> md_saved d' = md_saved d \<or> md_saved d' = md_tables d"
    "sql_schema mem_db d = (r, d') \<Longrightarrow> md_tables d' = md_tables d"
    by (auto simp: mem_db_def elim!: md_step_cases)
  show "md_tables (sql_rollback mem_db d) = md_saved d"
    "sel_meta mem_db l d = Inr raw \<Longrightarrow> lt_meta (md_tables d l) = Some raw"
    "sel_entry_widths mem_db l d = Inr (wds, None) \<Longrightarrow> wds = map (\<lambda>(sq, v, ts). (sq, length v, ts)) (lt_entries (md_tables d l))"
    "sel_nodes mem_db l d = Inr (ns, None) \<Longrightarrow> ns = lt_nodes (md_tables d l)"
    "sel_witnesses mem_db l d = Inr (ws, None) \<Longrightarrow> ws = lt_witnesses (md_tables d l)"
    "sel_max_seq mem_db l d = Inr mx \<Longrightarrow>
      mx = (if lt_entries (md_tables d l) = [] then None else Some (fst (last (lt_entries (md_tables d l)))))"
    "sel_entries_after mem_db l sq lim d = Inr (rows, None) \<Longrightarrow>
      rows = take (nat lim) (filter (\<lambda>row. sq < fst row) (lt_entries (md_tables d l)))"
    by (simp_all add: mem_db_def Let_def)
  show "sel_entry mem_db l v d = Inr row \<Longrightarrow> row \<in> set (lt_entries (md_tables d l)) \<and> fst (snd row) = v"
    by (auto simp: mem_db_def dest: find_row)
  show "sel_entry mem_db l v d = Inl NoRows \<Longrightarrow> v \<notin> (fst \<circ> snd) ` set (lt_entries (md_tables d l))"
    by (auto simp: mem_db_def find_None_iff)
  show "sel_witness mem_db l w z d = Inr (a, enc) \<Longrightarrow> (w, z, a, enc) \<in> set (lt_witnesses (md_tables d l))"
    by (auto simp: mem_db_def dest!: find_row)
  show "sel_witness mem_db l w z d = Inl NoRows \<Longrightarrow> (w, z, a, enc) \<notin> set (lt_witnesses (md_tables d l))"
    by (auto simp: mem_db_def find_None_iff)
  show "sel_entry mem_db l v d \<noteq> Inl (Cll cls)" "sel_witness mem_db l w z d \<noteq> Inl (Cll cls)"
    by (simp_all add: mem_db_def)
  show "fst (sql_begin mem_db t d) \<noteq> Inl (Cll cls)" "fst (sql_commit mem_db d) \<noteq> Inl (Cll cls)"
    by (auto simp: mem_db_def md_step_def Let_def split: list.splits)
  show "ins_meta mem_db l m d = (Inr u, d') \<Longrightarrow>
      md_tables d' = (md_tables d)(l := (md_tables d l)\<lparr>lt_meta := Some (case lt_meta (md_tables d l) of None \<Rightarrow> m | Some x \<Rightarrow> x)\<rparr>)"
    by (simp add: mem_db_def md_insert_ok)
  show "ins_entry mem_db l sq v ts d = (Inr u, d') \<Longrightarrow> md_saved d' = md_saved d \<and>
      md_tables d' = (md_tables d)(l := (md_tables d l)\<lparr>lt_entries := insort_key fst (sq, v, ts) (lt_entries (md_tables d l))\<rparr>)"
    "upd_meta mem_db l m d = (Inr u, d') \<Longrightarrow> md_saved d' = md_saved d \<and>
      md_tables d' = (md_tables d)(l := (md_tables d l)\<lparr>lt_meta := map_option (\<lambda>_. m) (lt_meta (md_tables d l))\<rparr>)"
    "ins_node mem_db l p nd d = (Inr u, d') \<Longrightarrow> md_saved d' = md_saved d \<and>
      md_tables d' = (md_tables d)(l := (md_tables d l)\<lparr>lt_nodes := insort_key fst (of_nat p, nd) (lt_nodes (md_tables d l))\<rparr>)"
    by (simp_all add: mem_db_def md_insert_ok)
  let ?rows = "insort_key (\<lambda>row. (fst (snd row), fst row)) (w, z, a, enc) (lt_witnesses (md_tables d l))"
  show "md_saved d' = md_saved d \<and> (\<exists>rows. mset rows = add_mset (w, z, a, enc) (mset (lt_witnesses (md_tables d l)))
        \<and> md_tables d' = (md_tables d)(l := (md_tables d l)\<lparr>lt_witnesses := rows\<rparr>))"
    if "ins_witness mem_db l w z a enc d = (Inr u, d')"
    using that by (intro conjI exI [of _ ?rows]) (simp_all add: mem_db_def md_insert_ok)
  show "ins_entry mem_db l sq v ts d = (Inl err, d') \<Longrightarrow> md_tables d' = md_tables d \<and> md_saved d' = md_saved d"
    "upd_meta mem_db l m d = (Inl err, d') \<Longrightarrow> md_tables d' = md_tables d \<and> md_saved d' = md_saved d"
    "ins_node mem_db l p nd d = (Inl err, d') \<Longrightarrow> md_tables d' = md_tables d \<and> md_saved d' = md_saved d"
    "ins_witness mem_db l w z a enc d = (Inl err, d') \<Longrightarrow> md_tables d' = md_tables d \<and> md_saved d' = md_saved d"
    by (simp_all add: mem_db_def md_insert_err)
  show "upd_witness mem_db l w z a a' enc d = (Inl err, d') \<Longrightarrow> md_tables d' = md_tables d \<and> md_saved d' = md_saved d"
    by (auto simp: mem_db_def elim!: md_step_cases)
  show "upd_witness mem_db l w z a a' enc d = (Inr k, d') \<Longrightarrow> md_saved d' = md_saved d \<and>
      (k = length (filter (guarded_row w z a) (lt_witnesses (md_tables d l)))
        \<or> k = length (filter (\<lambda>row. set_row w z a a' enc row \<noteq> row) (lt_witnesses (md_tables d l)))) \<and>
      md_tables d' = (md_tables d)(l := (md_tables d l)\<lparr>lt_witnesses := map (set_row w z a a' enc) (lt_witnesses (md_tables d l))\<rparr>)"
    by (auto simp: mem_db_def md_put_def elim!: md_step_cases)
qed

text \<open>A log that was only initialised: the metadata of an empty state, and no other row.\<close>

definition ex_tables :: log_tables where
  "ex_tables = \<lparr>lt_meta = Some (projr (MarshalMetadata empty_State)), lt_entries = [], lt_nodes = [], lt_witnesses = []\<rparr>"

lemma MarshalMetadata_empty: "MarshalMetadata empty_State = Inr (projr (MarshalMetadata empty_State))"
proof -
  obtain wire where "StateToWire empty_State = Inr wire"
    by (rule StateFromWire_ToWire [OF valid_state_empty [OF lib_LeafCount_0 [OF ref_laws]]])
  then show ?thesis by (simp add: MarshalMetadata_def empty_State_def)
qed

lemma ex_tables_represent:
  assumes "dtmmr_lib dt"
  shows "represents dt ex_tables Engine_New"
proof -
  have v: "valid_state dt empty_State" by (rule valid_state_empty [OF lib_LeafCount_0 [OF assms]])
  obtain x where x: "json_Unmarshal WireState_type (projr (MarshalMetadata empty_State)) = Some x"
      "metaFromWire (WireState_of x) = Inr (norm_state (empty_State\<lparr>Nodes := [], Witnesses := []\<rparr>))"
    by (rule metadata_reads [OF v MarshalMetadata_empty])
  have "norm_state (empty_State\<lparr>Nodes := [], Witnesses := []\<rparr>) = empty_State" by (simp add: norm_state_def empty_State_def)
  moreover have "empty_State\<lparr>Nodes := [], Witnesses := []\<rparr> = empty_State" by (simp add: empty_State_def)
  ultimately have "table_state dt ex_tables = Inr empty_State"
    unfolding table_state_Inr using x v by (simp add: ex_tables_def)
  then show ?thesis using Engine_New_inv [OF assms] by (simp add: represents_def ex_tables_def Engine_New_def)
qed

definition ex_memdb :: "bool list \<Rightarrow> memdb" where
  "ex_memdb faults = \<lparr>md_tables = (\<lambda>_. ex_tables), md_saved = (\<lambda>_. ex_tables), md_faults = faults\<rparr>"

section \<open>Properties\<close>






text \<open>One undelivered row, and another connection that empties another log in between.\<close>

definition ex_next :: WitnessState where
  "ex_next = ex_witness\<lparr>Attempts := 1\<rparr>"

definition ex_rowdb :: memdb where
  "ex_rowdb = (ex_memdb [])\<lparr>md_tables := (\<lambda>_. ex_tables\<lparr>lt_witnesses := [encoded_row ex_witness]\<rparr>)\<rparr>"

definition ex_env :: "memdb \<Rightarrow> memdb" where
  "ex_env = md_put ''other'' (\<lambda>_. ex_tables)"

lemma ex_next_valid: "valid_witness ex_next" "utf8_row ex_next"
  by (simp_all add: ex_next_def utf8_row_def valid_witness_def validateWitness_def ex_witness_def ex_time ValidateIdentifier_def
      identifierPattern_def identifier_char_def MaxIdentifierBytes_def MaxCheckpointBytes_def MaxReasonBytes_def)

lemma ex_row_update:
  "\<exists>d'. mysql_CommitWitness mem_db ex_env \<lparr>MyLogID = ''log'', MyClosed = False\<rparr> 0 ex_next ex_rowdb = (Inr (), d')"
proof -
  have n: "norm_witness ex_witness = ex_witness" by (simp add: norm_witness_def ex_witness_def NormalizeTime_def)
  have u: "utf8_row ex_witness" by (simp add: ex_witness_def utf8_row_def)
  have row: "row_witness (WitnessID ex_witness, FormatUint (CheckpointSize ex_witness), Attempts ex_witness, projr (MarshalWitness ex_witness))
      = Inr ex_witness"
    using encoded_row_witness(1) [OF ex_witness_valid u] n by (simp add: encoded_row_def)
  let ?d = "ex_rowdb\<lparr>md_saved := md_tables ex_rowdb\<rparr>"
  have sel: "sel_witness mem_db ''log'' (WitnessID ex_next) (FormatUint (CheckpointSize ex_next)) ?d = Inr (0, projr (MarshalWitness ex_witness))"
    by (simp add: mem_db_def ex_rowdb_def ex_memdb_def ex_tables_def encoded_row_def ex_next_def ex_witness_def)
  have ap: "ApplyWitness (empty_State\<lparr>Witnesses := [ex_witness]\<rparr>) 0 ex_next = Inr (empty_State\<lparr>Witnesses := [ex_next]\<rparr>)"
    using ex_next_valid(1) by (simp add: ApplyWitness_def valid_witness_def not_isl_unit witness_key_eq) (simp add: ex_next_def ex_witness_def)
  have upd: "fst (upd_witness mem_db ''log'' (WitnessID ex_next) (FormatUint (CheckpointSize ex_next)) 0 (Attempts ex_next) enc (ex_env ?d)) = Inr 1" for enc
    by (simp add: mem_db_def md_step_def ex_env_def md_put_def ex_rowdb_def ex_memdb_def ex_tables_def encoded_row_def
        guarded_row_def ex_next_def ex_witness_def)
  have "fst (commitRow mem_db ex_env ''log'' 0 ex_next ?d) = Inr ()"
  proof -
    obtain enc where enc: "MarshalWitness ex_next = Inr enc" using encoded_row_witness(2) [OF ex_next_valid] by blast
    obtain d2 where d2: "upd_witness mem_db ''log'' (WitnessID ex_next) (FormatUint (CheckpointSize ex_next)) 0 (Attempts ex_next) enc (ex_env ?d)
        = (Inr 1, d2)" using upd [of enc] by (metis prod.collapse)
    show ?thesis using row_witness_key(4) [OF row] ap enc d2 unfolding commitRow_def sel by (simp add: exec_def)
  qed
  then obtain d2 where c: "commitRow mem_db ex_env ''log'' 0 ex_next ?d = (Inr (), d2)" by (metis prod.collapse)
  have f: "md_faults d2 = []"
  proof (rule commitRow_Inr [OF c])
    fix enc
    assume "upd_witness mem_db ''log'' (WitnessID ex_next) (FormatUint (CheckpointSize ex_next)) 0 (Attempts ex_next) enc (ex_env ?d) = (Inr 1, d2)"
    then show ?thesis by (auto simp: mem_db_def md_step_def ex_env_def md_put_def ex_rowdb_def ex_memdb_def)
  qed
  have b: "sql_begin mem_db [] ex_rowdb = (Inr (), ?d)" by (simp add: mem_db_def md_step_def ex_rowdb_def ex_memdb_def)
  have "sql_commit mem_db d2 = (Inr (), d2)" using f by (simp add: mem_db_def md_step_def)
  then show ?thesis by (simp add: mysql_CommitWitness_def mysql_write_def b c public_def)
qed


end
