(* ===== verification/Sql_Open.thy ===== *)
theory Sql_Open
  imports Sql_Properties
begin

text \<open>
  Opening a SQL store. What \<open>validateEntries\<close> and \<open>readState\<close> accept represents an engine, so the
  operations of an opened store start from tables that represent one; \<open>Init\<close> keeps every row there is
  and makes the tables of a new log represent the new engine.
\<close>

section \<open>Validated tables\<close>

definition widths_of :: "entry_row list \<Rightarrow> (uint64 \<times> nat \<times> string) list" where
  "widths_of rows = map (\<lambda>(sq, v, ts). (sq, length v, ts)) rows"

lemma checkEntryRows_entries:
  assumes "checkEntryRows (of_nat (k + 1)) (widths_of rows) = Inr u" "k \<le> unat MaxPortableInteger"
    "distinct (map (fst \<circ> snd) rows)" "seen \<inter> set (map (fst \<circ> snd) rows) = {}"
  shows "\<exists>es. rmap entryFromRow rows = Inr es \<and> checkEntries es k seen = Inr ()"
  using assms
proof (induction rows arbitrary: k seen)
  case (Cons row rows)
  obtain sq v ts where row: "row = (sq, v, ts)" by (cases row)
  have c: "sq = of_nat (k + 1)" "sq \<le> MaxPortableInteger" "length v = EntryBytes"
      and rest: "checkEntryRows (sq + 1) (widths_of rows) = Inr u"
    using Cons.prems(1) by (auto simp: row widths_of_def not_less split: if_splits sum.splits)
  obtain t where t: "ParseTime ts = Inr t"
    using Cons.prems(1) by (auto simp: row widths_of_def split: if_splits sum.splits)
  have u: "unat sq = k + 1"
    using Cons.prems(2) unfolding c(1) unat_MaxPortable by (intro unat_of_nat64) simp
  then have k: "k + 1 \<le> unat MaxPortableInteger" "sq \<noteq> 0" using c(2) by (auto simp: word_le_nat_alt)
  have "checkEntryRows (of_nat (k + 1 + 1)) (widths_of rows) = Inr u" using rest c(1) by (simp add: add_ac)
  then obtain es where es: "rmap entryFromRow rows = Inr es" "checkEntries es (k + 1) (insert v seen) = Inr ()"
    using Cons.IH [of "k + 1" "insert v seen"] k(1) Cons.prems(3,4) row by auto
  let ?en = "\<lparr>Seq = sq, Value = v, AppendedAt = t\<rparr>"
  have en: "entryFromRow row = Inr ?en" using c k(2) t by (simp add: row entryFromRow_def)
  have "v \<notin> seen" using Cons.prems(4) row by auto
  then have "checkEntries (?en # es) k seen = Inr ()"
    using c(1-3) ParseTime_valid [OF t] es(2) by (simp add: not_less [symmetric])
  then show ?case using en es(1) by (intro exI [of _ "?en # es"]) simp
qed simp

lemma validated_represents:
  assumes "checkEntryRows 1 (widths_of (lt_entries t)) = Inr u" "table_state dt t = Inr st" "distinct (map (fst \<circ> snd) (lt_entries t))"
  shows "\<exists>e. represents dt t e \<and> state e = st"
proof -
  obtain es where es: "rmap entryFromRow (lt_entries t) = Inr es" "checkEntries es 0 {} = Inr ()"
    using checkEntryRows_entries [of 0 "lt_entries t" u "{}"] assms(1,3) by auto
  let ?e = "\<lparr>entries = es, byValue = indexEntries es, state = st\<rparr>"
  have v: "valid_entries es" using es(2) by (simp add: checkEntries_valid)
  then have "index_ok es (indexEntries es)" by (intro indexEntries_ok) (simp add: valid_entries_def)
  then have "represents dt t ?e"
    using es(1) assms(2) v table_state_valid(2) [OF assms(2)] by (simp add: represents_def engine_inv_def)
  then show ?thesis by (intro exI [of _ ?e]) simp
qed

text \<open>Opening a file or a connection, and setting pragmas, leaves the rows alone.\<close>

definition os_keeps :: "('d \<Rightarrow> tables) \<Rightarrow> 'd os \<Rightarrow> bool" where
  "os_keeps tab os \<longleftrightarrow> (\<forall>path mode d. tab (snd (os_Open os path mode d)) = tab d) \<and> (\<forall>pragma d. tab (snd (os_Pragma os pragma d)) = tab d)"

definition connect_keeps :: "('d \<Rightarrow> tables) \<Rightarrow> (string \<Rightarrow> 'd \<Rightarrow> (dbErr + unit) \<times> 'd) \<Rightarrow> bool" where
  "connect_keeps tab connect \<longleftrightarrow> (\<forall>dsn d. tab (snd (connect dsn d)) = tab d)"

text \<open>The tables of a log after the \<open>INSERT\<close> of its metadata, which does nothing when there is a row.\<close>

definition provisioned :: "log_tables \<Rightarrow> log_tables" where
  "provisioned t = t\<lparr>lt_meta := Some (case lt_meta t of None \<Rightarrow> projr (MarshalMetadata empty_State) | Some m \<Rightarrow> m)\<rparr>"

lemma execE:
  assumes "exec p rest = (Inr y, d')"
  obtains x d1 where "p = (Inr x, d1)" "rest x d1 = (Inr y, d')"
  using assms by (auto simp: exec_def split: prod.splits sum.splits)

lemma provisioned_eq:
  "MarshalMetadata empty_State = Inr m \<Longrightarrow> provisioned t = t\<lparr>lt_meta := Some (case lt_meta t of None \<Rightarrow> m | Some x \<Rightarrow> x)\<rparr>"
  by (cases "lt_meta t") (simp_all add: provisioned_def)

lemma provisioned_entries [simp]: "lt_entries (provisioned t) = lt_entries t"
  by (simp add: provisioned_def)

lemma provisioned_new: "t = \<lparr>lt_meta = None, lt_entries = [], lt_nodes = [], lt_witnesses = []\<rparr> \<Longrightarrow> provisioned t = ex_tables"
  by (simp add: provisioned_def ex_tables_def)

context sql_lib
begin

lemma validateEntries_tab:
  assumes "validateEntries c db l d = Inr u"
  shows "checkEntryRows 1 (widths_of (lt_entries (tab d l))) = Inr ()"
proof -
  obtain rows where rows: "sel_entry_widths db l d = Inr (rows, None)" "checkEntryRows 1 rows = Inr ()"
    using assms by (auto simp: validateEntries_def rbind_Inr_iff split: sum.splits)
  then show ?thesis using widths [OF rows(1)] by (simp add: widths_of_def)
qed

lemma validateOpenState_tab:
  assumes "validateOpenState db dt l d = (Inr u, d')" "distinct (map (fst \<circ> snd) (lt_entries (tab d l)))"
  shows "tab d' = tab d \<and> (\<exists>e. represents dt (tab d l) e)"
proof -
  obtain d1 st where c: "sql_begin db ''BEGIN'' d = (Inr (), d1)" "validateEntries classify db l d1 = Inr ()"
      "loadState db dt l d1 = Inr st" "sql_commit db d1 = (Inr (), d')"
    using assms(1) by (auto simp: validateOpenState_def runTransaction_read rbind_Inr_iff split: prod.splits sum.splits)
  have d1: "tab d1 = tab d" using begin_ok [OF c(1)] by simp
  have "\<exists>e. represents dt (tab d1 l) e \<and> state e = st"
    by (rule validated_represents [OF validateEntries_tab [OF c(2)] loadState_table [OF c(3)]]) (use assms(2) d1 in simp)
  then show ?thesis using commit_ok [OF c(4)] d1 by auto
qed

lemma validated_tab:
  assumes "validated db dt l d = (Inr m, d')" "distinct (map (fst \<circ> snd) (lt_entries (tab d l)))"
  shows "tab d' = tab d \<and> (\<exists>e. represents dt (tab d l) e) \<and> MyLogID m = l"
proof -
  let ?m = "\<lparr>MyLogID = l, MyClosed = False\<rparr>"
  obtain st where c: "validateEntries mysql_classify db l d = Inr ()" "mysql_readState db dt ?m d = (Inr st, d')" "m = ?m"
    using assms(1) by (auto simp: validated_def Let_def split: prod.splits sum.splits)
  obtain d1 where d1: "sql_begin db ''READ ONLY'' d = (Inr (), d1)" "loadState db dt l d1 = Inr st" "sql_commit db d1 = (Inr (), d')"
    using c(2) by (auto simp: mysql_readState_def public_def split: prod.splits sum.splits)
  have t1: "tab d1 = tab d" using begin_ok [OF d1(1)] by simp
  have "\<exists>e. represents dt (tab d l) e \<and> state e = st"
    by (rule validated_represents [OF validateEntries_tab [OF c(1)] _ assms(2)]) (use loadState_table [OF d1(2)] t1 in simp)
  then show ?thesis using commit_ok [OF d1(3)] t1 c(3) by auto
qed

lemma provision_tab:
  assumes "provision db os l d = (Inr u, d')" "os_keeps tab os"
  shows "tab d' = (tab d)(l := provisioned (tab d l))"
proof -
  obtain u1 d1 where c1: "os_Pragma os ''PRAGMA journal_mode=WAL'' d = (Inr u1, d1)"
      "exec (sql_schema db d1) (\<lambda>_ d. case MarshalMetadata empty_State of Inl err \<Rightarrow> (Inl (Cll err), d)
        | Inr metadata \<Rightarrow> ins_meta db l metadata d) = (Inr u, d')"
    using assms(1) unfolding provision_def by (rule execE)
  obtain u2 d2 where c2: "sql_schema db d1 = (Inr u2, d2)" "(case MarshalMetadata empty_State of Inl err \<Rightarrow> (Inl (Cll err), d2)
        | Inr metadata \<Rightarrow> ins_meta db l metadata d2) = (Inr u, d')"
    using c1(2) by (rule execE)
  obtain m where m: "MarshalMetadata empty_State = Inr m" "ins_meta db l m d2 = (Inr u, d')" using c2(2) by (cases "MarshalMetadata empty_State") auto
  have "tab d2 = tab d" using schema_ok [OF c2(1)] assms(2) c1(1) unfolding os_keeps_def by (metis snd_conv)
  then show ?thesis using ins_meta_ok [OF m(2)] provisioned_eq [OF m(1)] by simp
qed

lemma sqlite_open_tab:
  assumes "sqlite_open db os dt path l init items d = (Inr s, items', d')" "os_keeps tab os"
    "distinct (map (fst \<circ> snd) (lt_entries (tab d l)))"
  shows "tab d' = (if init then (tab d)(l := provisioned (tab d l)) else tab d) \<and> (\<exists>e. represents dt (tab d' l) e)
    \<and> s = \<lparr>SqLogID = l, SqLockKey = SqLockKey s, SqClosed = False\<rparr> \<and> items' = acquireShared (SqLockKey s) items"
proof -
  obtain absolute key d0 where o1: "os_Open os absolute (if init then ''rwc'' else ''rw'') d = (Inr (), d0)"
      "exec (os_Pragma os ''PRAGMA foreign_keys=ON'' d0) (\<lambda>_ d.
       exec (os_Pragma os ''PRAGMA busy_timeout=5000'' d) (\<lambda>_ d.
       exec (if init then provision db os l d else (Inr (), d)) (\<lambda>_ d. validateOpenState db dt l d))) = (Inr (), d')"
      "s = \<lparr>SqLogID = l, SqLockKey = key, SqClosed = False\<rparr>" "items' = acquireShared key items"
    using assms(1) by (auto simp: sqlite_open_def Let_def split: if_splits option.splits prod.splits sum.splits)
  obtain u1 d1 where c1: "os_Pragma os ''PRAGMA foreign_keys=ON'' d0 = (Inr u1, d1)"
      "exec (os_Pragma os ''PRAGMA busy_timeout=5000'' d1) (\<lambda>_ d.
       exec (if init then provision db os l d else (Inr (), d)) (\<lambda>_ d. validateOpenState db dt l d)) = (Inr (), d')"
    using o1(2) by (rule execE)
  obtain u2 d2 where c2: "os_Pragma os ''PRAGMA busy_timeout=5000'' d1 = (Inr u2, d2)"
      "exec (if init then provision db os l d2 else (Inr (), d2)) (\<lambda>_ d. validateOpenState db dt l d) = (Inr (), d')"
    using c1(2) by (rule execE)
  obtain u3 d3 where c3: "(if init then provision db os l d2 else (Inr (), d2)) = (Inr u3, d3)" "validateOpenState db dt l d3 = (Inr (), d')"
    using c2(2) by (rule execE)
  have "tab d2 = tab d" using assms(2) o1(1) c1(1) c2(1) unfolding os_keeps_def by (metis snd_conv)
  then have t3: "tab d3 = (if init then (tab d)(l := provisioned (tab d l)) else tab d)"
    using c3(1) provision_tab [OF _ assms(2), of l d2 u3 d3] by (auto split: if_splits)
  then have "distinct (map (fst \<circ> snd) (lt_entries (tab d3 l)))" using assms(3) by simp
  then show ?thesis using validateOpenState_tab [OF c3(2)] t3 o1(3,4) by simp
qed

lemma mysql_initialize_tab:
  assumes "initialize db dt l d = (Inr u, d')" "distinct (map (fst \<circ> snd) (lt_entries (tab d l)))"
  shows "tab d' = (tab d)(l := provisioned (tab d l)) \<and> (\<exists>e. represents dt (tab d' l) e)"
proof -
  obtain m d1 d2 s where c: "sql_schema db d = (Inr (), d1)" "MarshalMetadata empty_State = Inr m" "ins_meta db l m d1 = (Inr (), d2)"
      "validated db dt l d2 = (Inr s, d')"
    using assms(1) by (auto simp: initialize_def split: prod.splits sum.splits)
  have t2: "tab d2 = (tab d)(l := provisioned (tab d l))"
    using schema_ok [OF c(1)] ins_meta_ok [OF c(3)] provisioned_eq [OF c(2)] by simp
  then show ?thesis using validated_tab [OF c(4)] assms(2) by simp
qed

end

section \<open>Shared locks\<close>

text \<open>
  The counts of the lock table are positive, so opening and closing a handle gives back the table, and an
  \<open>Open\<close> that fails leaves it as it was: locks are neither leaked nor freed under another handle.
\<close>

definition locks_ok :: "locks \<Rightarrow> bool" where
  "locks_ok items \<longleftrightarrow> (\<forall>key refs. items key = Some refs \<longrightarrow> refs > 0)"

lemma release_acquire: "locks_ok items \<Longrightarrow> releaseShared key (acquireShared key items) = items"
proof (cases "items key")
  case None
  then show ?thesis by (simp add: acquireShared_def releaseShared_def fun_eq_iff)
next
  case (Some refs)
  then show "locks_ok items \<Longrightarrow> ?thesis" by (auto simp: acquireShared_def releaseShared_def locks_ok_def fun_eq_iff)
qed

lemma acquire_locks_ok: "locks_ok items \<Longrightarrow> locks_ok (acquireShared key items)"
  by (auto simp: locks_ok_def acquireShared_def split: option.splits if_splits) (metis add_strict_increasing zero_less_one order_less_imp_le)

lemma sqlite_open_locks:
  assumes "locks_ok items" "sqlite_open db os dt path l init items d = (r, items', d')"
  shows "(isl r \<longrightarrow> items' = items) \<and> (\<forall>s. r = Inr s \<longrightarrow> items' = acquireShared (SqLockKey s) items
    \<and> snd (snd (sqlite_Close closeErr s items')) = items)"
  using assms(2) release_acquire [OF assms(1)]
  by (auto simp: sqlite_open_def sqlite_Close_def Let_def split: if_splits option.splits prod.splits sum.splits)

section \<open>Properties\<close>


text \<open>A new log in an empty database, whose files and connections always open.\<close>

definition ex_os :: "memdb os" where
  "ex_os = \<lparr>os_Abs = Some, os_Clean = id, os_Open = (\<lambda>_ _ d. (Inr (), d)), os_Pragma = (\<lambda>_ d. (Inr (), d))\<rparr>"

definition ex_empty :: memdb where
  "ex_empty = \<lparr>md_tables = (\<lambda>_. \<lparr>lt_meta = None, lt_entries = [], lt_nodes = [], lt_witnesses = []\<rparr>),
     md_saved = (\<lambda>_. \<lparr>lt_meta = None, lt_entries = [], lt_nodes = [], lt_witnesses = []\<rparr>), md_faults = []\<rparr>"

lemma mem_loadState:
  assumes "table_state dt (md_tables d l) = Inr st"
  shows "loadState mem_db dt l d = Inr st"
proof (cases "lt_meta (md_tables d l)")
  case None
  then show ?thesis using assms by (simp add: table_state_def)
next
  case (Some raw)
  then show ?thesis
    using assms
    by (auto simp: table_state_def loadState_def loadWireWitnesses_def mem_db_def found_row_def rows_err_def rbind_Inr_iff
        split: option.splits)
qed

lemma ex_init: "\<exists>items d'. sqlite_Init mem_db ex_os dt_ref (Inr ()) ''f'' ''log'' Map.empty ex_empty = (Inr (), items, d')"
proof -
  let ?d = "ex_empty\<lparr>md_tables := (md_tables ex_empty)(''log'' := ex_tables)\<rparr>"
  obtain m where m: "MarshalMetadata empty_State = Inr m" using MarshalMetadata_empty by blast
  have p: "provision mem_db ex_os ''log'' ex_empty = (Inr (), ?d)"
    unfolding provision_def m by (simp add: exec_def mem_db_def ex_os_def md_insert_def md_step_def md_put_def ex_empty_def ex_tables_def m)
  let ?d1 = "?d\<lparr>md_saved := md_tables ?d\<rparr>"
  have "loadState mem_db dt_ref ''log'' ?d1 = Inr (state Engine_New)"
    using ex_tables_represent [OF ref_laws] by (intro mem_loadState) (simp add: represents_def)
  moreover have "validateEntries classify mem_db ''log'' ?d1 = Inr ()"
    by (simp add: validateEntries_def mem_db_def ex_tables_def rows_err_def)
  moreover have "sql_begin mem_db ''BEGIN'' ?d = (Inr (), ?d1)" "sql_commit mem_db ?d1 = (Inr (), ?d1)"
    by (simp_all add: mem_db_def md_step_def ex_empty_def)
  ultimately have v: "validateOpenState mem_db dt_ref ''log'' ?d = (Inr (), ?d1)"
    by (simp add: validateOpenState_def runTransaction_read)
  have os: "os_Abs ex_os = Some" "os_Clean ex_os = id" "os_Open ex_os = (\<lambda>_ _ d. (Inr (), d))" "os_Pragma ex_os = (\<lambda>_ d. (Inr (), d))"
    by (simp_all add: ex_os_def)
  have "ValidateIdentifier ''log'' = Inr ()" by code_simp
  then show ?thesis by (simp add: sqlite_Init_def sqlite_open_def Let_def os exec_def p v sqlite_Close_def)
qed


end
